(* ===== verification/Prelude.thy ===== *)
theory Prelude
  imports Main "HOL-Library.Word" "HOL-Library.Sublist" "HOL-Library.Char_ord"
    "HOL-Library.List_Lexorder" "HOL-Library.Code_Target_Numeral"
begin

text \<open>
  What every component shares: the types that stand for Rust's (a \<^verbatim>\<open>str\<close> or a
  \<^verbatim>\<open>[u8]\<close> is the list of its bytes, a \<^verbatim>\<open>char\<close> a code point), the ASCII byte classes
  of \<^verbatim>\<open>u8\<close>, the UTF-8 decoder behind \<^verbatim>\<open>str::chars\<close>, decimal formatting, the sorted
  sets (\<^verbatim>\<open>BTreeSet\<close>) and sorted maps (\<^verbatim>\<open>BTreeMap\<close>), adjacent windows, saturating word
  arithmetic, and the interfaces that several components instantiate: a keyed store and a
  fold that keeps an invariant.
\<close>

named_theorems shape_defs \<open>definitions of the shape predicates over strings\<close>
named_theorems decision_defs \<open>definitions of the layered decision functions\<close>
named_theorems sorted_store \<open>facts about sorted sets and maps\<close>

type_synonym bytes = string
type_synonym uchar = nat
type_synonym u8 = "8 word"
type_synonym u16 = "16 word"
type_synonym u32 = "32 word"
type_synonym u64 = "64 word"

subsection \<open>Bytes\<close>

abbreviation byte :: "char \<Rightarrow> nat" where
  "byte c \<equiv> of_char c"

definition is_ascii_digit :: "char \<Rightarrow> bool" where
  "is_ascii_digit c \<longleftrightarrow> 48 \<le> byte c \<and> byte c \<le> 57"

definition is_ascii_lowercase :: "char \<Rightarrow> bool" where
  "is_ascii_lowercase c \<longleftrightarrow> 97 \<le> byte c \<and> byte c \<le> 122"

definition is_ascii_uppercase :: "char \<Rightarrow> bool" where
  "is_ascii_uppercase c \<longleftrightarrow> 65 \<le> byte c \<and> byte c \<le> 90"

definition is_ascii_alphanumeric :: "char \<Rightarrow> bool" where
  "is_ascii_alphanumeric c \<longleftrightarrow> is_ascii_digit c \<or> is_ascii_lowercase c \<or> is_ascii_uppercase c"

text \<open>A byte from \<open>a\<close> to \<open>f\<close>, or a digit: the lowercase hex digits.\<close>

definition is_hex_byte :: "char \<Rightarrow> bool" where
  "is_hex_byte c \<longleftrightarrow> is_ascii_digit c \<or> (97 \<le> byte c \<and> byte c \<le> 102)"

subsection \<open>Characters\<close>

text \<open>
  The code points of a UTF-8 string. A Rust \<^verbatim>\<open>str\<close> is always well-formed; on other byte
  lists the decoder gives the replacement character and goes on.
\<close>

fun chars :: "string \<Rightarrow> uchar list" where
  "chars [] = []"
| "chars (a # rest) =
     (if byte a < 128 then byte a # chars rest
      else if byte a < 224 then
        (case rest of b # r \<Rightarrow> ((byte a - 192) * 64 + (byte b - 128)) # chars r | _ \<Rightarrow> [65533])
      else if byte a < 240 then
        (case rest of b # c # r \<Rightarrow>
           ((byte a - 224) * 4096 + (byte b - 128) * 64 + (byte c - 128)) # chars r
         | _ \<Rightarrow> [65533])
      else
        (case rest of b # c # d # r \<Rightarrow>
           ((byte a - 240) * 262144 + (byte b - 128) * 4096 + (byte c - 128) * 64
             + (byte d - 128)) # chars r
         | _ \<Rightarrow> [65533]))"

text \<open>\<^verbatim>\<open>char::is_control\<close>: the code points of the general category Cc.\<close>

definition is_control :: "uchar \<Rightarrow> bool" where
  "is_control n \<longleftrightarrow> n < 32 \<or> (127 \<le> n \<and> n \<le> 159)"

text \<open>\<^verbatim>\<open>char::is_whitespace\<close>: the code points with the property White\_Space.\<close>

definition is_whitespace :: "uchar \<Rightarrow> bool" where
  "is_whitespace n \<longleftrightarrow> (9 \<le> n \<and> n \<le> 13) \<or> n = 32 \<or> n = 133 \<or> n = 160 \<or> n = 5760
     \<or> (8192 \<le> n \<and> n \<le> 8202) \<or> n = 8232 \<or> n = 8233 \<or> n = 8239 \<or> n = 8287 \<or> n = 12288"

text \<open>Whether bytes are well-formed UTF-8, as \<^verbatim>\<open>str::from_utf8\<close> decides it.\<close>

abbreviation cont_byte :: "char \<Rightarrow> bool" where
  "cont_byte c \<equiv> 128 \<le> byte c \<and> byte c < 192"

fun is_utf8 :: "bytes \<Rightarrow> bool" where
  "is_utf8 [] = True"
| "is_utf8 (a # rest) =
     (if byte a < 128 then is_utf8 rest
      else if 194 \<le> byte a \<and> byte a \<le> 223 then
        (case rest of b # r \<Rightarrow> cont_byte b \<and> is_utf8 r | _ \<Rightarrow> False)
      else if 224 \<le> byte a \<and> byte a \<le> 239 then
        (case rest of b # c # r \<Rightarrow>
           cont_byte b \<and> cont_byte c \<and> (byte a = 224 \<longrightarrow> 160 \<le> byte b)
             \<and> (byte a = 237 \<longrightarrow> byte b < 160) \<and> is_utf8 r
         | _ \<Rightarrow> False)
      else if 240 \<le> byte a \<and> byte a \<le> 244 then
        (case rest of b # c # d # r \<Rightarrow>
           cont_byte b \<and> cont_byte c \<and> cont_byte d \<and> (byte a = 240 \<longrightarrow> 144 \<le> byte b)
             \<and> (byte a = 244 \<longrightarrow> byte b < 144) \<and> is_utf8 r
         | _ \<Rightarrow> False)
      else False)"

definition from_utf8 :: "bytes \<Rightarrow> string option" where
  "from_utf8 bs = (if is_utf8 bs then Some bs else None)"

lemma is_utf8_ascii: "list_all (\<lambda>c. byte c < 128) s \<Longrightarrow> is_utf8 s"
  by (induction s) auto

lemma chars_ascii: "list_all (\<lambda>c. byte c < 128) s \<Longrightarrow> chars s = map of_char s"
  by (induction s) auto

subsection \<open>Strings\<close>

abbreviation starts_with :: "string \<Rightarrow> string \<Rightarrow> bool" where
  "starts_with s p \<equiv> prefix p s"

abbreviation ends_with :: "string \<Rightarrow> string \<Rightarrow> bool" where
  "ends_with s p \<equiv> suffix p s"

text \<open>\<^verbatim>\<open>strip_prefix\<close> and \<^verbatim>\<open>strip_suffix\<close>.\<close>

definition strip_prefix :: "'a list \<Rightarrow> 'a list \<Rightarrow> 'a list option" where
  "strip_prefix p s = (if take (length p) s = p then Some (drop (length p) s) else None)"

definition strip_suffix :: "'a list \<Rightarrow> 'a list \<Rightarrow> 'a list option" where
  "strip_suffix p s =
     (if length p \<le> length s \<and> drop (length s - length p) s = p
      then Some (take (length s - length p) s) else None)"

lemma strip_prefix_Some: "strip_prefix p s = Some r \<longleftrightarrow> s = p @ r"
  by (auto simp: strip_prefix_def) (metis append_take_drop_id)

lemma strip_suffix_Some: "strip_suffix p s = Some r \<longleftrightarrow> s = r @ p"
  by (auto simp: strip_suffix_def) (metis append_take_drop_id)

lemma strip_suffix_append [simp]: "strip_suffix p (r @ p) = Some r"
  by (simp add: strip_suffix_Some)

lemma strip_prefix_append [simp]: "strip_prefix p (p @ r) = Some r"
  by (simp add: strip_prefix_Some)

lemma strip_suffix_None: "strip_suffix p s = None \<longleftrightarrow> \<not> suffix p s"
proof (cases "strip_suffix p s")
  case None
  have "\<not> suffix p s"
  proof
    assume "suffix p s"
    then obtain r where "strip_suffix p s = Some r" by (auto simp: suffix_def strip_suffix_Some)
    then show False using None by simp
  qed
  then show ?thesis using None by simp
qed (auto simp: strip_suffix_Some suffix_def)

text \<open>\<^verbatim>\<open>str::split\<close> on one byte: the pieces between the separators, at least one.\<close>

fun split_on :: "'a \<Rightarrow> 'a list \<Rightarrow> 'a list list" where
  "split_on sep [] = [[]]"
| "split_on sep (c # cs) =
     (if c = sep then [] # split_on sep cs
      else (case split_on sep cs of p # ps \<Rightarrow> (c # p) # ps | [] \<Rightarrow> [[c]]))"

lemma split_on_ne [simp]: "split_on sep s \<noteq> []"
  by (induction s) (auto split: list.splits)

text \<open>The decimal digits of a number, as \<^verbatim>\<open>Display\<close> writes it.\<close>

fun show_nat :: "nat \<Rightarrow> string" where
  "show_nat n = (if n < 10 then [char_of (48 + n)]
                 else show_nat (n div 10) @ [char_of (48 + n mod 10)])"

declare show_nat.simps [simp del]

lemma show_nat_ne [simp]: "show_nat n \<noteq> []"
  by (subst show_nat.simps) simp

text \<open>\<^verbatim>\<open>[String]::join\<close>.\<close>

fun join :: "string \<Rightarrow> string list \<Rightarrow> string" where
  "join sep [] = []"
| "join sep [x] = x"
| "join sep (x # xs) = x @ sep @ join sep xs"

subsection \<open>Sorted sets and adjacent windows\<close>

text \<open>The elements of a \<^verbatim>\<open>BTreeSet\<close> built from a sequence: each once, ascending.\<close>

definition sort_dedup :: "'a::linorder list \<Rightarrow> 'a list" where
  "sort_dedup xs = remdups_adj (sort xs)"

lemma set_sort_dedup [simp, sorted_store]: "set (sort_dedup xs) = set xs"
  by (simp add: sort_dedup_def)

lemma remdups_adj_strict: "sorted (xs :: 'a::linorder list) \<Longrightarrow> sorted_wrt (<) (remdups_adj xs)"
proof (induction xs rule: remdups_adj.induct)
  case (3 x y xs)
  then show ?case by (auto simp: less_le)
qed auto

lemma sort_dedup_strict [simp, sorted_store]: "sorted_wrt (<) (sort_dedup (xs :: 'a::linorder list))"
  by (simp add: sort_dedup_def remdups_adj_strict)

lemma sort_dedup_distinct [simp, sorted_store]: "distinct (sort_dedup (xs :: 'a::linorder list))"
  using sort_dedup_strict strict_sorted_iff by blast

lemma sort_dedup_sorted [simp, sorted_store]: "sorted (sort_dedup (xs :: 'a::linorder list))"
  using sort_dedup_strict strict_sorted_iff by blast

lemma sort_dedup_id [sorted_store]:
  "sorted_wrt (<) (xs :: 'a::linorder list) \<Longrightarrow> sort_dedup xs = xs"
  by (metis set_sort_dedup sort_dedup_strict strict_sorted_equal)

lemma length_sort_dedup_le: "length (sort_dedup (xs :: 'a::linorder list)) \<le> length xs"
  using remdups_adj_length[of "sort xs"] by (simp add: sort_dedup_def)

lemma length_sort_dedup_distinct:
  "length (sort_dedup (xs :: 'a::linorder list)) = length xs \<longleftrightarrow> distinct xs"
  by (metis card_distinct distinct_card set_sort_dedup sort_dedup_distinct)

text \<open>\<^verbatim>\<open>slice::windows(2).all(..)\<close>.\<close>

fun windows2_all :: "('a \<Rightarrow> 'a \<Rightarrow> bool) \<Rightarrow> 'a list \<Rightarrow> bool" where
  "windows2_all P (x # y # zs) = (P x y \<and> windows2_all P (y # zs))"
| "windows2_all P _ = True"

lemma windows2_all_sorted_wrt: "transp P \<Longrightarrow> windows2_all P xs \<longleftrightarrow> sorted_wrt P xs"
  by (induction P xs rule: windows2_all.induct) (auto dest: transpD)

lemma windows2_strict [simp]:
  "windows2_all (<) (xs :: 'a::linorder list) \<longleftrightarrow> sorted_wrt (<) xs"
  by (simp add: windows2_all_sorted_wrt)

lemma sorted_wrt_take: "sorted_wrt P xs \<Longrightarrow> sorted_wrt P (take n xs)"
  by (metis append_take_drop_id sorted_wrt_append)

subsection \<open>Options\<close>

text \<open>\<^verbatim>\<open>Option::is_none_or\<close>, \<^verbatim>\<open>Option::is_some_and\<close> and \<^verbatim>\<open>Option::filter\<close>.\<close>

definition is_none_or :: "'a option \<Rightarrow> ('a \<Rightarrow> bool) \<Rightarrow> bool" where
  "is_none_or x P = (case x of None \<Rightarrow> True | Some y \<Rightarrow> P y)"

definition is_some_and :: "'a option \<Rightarrow> ('a \<Rightarrow> bool) \<Rightarrow> bool" where
  "is_some_and x P = (case x of None \<Rightarrow> False | Some y \<Rightarrow> P y)"

definition opt_filter :: "('a \<Rightarrow> bool) \<Rightarrow> 'a option \<Rightarrow> 'a option" where
  "opt_filter P x = (case x of None \<Rightarrow> None | Some y \<Rightarrow> if P y then Some y else None)"

lemma is_none_or_simps [simp]: "is_none_or None P" "is_none_or (Some y) P = P y"
  by (simp_all add: is_none_or_def)

lemma is_some_and_simps [simp]: "\<not> is_some_and None P" "is_some_and (Some y) P = P y"
  by (simp_all add: is_some_and_def)

lemma is_some_and_iff: "is_some_and x P \<longleftrightarrow> (\<exists>y. x = Some y \<and> P y)"
  by (cases x) auto

lemma opt_filter_simps [simp]:
  "opt_filter P None = None" "opt_filter P (Some y) = (if P y then Some y else None)"
  by (simp_all add: opt_filter_def)

lemma opt_filter_Some: "opt_filter P x = Some y \<longleftrightarrow> x = Some y \<and> P y"
  by (cases x) auto

lemma is_none_or_opt_filter [simp]: "is_none_or (opt_filter P x) P"
  by (cases x) auto

subsection \<open>Results\<close>

text \<open>The operator \<^verbatim>\<open>?\<close>: the error returns, the value goes on.\<close>

definition rbind :: "'e + 'a \<Rightarrow> ('a \<Rightarrow> 'e + 'b) \<Rightarrow> 'e + 'b" where
  "rbind r f = (case r of Inl e \<Rightarrow> Inl e | Inr x \<Rightarrow> f x)"

definition rguard :: "bool \<Rightarrow> 'e \<Rightarrow> 'e + unit" where
  "rguard ok e = (if ok then Inr () else Inl e)"

lemma rbind_simps [simp]: "rbind (Inl e) f = Inl e" "rbind (Inr x) f = f x"
  by (simp_all add: rbind_def)

lemma rbind_Inr: "rbind r f = Inr y \<longleftrightarrow> (\<exists>x. r = Inr x \<and> f x = Inr y)"
  by (cases r) auto

lemma rguard_Inr [simp]: "rguard ok e = Inr u \<longleftrightarrow> ok"
  by (simp add: rguard_def)

text \<open>A loop over the entries of a map that stops at the first error.\<close>

fun rtraverse :: "('k \<Rightarrow> 'v \<Rightarrow> 'e + 'w) \<Rightarrow> ('k \<times> 'v) list \<Rightarrow> 'e + ('k \<times> 'w) list" where
  "rtraverse f [] = Inr []"
| "rtraverse f ((k, v) # kvs) =
     rbind (f k v) (\<lambda>w. rbind (rtraverse f kvs) (\<lambda>ws. Inr ((k, w) # ws)))"

lemma rtraverse_Inr:
  "rtraverse f kvs = Inr kws \<longleftrightarrow>
     list_all2 (\<lambda>(k, v) (k', w). k' = k \<and> f k v = Inr w) kvs kws"
proof (induction kvs arbitrary: kws)
  case (Cons kv kvs)
  then show ?case by (cases kv) (auto simp: rbind_Inr list_all2_Cons1)
qed auto

lemma rtraverse_keys: "rtraverse f kvs = Inr kws \<Longrightarrow> map fst kws = map fst kvs"
  unfolding rtraverse_Inr by (induction rule: list_all2_induct) auto

lemma rtraverse_values:
  "\<lbrakk>rtraverse f kvs = Inr kws; (k, w) \<in> set kws\<rbrakk> \<Longrightarrow> \<exists>v. (k, v) \<in> set kvs \<and> f k v = Inr w"
  unfolding rtraverse_Inr by (induction rule: list_all2_induct) auto

subsection \<open>Saturating words\<close>

definition saturating_sub :: "'w::len word \<Rightarrow> 'w word \<Rightarrow> 'w word" where
  "saturating_sub a b = (if b \<le> a then a - b else 0)"

definition saturating_add :: "'w::len word \<Rightarrow> 'w word \<Rightarrow> 'w word" where
  "saturating_add a b = (if unat a + unat b < 2 ^ LENGTH('w) then a + b else - 1)"

lemma unat_saturating_sub: "unat (saturating_sub a b) = unat a - unat b"
  by (simp add: saturating_sub_def unat_sub word_le_nat_alt)

lemma unat_of_nat_lt: "n < 2 ^ LENGTH('w) \<Longrightarrow> unat (of_nat n :: 'w::len word) = n"
  by (simp add: unsigned_of_nat take_bit_nat_eq_self)

lemma u8_less: "unat (b :: u8) < 256"
  using unsigned_less[of b] by simp

lemma u32_less: "unat (b :: u32) < 4294967296"
  using unsigned_less[of b] by simp

subsection \<open>The keyed store\<close>

text \<open>
  The interface of Rust's maps that the components use: what a lookup returns after an
  insertion or a removal, and the invariant both keep.
\<close>

locale keyed_store =
  fixes empty :: "'s" and get :: "'s \<Rightarrow> 'k \<Rightarrow> 'v option"
    and put :: "'k \<Rightarrow> 'v \<Rightarrow> 's \<Rightarrow> 's" and del :: "'k \<Rightarrow> 's \<Rightarrow> 's" and inv :: "'s \<Rightarrow> bool"
  assumes inv_empty: "inv empty"
    and get_empty: "get empty k = None"
    and inv_put: "inv s \<Longrightarrow> inv (put k v s)"
    and get_put: "inv s \<Longrightarrow> get (put k v s) k' = (if k' = k then Some v else get s k')"
    and inv_del: "inv s \<Longrightarrow> inv (del k s)"
    and get_del: "inv s \<Longrightarrow> get (del k s) k' = (if k' = k then None else get s k')"
begin

lemma inv_fold_put: "inv s \<Longrightarrow> inv (fold (\<lambda>(k, v). put k v) kvs s)"
  by (induction kvs arbitrary: s) (auto simp: inv_put)

lemma get_fold_put:
  "inv s \<Longrightarrow> get (fold (\<lambda>(k, v). put k v) kvs s) k
     = (case map_of (rev kvs) k of Some v \<Rightarrow> Some v | None \<Rightarrow> get s k)"
  by (induction kvs arbitrary: s)
     (auto simp: get_put inv_put map_add_def split: option.splits)

text \<open>\<^verbatim>\<open>entry(k).or_default()\<close> followed by a change of the slot, over distinct keys.\<close>

lemma inv_fold_upsert:
  "inv s \<Longrightarrow>
   inv (fold (\<lambda>(k, v) s. put k (g v (case get s k of Some w \<Rightarrow> w | None \<Rightarrow> d)) s) kvs s)"
  by (induction kvs arbitrary: s) (auto simp: inv_put)

lemma get_fold_upsert:
  "\<lbrakk>inv s; distinct (map fst kvs)\<rbrakk> \<Longrightarrow>
   get (fold (\<lambda>(k, v) s. put k (g v (case get s k of Some w \<Rightarrow> w | None \<Rightarrow> d)) s) kvs s) k
   = (case map_of kvs k of
        None \<Rightarrow> get s k
      | Some v \<Rightarrow> Some (g v (case get s k of Some w \<Rightarrow> w | None \<Rightarrow> d)))"
proof (induction kvs arbitrary: s)
  case (Cons kv kvs)
  obtain a b where kv: "kv = (a, b)" by fastforce
  have "map_of kvs a = None" using Cons.prems kv by (simp add: map_of_eq_None_iff)
  then show ?case using Cons kv by (auto simp: inv_put get_put split: option.split)
qed simp

text \<open>A decision per key: insert what it gives, or remove.\<close>

lemma inv_fold_decide:
  "inv s \<Longrightarrow>
   inv (fold (\<lambda>(k, v) s. case h k v of Some x \<Rightarrow> put k x s | None \<Rightarrow> del k s) kvs s)"
  by (induction kvs arbitrary: s) (auto simp: inv_put inv_del split: option.split)

lemma get_fold_decide:
  "\<lbrakk>inv s; distinct (map fst kvs)\<rbrakk> \<Longrightarrow>
   get (fold (\<lambda>(k, v) s. case h k v of Some x \<Rightarrow> put k x s | None \<Rightarrow> del k s) kvs s) k
   = (case map_of kvs k of None \<Rightarrow> get s k | Some v \<Rightarrow> h k v)"
proof (induction kvs arbitrary: s)
  case (Cons kv kvs)
  obtain a b where kv: "kv = (a, b)" by fastforce
  have "map_of kvs a = None" using Cons.prems kv by (simp add: map_of_eq_None_iff)
  then show ?case using Cons kv
    by (auto simp: inv_put get_put inv_del get_del split: option.split)
qed simp

lemma put_del_get: "inv s \<Longrightarrow> get (put k v (del k s)) = get (put k v s)"
  by (rule ext) (simp add: get_put get_del inv_del)

lemma get_put_put: "inv s \<Longrightarrow> get (put k v (put k w s)) = get (put k v s)"
  by (rule ext) (simp add: get_put inv_put)

end

text \<open>A \<^verbatim>\<open>BTreeMap\<close>: an association list in ascending key order.\<close>

type_synonym ('k, 'v) bmap = "('k \<times> 'v) list"

definition bget :: "('k, 'v) bmap \<Rightarrow> 'k \<Rightarrow> 'v option" where
  "bget m k = map_of m k"

fun bput :: "'k::linorder \<Rightarrow> 'v \<Rightarrow> ('k, 'v) bmap \<Rightarrow> ('k, 'v) bmap" where
  "bput k v [] = [(k, v)]"
| "bput k v ((a, b) # m) =
     (if k < a then (k, v) # (a, b) # m else if k = a then (k, v) # m else (a, b) # bput k v m)"

definition bdel :: "'k \<Rightarrow> ('k, 'v) bmap \<Rightarrow> ('k, 'v) bmap" where
  "bdel k m = filter (\<lambda>(a, b). a \<noteq> k) m"

definition bmap_wf :: "('k::linorder, 'v) bmap \<Rightarrow> bool" where
  "bmap_wf m \<longleftrightarrow> sorted_wrt (<) (map fst m)"

lemma set_bput: "fst ` set (bput k v m) = insert k (fst ` set m)"
  by (induction k v m rule: bput.induct) auto

lemma bmap_wf_bput: "bmap_wf m \<Longrightarrow> bmap_wf (bput k v m)"
proof (induction k v m rule: bput.induct)
  case (2 k v a b m)
  have *: "fst ` set (bput k v m) = insert k (fst ` set m)" by (rule set_bput)
  show ?case using 2 * by (force simp: bmap_wf_def)
qed (simp add: bmap_wf_def)

lemma bget_bput: "bmap_wf m \<Longrightarrow> bget (bput k v m) k' = (if k' = k then Some v else bget m k')"
  by (induction k v m rule: bput.induct) (auto simp: bget_def bmap_wf_def)

lemma bmap_wf_bdel: "bmap_wf m \<Longrightarrow> bmap_wf (bdel k m)"
  by (induction m) (auto simp: bmap_wf_def bdel_def)

lemma bget_bdel: "bget (bdel k m) k' = (if k' = k then None else bget m k')"
  by (induction m) (auto simp: bget_def bdel_def)

interpretation bstore: keyed_store "[]" bget bput bdel "bmap_wf :: ('k::linorder, 'v) bmap \<Rightarrow> bool"
proof unfold_locales
  show "bmap_wf ([] :: ('k, 'v) bmap)" by (simp add: bmap_wf_def)
  show "bget ([] :: ('k, 'v) bmap) k = None" for k by (simp add: bget_def)
qed (auto simp: bmap_wf_bput bget_bput bmap_wf_bdel bget_bdel)

lemma bmap_wf_distinct: "bmap_wf m \<Longrightarrow> distinct (map fst m)"
  by (simp add: bmap_wf_def strict_sorted_iff)

lemma bmap_wf_keys: "map fst m = map fst n \<Longrightarrow> bmap_wf m = bmap_wf n"
  by (simp add: bmap_wf_def)

text \<open>Changing the slot of a key, made from a default where there is none.\<close>

definition bupsert ::
  "'v \<Rightarrow> ('v \<Rightarrow> 'v) \<Rightarrow> 'k::linorder \<Rightarrow> ('k, 'v) bmap \<Rightarrow> ('k, 'v) bmap" where
  "bupsert d f k m = bput k (f (case bget m k of Some w \<Rightarrow> w | None \<Rightarrow> d)) m"

lemma bmap_wf_bupsert [simp]: "bmap_wf m \<Longrightarrow> bmap_wf (bupsert d f k m)"
  by (simp add: bupsert_def bmap_wf_bput)

lemma bmap_wf_fold_bupsert:
  "bmap_wf m \<Longrightarrow> bmap_wf (fold (\<lambda>(k, v). bupsert d (g v) k) kvs m)"
  unfolding bupsert_def by (rule bstore.inv_fold_upsert)

lemma bget_fold_bupsert:
  "\<lbrakk>bmap_wf m; distinct (map fst kvs)\<rbrakk> \<Longrightarrow>
   bget (fold (\<lambda>(k, v). bupsert d (g v) k) kvs m) k
   = (case bget kvs k of None \<Rightarrow> bget m k
      | Some v \<Rightarrow> Some (g v (case bget m k of Some w \<Rightarrow> w | None \<Rightarrow> d)))"
  unfolding bupsert_def bget_def[of kvs] by (rule bstore.get_fold_upsert)

lemma bget_map_values: "bget (map (\<lambda>(k, v). (k, f v)) m) k = map_option f (bget m k)"
  by (induction m) (auto simp: bget_def)

lemma bmap_wf_map_values [simp]: "bmap_wf (map (\<lambda>(k, v). (k, f v)) m) = bmap_wf m"
  by (rule bmap_wf_keys) (induction m, auto)

lemma bget_in: "bget m k = Some v \<Longrightarrow> (k, v) \<in> set m"
  by (simp add: bget_def map_of_SomeD)

lemma in_bget: "bmap_wf m \<Longrightarrow> (k, v) \<in> set m \<Longrightarrow> bget m k = Some v"
  by (simp add: bget_def map_of_is_SomeI bmap_wf_distinct)

text \<open>A map built by inserting pairs in order, as \<^verbatim>\<open>collect\<close> does.\<close>

definition bmap_of :: "('k::linorder \<times> 'v) list \<Rightarrow> ('k, 'v) bmap" where
  "bmap_of kvs = fold (\<lambda>(k, v). bput k v) kvs []"

lemma bmap_of_wf [simp]: "bmap_wf (bmap_of kvs)"
  unfolding bmap_of_def by (rule bstore.inv_fold_put[OF bstore.inv_empty])

lemma bget_bmap_of: "bget (bmap_of kvs) k = map_of (rev kvs) k"
  unfolding bmap_of_def
  by (subst bstore.get_fold_put[OF bstore.inv_empty]) (auto simp: bget_def split: option.splits)

subsection \<open>Folds that keep an invariant\<close>

text \<open>
  A component whose operations keep an invariant keeps it over any sequence of
  operations; a measure of the state no operation raises is not raised by a sequence.
\<close>

locale invariant_steps =
  fixes step :: "'op \<Rightarrow> 's \<Rightarrow> 's" and inv :: "'s \<Rightarrow> bool"
  assumes step_inv: "inv s \<Longrightarrow> inv (step x s)"
begin

lemma run_inv: "inv s \<Longrightarrow> inv (fold step xs s)"
  by (induction xs arbitrary: s) (auto simp: step_inv)

lemma run_relation:
  assumes "\<And>x s. inv s \<Longrightarrow> R s (step x s)" and "reflp R" and "transp R" and "inv s"
  shows "R s (fold step xs s)"
  using assms(4)
proof (induction xs arbitrary: s)
  case Nil
  show ?case using assms(2) by (simp add: reflpD)
next
  case (Cons x xs)
  have "R s (step x s)" using assms(1) Cons.prems by blast
  moreover have "R (step x s) (fold step xs (step x s))"
    using Cons.IH step_inv[OF Cons.prems] by blast
  ultimately show ?case using assms(3) by (simp add: transpD)
qed

end

end
