(* ===== verification/Json.thy ===== *)
theory Json
  imports Prelude
begin

text \<open>
  \<^verbatim>\<open>serde_json::Value\<close> as the crates use it: numbers in their three representations,
  objects as sorted maps (the workspace does not enable \<^verbatim>\<open>preserve_order\<close>), the
  \<^verbatim>\<open>json!\<close> object literal, and the accessors \<^verbatim>\<open>get\<close>, \<^verbatim>\<open>as_str\<close> and indexing
  assignment. Parsing bytes into a value is serde's and is a parameter where it is used.
\<close>

datatype jnumber = PosInt u64 | NegInt u64 | Float u64

datatype json =
    JNull
  | JBool bool
  | JNum jnumber
  | JStr string
  | JArr "json list"
  | JObj "(string \<times> json) list"

definition jobj :: "(string \<times> json) list \<Rightarrow> json" where
  "jobj kvs = JObj (bmap_of kvs)"

definition jnum_u32 :: "u32 \<Rightarrow> json" where
  "jnum_u32 n = JNum (PosInt (ucast n))"

definition jnum_u64 :: "u64 \<Rightarrow> json" where
  "jnum_u64 n = JNum (PosInt n)"

definition jopt :: "('a \<Rightarrow> json) \<Rightarrow> 'a option \<Rightarrow> json" where
  "jopt f x = (case x of None \<Rightarrow> JNull | Some v \<Rightarrow> f v)"

fun jget :: "json \<Rightarrow> string \<Rightarrow> json option" where
  "jget (JObj m) k = bget m k"
| "jget _ k = None"

fun as_str :: "json \<Rightarrow> string option" where
  "as_str (JStr s) = Some s"
| "as_str _ = None"

text \<open>The accessors \<^verbatim>\<open>as_array\<close> and \<^verbatim>\<open>as_u64\<close>, after \<^verbatim>\<open>get\<close>, and \<^verbatim>\<open>unwrap_or("")\<close>.\<close>

fun as_array :: "json \<Rightarrow> json list option" where
  "as_array (JArr xs) = Some xs"
| "as_array _ = None"

fun as_u64 :: "json \<Rightarrow> u64 option" where
  "as_u64 (JNum (PosInt n)) = Some n"
| "as_u64 _ = None"

fun as_bool :: "json \<Rightarrow> bool option" where
  "as_bool (JBool b) = Some b"
| "as_bool _ = None"

definition get_str :: "json \<Rightarrow> string \<Rightarrow> string option" where
  "get_str j k = Option.bind (jget j k) as_str"

definition get_array :: "json \<Rightarrow> string \<Rightarrow> json list option" where
  "get_array j k = Option.bind (jget j k) as_array"

definition get_u64 :: "json \<Rightarrow> string \<Rightarrow> u64 option" where
  "get_u64 j k = Option.bind (jget j k) as_u64"

definition str_or :: "string option \<Rightarrow> string" where
  "str_or x = (case x of Some s \<Rightarrow> s | None \<Rightarrow> [])"

text \<open>\<^verbatim>\<open>value[key] = v\<close> on an object.\<close>

fun jset :: "json \<Rightarrow> string \<Rightarrow> json \<Rightarrow> json" where
  "jset (JObj m) k v = JObj (bput k v m)"
| "jset j k v = j"

fun jwf :: "json \<Rightarrow> bool" where
  "jwf (JArr xs) = list_all jwf xs"
| "jwf (JObj m) = (bmap_wf m \<and> list_all (\<lambda>kv. jwf (snd kv)) m)"
| "jwf _ = True"

lemma jget_jobj [simp]: "jget (jobj kvs) k = map_of (rev kvs) k"
  by (simp add: jobj_def bget_bmap_of)

definition jobject :: "json \<Rightarrow> bool" where
  "jobject j \<longleftrightarrow> (case j of JObj m \<Rightarrow> bmap_wf m | _ \<Rightarrow> False)"

lemma jobject_jobj [simp]: "jobject (jobj kvs)"
  by (simp add: jobject_def jobj_def)

lemma jobject_jset [simp]: "jobject j \<Longrightarrow> jobject (jset j k v)"
  by (cases j) (simp_all add: jobject_def bmap_wf_bput)

lemma jget_jset [simp]:
  "jobject j \<Longrightarrow> jget (jset j k v) k' = (if k' = k then Some v else jget j k')"
  by (cases j) (simp_all add: jobject_def bget_bput)

end
