(* ===== verification/Engine.thy ===== *)
theory Engine
  imports Prelude
begin

text \<open>
  The screening engine's result and its scoring rules
  (\<^verbatim>\<open>src/crates/agent-guard/src/mcp.rs\<close>): the signals of an analysis, the vocabulary of
  their names, the floor an agent is blocked on, the collapse of the fetch-and-execute
  family to one charge, the score thresholds. The pattern checks that raise signals are not
  modelled; an analysis is a value with arbitrary signals.
\<close>

record analysis_signal =
  as_signal :: string
  as_score :: u32
  as_detail :: string

text \<open>
  The parts of \<^verbatim>\<open>CommandAnalysis\<close> the policies read: \<open>recommendation\<close> is the string
  the source compares with \<^verbatim>\<open>"deny"\<close> and \<^verbatim>\<open>"review"\<close>.
\<close>

record command_analysis =
  ca_command :: string
  ca_risk_score :: u32
  ca_signals :: "analysis_signal list"
  ca_recommendation :: string

definition AGENT_REVIEW_FLOOR :: "string list" where
  "AGENT_REVIEW_FLOOR =
    [''download_and_execute'', ''download_chmod_execute'', ''obfuscated_command'',
     ''persistence_attempt'', ''package_typosquat'', ''fetch_exec_unparsed'',
     ''credential_read_outside_project'']"

definition blocks_for_agent :: "command_analysis \<Rightarrow> bool" where
  "blocks_for_agent a =
     (if ca_recommendation a = ''deny'' then True
      else ca_recommendation a = ''review'' \<and>
           list_ex (\<lambda>s. 0 < as_score s \<and> as_signal s \<in> set AGENT_REVIEW_FLOOR) (ca_signals a))"

definition SIGNAL_NAMES :: "string list" where
  "SIGNAL_NAMES =
    [''anti_forensics'', ''bare_ip_fetch'', ''clone_and_run'', ''cloud_control_plane'',
     ''credential_exposure'', ''credential_hunt'', ''credential_read_outside_project'',
     ''dangerous_command'', ''data_destruction'', ''destructive_command'',
     ''download_and_execute'', ''download_chmod_execute'', ''dynamic_code_execution'',
     ''fetch_exec_unanalyzable'', ''fetch_exec_unparsed'', ''guard_self_disable'',
     ''insecure_permissions'', ''internal_network_target'', ''kubernetes_escalation'',
     ''kubernetes_secret_read'', ''local_credential_or_kernel_tamper'', ''obfuscated_command'',
     ''package_typosquat'', ''persistence_attempt'', ''persistence_install'',
     ''protected_secret_read'', ''reverse_shell'', ''security_tooling_tamper'',
     ''sensitive_credential_read'', ''sensitive_file_overwrite'', ''tls_verification_disabled'',
     ''tmp_execution'', ''untrusted_software_source'']"

definition AGGRAVATING_SIGNAL_NAMES :: "string list" where
  "AGGRAVATING_SIGNAL_NAMES =
    [''fetch_exec_decoder'', ''fetch_exec_ephemeral_host'', ''fetch_exec_no_tls'',
     ''fetch_exec_shortened_source'']"

definition push_unique_signal :: "analysis_signal list \<Rightarrow> analysis_signal \<Rightarrow> analysis_signal list"
where
  "push_unique_signal signals sig =
     (if \<not> list_ex (\<lambda>e. as_signal e = as_signal sig) signals then signals @ [sig] else signals)"

definition FETCH_EXEC_OBSERVATION :: "string list" where
  "FETCH_EXEC_OBSERVATION =
    [''download_and_execute'', ''download_chmod_execute'', ''dynamic_code_execution'']"

text \<open>\<^verbatim>\<open>iter().position\<close>, with the length standing for \<^verbatim>\<open>None\<close> mapped to \<^verbatim>\<open>usize::MAX\<close>:
  every index found is below it.\<close>

fun position :: "'a \<Rightarrow> 'a list \<Rightarrow> nat option" where
  "position x [] = None"
| "position x (y # ys) = (if y = x then Some 0 else map_option Suc (position x ys))"

definition specificity :: "analysis_signal list \<Rightarrow> nat \<Rightarrow> nat" where
  "specificity signals i =
     (case position (as_signal (signals ! i)) FETCH_EXEC_OBSERVATION of
        Some p \<Rightarrow> p | None \<Rightarrow> 2 ^ 64 - 1)"

text \<open>\<^verbatim>\<open>min_by_key\<close>: the first of the least.\<close>

fun min_by_key :: "('a \<Rightarrow> nat) \<Rightarrow> 'a \<Rightarrow> 'a list \<Rightarrow> 'a" where
  "min_by_key f best [] = best"
| "min_by_key f best (x # xs) = min_by_key f (if f x < f best then x else best) xs"

definition fetch_exec_members :: "analysis_signal list \<Rightarrow> nat list" where
  "fetch_exec_members signals =
     filter (\<lambda>i. as_signal (signals ! i) \<in> set FETCH_EXEC_OBSERVATION) [0..<length signals]
     @ filter (\<lambda>i. as_signal (signals ! i) = ''dangerous_command''
                  \<and> sublist ''pipe to shell'' (as_detail (signals ! i))) [0..<length signals]"

fun refund_members ::
  "string \<Rightarrow> nat \<Rightarrow> nat list \<Rightarrow> u32 \<Rightarrow> analysis_signal list \<Rightarrow> u32 \<times> analysis_signal list" where
  "refund_members label keep [] refunded signals = (refunded, signals)"
| "refund_members label keep (i # is) refunded signals =
     (if i = keep then refund_members label keep is refunded signals
      else
        (let s = signals ! i in
         refund_members label keep is (refunded + as_score s)
           (signals[i := s\<lparr>as_score := 0,
              as_detail := as_detail s @ '' (same observation as '' @ label @ ''; counted once)''\<rparr>])))"

definition charge_fetch_exec_once :: "analysis_signal list \<Rightarrow> u32 \<times> analysis_signal list" where
  "charge_fetch_exec_once signals =
     (case fetch_exec_members signals of
        [] \<Rightarrow> (0, signals)
      | [i] \<Rightarrow> (0, signals)
      | m # ms \<Rightarrow>
          (let keep = min_by_key (specificity signals) m ms in
           refund_members (as_signal (signals ! keep)) keep (m # ms) 0 signals))"

definition atr_severity_score :: "string \<Rightarrow> u32" where
  "atr_severity_score severity =
     (if severity = ''critical'' then 60 else if severity = ''high'' then 40
      else if severity = ''medium'' then 20 else 10)"

definition recommendation_for_score :: "u32 \<Rightarrow> string" where
  "recommendation_for_score score =
     (if 40 \<le> score then ''deny'' else if 20 \<le> score then ''review'' else ''allow'')"

definition READ_ONLY_TOOLS :: "string list" where
  "READ_ONLY_TOOLS =
    [''read_file'', ''read_text_file'', ''read_media_file'', ''read_multiple_files'',
     ''get_file_info'', ''list_directory'', ''list_directory_with_sizes'', ''directory_tree'',
     ''search_files'', ''list_allowed_directories'']"

subsection \<open>The single charge\<close>

definition score_sum :: "analysis_signal list \<Rightarrow> u32" where
  "score_sum signals = sum_list (map as_score signals)"

lemma min_by_key_in: "min_by_key f b xs \<in> insert b (set xs)"
  by (induction xs arbitrary: b) (auto split: if_splits)

lemma min_by_key_le: "x \<in> insert b (set xs) \<Longrightarrow> f (min_by_key f b xs) \<le> f x"
proof (induction xs arbitrary: b x)
  case (Cons y ys)
  define b' where "b' = (if f y < f b then y else b)"
  have le: "f b' \<le> f b" "f b' \<le> f y" by (auto simp: b'_def)
  have IH: "f (min_by_key f b' ys) \<le> f b'" "\<And>z. z \<in> set ys \<Longrightarrow> f (min_by_key f b' ys) \<le> f z"
    using Cons.IH[of _ b'] by auto
  show ?case using Cons.prems le IH by (auto simp: b'_def[symmetric] intro: order_trans)
qed simp

lemma fetch_exec_members_lt: "i \<in> set (fetch_exec_members signals) \<Longrightarrow> i < length signals"
  by (auto simp: fetch_exec_members_def)

lemma sum_list_update_group:
  "i < length xs \<Longrightarrow> sum_list (xs[i := x]) + xs ! i = sum_list xs + (x :: 'a::ab_group_add)"
proof (induction xs arbitrary: i)
  case (Cons y ys)
  then show ?case by (cases i) (auto simp: algebra_simps)
qed simp

lemma score_sum_update:
  assumes "i < length signals" "as_score s = 0"
  shows "score_sum (signals[i := s]) + as_score (signals ! i) = score_sum signals"
  using assms sum_list_update_group[of i "map as_score signals" 0]
  by (simp add: score_sum_def map_update)

lemma refund_members_sum:
  "\<lbrakk>refund_members label keep is r signals = (r', signals'); \<forall>i\<in>set is. i < length signals\<rbrakk>
   \<Longrightarrow> score_sum signals' + r' = score_sum signals + r"
proof (induction label keep "is" r signals rule: refund_members.induct)
  case (2 label keep i "is" r signals)
  show ?case
  proof (cases "i = keep")
    case False
    let ?s = "(signals ! i)\<lparr>as_score := 0, as_detail := as_detail (signals ! i)
       @ '' (same observation as '' @ label @ ''; counted once)''\<rparr>"
    have "score_sum signals' + r' = score_sum (signals[i := ?s]) + (r + as_score (signals ! i))"
      using 2 False by (simp add: Let_def)
    also have "\<dots> = score_sum signals + r"
      using score_sum_update[of i signals ?s] 2(4) by (simp add: algebra_simps)
    finally show ?thesis .
  qed (use 2 in simp)
qed simp

lemma refund_members_length:
  "length (snd (refund_members label keep is r signals)) = length signals"
  by (induction label keep "is" r signals rule: refund_members.induct) (auto simp: Let_def)

lemma refund_members_nth:
  "\<lbrakk>\<forall>i\<in>set is. i < length signals; j < length signals\<rbrakk> \<Longrightarrow>
   let s' = snd (refund_members label keep is r signals) ! j in
     as_signal s' = as_signal (signals ! j) \<and>
     (if j \<in> set is \<and> j \<noteq> keep then as_score s' = 0 else s' = signals ! j)"
  by (induction label keep "is" r signals rule: refund_members.induct)
     (auto simp: Let_def nth_list_update split: if_splits)

lemma charge_fetch_exec_once_cases:
  "charge_fetch_exec_once signals =
     (if length (fetch_exec_members signals) < 2 then (0, signals)
      else let ms = fetch_exec_members signals;
               keep = min_by_key (specificity signals) (hd ms) (tl ms)
           in refund_members (as_signal (signals ! keep)) keep ms 0 signals)"
  by (auto simp: charge_fetch_exec_once_def Let_def split: list.split)

text \<open>one observation, one charge. Collapsing the fetch-and-execute family keeps the
  displayed scores summing to the total less what is refunded (in the u32 arithmetic the
  engine uses), keeps every signal visible under its name, leaves every signal outside the
  family as it was, and leaves at most one member charged: when two or more describe the
  observation, only a most specific one keeps its score.\<close>

theorem charge_fetch_exec_once_correct:
  fixes signals :: "analysis_signal list"
  defines "ms \<equiv> fetch_exec_members signals"
  defines "out \<equiv> snd (charge_fetch_exec_once signals)"
  shows "score_sum out + fst (charge_fetch_exec_once signals) = score_sum signals
     \<and> map as_signal out = map as_signal signals
     \<and> (\<forall>j<length signals. j \<notin> set ms \<longrightarrow> out ! j = signals ! j)
     \<and> (length ms < 2 \<longrightarrow> out = signals)
     \<and> (2 \<le> length ms \<longrightarrow> (\<exists>keep\<in>set ms. out ! keep = signals ! keep
          \<and> (\<forall>j\<in>set ms. specificity signals keep \<le> specificity signals j)
          \<and> (\<forall>j\<in>set ms. j \<noteq> keep \<longrightarrow> as_score (out ! j) = 0)))"
proof (cases "length ms < 2")
  case True
  then show ?thesis by (simp add: out_def ms_def charge_fetch_exec_once_cases)
next
  case False
  define keep where "keep = min_by_key (specificity signals) (hd ms) (tl ms)"
  define label where "label = as_signal (signals ! keep)"
  have ne: "ms \<noteq> []" using False by auto
  have ch: "charge_fetch_exec_once signals = refund_members label keep ms 0 signals"
    using False by (simp add: charge_fetch_exec_once_cases ms_def keep_def label_def Let_def)
  have lt: "\<forall>i\<in>set ms. i < length signals" by (simp add: ms_def fetch_exec_members_lt)
  have hdtl: "insert (hd ms) (set (tl ms)) = set ms" using ne by (metis list.collapse list.simps(15))
  have keep: "keep \<in> set ms" using min_by_key_in[of "specificity signals" "hd ms" "tl ms"]
    by (simp add: keep_def hdtl)
  have least: "\<forall>j\<in>set ms. specificity signals keep \<le> specificity signals j"
    using min_by_key_le[of _ "hd ms" "tl ms" "specificity signals"] by (simp add: keep_def hdtl)
  have nth: "as_signal (out ! j) = as_signal (signals ! j) \<and>
     (if j \<in> set ms \<and> j \<noteq> keep then as_score (out ! j) = 0 else out ! j = signals ! j)"
    if "j < length signals" for j
    using refund_members_nth[OF lt that, of label keep 0] by (simp add: out_def ch Let_def)
  have len: "length out = length signals" by (simp add: out_def ch refund_members_length)
  have sum: "score_sum out + fst (charge_fetch_exec_once signals) = score_sum signals"
    using refund_members_sum[OF _ lt, of label keep 0] by (simp add: out_def ch prod_eq_iff)
  have names: "map as_signal out = map as_signal signals"
    using len nth by (intro nth_equalityI) simp_all
  show ?thesis
    using False sum names nth keep least lt by (auto intro!: bexI[of _ keep])
qed

definition sample_signals :: "analysis_signal list" where
  "sample_signals =
    [\<lparr>as_signal = ''dynamic_code_execution'', as_score = 40, as_detail = ''d''\<rparr>,
     \<lparr>as_signal = ''tmp_execution'', as_score = 30, as_detail = ''t''\<rparr>,
     \<lparr>as_signal = ''download_and_execute'', as_score = 40, as_detail = ''p''\<rparr>]"

theorem charge_fetch_exec_once_correct_witness:
  "fst (charge_fetch_exec_once sample_signals) = 40
   \<and> score_sum (snd (charge_fetch_exec_once sample_signals)) + 40 = score_sum sample_signals
   \<and> length (fetch_exec_members sample_signals) = 2"
proof -
  have "fst (charge_fetch_exec_once sample_signals) = 40" by code_simp
  moreover have "length (fetch_exec_members sample_signals) = 2" by code_simp
  ultimately show ?thesis using charge_fetch_exec_once_correct[of sample_signals] by simp
qed

end
