(* ===== verification/Identity.thy ===== *)
theory Identity
  imports Json Engine "HOL-Library.Product_Lexorder"
begin

text \<open>
  \<^verbatim>\<open>src/crates/agent-guard/src/identity.rs\<close>: which agent instance an action belongs to,
  how much of that is known, and how the rule layers combine. In the order of the source:
  the names and places derived from an instance id, the report of an ended run, the
  request a hook sends to the host and the answer it accepts, the launch record and its
  validation, the trust a hook can claim from inside the jail, the layered decision and
  the hard layer. Parsing JSON bytes into a struct is serde's and is an argument.
\<close>

subsection \<open>Names of one shape\<close>

definition INSTANCE_ID_LEN :: nat where "INSTANCE_ID_LEN = 32"
definition MAX_LABEL_LEN :: nat where "MAX_LABEL_LEN = 64"
definition MAX_PROJECT_CHARS :: nat where "MAX_PROJECT_CHARS = 120"
definition MAX_VERSION_LEN :: nat where "MAX_VERSION_LEN = 64"
definition MAX_UNIT_LEN :: nat where "MAX_UNIT_LEN = 255"
definition MAX_PATH_LEN :: nat where "MAX_PATH_LEN = 4096"

definition is_instance_id :: "string \<Rightarrow> bool" where [shape_defs]:
  "is_instance_id i \<longleftrightarrow> length i = INSTANCE_ID_LEN \<and> list_all is_hex_byte i"

definition is_agent_label :: "string \<Rightarrow> bool" where [shape_defs]:
  "is_agent_label l \<longleftrightarrow> l \<noteq> [] \<and> length l \<le> MAX_LABEL_LEN \<and>
     list_all (\<lambda>b. is_ascii_lowercase b \<or> is_ascii_digit b \<or> b = CHR ''-'' \<or> b = CHR ''_'') l"

definition is_project_name :: "string \<Rightarrow> bool" where [shape_defs]:
  "is_project_name p \<longleftrightarrow>
     (let count = length (chars p) in
      count > 0 \<and> count \<le> MAX_PROJECT_CHARS
      \<and> \<not> list_ex (\<lambda>c. c = CHR ''/'' \<or> c = CHR 0x5C) p
      \<and> p \<noteq> ''.'' \<and> p \<noteq> ''..'' \<and> \<not> list_ex is_control (chars p))"

definition is_version :: "string \<Rightarrow> bool" where [shape_defs]:
  "is_version v \<longleftrightarrow> v \<noteq> [] \<and> length v \<le> MAX_VERSION_LEN \<and>
     list_all (\<lambda>b. is_ascii_alphanumeric b \<or> b \<in> set ''.+-_'') v"

definition is_unit_name :: "string \<Rightarrow> bool" where [shape_defs]:
  "is_unit_name u \<longleftrightarrow> u \<noteq> [] \<and> length u \<le> MAX_UNIT_LEN \<and>
     list_all (\<lambda>b. is_ascii_alphanumeric b \<or> b \<in> set '':_.-@'' \<or> b = CHR 0x5C) u"

text \<open>
  \<^verbatim>\<open>Path::components\<close> of a Unix path yields \<^verbatim>\<open>ParentDir\<close> for the pieces between
  slashes that are exactly two dots.
\<close>

definition is_absolute_path :: "string \<Rightarrow> bool" where [shape_defs]:
  "is_absolute_path p \<longleftrightarrow> starts_with p ''/'' \<and> length p \<le> MAX_PATH_LEN
     \<and> \<not> list_ex is_control (chars p)
     \<and> \<not> list_ex (\<lambda>c. c = ''..'') (split_on CHR ''/'' p)"

definition is_lower_hex :: "string \<Rightarrow> nat \<Rightarrow> bool" where [shape_defs]:
  "is_lower_hex s n \<longleftrightarrow> length s = n \<and> list_all is_hex_byte s"

definition is_decision_id :: "string \<Rightarrow> bool" where [shape_defs]:
  "is_decision_id i \<longleftrightarrow> is_lower_hex i 32"

definition is_session_label :: "string \<Rightarrow> bool" where [shape_defs]:
  "is_session_label s \<longleftrightarrow> s \<noteq> [] \<and> length s \<le> 128 \<and>
     list_all (\<lambda>b. is_ascii_alphanumeric b \<or> b = CHR ''_'' \<or> b = CHR ''-'') s"

definition is_withheld_word :: "string \<Rightarrow> bool" where [shape_defs]:
  "is_withheld_word w \<longleftrightarrow> w \<noteq> [] \<and> length w \<le> 48 \<and>
     list_all (\<lambda>b. is_ascii_lowercase b \<or> b = CHR ''_'') w"

definition is_hook_signal :: "string \<Rightarrow> bool" where [shape_defs]:
  "is_hook_signal name \<longleftrightarrow>
     (if name \<in> set SIGNAL_NAMES \<or> name \<in> set AGGRAVATING_SIGNAL_NAMES then True
      else is_some_and (strip_prefix ''atr:'' name)
        (\<lambda>category. category \<noteq> [] \<and> length category \<le> 64 \<and>
           list_all (\<lambda>b. is_ascii_lowercase b \<or> is_ascii_digit b \<or> b = CHR ''_'' \<or> b = CHR ''-'')
             category))"

subsection \<open>Places named after an instance\<close>

definition instance_record_file :: "string \<Rightarrow> string option" where
  "instance_record_file i = (if is_instance_id i then Some (i @ ''.json'') else None)"

definition SCOPE_UNIT_PREFIX :: string where
  "SCOPE_UNIT_PREFIX = ''innerwarden-contain-''"

definition scope_unit_name :: "string \<Rightarrow> string option" where
  "scope_unit_name i =
     (if is_instance_id i then Some (SCOPE_UNIT_PREFIX @ i @ ''.scope'') else None)"

definition system_scope_cgroup :: "string \<Rightarrow> string" where
  "system_scope_cgroup unit = ''/system.slice/'' @ unit"

definition is_user_scope_cgroup :: "string \<Rightarrow> string \<Rightarrow> u32 \<Rightarrow> bool" where
  "is_user_scope_cgroup cgroup_path unit uid \<longleftrightarrow>
     (let u = show_nat (unat uid);
          manager = ''/user.slice/user-'' @ u @ ''.slice/user@'' @ u @ ''.service/''
      in is_absolute_path cgroup_path \<and> starts_with cgroup_path manager
         \<and> ends_with cgroup_path (''/'' @ unit))"

definition system_scope_request :: "string \<Rightarrow> json option" where
  "system_scope_request i =
     (if is_instance_id i then Some (jobj [(''instance'', JStr i)]) else None)"

definition MAX_SYSTEM_SCOPE_ANSWER_BYTES :: nat where "MAX_SYSTEM_SCOPE_ANSWER_BYTES = 1024"
definition MAX_SYSTEM_SCOPE_NOTE_CHARS :: nat where "MAX_SYSTEM_SCOPE_NOTE_CHARS = 200"

record system_scope_admission =
  ssa_admitted :: bool
  ssa_note :: "string option"

definition admission_NONE :: system_scope_admission where
  "admission_NONE = \<lparr>ssa_admitted = False, ssa_note = None\<rparr>"

definition is_system_scope_note :: "string \<Rightarrow> bool" where [shape_defs]:
  "is_system_scope_note note \<longleftrightarrow> \<not> list_all is_whitespace (chars note)
     \<and> length note \<le> MAX_SYSTEM_SCOPE_NOTE_CHARS
     \<and> list_all (\<lambda>b. 32 \<le> byte b \<and> byte b \<le> 126) note"

text \<open>\<open>from_slice\<close> stands for \<^verbatim>\<open>serde_json::from_slice\<close>.\<close>

definition admission_read :: "(bytes \<Rightarrow> json option) \<Rightarrow> bytes \<Rightarrow> system_scope_admission" where
  "admission_read from_slice body =
     (if length body > MAX_SYSTEM_SCOPE_ANSWER_BYTES then admission_NONE
      else case from_slice body of
        Some (JObj obj) \<Rightarrow>
          \<lparr>ssa_admitted = (bget obj ''admitted'' = Some (JBool True)),
           ssa_note = opt_filter is_system_scope_note
             (Option.bind (bget obj ''note'') as_str)\<rparr>
      | _ \<Rightarrow> admission_NONE)"

subsection \<open>The report of an ended run\<close>

datatype trust = Declared | Observed | Confined

fun trust_as_str :: "trust \<Rightarrow> string" where
  "trust_as_str Declared = ''declared''"
| "trust_as_str Observed = ''observed''"
| "trust_as_str Confined = ''confined''"

text \<open>The derived \<^verbatim>\<open>Ord\<close>: the order of the constructors.\<close>

fun trust_rank :: "trust \<Rightarrow> nat" where
  "trust_rank Declared = 0"
| "trust_rank Observed = 1"
| "trust_rank Confined = 2"

lemma trust_rank_inject [simp]: "trust_rank a = trust_rank b \<longleftrightarrow> a = b"
  by (cases a; cases b) auto

instantiation trust :: linorder
begin

definition less_eq_trust :: "trust \<Rightarrow> trust \<Rightarrow> bool" where
  "less_eq_trust a b \<longleftrightarrow> trust_rank a \<le> trust_rank b"

definition less_trust :: "trust \<Rightarrow> trust \<Rightarrow> bool" where
  "less_trust a b \<longleftrightarrow> trust_rank a < trust_rank b"

instance
  by standard (auto simp: less_eq_trust_def less_trust_def)

end

datatype jail_graph_state = GraphRead | GraphAbsent | GraphUnreadable

fun jail_graph_as_str :: "jail_graph_state \<Rightarrow> string" where
  "jail_graph_as_str GraphRead = ''read''"
| "jail_graph_as_str GraphAbsent = ''absent''"
| "jail_graph_as_str GraphUnreadable = ''unreadable''"

record host_decision_claim =
  hdc_decision_id :: string
  hdc_command_sha256 :: string

definition claim_is_valid :: "host_decision_claim \<Rightarrow> bool" where
  "claim_is_valid c \<longleftrightarrow> is_decision_id (hdc_decision_id c) \<and> is_lower_hex (hdc_command_sha256 c) 64"

text \<open>The fields in their order: what the derived comparison of two claims compares.\<close>

definition claim_key :: "host_decision_claim \<Rightarrow> string \<times> string" where
  "claim_key c = (hdc_decision_id c, hdc_command_sha256 c)"

record contained_run =
  cr_instance_id :: string
  cr_started_ms :: u64
  cr_ended_ms :: u64
  cr_graph :: jail_graph_state
  cr_commands :: u32
  cr_last_ms :: "u64 option"
  cr_host_allowances :: u32
  cr_host_decisions :: "host_decision_claim list"

definition MAX_HOST_DECISIONS :: nat where "MAX_HOST_DECISIONS = 256"

definition run_consistent :: "contained_run \<Rightarrow> bool" where
  "run_consistent run \<longleftrightarrow>
     (let pairs = sort_dedup (map claim_key (cr_host_decisions run)) in
      is_instance_id (cr_instance_id run)
      \<and> cr_started_ms run \<le> cr_ended_ms run
      \<and> is_none_or (cr_last_ms run) (\<lambda>ms. cr_started_ms run \<le> ms \<and> ms \<le> cr_ended_ms run)
      \<and> (cr_commands run = 0) = (cr_last_ms run = None)
      \<and> (cr_graph run = GraphRead \<or> cr_commands run = 0)
      \<and> cr_host_allowances run \<le> cr_commands run
      \<and> (cr_host_allowances run = 0) = (cr_host_decisions run = [])
      \<and> length (cr_host_decisions run) \<le> MAX_HOST_DECISIONS
      \<and> length (cr_host_decisions run) \<le> unat (cr_host_allowances run)
      \<and> length pairs = length (cr_host_decisions run)
      \<and> list_all claim_is_valid (cr_host_decisions run))"

definition claim_json :: "host_decision_claim \<Rightarrow> json" where
  "claim_json c = jobj [(''decision_id'', JStr (hdc_decision_id c)),
                        (''command_sha256'', JStr (hdc_command_sha256 c))]"

definition contained_run_report :: "contained_run \<Rightarrow> json option" where
  "contained_run_report run =
     (if run_consistent run then
        (let body = jobj
           [(''instance'', JStr (cr_instance_id run)),
            (''source'', JStr ''project_graph''),
            (''trust'', JStr (trust_as_str Declared)),
            (''graph'', JStr (jail_graph_as_str (cr_graph run))),
            (''commands'', jnum_u32 (cr_commands run)),
            (''last_ms'', jopt jnum_u64 (cr_last_ms run)),
            (''started_ms'', jnum_u64 (cr_started_ms run)),
            (''ended_ms'', jnum_u64 (cr_ended_ms run))]
         in Some (if cr_host_allowances run > 0 then
                    jset (jset body ''host_allowances'' (jnum_u32 (cr_host_allowances run)))
                      ''host_decisions'' (JArr (map claim_json (cr_host_decisions run)))
                  else body))
      else None)"

subsection \<open>The key of the host\<close>

definition hex_val :: "char \<Rightarrow> nat" where
  "hex_val c = (if is_ascii_digit c then byte c - 48 else byte c - 87)"

definition hex_digit :: "nat \<Rightarrow> char" where
  "hex_digit n = (if n < 10 then char_of (48 + n) else char_of (87 + n))"

definition hex_pair :: "char \<Rightarrow> char \<Rightarrow> u8" where
  "hex_pair a b = of_nat (16 * hex_val a + hex_val b)"

fun hex_pairs :: "string \<Rightarrow> u8 list" where
  "hex_pairs (a # b # r) = hex_pair a b # hex_pairs r"
| "hex_pairs _ = []"

text \<open>A digest is 32 bytes: the list has that length where the source has an array.\<close>

definition parse_spki_pin :: "bytes \<Rightarrow> u8 list option" where
  "parse_spki_pin bs =
     (let text = (case strip_suffix [CHR 0x0A] bs of Some t \<Rightarrow> t | None \<Rightarrow> bs) in
      case from_utf8 text of
        None \<Rightarrow> None
      | Some text \<Rightarrow> if \<not> is_lower_hex text 64 then None else Some (hex_pairs text))"

definition hex_byte :: "u8 \<Rightarrow> string" where
  "hex_byte b = [hex_digit (unat b div 16), hex_digit (unat b mod 16)]"

definition spki_pin_line :: "u8 list \<Rightarrow> string" where
  "spki_pin_line digest = concat (map hex_byte digest) @ [CHR 0x0A]"

subsection \<open>Verdicts and layers\<close>

datatype verdict = VAllow | VReview | VDeny

datatype rule_layer = LHard | LGeneral | LAgentType | LInstance

datatype layer_rule = RAllow | RDeny

fun rule_layer_as_str :: "rule_layer \<Rightarrow> string" where
  "rule_layer_as_str LHard = ''hard''"
| "rule_layer_as_str LGeneral = ''general''"
| "rule_layer_as_str LAgentType = ''agent_type''"
| "rule_layer_as_str LInstance = ''instance''"

subsection \<open>Asking the host\<close>

definition INSTANCE_DECIDE_VERSION :: u32 where "INSTANCE_DECIDE_VERSION = 1"
definition INSTANCE_DECIDE_EVERY_COMMAND_VERSION :: u32 where
  "INSTANCE_DECIDE_EVERY_COMMAND_VERSION = 2"
definition INSTANCE_DECIDE_REFUSAL_VERSION :: u32 where "INSTANCE_DECIDE_REFUSAL_VERSION = 3"
definition HOST_REFUSAL_PREFIX :: string where "HOST_REFUSAL_PREFIX = ''kernel_''"
definition HOST_NOT_GRANTED :: string where "HOST_NOT_GRANTED = ''kernel_not_granted''"
definition MAX_HOOK_SIGNALS :: nat where "MAX_HOOK_SIGNALS = 64"
definition MAX_INSTANCE_ANSWER_BYTES :: nat where "MAX_INSTANCE_ANSWER_BYTES = 4096"
definition HOST_TRUST_SOURCE :: string where "HOST_TRUST_SOURCE = ''host''"
definition HOST_ANSWER_INVALID :: string where "HOST_ANSWER_INVALID = ''host_answer_invalid''"

lemmas decide_versions = INSTANCE_DECIDE_VERSION_def INSTANCE_DECIDE_EVERY_COMMAND_VERSION_def
  INSTANCE_DECIDE_REFUSAL_VERSION_def

record instance_decide_request =
  rq_v :: u32
  rq_instance_id :: string
  rq_claimed_agent_type :: "string option"
  rq_session_id :: "string option"
  rq_command :: string
  rq_hook_signals :: "string list"
  rq_tainted :: bool
  rq_hook_verdict :: verdict
  rq_hook_layer :: rule_layer

record instance_decide_answer =
  an_v :: u32
  an_instance_id :: string
  an_agent_type :: "string option"
  an_trust :: trust
  an_trust_source :: string
  an_verdict :: verdict
  an_deciding_layer :: rule_layer
  an_profile :: "string option"
  an_decision_id :: string
  an_withheld :: "string option"
  an_signals_mismatch :: bool
  an_conflict :: bool
  an_incident_id :: "string option"

definition request_shape :: "instance_decide_request \<Rightarrow> bool" where
  "request_shape r =
     (if rq_v r = INSTANCE_DECIDE_VERSION then
        rq_hook_verdict r = VReview \<and> rq_hook_layer r = LGeneral
      else if rq_v r = INSTANCE_DECIDE_EVERY_COMMAND_VERSION then
        (rq_hook_verdict r = VAllow \<or> rq_hook_verdict r = VReview) \<and> rq_hook_layer r = LGeneral
      else if rq_v r = INSTANCE_DECIDE_REFUSAL_VERSION then rq_hook_verdict r = VDeny
      else False)"

definition request_is_valid :: "instance_decide_request \<Rightarrow> bool" where
  "request_is_valid r \<longleftrightarrow> request_shape r
     \<and> is_instance_id (rq_instance_id r)
     \<and> is_none_or (rq_claimed_agent_type r) is_agent_label
     \<and> is_none_or (rq_session_id r) is_session_label
     \<and> rq_command r \<noteq> []
     \<and> length (rq_hook_signals r) \<le> MAX_HOOK_SIGNALS
     \<and> list_all is_hook_signal (rq_hook_signals r)
     \<and> windows2_all (<) (rq_hook_signals r)"

definition is_refusal_report :: "instance_decide_request \<Rightarrow> bool" where
  "is_refusal_report r \<longleftrightarrow> rq_v r = INSTANCE_DECIDE_REFUSAL_VERSION"

definition answer_relaxes :: "instance_decide_answer \<Rightarrow> bool" where
  "answer_relaxes a \<longleftrightarrow> an_trust a = Confined \<and> an_withheld a = None"

definition refuses_on_its_own :: "instance_decide_answer \<Rightarrow> bool" where
  "refuses_on_its_own a \<longleftrightarrow> an_verdict a = VDeny
     \<and> is_some_and (an_withheld a) (\<lambda>word. starts_with word HOST_REFUSAL_PREFIX)"

definition host_may_grant :: "instance_decide_request \<Rightarrow> instance_decide_answer \<Rightarrow> bool" where
  "host_may_grant r a \<longleftrightarrow> request_is_valid r \<and> \<not> rq_tainted r \<and> an_verdict a = VAllow
     \<and> (rq_hook_verdict r = VAllow \<or> (answer_relaxes a \<and> \<not> an_signals_mismatch a))"

definition grant_or_refuse ::
  "instance_decide_request \<Rightarrow> instance_decide_answer \<Rightarrow> instance_decide_answer" where
  "grant_or_refuse r a =
     (if host_may_grant r a \<or> refuses_on_its_own a then a
      else a\<lparr>an_verdict := VDeny, an_deciding_layer := LGeneral, an_profile := None,
             an_withheld := Some HOST_NOT_GRANTED\<rparr>)"

record request_facts =
  rf_instance_id :: string
  rf_claimed_agent_type :: "string option"
  rf_session_id :: "string option"
  rf_command :: string
  rf_charged :: "string list"
  rf_tainted :: bool

definition build_instance_decide_request ::
  "u32 \<Rightarrow> verdict \<Rightarrow> request_facts \<Rightarrow> instance_decide_request option" where
  "build_instance_decide_request v hook_verdict f =
     (if \<not> is_instance_id (rf_instance_id f) \<or> rf_command f = [] then None
      else
        (let signals = sort_dedup (filter is_hook_signal (rf_charged f)) in
         Some \<lparr>rq_v = v, rq_instance_id = rf_instance_id f,
               rq_claimed_agent_type = opt_filter is_agent_label (rf_claimed_agent_type f),
               rq_session_id = opt_filter is_session_label (rf_session_id f),
               rq_command = rf_command f,
               rq_hook_signals = take MAX_HOOK_SIGNALS signals,
               rq_tainted = rf_tainted f, rq_hook_verdict = hook_verdict,
               rq_hook_layer = LGeneral\<rparr>))"

definition instance_decide_request_v1 :: "request_facts \<Rightarrow> instance_decide_request option" where
  "instance_decide_request_v1 f =
     build_instance_decide_request INSTANCE_DECIDE_VERSION VReview f"

definition instance_decide_request_v2 ::
  "request_facts \<Rightarrow> verdict \<Rightarrow> instance_decide_request option" where
  "instance_decide_request_v2 f hook_verdict =
     (if hook_verdict = VDeny then None
      else build_instance_decide_request INSTANCE_DECIDE_EVERY_COMMAND_VERSION hook_verdict f)"

definition instance_decide_refusal ::
  "request_facts \<Rightarrow> rule_layer \<Rightarrow> instance_decide_request option" where
  "instance_decide_refusal f layer =
     map_option (\<lambda>r. r\<lparr>rq_hook_layer := layer\<rparr>)
       (build_instance_decide_request INSTANCE_DECIDE_REFUSAL_VERSION VDeny f)"

datatype host_answer = HostAnswer instance_decide_answer | HostWithheld

definition answer_sound :: "instance_decide_answer \<Rightarrow> string \<Rightarrow> bool" where
  "answer_sound a own \<longleftrightarrow> an_v a = INSTANCE_DECIDE_VERSION
     \<and> is_instance_id own
     \<and> an_instance_id a = own
     \<and> an_trust_source a = HOST_TRUST_SOURCE
     \<and> is_decision_id (an_decision_id a)
     \<and> is_none_or (an_agent_type a) is_agent_label
     \<and> is_none_or (an_profile a) is_agent_label
     \<and> is_none_or (an_withheld a) is_withheld_word
     \<and> is_none_or (an_incident_id a)
          (\<lambda>i. i \<noteq> [] \<and> length i \<le> 256 \<and> \<not> list_ex is_control (chars i))"

definition read_host_answer ::
  "(bytes \<Rightarrow> instance_decide_answer option) \<Rightarrow> bytes \<Rightarrow> string \<Rightarrow> host_answer" where
  "read_host_answer from_slice bs own =
     (if length bs > MAX_INSTANCE_ANSWER_BYTES then HostWithheld
      else case from_slice bs of
        None \<Rightarrow> HostWithheld
      | Some answer \<Rightarrow> if answer_sound answer own then HostAnswer answer else HostWithheld)"

subsection \<open>The launch record\<close>

datatype lifecycle = Discovered | Approved | Revoked

datatype launch_mode = LmMonitor | LmEnforce | LmBlockReview

datatype jail_backend = Bwrap | SandboxExec

definition LAUNCH_SCHEMA :: u32 where "LAUNCH_SCHEMA = 2"
definition LAUNCH_SCHEMA_V1 :: u32 where "LAUNCH_SCHEMA_V1 = 1"
definition READABLE_SCHEMAS :: "u32 list" where "READABLE_SCHEMAS = [1, 2]"
definition MAX_RECORD_BYTES :: nat where "MAX_RECORD_BYTES = 16 * 1024"

record launcher =
  la_path :: string
  la_version :: string
  la_root_owned :: bool

record jail =
  jl_backend :: jail_backend
  jl_pid :: u32
  jl_start_ticks :: u64
  jl_pid_ns :: u64
  jl_mnt_ns :: u64
  jl_userns_closed :: "bool option"

record scope =
  sc_unit :: string
  sc_cgroup_path :: string

record scopes =
  scs_user :: "scope option"
  scs_system :: "scope option"

definition scopes_is_empty :: "scopes \<Rightarrow> bool" where
  "scopes_is_empty s \<longleftrightarrow> scs_user s = None \<and> scs_system s = None"

text \<open>The instant \<^verbatim>\<open>started_at\<close> is kept as its text; no operation modelled reads it.\<close>

record launch_record =
  lr_schema :: u32
  lr_instance_id :: string
  lr_agent_type :: string
  lr_launcher :: launcher
  lr_uid :: u32
  lr_project :: string
  lr_mode :: launch_mode
  lr_started_at :: string
  lr_jail :: jail
  lr_scope :: "scopes option"

datatype record_error =
    TooLarge
  | Malformed string
  | NoSchema
  | NewerSchema u64
  | UnsupportedSchema u64
  | Invalid string

text \<open>The first failing check decides: a list of checks with the error each one gives.\<close>

fun first_error :: "(bool \<times> 'e) list \<Rightarrow> 'e option" where
  "first_error [] = None"
| "first_error ((bad, e) # cs) = (if bad then Some e else first_error cs)"

lemma first_error_None: "first_error cs = None \<longleftrightarrow> (\<forall>c\<in>set cs. \<not> fst c)"
  by (induction cs rule: first_error.induct) auto

lemma first_error_append [simp]:
  "first_error (xs @ ys) = (case first_error xs of Some e \<Rightarrow> Some e | None \<Rightarrow> first_error ys)"
  by (induction xs rule: first_error.induct) auto

definition validate_scopes :: "launch_record \<Rightarrow> scopes \<Rightarrow> record_error option" where
  "validate_scopes r s =
     (if scopes_is_empty s then Some (Invalid ''scope has neither user nor system'')
      else case scope_unit_name (lr_instance_id r) of
        None \<Rightarrow> Some (Invalid ''instance_id'')
      | Some unit \<Rightarrow>
          first_error
            ((case scs_user s of None \<Rightarrow> []
              | Some user \<Rightarrow>
                  [(\<not> is_unit_name (sc_unit user) \<or> sc_unit user \<noteq> unit,
                    Invalid ''scope.user.unit''),
                   (\<not> is_user_scope_cgroup (sc_cgroup_path user) unit (lr_uid r),
                    Invalid ''scope.user.cgroup_path'')])
             @ (case scs_system s of None \<Rightarrow> []
              | Some sys \<Rightarrow>
                  [(\<not> is_unit_name (sc_unit sys) \<or> sc_unit sys \<noteq> unit,
                    Invalid ''scope.system.unit''),
                   (sc_cgroup_path sys \<noteq> system_scope_cgroup unit,
                    Invalid ''scope.system.cgroup_path'')])))"

definition validate_schema :: "launch_record \<Rightarrow> record_error option" where
  "validate_schema r =
     (if lr_schema r = LAUNCH_SCHEMA_V1 then
        (if jl_userns_closed (lr_jail r) \<noteq> None
         then Some (Malformed ''jail.userns_closed is not a field of schema 1'') else None)
      else if lr_schema r = 2 then
        (if jl_userns_closed (lr_jail r) \<noteq> Some True
         then Some (Invalid ''schema 2 carries jail.userns_closed, and only as true'') else None)
      else Some (Invalid ''schema is not one this build reads''))"

definition validate_launch_record :: "launch_record \<Rightarrow> record_error option" where
  "validate_launch_record r =
     (let j = lr_jail r in
      case validate_schema r of Some e \<Rightarrow> Some e
      | None \<Rightarrow>
         (case first_error
            [(\<not> is_instance_id (lr_instance_id r), Invalid ''instance_id''),
             (\<not> is_agent_label (lr_agent_type r), Invalid ''agent_type''),
             (\<not> is_project_name (lr_project r), Invalid ''project''),
             (\<not> is_absolute_path (la_path (lr_launcher r)), Invalid ''launcher.path''),
             (\<not> is_version (la_version (lr_launcher r)), Invalid ''launcher.version''),
             (jl_pid j = 0, Invalid ''jail.pid''),
             (jl_start_ticks j = 0, Invalid ''jail.start_ticks''),
             (jl_backend j = Bwrap \<and> jl_pid_ns j = 0,
              Invalid ''jail.pid_ns is missing for a PID namespace backend''),
             (jl_backend j = SandboxExec \<and> jl_pid_ns j \<noteq> 0,
              Invalid ''jail.pid_ns set for a backend with no PID namespace''),
             (jl_backend j = Bwrap \<and> jl_mnt_ns j = 0,
              Invalid ''jail.mnt_ns is missing for a namespace backend''),
             (jl_backend j = SandboxExec \<and> jl_mnt_ns j \<noteq> 0,
              Invalid ''jail.mnt_ns set for a backend with no namespace'')]
          of Some e \<Rightarrow> Some e
          | None \<Rightarrow>
             (case lr_scope r of None \<Rightarrow> None | Some s \<Rightarrow> validate_scopes r s)))"

text \<open>
  \<open>probe\<close> and \<open>decode\<close> stand for the two calls of \<^verbatim>\<open>serde_json::from_slice\<close>, with the
  error text on failure: the schema number if there is one, and the record.
\<close>

definition parse_launch_record_as ::
  "(bytes \<Rightarrow> string + u64 option) \<Rightarrow> (bytes \<Rightarrow> string + launch_record)
   \<Rightarrow> bytes \<Rightarrow> u32 list \<Rightarrow> u32 \<Rightarrow> record_error + launch_record" where
  "parse_launch_record_as probe decode bs readable newest =
     (if length bs > MAX_RECORD_BYTES then Inl TooLarge
      else case probe bs of
        Inl why \<Rightarrow> Inl (Malformed why)
      | Inr None \<Rightarrow> Inl NoSchema
      | Inr (Some schema) \<Rightarrow>
          if \<not> (unat schema < 2 ^ 32 \<and> (ucast schema :: u32) \<in> set readable) then
            Inl (if schema > ucast newest then NewerSchema schema else UnsupportedSchema schema)
          else (case decode bs of
              Inl why \<Rightarrow> Inl (Malformed why)
            | Inr r \<Rightarrow> (case validate_launch_record r of Some e \<Rightarrow> Inl e | None \<Rightarrow> Inr r)))"

definition parse_launch_record ::
  "(bytes \<Rightarrow> string + u64 option) \<Rightarrow> (bytes \<Rightarrow> string + launch_record)
   \<Rightarrow> bytes \<Rightarrow> record_error + launch_record" where
  "parse_launch_record probe decode bs =
     parse_launch_record_as probe decode bs READABLE_SCHEMAS LAUNCH_SCHEMA"

subsection \<open>Trust inside the jail\<close>

definition INITIAL_PID_NS_INODE :: u64 where "INITIAL_PID_NS_INODE = 0xEFFFFFFC"

datatype record_read =
    ReadAbsent
  | ReadUnreadable
  | ReadPresent (rr_record: launch_record) (rr_read_only: bool)

record in_jail_facts =
  jf_record :: record_read
  jf_own_pid_ns :: "u64 option"
  jf_own_mnt_ns :: "u64 option"

datatype reason =
    ConfinedByNamespace | LauncherNotTrusted | NoScope | NoRecord | RecordUnreadable
  | RecordWritable | NoNamespaceOnBackend | HostNamespaceRecorded | OwnNamespaceUnreadable
  | NamespaceMismatch | OwnMountNamespaceUnreadable | MountNamespaceMismatch | AgentMismatch
  | AgentNotNamed

definition judge_trust_in_jail :: "in_jail_facts \<Rightarrow> trust \<times> reason" where
  "judge_trust_in_jail facts =
     (case jf_record facts of
        ReadAbsent \<Rightarrow> (Declared, NoRecord)
      | ReadUnreadable \<Rightarrow> (Declared, RecordUnreadable)
      | ReadPresent r read_only \<Rightarrow>
          if validate_launch_record r \<noteq> None then (Declared, RecordUnreadable)
          else if \<not> read_only then (Declared, RecordWritable)
          else if jl_backend (lr_jail r) \<noteq> Bwrap then (Declared, NoNamespaceOnBackend)
          else if jl_pid_ns (lr_jail r) = INITIAL_PID_NS_INODE then (Declared, HostNamespaceRecorded)
          else case jf_own_pid_ns facts of
            None \<Rightarrow> (Declared, OwnNamespaceUnreadable)
          | Some own \<Rightarrow>
              if own \<noteq> jl_pid_ns (lr_jail r) then (Declared, NamespaceMismatch)
              else case jf_own_mnt_ns facts of
                None \<Rightarrow> (Declared, OwnMountNamespaceUnreadable)
              | Some own_mnt \<Rightarrow>
                  if own_mnt \<noteq> jl_mnt_ns (lr_jail r) then (Declared, MountNamespaceMismatch)
                  else if \<not> la_root_owned (lr_launcher r) then (Observed, LauncherNotTrusted)
                  else if is_none_or (lr_scope r) scopes_is_empty then (Observed, NoScope)
                  else (Observed, ConfinedByNamespace))"

definition judge_agent_claim ::
  "trust \<times> reason \<Rightarrow> string \<Rightarrow> string option \<Rightarrow> trust \<times> reason" where
  "judge_agent_claim judged record_agent hook_agent =
     (if fst judged = Declared then judged
      else case hook_agent of
        Some wired \<Rightarrow> if wired = record_agent then judged else (Declared, AgentMismatch)
      | None \<Rightarrow> (Declared, AgentNotNamed))"

subsection \<open>Rules in layers\<close>

record layers =
  ly_hard_refused :: bool
  ly_general :: verdict
  ly_agent_type :: "layer_rule option"
  ly_instance :: "layer_rule option"

record decision =
  dn_verdict :: verdict
  dn_deciding_layer :: rule_layer

definition decide :: "layers \<Rightarrow> trust \<Rightarrow> decision" where [decision_defs]:
  "decide l t =
     (if ly_hard_refused l then \<lparr>dn_verdict = VDeny, dn_deciding_layer = LHard\<rparr>
      else if ly_general l = VDeny then \<lparr>dn_verdict = VDeny, dn_deciding_layer = LGeneral\<rparr>
      else if ly_agent_type l = Some RDeny then
        \<lparr>dn_verdict = VDeny, dn_deciding_layer = LAgentType\<rparr>
      else if ly_instance l = Some RDeny then
        \<lparr>dn_verdict = VDeny, dn_deciding_layer = LInstance\<rparr>
      else if t = Confined \<and> ly_instance l = Some RAllow then
        \<lparr>dn_verdict = VAllow, dn_deciding_layer = LInstance\<rparr>
      else if t = Confined \<and> ly_agent_type l = Some RAllow then
        \<lparr>dn_verdict = VAllow, dn_deciding_layer = LAgentType\<rparr>
      else \<lparr>dn_verdict = ly_general l, dn_deciding_layer = LGeneral\<rparr>)"

subsection \<open>The hard layer\<close>

definition EXTRA_HARD_SIGNALS :: "string list" where
  "EXTRA_HARD_SIGNALS =
    [''guard_self_disable'', ''security_tooling_tamper'', ''privileged_file_write'',
     ''sensitive_credential_read'']"

definition is_hard_signal :: "string \<Rightarrow> bool" where
  "is_hard_signal s \<longleftrightarrow> s \<in> set AGENT_REVIEW_FLOOR \<or> s \<in> set EXTRA_HARD_SIGNALS"

definition hits_hard_layer :: "command_analysis \<Rightarrow> bool" where
  "hits_hard_layer a \<longleftrightarrow> list_ex (\<lambda>s. 0 < as_score s \<and> is_hard_signal (as_signal s)) (ca_signals a)"

subsection \<open>The contract of a screening decision\<close>

text \<open>How strict a verdict is.\<close>

fun strictness :: "verdict \<Rightarrow> nat" where
  "strictness VAllow = 0"
| "strictness VReview = 1"
| "strictness VDeny = 2"

lemma strictness_le_2 [simp]: "strictness v \<le> 2"
  by (cases v) auto

lemma strictness_inject [simp]: "strictness a = strictness b \<longleftrightarrow> a = b"
  by (cases a; cases b) auto

lemma strictness_eq [simp]:
  "strictness v = 0 \<longleftrightarrow> v = VAllow" "strictness v = 1 \<longleftrightarrow> v = VReview"
  "strictness v = Suc 0 \<longleftrightarrow> v = VReview" "strictness v = 2 \<longleftrightarrow> v = VDeny"
  by (cases v; simp)+

lemma strictness_ge_2 [simp]: "2 \<le> strictness v \<longleftrightarrow> v = VDeny"
  by (cases v) auto

lemma strictness_less: "strictness a < strictness b \<longleftrightarrow>
    (a = VAllow \<and> b \<noteq> VAllow) \<or> (a = VReview \<and> b = VDeny)"
  by (cases a; cases b) auto

text \<open>
  What every decision of the guard promises over a general verdict \<open>base\<close>: a hard refusal
  is final, a level below confined never loosens the general verdict, a general deny is
  never loosened, and more trust never makes a decision stricter.
\<close>

locale screening =
  fixes out :: "'f \<Rightarrow> trust \<Rightarrow> decision" and base :: "'f \<Rightarrow> verdict" and hard :: "'f \<Rightarrow> bool"
  assumes hard_final: "hard f \<Longrightarrow> out f t = \<lparr>dn_verdict = VDeny, dn_deciding_layer = LHard\<rparr>"
    and unconfined_floor: "t \<noteq> Confined \<Longrightarrow> strictness (base f) \<le> strictness (dn_verdict (out f t))"
    and deny_kept: "base f = VDeny \<Longrightarrow> dn_verdict (out f t) = VDeny"
    and unconfined_same: "t \<noteq> Confined \<Longrightarrow> u \<noteq> Confined \<Longrightarrow> out f t = out f u"
    and confined_looser: "strictness (dn_verdict (out f Confined)) \<le> strictness (dn_verdict (out f t))"
begin

lemma relaxed_only_confined:
  assumes "strictness (dn_verdict (out f t)) < strictness (base f)"
  shows "t = Confined \<and> base f = VReview \<and> dn_verdict (out f t) = VAllow \<and> \<not> hard f"
proof -
  have t: "t = Confined" using assms unconfined_floor[of t f] by (cases "t = Confined") auto
  have "\<not> hard f"
  proof
    assume "hard f"
    then have "dn_verdict (out f t) = VDeny" using hard_final by simp
    then show False using assms by (cases "base f") auto
  qed
  moreover have "base f \<noteq> VDeny" using assms deny_kept[of f t] by auto
  ultimately show ?thesis using t assms by (cases "base f") (auto simp: strictness_less)
qed

lemma mono_trust:
  assumes "t \<le> u"
  shows "strictness (dn_verdict (out f u)) \<le> strictness (dn_verdict (out f t))"
proof (cases "u = Confined")
  case False
  then have "t \<noteq> Confined" using assms by (cases t; cases u) (auto simp: less_eq_trust_def)
  then show ?thesis using unconfined_same[OF _ False] by simp
qed (simp add: confined_looser)

lemma hard_denies: "hard f \<Longrightarrow> dn_verdict (out f t) = VDeny"
  by (simp add: hard_final)

lemma unconfined_keeps_refusal:
  "\<lbrakk>t \<noteq> Confined; base f \<noteq> VAllow\<rbrakk> \<Longrightarrow> dn_verdict (out f t) \<noteq> VAllow"
  using unconfined_floor[of t f] by (cases "base f") auto

end

interpretation layered: screening decide ly_general ly_hard_refused
proof
  show "strictness (dn_verdict (decide f Confined)) \<le> strictness (dn_verdict (decide f t))" for f t
    by (cases "ly_general f"; simp add: decide_def)
qed (auto simp: decide_def)

text \<open>Whether some layer refuses, and whether a narrow layer allows.\<close>

definition refused :: "layers \<Rightarrow> bool" where
  "refused l \<longleftrightarrow> ly_hard_refused l \<or> ly_general l = VDeny \<or> ly_agent_type l = Some RDeny
     \<or> ly_instance l = Some RDeny"

definition narrowly_allowed :: "layers \<Rightarrow> bool" where
  "narrowly_allowed l \<longleftrightarrow> ly_instance l = Some RAllow \<or> ly_agent_type l = Some RAllow"

lemma decide_verdict:
  "dn_verdict (decide l t) =
     (if refused l then VDeny
      else if t = Confined \<and> narrowly_allowed l then VAllow else ly_general l)"
  by (auto simp: decide_def refused_def narrowly_allowed_def)

text \<open>The layered decision in full. It refuses exactly when a layer refuses, at any trust;
  otherwise a narrow allow counts only for a confined instance, and everything else is the
  general verdict. The layer it names is the widest one that refuses, or the narrowest one
  that allows.\<close>

theorem decide_spec:
  "decide l t =
     (if refused l then
        \<lparr>dn_verdict = VDeny,
         dn_deciding_layer = (if ly_hard_refused l then LHard
            else if ly_general l = VDeny then LGeneral
            else if ly_agent_type l = Some RDeny then LAgentType else LInstance)\<rparr>
      else if t = Confined \<and> narrowly_allowed l then
        \<lparr>dn_verdict = VAllow,
         dn_deciding_layer = (if ly_instance l = Some RAllow then LInstance else LAgentType)\<rparr>
      else \<lparr>dn_verdict = ly_general l, dn_deciding_layer = LGeneral\<rparr>)"
  by (auto simp: decide_def refused_def narrowly_allowed_def)

text \<open>a decision is looser than the general verdict exactly when the instance is confined,
  the general verdict is a review, nothing refuses and a narrow layer allows.\<close>

theorem decide_relaxes_iff:
  "strictness (dn_verdict (decide l t)) < strictness (ly_general l) \<longleftrightarrow>
     t = Confined \<and> ly_general l = VReview \<and> narrowly_allowed l \<and> \<not> refused l"
proof -
  have "refused l" if "ly_general l = VDeny" using that by (simp add: refused_def)
  then show ?thesis by (cases "ly_general l"; cases "refused l") (simp_all add: decide_verdict)
qed

text \<open>How strict a narrow layer's rule is: an allow, nothing, a deny.\<close>

fun rule_strictness :: "layer_rule option \<Rightarrow> nat" where
  "rule_strictness (Some RAllow) = 0"
| "rule_strictness None = 1"
| "rule_strictness (Some RDeny) = 2"

definition layers_le :: "layers \<Rightarrow> layers \<Rightarrow> bool" where
  "layers_le l m \<longleftrightarrow> (ly_hard_refused l \<longrightarrow> ly_hard_refused m)
     \<and> strictness (ly_general l) \<le> strictness (ly_general m)
     \<and> rule_strictness (ly_agent_type l) \<le> rule_strictness (ly_agent_type m)
     \<and> rule_strictness (ly_instance l) \<le> rule_strictness (ly_instance m)"

lemma rule_strictness_deny: "2 \<le> rule_strictness r \<longleftrightarrow> r = Some RDeny"
  by (cases r rule: rule_strictness.cases) auto

lemma rule_strictness_allow: "rule_strictness r = 0 \<longleftrightarrow> r = Some RAllow"
  by (cases r rule: rule_strictness.cases) auto

lemma layers_le_refused: "layers_le l m \<Longrightarrow> refused l \<Longrightarrow> refused m"
  unfolding layers_le_def refused_def
  by (metis rule_strictness_deny order_trans strictness_ge_2)

lemma layers_le_allowed: "layers_le l m \<Longrightarrow> narrowly_allowed m \<Longrightarrow> narrowly_allowed l"
  unfolding layers_le_def narrowly_allowed_def
  by (metis rule_strictness_allow le_zero_eq)

lemma decide_mono_layers:
  assumes "layers_le l m"
  shows "strictness (dn_verdict (decide l t)) \<le> strictness (dn_verdict (decide m t))"
proof (cases "refused m")
  case True
  then show ?thesis by (simp add: decide_verdict)
next
  case False
  then have nl: "\<not> refused l" using layers_le_refused[OF assms] by blast
  have "strictness (ly_general l) \<le> strictness (ly_general m)"
    using assms by (simp add: layers_le_def)
  then show ?thesis using False nl layers_le_allowed[OF assms] by (auto simp: decide_verdict)
qed

text \<open>the decision is monotone. Making any layer stricter (a hard refusal added, a stricter
  general verdict, an allow dropped, a deny added) never makes the decision looser; lowering
  the trust never does either, and the two levels below confined decide the same.\<close>

theorem decide_monotone:
  assumes "layers_le l m" and "t \<le> u"
  shows "strictness (dn_verdict (decide l u)) \<le> strictness (dn_verdict (decide m t))
     \<and> (u \<noteq> Confined \<longrightarrow> decide l u = decide l t)"
proof -
  have "u \<noteq> Confined \<Longrightarrow> t \<noteq> Confined"
    using assms(2) by (cases t; cases u) (auto simp: less_eq_trust_def)
  then show ?thesis
    using layered.mono_trust[OF assms(2), of l] decide_mono_layers[OF assms(1), of t]
      layered.unconfined_same[of u t l] by (meson order_trans)
qed

theorem decide_monotone_witness:
  "strictness (dn_verdict (decide \<lparr>ly_hard_refused = False, ly_general = VReview,
       ly_agent_type = Some RAllow, ly_instance = None\<rparr> Confined)) = 0
   \<and> strictness (dn_verdict (decide \<lparr>ly_hard_refused = False, ly_general = VReview,
       ly_agent_type = Some RAllow, ly_instance = None\<rparr> Confined))
     \<le> strictness (dn_verdict (decide \<lparr>ly_hard_refused = False, ly_general = VReview,
       ly_agent_type = None, ly_instance = None\<rparr> Observed))"
  using decide_monotone[of "\<lparr>ly_hard_refused = False, ly_general = VReview,
       ly_agent_type = Some RAllow, ly_instance = None\<rparr>" "\<lparr>ly_hard_refused = False, ly_general = VReview,
       ly_agent_type = None, ly_instance = None\<rparr>" Observed Confined]
  by (simp add: decide_def less_eq_trust_def layers_le_def)

text \<open>A decision over layers computed from other facts keeps the contract.\<close>

lemma screening_comp:
  assumes "screening out base hard"
  shows "screening (\<lambda>f. out (g f)) (\<lambda>f. base (g f)) (\<lambda>f. hard (g f))"
  using assms unfolding screening_def by blast

subsection \<open>Names of one shape\<close>

lemma hex_byte_ascii: "is_hex_byte c \<Longrightarrow> byte c < 128"
  by (auto simp: is_hex_byte_def is_ascii_digit_def)

lemma hex_byte_unit: "is_hex_byte c \<Longrightarrow> is_ascii_alphanumeric c"
  by (auto simp: is_hex_byte_def is_ascii_digit_def is_ascii_alphanumeric_def is_ascii_lowercase_def)

lemma list_all_hex_ascii: "list_all is_hex_byte s \<Longrightarrow> list_all (\<lambda>c. byte c < 128) s"
  by (auto simp: list_all_iff hex_byte_ascii)

lemma scope_unit_name_Some:
  "scope_unit_name i = Some u \<longleftrightarrow>
     is_instance_id i \<and> u = SCOPE_UNIT_PREFIX @ i @ ''.scope''"
  by (auto simp: scope_unit_name_def)

lemma scope_unit_name_inject:
  "scope_unit_name i = Some u \<Longrightarrow> scope_unit_name j = Some u \<Longrightarrow> i = j"
  by (auto simp: scope_unit_name_Some)

lemma list_all_alnum_mono:
  "list_all is_hex_byte s \<Longrightarrow> list_all (\<lambda>b. is_ascii_alphanumeric b \<or> P b) s"
  by (auto simp: list_all_iff hex_byte_unit)

lemma scope_unit_name_is_unit: "scope_unit_name i = Some u \<Longrightarrow> is_unit_name u"
proof -
  assume "scope_unit_name i = Some u"
  then have i: "is_instance_id i" and u: "u = SCOPE_UNIT_PREFIX @ i @ ''.scope''"
    by (auto simp: scope_unit_name_Some)
  let ?P = "\<lambda>b. is_ascii_alphanumeric b \<or> b \<in> set '':_.-@'' \<or> b = CHR 0x5C"
  have "list_all ?P i" using i by (auto simp: is_instance_id_def intro: list_all_alnum_mono)
  moreover have "list_all ?P SCOPE_UNIT_PREFIX" "list_all ?P ''.scope''" by code_simp+
  moreover have "length u = 58"
    using i by (simp add: u is_instance_id_def SCOPE_UNIT_PREFIX_def INSTANCE_ID_LEN_def)
  ultimately show ?thesis
    by (simp only: is_unit_name_def u list_all_append)
       (simp add: SCOPE_UNIT_PREFIX_def MAX_UNIT_LEN_def)
qed

subsection \<open>The key of the host\<close>

lemma hex_digit_is_hex: "n < 16 \<Longrightarrow> is_hex_byte (hex_digit n)"
  by (auto simp: is_hex_byte_def hex_digit_def is_ascii_digit_def)

lemma hex_val_digit: "n < 16 \<Longrightarrow> hex_val (hex_digit n) = n"
  by (auto simp: hex_val_def hex_digit_def is_ascii_digit_def)

lemma hex_digit_val: "is_hex_byte c \<Longrightarrow> hex_digit (hex_val c) = c"
  by (auto simp: hex_val_def hex_digit_def is_ascii_digit_def is_hex_byte_def)

lemma hex_val_less: "is_hex_byte c \<Longrightarrow> hex_val c < 16"
  by (auto simp: hex_val_def is_ascii_digit_def is_hex_byte_def)

lemma u8_div_mod: "unat (b :: u8) div 16 < 16" "unat b mod 16 < 16"
proof -
  have "unat b < 256" by (rule u8_less)
  then show "unat b div 16 < 16" by simp
qed simp

lemma hex_byte_length [simp]: "length (hex_byte b) = 2"
  by (simp add: hex_byte_def)

lemma hex_byte_all: "list_all is_hex_byte (hex_byte b)"
  by (simp add: hex_byte_def hex_digit_is_hex u8_div_mod)

lemma hex_pairs_hex_byte: "hex_pairs (hex_byte b @ s) = b # hex_pairs s"
  by (simp add: hex_byte_def hex_pair_def hex_val_digit u8_div_mod)

lemma hex_pairs_concat: "hex_pairs (concat (map hex_byte bs)) = bs"
  by (induction bs) (simp_all add: hex_pairs_hex_byte)

lemma concat_hex_all: "list_all is_hex_byte (concat (map hex_byte bs))"
  by (induction bs) (simp_all add: hex_byte_all)

lemma length_concat_hex: "length (concat (map hex_byte bs)) = 2 * length bs"
  by (induction bs) simp_all

lemma hex_byte_of_pair:
  assumes "is_hex_byte a" "is_hex_byte b"
  shows "hex_byte (hex_pair a b) = [a, b]"
proof -
  have ab: "hex_val a < 16" "hex_val b < 16" using assms hex_val_less by auto
  then have "16 * hex_val a + hex_val b < 256" by simp
  then have "unat (of_nat (16 * hex_val a + hex_val b) :: u8) = 16 * hex_val a + hex_val b"
    by (intro unat_of_nat_lt) simp
  then have "unat (hex_pair a b) = 16 * hex_val a + hex_val b" by (simp only: hex_pair_def)
  then show ?thesis using ab assms by (simp add: hex_byte_def hex_digit_val)
qed

lemma concat_hex_pairs:
  "even (length s) \<Longrightarrow> list_all is_hex_byte s \<Longrightarrow> concat (map hex_byte (hex_pairs s)) = s"
  by (induction s rule: hex_pairs.induct) (auto simp: hex_byte_of_pair)

lemma length_hex_pairs: "length (hex_pairs s) = length s div 2"
  by (induction s rule: hex_pairs.induct) auto

lemma newline_not_hex: "\<not> is_hex_byte (CHR 0x0A)"
  by code_simp


text \<open>The key file round trip. The line written for a digest of 32 bytes reads back as
  that digest, and every text that reads as a key is the line of that key, with or without
  its newline; nothing else is a key.\<close>

theorem spki_pin_roundtrip:
  "(parse_spki_pin (spki_pin_line digest) = Some digest \<longleftrightarrow> length digest = 32)
   \<and> (parse_spki_pin bs = Some d \<longleftrightarrow>
        length d = 32 \<and> (bs = spki_pin_line d \<or> bs @ [CHR 0x0A] = spki_pin_line d))"
proof -
  have parse_text: "parse_spki_pin bs = Some d \<longleftrightarrow>
      (\<exists>t. (t @ [CHR 0x0A] = bs \<or> (t = bs \<and> \<not> suffix [CHR 0x0A] bs)) \<and> is_lower_hex t 64
        \<and> hex_pairs t = d)" for bs d
  proof -
    have utf8: "is_lower_hex t 64 \<Longrightarrow> is_utf8 t" for t
      by (simp add: is_lower_hex_def is_utf8_ascii list_all_hex_ascii)
    then have body: "(case from_utf8 t of None \<Rightarrow> None
        | Some t \<Rightarrow> if \<not> is_lower_hex t 64 then None else Some (hex_pairs t)) = Some d \<longleftrightarrow>
        is_lower_hex t 64 \<and> hex_pairs t = d" for t
      by (auto simp: from_utf8_def)
    show ?thesis
    proof (cases "strip_suffix [CHR 0x0A] bs")
      case None
      then have "\<not> suffix [CHR 0x0A] bs" by (simp add: strip_suffix_None)
      moreover have "t @ [CHR 0x0A] \<noteq> bs" for t using calculation by auto
      ultimately show ?thesis by (simp add: parse_spki_pin_def None body)
    next
      case (Some t)
      then have "bs = t @ [CHR 0x0A]" by (simp add: strip_suffix_Some)
      then show ?thesis by (simp add: parse_spki_pin_def Some body)
    qed
  qed
  have hex_line: "is_lower_hex t 64 \<and> hex_pairs t = d \<longleftrightarrow>
      length d = 32 \<and> t = concat (map hex_byte d)" for t d
    by (auto simp: is_lower_hex_def concat_hex_pairs length_hex_pairs hex_pairs_concat
        length_concat_hex concat_hex_all)
  have no_nl: "\<not> suffix [CHR 0x0A] (concat (map hex_byte d))" for d
    using concat_hex_all[of d] newline_not_hex by (auto simp: suffix_def)
  show ?thesis
    unfolding parse_text by (auto simp: hex_line no_nl spki_pin_line_def)
qed

subsection \<open>The launch record\<close>

definition valid_record :: "launch_record \<Rightarrow> bool" where
  "valid_record r \<longleftrightarrow> validate_launch_record r = None"

lemma valid_record_fields:
  assumes "valid_record r"
  shows "is_instance_id (lr_instance_id r)" "is_agent_label (lr_agent_type r)"
    "is_project_name (lr_project r)" "is_absolute_path (la_path (lr_launcher r))"
    "lr_schema r \<in> set READABLE_SCHEMAS"
    "jl_pid (lr_jail r) \<noteq> 0" "jl_start_ticks (lr_jail r) \<noteq> 0"
    "jl_backend (lr_jail r) = Bwrap \<longleftrightarrow> jl_pid_ns (lr_jail r) \<noteq> 0"
    "jl_backend (lr_jail r) = Bwrap \<longleftrightarrow> jl_mnt_ns (lr_jail r) \<noteq> 0"
    "(jl_userns_closed (lr_jail r) = Some True) = (lr_schema r = 2)"
    "is_none_or (lr_scope r) (\<lambda>s. validate_scopes r s = None)"
  using assms jail_backend.exhaust[of "jl_backend (lr_jail r)"]
  by (auto simp: valid_record_def validate_launch_record_def Let_def first_error_None
      validate_schema_def LAUNCH_SCHEMA_V1_def READABLE_SCHEMAS_def
      split: option.splits if_splits)

lemma validate_scopes_None:
  "validate_scopes r s = None \<longleftrightarrow> \<not> scopes_is_empty s \<and>
     (\<exists>unit. scope_unit_name (lr_instance_id r) = Some unit
       \<and> is_none_or (scs_user s) (\<lambda>u. sc_unit u = unit
            \<and> is_user_scope_cgroup (sc_cgroup_path u) unit (lr_uid r))
       \<and> is_none_or (scs_system s) (\<lambda>u. sc_unit u = unit
            \<and> sc_cgroup_path u = system_scope_cgroup unit))"
  by (auto simp: validate_scopes_def scope_unit_name_is_unit split: option.splits if_splits)

text \<open>The cgroup of a record's system scope, and its user scope's unit, if it has them.\<close>

definition system_cgroup_of :: "launch_record \<Rightarrow> string option" where
  "system_cgroup_of r =
     map_option sc_cgroup_path (Option.bind (lr_scope r) scs_system)"

definition user_unit_of :: "launch_record \<Rightarrow> string option" where
  "user_unit_of r = map_option sc_unit (Option.bind (lr_scope r) scs_user)"

lemma valid_system_cgroup:
  "\<lbrakk>valid_record r; system_cgroup_of r = Some c\<rbrakk> \<Longrightarrow>
   c = ''/system.slice/innerwarden-contain-'' @ lr_instance_id r @ ''.scope''"
  using valid_record_fields(11)[of r]
  by (auto simp: system_cgroup_of_def validate_scopes_None scope_unit_name_Some
      system_scope_cgroup_def SCOPE_UNIT_PREFIX_def bind_eq_Some_conv)

lemma valid_user_unit:
  "\<lbrakk>valid_record r; user_unit_of r = Some u\<rbrakk> \<Longrightarrow>
   u = ''innerwarden-contain-'' @ lr_instance_id r @ ''.scope''"
  using valid_record_fields(11)[of r]
  by (auto simp: user_unit_of_def validate_scopes_None scope_unit_name_Some
      SCOPE_UNIT_PREFIX_def bind_eq_Some_conv)

text \<open>A record cannot borrow another instance's scope. Two records that pass validation
  and name the same system cgroup, or the same user unit, are records of one instance.\<close>

theorem validated_scopes_identify:
  assumes "validate_launch_record r = None" "validate_launch_record s = None"
    and "system_cgroup_of r = Some c \<and> system_cgroup_of s = Some c
       \<or> user_unit_of r = Some c \<and> user_unit_of s = Some c"
  shows "lr_instance_id r = lr_instance_id s \<and> is_instance_id (lr_instance_id r)"
proof -
  have v: "valid_record r" "valid_record s" using assms by (auto simp: valid_record_def)
  from assms(3) have "lr_instance_id r = lr_instance_id s"
    using valid_system_cgroup[OF v(1)] valid_system_cgroup[OF v(2)]
      valid_user_unit[OF v(1)] valid_user_unit[OF v(2)] by auto
  then show ?thesis using valid_record_fields(1)[OF v(1)] by simp
qed

text \<open>C29: the exact rows of the in-jail judgement that reach \<open>observed\<close>, and that none
  reaches \<open>confined\<close>: a record that validates, on a read-only mount, of a namespace backend,
  naming the two namespaces the hook itself reads, and not the host's.\<close>

theorem judge_trust_in_jail_observed_iff:
  "fst (judge_trust_in_jail facts) \<noteq> Confined \<and>
     (fst (judge_trust_in_jail facts) = Observed \<longleftrightarrow>
      (case jf_record facts of
         ReadPresent r ro \<Rightarrow> ro \<and> validate_launch_record r = None \<and> jl_backend (lr_jail r) = Bwrap
           \<and> jl_pid_ns (lr_jail r) \<notin> {0, INITIAL_PID_NS_INODE} \<and> jl_mnt_ns (lr_jail r) \<noteq> 0
           \<and> jf_own_pid_ns facts = Some (jl_pid_ns (lr_jail r))
           \<and> jf_own_mnt_ns facts = Some (jl_mnt_ns (lr_jail r))
       | _ \<Rightarrow> False))"
proof (cases "jf_record facts")
  case (ReadPresent r ro)
  have "jl_pid_ns (lr_jail r) \<noteq> 0 \<and> jl_mnt_ns (lr_jail r) \<noteq> 0"
    if "validate_launch_record r = None" "jl_backend (lr_jail r) = Bwrap"
    using valid_record_fields(8,9)[of r] that by (simp add: valid_record_def)
  then show ?thesis using ReadPresent
    by (auto simp: judge_trust_in_jail_def split: option.splits)
qed (simp_all add: judge_trust_in_jail_def)

text \<open>Holding a level to the agent the hook was wired for never raises it, whatever was
  judged, and a level above declared survives exactly when both name the same agent. In
  particular the in-jail reading, held to the claim, unlocks no relaxation: the layered
  decision over it is the one of a declared instance.\<close>

theorem judge_agent_claim_lowers:
  "fst (judge_agent_claim j ra ha) \<le> fst j
   \<and> (fst (judge_agent_claim j ra ha) \<noteq> Declared \<longleftrightarrow> fst j \<noteq> Declared \<and> ha = Some ra)
   \<and> decide l (fst (judge_agent_claim (judge_trust_in_jail facts) ra ha)) = decide l Declared"
proof (intro conjI)
  show "fst (judge_agent_claim j ra ha) \<le> fst j"
    by (cases "fst j") (auto simp: judge_agent_claim_def less_eq_trust_def split: option.splits)
  show "fst (judge_agent_claim j ra ha) \<noteq> Declared \<longleftrightarrow> fst j \<noteq> Declared \<and> ha = Some ra"
    by (auto simp: judge_agent_claim_def split: option.splits)
  have "fst (judge_trust_in_jail facts) \<noteq> Confined"
    by (auto simp: judge_trust_in_jail_def split: record_read.splits option.splits)
  then have "fst (judge_agent_claim (judge_trust_in_jail facts) ra ha) \<noteq> Confined"
    by (auto simp: judge_agent_claim_def split: option.splits)
  then show "decide l (fst (judge_agent_claim (judge_trust_in_jail facts) ra ha)) = decide l Declared"
    by (intro layered.unconfined_same) simp_all
qed

lemma parse_launch_record_as_Inr:
  "parse_launch_record_as probe decode bs readable newest = Inr r \<longleftrightarrow>
     length bs \<le> MAX_RECORD_BYTES \<and> decode bs = Inr r \<and> valid_record r
     \<and> (\<exists>n. probe bs = Inr (Some n) \<and> unat n < 2 ^ 32 \<and> (ucast n :: u32) \<in> set readable)"
  by (auto simp: parse_launch_record_as_def valid_record_def
      split: sum.splits option.splits if_splits)

text \<open>reading a record. What is read is exactly what the decoder gives for at most 16 KiB
  whose schema number is readable, when it validates; a number above the newest one is told
  apart from a number this build never wrote, and neither is decoded.\<close>

theorem parse_launch_record_spec:
  "(parse_launch_record probe decode bs = Inr r \<longleftrightarrow>
      length bs \<le> 16384 \<and> decode bs = Inr r \<and> validate_launch_record r = None
      \<and> (probe bs = Inr (Some 1) \<or> probe bs = Inr (Some 2)))
   \<and> (probe bs = Inr (Some n) \<and> length bs \<le> 16384 \<and> n \<notin> {1, 2} \<longrightarrow>
      parse_launch_record probe decode bs =
        Inl (if n > 2 then NewerSchema n else UnsupportedSchema n))"
proof -
  have readable: "unat n < 2 ^ 32 \<and> (ucast n :: u32) \<in> set READABLE_SCHEMAS \<longleftrightarrow> n \<in> {1, 2}"
    for n :: u64
  proof -
    have "n = 1 \<or> n = 2" if "unat n < 2 ^ 32" "(ucast n :: u32) = 1 \<or> (ucast n :: u32) = 2"
    proof -
      have "unat (ucast n :: u32) = unat n"
        using that(1) by (simp add: unsigned_ucast_eq take_bit_nat_eq_self)
      then have "unat n = 1 \<or> unat n = 2" using that(2) by auto
      then show ?thesis by (simp add: word_unat_eq_iff)
    qed
    then show ?thesis by (auto simp: READABLE_SCHEMAS_def)
  qed
  have *: "(\<exists>m. probe bs = Inr (Some m) \<and> unat m < 2 ^ 32 \<and> (ucast m :: u32) \<in> set READABLE_SCHEMAS)
      \<longleftrightarrow> probe bs = Inr (Some 1) \<or> probe bs = Inr (Some 2)"
    using readable by auto
  have "parse_launch_record probe decode bs =
        Inl (if n > 2 then NewerSchema n else UnsupportedSchema n)"
    if "probe bs = Inr (Some n)" "length bs \<le> 16384" "n \<notin> {1, 2}"
    using that readable[of n]
    by (simp add: parse_launch_record_def parse_launch_record_as_def MAX_RECORD_BYTES_def
        LAUNCH_SCHEMA_def)
  then show ?thesis
    using * by (auto simp: parse_launch_record_def parse_launch_record_as_Inr valid_record_def
        MAX_RECORD_BYTES_def)
qed

theorem parse_launch_record_spec_witness:
  "parse_launch_record (\<lambda>_. Inr (Some 7)) (\<lambda>_. Inl []) [] = Inl (NewerSchema 7)"
  using parse_launch_record_spec[of "\<lambda>_. Inr (Some 7)" "\<lambda>_. Inl []" "[]" undefined 7] by simp

subsection \<open>Requests, answers and reports\<close>

lemma build_request_Some:
  assumes "build_instance_decide_request v hv f = Some r"
  shows "is_instance_id (rq_instance_id r)" "is_none_or (rq_claimed_agent_type r) is_agent_label"
    "is_none_or (rq_session_id r) is_session_label" "rq_command r \<noteq> []"
    "length (rq_hook_signals r) \<le> MAX_HOOK_SIGNALS" "list_all is_hook_signal (rq_hook_signals r)"
    "sorted_wrt (<) (rq_hook_signals r)" "rq_v r = v" "rq_hook_verdict r = hv"
    "rq_hook_layer r = LGeneral" "rq_command r = rf_command f" "rq_tainted r = rf_tainted f"
    "rq_instance_id r = rf_instance_id f" "set (rq_hook_signals r) \<subseteq> set (rf_charged f)"
  using assms
  by (auto simp: build_instance_decide_request_def Let_def list_all_iff sorted_wrt_take
      split: if_splits dest!: in_set_takeD)

lemma build_request_valid:
  assumes "build_instance_decide_request v hv f = Some r"
  shows "request_is_valid (r\<lparr>rq_hook_layer := l\<rparr>) \<longleftrightarrow> request_shape (r\<lparr>rq_hook_layer := l\<rparr>)"
    "request_is_valid r \<longleftrightarrow> request_shape r"
  using build_request_Some[OF assms] by (auto simp: request_is_valid_def)

text \<open>what a hook sends, the host accepts. Each of the three builders gives either nothing
  (an id that is not one, an empty command, a refusal asked about) or a request every field
  of which the contract allows, about the very command, instance and taint it was given.\<close>

theorem built_requests_valid:
  assumes "instance_decide_request_v1 f = Some r \<or> instance_decide_request_v2 f hv = Some r
     \<or> instance_decide_refusal f layer = Some r"
  shows "request_is_valid r \<and> rq_command r = rf_command f \<and> rq_instance_id r = rf_instance_id f
     \<and> rq_tainted r = rf_tainted f \<and> set (rq_hook_signals r) \<subseteq> set (rf_charged f)
     \<and> (is_refusal_report r \<longleftrightarrow> rq_hook_verdict r = VDeny)"
  using assms
proof (elim disjE)
  assume "instance_decide_request_v1 f = Some r"
  then have b: "build_instance_decide_request INSTANCE_DECIDE_VERSION VReview f = Some r"
    by (simp add: instance_decide_request_v1_def)
  show ?thesis using build_request_Some[OF b] build_request_valid[OF b]
    by (simp add: request_shape_def is_refusal_report_def decide_versions)
next
  assume v2: "instance_decide_request_v2 f hv = Some r"
  then have b: "build_instance_decide_request INSTANCE_DECIDE_EVERY_COMMAND_VERSION hv f = Some r"
    and "hv \<noteq> VDeny" by (auto simp: instance_decide_request_v2_def split: if_splits)
  then show ?thesis using build_request_Some[OF b] build_request_valid[OF b]
    by (cases hv) (simp_all add: request_shape_def is_refusal_report_def decide_versions)
next
  assume "instance_decide_refusal f layer = Some r"
  then obtain r0 where
    b: "build_instance_decide_request INSTANCE_DECIDE_REFUSAL_VERSION VDeny f = Some r0"
    and r: "r = r0\<lparr>rq_hook_layer := layer\<rparr>"
    by (auto simp: instance_decide_refusal_def)
  show ?thesis using build_request_Some[OF b] build_request_valid(1)[OF b, of layer]
    by (simp add: r request_shape_def is_refusal_report_def decide_versions)
qed

definition sample_facts :: request_facts where
  "sample_facts = \<lparr>rf_instance_id = replicate 32 (CHR ''a''), rf_claimed_agent_type = Some ''Claude'',
     rf_session_id = None, rf_command = ''ls'', rf_charged = [''tmp_execution'', ''x'', ''bare_ip_fetch''],
     rf_tainted = False\<rparr>"

theorem built_requests_valid_witness:
  "\<exists>r. instance_decide_request_v1 sample_facts = Some r \<and> request_is_valid r
     \<and> rq_hook_signals r = [''bare_ip_fetch'', ''tmp_execution''] \<and> rq_claimed_agent_type r = None"
proof -
  define r where "r = the (instance_decide_request_v1 sample_facts)"
  have r: "instance_decide_request_v1 sample_facts = Some r \<and>
      rq_hook_signals r = [''bare_ip_fetch'', ''tmp_execution''] \<and> rq_claimed_agent_type r = None"
    unfolding r_def by code_simp
  then show ?thesis using built_requests_valid[of sample_facts r VAllow LHard] by blast
qed

text \<open>Where a program starts only on a grant, the host's answer either is one the host may
  grant or is a refusal of the host's own; an answer of either kind is left as it is, so
  answering twice changes nothing, and an answer is never turned into an allow.\<close>

theorem grant_or_refuse_total:
  "(host_may_grant r (grant_or_refuse r a) \<or> refuses_on_its_own (grant_or_refuse r a))
   \<and> (host_may_grant r a \<or> refuses_on_its_own a \<longleftrightarrow> grant_or_refuse r a = a)
   \<and> grant_or_refuse r (grant_or_refuse r a) = grant_or_refuse r a
   \<and> (host_may_grant r (grant_or_refuse r a) \<longleftrightarrow> host_may_grant r a)
   \<and> an_decision_id (grant_or_refuse r a) = an_decision_id a"
proof (cases "host_may_grant r a \<or> refuses_on_its_own a")
  case True
  then show ?thesis by (auto simp: grant_or_refuse_def)
next
  case False
  have g: "grant_or_refuse r a = a\<lparr>an_verdict := VDeny, an_deciding_layer := LGeneral,
      an_profile := None, an_withheld := Some HOST_NOT_GRANTED\<rparr>"
    using False by (simp add: grant_or_refuse_def)
  have p: "prefix HOST_REFUSAL_PREFIX HOST_NOT_GRANTED" by code_simp
  have own: "refuses_on_its_own (grant_or_refuse r a)"
    unfolding g by (simp add: refuses_on_its_own_def p)
  have no: "\<not> host_may_grant r (grant_or_refuse r a)"
    unfolding g by (simp add: host_may_grant_def)
  have "grant_or_refuse r a \<noteq> a" using False own by metis
  moreover have "grant_or_refuse r (grant_or_refuse r a) = grant_or_refuse r a"
    using own by (simp add: grant_or_refuse_def)
  moreover have "an_decision_id (grant_or_refuse r a) = an_decision_id a" by (simp add: g)
  ultimately show ?thesis using own no False by blast
qed

text \<open>what a grant takes. Only an allow of the host grants, never over a tainted command;
  over a command the hook itself did not allow it takes an answer that relaxed it at
  confined, over the same signals; and only a request of version 2 can be granted without
  one.\<close>

theorem host_may_grant_ceiling:
  assumes "host_may_grant r a"
  shows "\<not> rq_tainted r \<and> an_verdict a = VAllow \<and> rq_command r \<noteq> []
     \<and> (rq_hook_verdict r \<noteq> VAllow \<longrightarrow>
          an_trust a = Confined \<and> an_withheld a = None \<and> \<not> an_signals_mismatch a)
     \<and> (rq_v r \<noteq> INSTANCE_DECIDE_EVERY_COMMAND_VERSION \<longrightarrow> answer_relaxes a)"
  using assms
  by (auto simp: host_may_grant_def request_is_valid_def request_shape_def answer_relaxes_def
      split: if_splits)

definition sample_request :: instance_decide_request where
  "sample_request = \<lparr>rq_v = 1, rq_instance_id = replicate 32 (CHR ''a''),
     rq_claimed_agent_type = None, rq_session_id = None, rq_command = ''ls'',
     rq_hook_signals = [''tmp_execution''], rq_tainted = False, rq_hook_verdict = VReview,
     rq_hook_layer = LGeneral\<rparr>"

definition sample_answer :: instance_decide_answer where
  "sample_answer = \<lparr>an_v = 1, an_instance_id = replicate 32 (CHR ''a''), an_agent_type = None,
     an_trust = Confined, an_trust_source = ''host'', an_verdict = VAllow,
     an_deciding_layer = LAgentType, an_profile = Some ''claude-code'',
     an_decision_id = replicate 32 (CHR ''0''), an_withheld = None, an_signals_mismatch = False,
     an_conflict = False, an_incident_id = None\<rparr>"

theorem host_may_grant_ceiling_witness:
  "host_may_grant sample_request sample_answer \<and> answer_relaxes sample_answer"
proof -
  have g: "host_may_grant sample_request sample_answer" by code_simp
  have v: "rq_v sample_request \<noteq> INSTANCE_DECIDE_EVERY_COMMAND_VERSION" by code_simp
  show ?thesis using host_may_grant_ceiling[OF g] v g by blast
qed

text \<open>the ceiling does not cover a reported refusal. A well-formed report of a command the
  hook refused, with an answer that relaxes, passes \<^verbatim>\<open>host_may_grant\<close>, although the
  documentation names the hook's verdict as the ceiling and a refusal as never granted.\<close>

theorem refusal_report_may_be_granted:
  "\<exists>r a. request_is_valid r \<and> is_refusal_report r \<and> rq_hook_verdict r = VDeny
     \<and> host_may_grant r a \<and> grant_or_refuse r a = a \<and> an_verdict a = VAllow"
proof (intro exI)
  let ?r = "sample_request\<lparr>rq_v := 3, rq_hook_verdict := VDeny\<rparr>"
  show "request_is_valid ?r \<and> is_refusal_report ?r \<and> rq_hook_verdict ?r = VDeny
     \<and> host_may_grant ?r sample_answer \<and> grant_or_refuse ?r sample_answer = sample_answer
     \<and> an_verdict sample_answer = VAllow"
    by code_simp
qed

text \<open>The report of an ended run says no more than the run holds: it exists only for a
  consistent run, its trust is always \<open>declared\<close>, the allowances are part of the commands, a
  newest command is inside the window, no more decisions are named than were allowed, and
  each decision is named once and in shape.\<close>

theorem contained_run_report_sound:
  assumes "contained_run_report run = Some body"
  shows "jget body ''trust'' = Some (JStr ''declared'')
     \<and> jget body ''instance'' = Some (JStr (cr_instance_id run)) \<and> is_instance_id (cr_instance_id run)
     \<and> jget body ''host_allowances'' =
         (if cr_host_allowances run = 0 then None else Some (jnum_u32 (cr_host_allowances run)))
     \<and> jget body ''last_ms'' = Some (if cr_commands run = 0 then JNull
           else jnum_u64 (the (cr_last_ms run)))
     \<and> (cr_commands run \<noteq> 0 \<longrightarrow> the (cr_last_ms run) \<in> {cr_started_ms run..cr_ended_ms run})
     \<and> length (cr_host_decisions run) \<le> unat (cr_host_allowances run)
     \<and> unat (cr_host_allowances run) \<le> unat (cr_commands run)
     \<and> distinct (map claim_key (cr_host_decisions run))"
proof -
  have c: "run_consistent run"
    using assms by (simp add: contained_run_report_def split: if_splits)
  then have d: "distinct (map claim_key (cr_host_decisions run))"
    using length_sort_dedup_distinct[of "map claim_key (cr_host_decisions run)"]
    by (simp add: run_consistent_def Let_def)
  have le: "unat (cr_host_allowances run) \<le> unat (cr_commands run)"
    using c by (simp add: run_consistent_def Let_def word_le_nat_alt)
  show ?thesis
  proof (cases "cr_commands run = 0")
    case True
    then show ?thesis using c d le assms
      by (auto simp: contained_run_report_def run_consistent_def Let_def jopt_def
          word_gt_0 split: if_splits)
  next
    case False
    then obtain ms where "cr_last_ms run = Some ms" "ms \<in> {cr_started_ms run..cr_ended_ms run}"
      using c by (auto simp: run_consistent_def Let_def)
    then show ?thesis using c d le assms False
      by (auto simp: contained_run_report_def run_consistent_def Let_def jopt_def
          word_gt_0 split: if_splits)
  qed
qed

definition sample_run :: contained_run where
  "sample_run = \<lparr>cr_instance_id = replicate 32 (CHR ''b''), cr_started_ms = 10, cr_ended_ms = 20,
     cr_graph = GraphRead, cr_commands = 3, cr_last_ms = Some 15, cr_host_allowances = 1,
     cr_host_decisions = [\<lparr>hdc_decision_id = replicate 32 (CHR ''0''),
       hdc_command_sha256 = replicate 64 (CHR ''f'')\<rparr>]\<rparr>"

theorem contained_run_report_sound_witness:
  "\<exists>body. contained_run_report sample_run = Some body \<and> jget body ''trust'' = Some (JStr ''declared'')"
proof -
  have "contained_run_report sample_run \<noteq> None" by code_simp
  then obtain body where "contained_run_report sample_run = Some body" by blast
  then show ?thesis using contained_run_report_sound by blast
qed

text \<open>The records of the examples.\<close>

definition sample_record :: launch_record where
  "sample_record = \<lparr>lr_schema = 1, lr_instance_id = replicate 32 (CHR ''a''),
     lr_agent_type = ''claude-code'',
     lr_launcher = \<lparr>la_path = ''/usr/bin/innerwarden'', la_version = ''0.17.4'', la_root_owned = True\<rparr>,
     lr_uid = 1000, lr_project = ''demo'', lr_mode = LmEnforce, lr_started_at = ''2026-01-01T00:00:00Z'',
     lr_jail = \<lparr>jl_backend = Bwrap, jl_pid = 42, jl_start_ticks = 7, jl_pid_ns = 100, jl_mnt_ns = 200,
                jl_userns_closed = None\<rparr>,
     lr_scope = Some \<lparr>scs_user = None, scs_system = Some
       \<lparr>sc_unit = SCOPE_UNIT_PREFIX @ replicate 32 (CHR ''a'') @ ''.scope'',
        sc_cgroup_path = system_scope_cgroup (SCOPE_UNIT_PREFIX @ replicate 32 (CHR ''a'') @ ''.scope'')\<rparr>\<rparr>\<rparr>"

theorem validated_scopes_identify_witness:
  "validate_launch_record sample_record = None
   \<and> system_cgroup_of sample_record \<noteq> None
   \<and> lr_instance_id sample_record = lr_instance_id (sample_record\<lparr>lr_uid := 7\<rparr>)"
proof -
  have "validate_launch_record sample_record = None" by code_simp
  moreover have "validate_launch_record (sample_record\<lparr>lr_uid := 7\<rparr>) = None" by code_simp
  moreover obtain c where "system_cgroup_of sample_record = Some c"
    "system_cgroup_of (sample_record\<lparr>lr_uid := 7\<rparr>) = Some c"
    by (simp add: sample_record_def system_cgroup_of_def)
  ultimately show ?thesis
    using validated_scopes_identify[of sample_record "sample_record\<lparr>lr_uid := 7\<rparr>" c] by simp
qed

text \<open>The documented example of the readings: the record above, read-only, by a process in its
  namespaces, is the strongest reading there is.\<close>

lemma sample_record_observed:
  "judge_trust_in_jail \<lparr>jf_record = ReadPresent sample_record True, jf_own_pid_ns = Some 100,
     jf_own_mnt_ns = Some 200\<rparr> = (Observed, ConfinedByNamespace)"
  by code_simp

end
