(* ===== verification/Profiles.thy ===== *)
theory Profiles
  imports Identity "HOL-Library.Option_ord"
begin

text \<open>
  \<^verbatim>\<open>src/crates/agent-guard/src/profiles.rs\<close>: the per-agent profiles. The file as written,
  the validation that turns it into the profiles applied, the check a user's file meets, the
  merge of the system's and the user's file, the rule a profile gives over a command or a
  tool, the decision of a shell command and of a tool call, the changes between two sets
  for the audit line, and whether a change widens a profile. Parsing TOML and RFC 3339 is
  third-party and is an argument. An error keeps where it was found and which of the
  messages it carries; the sentence itself is not modelled.
\<close>

subsection \<open>The file as written\<close>

definition PROFILES_SCHEMA :: u32 where "PROFILES_SCHEMA = 1"
definition PROFILES_SCHEMA_2 :: u32 where "PROFILES_SCHEMA_2 = 2"
definition READABLE_PROFILES_SCHEMAS :: "u32 list" where
  "READABLE_PROFILES_SCHEMAS = [PROFILES_SCHEMA, PROFILES_SCHEMA_2]"
definition MAX_PROFILES_BYTES :: nat where "MAX_PROFILES_BYTES = 64 * 1024"
definition GENERAL_PROFILE :: string where "GENERAL_PROFILE = ''general''"
definition MAX_PERSON_NAME_CHARS :: nat where "MAX_PERSON_NAME_CHARS = 64"
definition MAX_TYPES :: nat where "MAX_TYPES = 64"
definition MAX_ENTRIES :: nat where "MAX_ENTRIES = 128"
definition MAX_TOOL_NAME_BYTES :: nat where "MAX_TOOL_NAME_BYTES = 128"
definition MAX_PATH_BYTES :: nat where "MAX_PATH_BYTES = 4096"
definition MAX_GLOB_BYTES :: nat where "MAX_GLOB_BYTES = 255"
definition MAX_TIME_BYTES :: nat where "MAX_TIME_BYTES = 64"
definition MAX_HIDE_HOME :: nat where "MAX_HIDE_HOME = 32"
definition MAX_HIDE_HOME_BYTES :: nat where "MAX_HIDE_HOME_BYTES = 255"

record exception_entry =
  ee_instance_id :: string
  ee_category :: "string option"
  ee_mcp_tool :: "string option"

record agent_entry =
  ae_lifecycle :: "string option"
  ae_owner :: "string option"
  ae_profile :: "string option"
  ae_approved_by :: "string option"
  ae_approved_at :: "string option"
  ae_revoked_by :: "string option"
  ae_revoked_at :: "string option"
  ae_revoked_instances :: "string list"
  ae_allow_categories :: "string list"
  ae_mcp_tools_allow :: "string list"
  ae_exception :: "exception_entry list"

record jail_entry =
  je_project_rw :: "string option"
  je_extra_ro :: "string list"
  je_deny_read :: "string list"
  je_net :: "bool option"
  je_start :: "string option"
  je_hide_home :: "string list"

record profile_entry =
  pe_mode :: "string option"
  pe_allow_categories :: "string list"
  pe_deny_categories :: "string list"
  pe_mcp_tools_allow :: "string list"
  pe_mcp_tools_deny :: "string list"
  pe_jail :: "jail_entry option"
  pe_ask_host :: "string option"

record profiles_file =
  pfile_schema_version :: u32
  pfile_profile :: "(string, profile_entry) bmap"
  pfile_agent :: "(string, agent_entry) bmap"

subsection \<open>The profiles as applied\<close>

datatype profile_mode = Enforce | BlockReview

datatype ask_host = AskReview | EveryCommand

datatype jail_start = Always | OnlyWhenAdmitted

datatype profile_source = System | User

instantiation profile_mode :: linorder
begin

definition less_eq_profile_mode :: "profile_mode \<Rightarrow> profile_mode \<Rightarrow> bool" where
  "less_eq_profile_mode a b \<longleftrightarrow> a = Enforce \<or> b = BlockReview"

definition less_profile_mode :: "profile_mode \<Rightarrow> profile_mode \<Rightarrow> bool" where
  "less_profile_mode a b \<longleftrightarrow> a = Enforce \<and> b = BlockReview"

instance
proof
  fix x y z :: profile_mode
  show "(x < y) = (x \<le> y \<and> \<not> y \<le> x)" "x \<le> x" "x \<le> y \<or> y \<le> x"
    by (cases x; cases y; simp add: less_eq_profile_mode_def less_profile_mode_def)+
  show "x \<le> y \<Longrightarrow> y \<le> z \<Longrightarrow> x \<le> z" "x \<le> y \<Longrightarrow> y \<le> x \<Longrightarrow> x = y"
    by (cases x; cases y; cases z; simp add: less_eq_profile_mode_def)+
qed

end

instantiation jail_start :: linorder
begin

definition less_eq_jail_start :: "jail_start \<Rightarrow> jail_start \<Rightarrow> bool" where
  "less_eq_jail_start a b \<longleftrightarrow> a = Always \<or> b = OnlyWhenAdmitted"

definition less_jail_start :: "jail_start \<Rightarrow> jail_start \<Rightarrow> bool" where
  "less_jail_start a b \<longleftrightarrow> a = Always \<and> b = OnlyWhenAdmitted"

instance
proof
  fix x y z :: jail_start
  show "(x < y) = (x \<le> y \<and> \<not> y \<le> x)" "x \<le> x" "x \<le> y \<or> y \<le> x"
    by (cases x; cases y; simp add: less_eq_jail_start_def less_jail_start_def)+
  show "x \<le> y \<Longrightarrow> y \<le> z \<Longrightarrow> x \<le> z" "x \<le> y \<Longrightarrow> y \<le> x \<Longrightarrow> x = y"
    by (cases x; cases y; cases z; simp add: less_eq_jail_start_def)+
qed

end

fun profile_mode_as_str :: "profile_mode \<Rightarrow> string" where
  "profile_mode_as_str Enforce = ''enforce''"
| "profile_mode_as_str BlockReview = ''block-review''"

fun ask_host_as_str :: "ask_host \<Rightarrow> string" where
  "ask_host_as_str AskReview = ''review''"
| "ask_host_as_str EveryCommand = ''every_command''"

fun jail_start_as_str :: "jail_start \<Rightarrow> string" where
  "jail_start_as_str Always = ''always''"
| "jail_start_as_str OnlyWhenAdmitted = ''only_when_admitted''"

record jail_profile =
  jp_project_rw :: "string option"
  jp_extra_ro :: "string list"
  jp_deny_read :: "string list"
  jp_start :: "jail_start option"
  jp_hide_home :: "string list"

definition jail_profile_default :: jail_profile where
  "jail_profile_default = \<lparr>jp_project_rw = None, jp_extra_ro = [], jp_deny_read = [],
     jp_start = None, jp_hide_home = []\<rparr>"

definition jail_profile_start :: "jail_profile \<Rightarrow> jail_start" where
  "jail_profile_start j = (case jp_start j of Some s \<Rightarrow> s | None \<Rightarrow> Always)"

record agent_profile =
  ap_mode :: "profile_mode option"
  ap_allow_categories :: "string list"
  ap_deny_categories :: "string list"
  ap_mcp_tools_allow :: "string list"
  ap_mcp_tools_deny :: "string list"
  ap_jail :: jail_profile
  ap_ask_host :: "ask_host option"
  ap_source :: "profile_source option"

definition agent_profile_default :: agent_profile where
  "agent_profile_default = \<lparr>ap_mode = None, ap_allow_categories = [], ap_deny_categories = [],
     ap_mcp_tools_allow = [], ap_mcp_tools_deny = [], ap_jail = jail_profile_default,
     ap_ask_host = None, ap_source = None\<rparr>"

record instance_exception =
  ie_categories :: "string list"
  ie_mcp_tools :: "string list"

definition instance_exception_default :: instance_exception where
  "instance_exception_default = \<lparr>ie_categories = [], ie_mcp_tools = []\<rparr>"

record agent_record =
  ar_lifecycle :: "lifecycle option"
  ar_owner :: "string option"
  ar_profile :: "string option"
  ar_approved_by :: "string option"
  ar_approved_at :: "string option"
  ar_revoked_by :: "string option"
  ar_revoked_at :: "string option"
  ar_revoked_instances :: "string list"
  ar_allow_categories :: "string list"
  ar_mcp_tools_allow :: "string list"
  ar_exceptions :: "(string, instance_exception) bmap"

definition agent_record_default :: agent_record where
  "agent_record_default = \<lparr>ar_lifecycle = None, ar_owner = None, ar_profile = None,
     ar_approved_by = None, ar_approved_at = None, ar_revoked_by = None, ar_revoked_at = None,
     ar_revoked_instances = [], ar_allow_categories = [], ar_mcp_tools_allow = [],
     ar_exceptions = []\<rparr>"

definition record_lifecycle :: "agent_record \<Rightarrow> lifecycle" where
  "record_lifecycle r = (case ar_lifecycle r of Some l \<Rightarrow> l | None \<Rightarrow> Discovered)"

record agent_profiles =
  pf_types :: "(string, agent_profile) bmap"
  pf_agents :: "(string, agent_record) bmap"

datatype revocation = RevAgentType | RevInstance

fun revocation_sentence :: "revocation \<Rightarrow> string" where
  "revocation_sentence RevAgentType = ''Refused: this agent was revoked.''"
| "revocation_sentence RevInstance = ''Refused: this instance was revoked.''"

record record_facts =
  rcf_revoked :: "revocation option"
  rcf_exception :: "instance_exception option"

definition record_facts_default :: record_facts where
  "record_facts_default = \<lparr>rcf_revoked = None, rcf_exception = None\<rparr>"

definition profiles_ask_host :: "agent_profiles \<Rightarrow> string option \<Rightarrow> ask_host" where
  "profiles_ask_host ps agent_type =
     (case Option.bind (Option.bind agent_type (bget (pf_types ps))) ap_ask_host of
        Some a \<Rightarrow> a | None \<Rightarrow> AskReview)"

definition profiles_lifecycle :: "agent_profiles \<Rightarrow> string \<Rightarrow> lifecycle" where
  "profiles_lifecycle ps agent_type =
     (case bget (pf_agents ps) agent_type of Some r \<Rightarrow> record_lifecycle r | None \<Rightarrow> Discovered)"

definition profiles_revocation ::
  "agent_profiles \<Rightarrow> string option \<Rightarrow> string option \<Rightarrow> revocation option" where
  "profiles_revocation ps agent_type instance_id =
     (if is_some_and agent_type (\<lambda>name. profiles_lifecycle ps name = Revoked)
      then Some RevAgentType
      else case instance_id of
        None \<Rightarrow> None
      | Some i \<Rightarrow>
          if list_ex (\<lambda>(_, r). i \<in> set (ar_revoked_instances r)) (pf_agents ps)
          then Some RevInstance else None)"

definition profiles_facts ::
  "agent_profiles \<Rightarrow> string option \<Rightarrow> string option \<Rightarrow> record_facts" where
  "profiles_facts ps agent_type instance_id =
     \<lparr>rcf_revoked = profiles_revocation ps agent_type instance_id,
      rcf_exception =
        (case (agent_type, instance_id) of
           (Some name, Some i) \<Rightarrow>
             Option.bind (bget (pf_agents ps) name) (\<lambda>r. bget (ar_exceptions r) i)
         | _ \<Rightarrow> None)\<rparr>"

subsection \<open>Validation\<close>

datatype error_why =
    TooManyEntries nat | UnknownLifecycle string | NoSuchProfile string | NotInstanceId string
  | NotOneName | NotPersonName string | NotTime string | HardRule string | AtrCategory string
  | NotSignal string | NotToolName string | BothListed string | NeedsSchema2
  | UnknownValue string | MonitorMode | UnknownMode string | NetUnavailable | NotPath string
  | NotHomePath string | NotGlob string | OnlySystemFile

datatype profile_error =
    PeTooLarge | PeNotUtf8 | PeNotProfiles | PeSchema u32 | PeTooManyProfiles nat
  | PeTooManyAgents nat | PeNotAgentType string | PeReservedName | PeNotAgentTable string
  | PeProfile string string error_why
  | PeAgent string string error_why

type_synonym 'a checked = "profile_error + 'a"

definition is_agent_id :: "string \<Rightarrow> bool" where [shape_defs]:
  "is_agent_id v \<longleftrightarrow> v \<noteq> [] \<and> length v \<le> 64 \<and>
     list_all (\<lambda>b. is_ascii_lowercase b \<or> is_ascii_digit b \<or> b = CHR ''-'' \<or> b = CHR ''_'') v"

definition is_person_name :: "string \<Rightarrow> bool" where [shape_defs]:
  "is_person_name n \<longleftrightarrow> \<not> list_all is_whitespace (chars n)
     \<and> length (chars n) \<le> MAX_PERSON_NAME_CHARS \<and> \<not> list_ex is_control (chars n)"

definition person :: "string \<Rightarrow> string \<Rightarrow> string option \<Rightarrow> string option checked" where
  "person agent_type field value =
     (case value of
        Some name \<Rightarrow> if \<not> is_person_name name
          then Inl (PeAgent agent_type field (NotPersonName name)) else Inr value
      | None \<Rightarrow> Inr value)"

definition moment ::
  "(string \<Rightarrow> bool) \<Rightarrow> string \<Rightarrow> string \<Rightarrow> string option \<Rightarrow> string option checked" where
  "moment is_rfc3339 agent_type field value =
     (case value of
        Some at \<Rightarrow> if length at > MAX_TIME_BYTES \<or> \<not> is_rfc3339 at
          then Inl (PeAgent agent_type field (NotTime at)) else Inr value
      | None \<Rightarrow> Inr value)"

definition bounded :: "string \<Rightarrow> string \<Rightarrow> string list \<Rightarrow> unit checked" where
  "bounded agent_type field xs =
     rguard (length xs \<le> MAX_ENTRIES) (PeProfile agent_type field (TooManyEntries (length xs)))"

definition bounded_entries :: "string \<Rightarrow> string \<Rightarrow> nat \<Rightarrow> unit checked" where
  "bounded_entries agent_type field n =
     rguard (n \<le> MAX_ENTRIES) (PeAgent agent_type field (TooManyEntries n))"

text \<open>The private helper \<^verbatim>\<open>sorted\<close>: sort, then drop adjacent duplicates.\<close>

definition sorted_list :: "string list \<Rightarrow> string list" where
  "sorted_list xs = remdups_adj (sort xs)"

fun check_categories :: "string \<Rightarrow> string \<Rightarrow> string list \<Rightarrow> unit checked" where
  "check_categories agent_type field [] = Inr ()"
| "check_categories agent_type field (name # names) =
     (if name \<in> set SIGNAL_NAMES then check_categories agent_type field names
      else if starts_with name ''atr:'' then Inl (PeProfile agent_type field (AtrCategory name))
      else Inl (PeProfile agent_type field (NotSignal name)))"

definition categories :: "string \<Rightarrow> string \<Rightarrow> string list \<Rightarrow> string list checked" where
  "categories agent_type field xs =
     rbind (bounded agent_type field xs) (\<lambda>_.
     rbind (check_categories agent_type field xs) (\<lambda>_. Inr (sorted_list xs)))"

definition is_tool_name :: "string \<Rightarrow> bool" where [shape_defs]:
  "is_tool_name name \<longleftrightarrow> \<not> (name = [] \<or> length name > MAX_TOOL_NAME_BYTES
     \<or> list_ex (\<lambda>c. is_control c \<or> is_whitespace c) (chars name))"

text \<open>\<^verbatim>\<open>iter().find\<close> of the first entry that does not meet a test, as an error.\<close>

definition all_or :: "('a \<Rightarrow> bool) \<Rightarrow> ('a \<Rightarrow> profile_error) \<Rightarrow> 'a list \<Rightarrow> unit checked" where
  "all_or P err xs = (case find (\<lambda>x. \<not> P x) xs of Some x \<Rightarrow> Inl (err x) | None \<Rightarrow> Inr ())"

definition tools :: "string \<Rightarrow> string \<Rightarrow> string list \<Rightarrow> string list checked" where
  "tools agent_type field xs =
     rbind (bounded agent_type field xs) (\<lambda>_.
     rbind (all_or is_tool_name (\<lambda>n. PeProfile agent_type field (NotToolName n)) xs) (\<lambda>_.
     Inr (sorted_list xs)))"

definition allowed_categories :: "string \<Rightarrow> string \<Rightarrow> string list \<Rightarrow> string list checked" where
  "allowed_categories agent_type field xs =
     rbind (categories agent_type field xs) (\<lambda>ys.
     rbind (all_or (\<lambda>c. \<not> is_hard_signal c) (\<lambda>c. PeProfile agent_type field (HardRule c)) ys)
       (\<lambda>_. Inr ys))"

definition check_lifecycle :: "string \<Rightarrow> string option \<Rightarrow> lifecycle option checked" where
  "check_lifecycle agent_type v =
     (case v of
        None \<Rightarrow> Inr None
      | Some l \<Rightarrow>
          if l = ''approved'' then Inr (Some Approved)
          else if l = ''revoked'' then Inr (Some Revoked)
          else Inl (PeAgent agent_type ''lifecycle'' (UnknownLifecycle l)))"

text \<open>One pass of the loop over the exceptions: the slot of its instance grows.\<close>

definition exception_step ::
  "string \<Rightarrow> exception_entry \<Rightarrow> (string, instance_exception) bmap
   \<Rightarrow> (string, instance_exception) bmap checked" where
  "exception_step agent_type e exceptions =
     (if \<not> is_instance_id (ee_instance_id e)
      then Inl (PeAgent agent_type ''exception.instance_id'' (NotInstanceId (ee_instance_id e)))
      else case (ee_category e, ee_mcp_tool e) of
        (Some category, None) \<Rightarrow>
          rbind (allowed_categories agent_type ''exception.category'' [category]) (\<lambda>checked.
          Inr (bupsert instance_exception_default
            (\<lambda>slot. slot\<lparr>ie_categories := ie_categories slot @ checked\<rparr>)
            (ee_instance_id e) exceptions))
      | (None, Some tool) \<Rightarrow>
          rbind (tools agent_type ''exception.mcp_tool'' [tool]) (\<lambda>checked.
          Inr (bupsert instance_exception_default
            (\<lambda>slot. slot\<lparr>ie_mcp_tools := ie_mcp_tools slot @ checked\<rparr>)
            (ee_instance_id e) exceptions))
      | _ \<Rightarrow> Inl (PeAgent agent_type ''exception'' NotOneName))"

fun exceptions_loop ::
  "string \<Rightarrow> exception_entry list \<Rightarrow> (string, instance_exception) bmap
   \<Rightarrow> (string, instance_exception) bmap checked" where
  "exceptions_loop agent_type [] exceptions = Inr exceptions"
| "exceptions_loop agent_type (e # es) exceptions =
     rbind (exception_step agent_type e exceptions) (exceptions_loop agent_type es)"

definition sort_exception :: "instance_exception \<Rightarrow> instance_exception" where
  "sort_exception e = \<lparr>ie_categories = sorted_list (ie_categories e),
                       ie_mcp_tools = sorted_list (ie_mcp_tools e)\<rparr>"

definition validate_agent ::
  "(string \<Rightarrow> bool) \<Rightarrow> string \<Rightarrow> agent_entry \<Rightarrow> string list \<Rightarrow> agent_record checked" where
  "validate_agent is_rfc3339 agent_type entry profiles =
     rbind (check_lifecycle agent_type (ae_lifecycle entry)) (\<lambda>lifecycle.
     rbind (case ae_profile entry of
              Some name \<Rightarrow> rguard (name = GENERAL_PROFILE \<or> name \<in> set profiles)
                (PeAgent agent_type ''profile'' (NoSuchProfile name))
            | None \<Rightarrow> Inr ()) (\<lambda>_.
     rbind (bounded agent_type ''revoked_instances'' (ae_revoked_instances entry)) (\<lambda>_.
     rbind (all_or is_instance_id
              (\<lambda>i. PeAgent agent_type ''revoked_instances'' (NotInstanceId i))
              (ae_revoked_instances entry)) (\<lambda>_.
     rbind (allowed_categories agent_type ''allow_categories'' (ae_allow_categories entry))
       (\<lambda>allow_categories.
     rbind (tools agent_type ''mcp_tools_allow'' (ae_mcp_tools_allow entry)) (\<lambda>mcp_tools_allow.
     rbind (bounded_entries agent_type ''exception'' (length (ae_exception entry))) (\<lambda>_.
     rbind (exceptions_loop agent_type (ae_exception entry) []) (\<lambda>exceptions.
     rbind (person agent_type ''owner'' (ae_owner entry)) (\<lambda>owner.
     rbind (person agent_type ''approved_by'' (ae_approved_by entry)) (\<lambda>approved_by.
     rbind (moment is_rfc3339 agent_type ''approved_at'' (ae_approved_at entry)) (\<lambda>approved_at.
     rbind (person agent_type ''revoked_by'' (ae_revoked_by entry)) (\<lambda>revoked_by.
     rbind (moment is_rfc3339 agent_type ''revoked_at'' (ae_revoked_at entry)) (\<lambda>revoked_at.
     Inr \<lparr>ar_lifecycle = lifecycle, ar_owner = owner, ar_profile = ae_profile entry,
          ar_approved_by = approved_by, ar_approved_at = approved_at,
          ar_revoked_by = revoked_by, ar_revoked_at = revoked_at,
          ar_revoked_instances = sorted_list (ae_revoked_instances entry),
          ar_allow_categories = allow_categories, ar_mcp_tools_allow = mcp_tools_allow,
          ar_exceptions = map (\<lambda>(i, e). (i, sort_exception e)) exceptions\<rparr>)))))))))))))"

definition validate_ask_host ::
  "string \<Rightarrow> string option \<Rightarrow> u32 \<Rightarrow> ask_host option checked" where
  "validate_ask_host agent_type value schema =
     (case value of
        None \<Rightarrow> Inr None
      | Some v \<Rightarrow>
          if schema < PROFILES_SCHEMA_2 then Inl (PeProfile agent_type ''ask_host'' NeedsSchema2)
          else if v = ''review'' then Inr (Some AskReview)
          else if v = ''every_command'' then Inr (Some EveryCommand)
          else Inl (PeProfile agent_type ''ask_host'' (UnknownValue v)))"

definition is_jail_path :: "string \<Rightarrow> bool" where [shape_defs]:
  "is_jail_path path \<longleftrightarrow>
     (let steps_ok = (\<lambda>rest. length path \<le> MAX_PATH_BYTES
            \<and> \<not> list_ex is_control (chars path)
            \<and> list_all (\<lambda>step. step \<noteq> ''.'' \<and> step \<noteq> ''..'')
                (filter (\<lambda>step. step \<noteq> []) (split_on CHR ''/'' rest)))
      in case strip_prefix ''~/'' path of
           Some rest \<Rightarrow> steps_ok rest
         | None \<Rightarrow> (case strip_prefix ''/'' path of Some rest \<Rightarrow> steps_ok rest | None \<Rightarrow> False))"

definition is_home_path :: "string \<Rightarrow> bool" where [shape_defs]:
  "is_home_path path \<longleftrightarrow> path \<noteq> [] \<and> length path \<le> MAX_HIDE_HOME_BYTES
     \<and> \<not> (starts_with path ''/'' \<or> starts_with path ''~'')
     \<and> \<not> list_ex (\<lambda>c. is_control c \<or> c \<in> {42, 63, 91, 93}) (chars path)
     \<and> list_all (\<lambda>step. step \<noteq> [] \<and> step \<noteq> ''.'' \<and> step \<noteq> ''..'') (split_on CHR ''/'' path)"

definition is_project_glob :: "string \<Rightarrow> bool" where [shape_defs]:
  "is_project_glob glob \<longleftrightarrow> glob \<noteq> [] \<and> length glob \<le> MAX_GLOB_BYTES
     \<and> \<not> (starts_with glob ''/'' \<or> starts_with glob ''~'')
     \<and> \<not> list_ex is_control (chars glob)
     \<and> list_all (\<lambda>step. step \<noteq> ''..'') (split_on CHR ''/'' glob)"

definition validate_jail_start ::
  "string \<Rightarrow> string option \<Rightarrow> u32 \<Rightarrow> jail_start option checked" where
  "validate_jail_start agent_type value schema =
     (case value of
        None \<Rightarrow> Inr None
      | Some v \<Rightarrow>
          if schema < PROFILES_SCHEMA_2 then Inl (PeProfile agent_type ''jail.start'' NeedsSchema2)
          else if v = ''always'' then Inr (Some Always)
          else if v = ''only_when_admitted'' then Inr (Some OnlyWhenAdmitted)
          else Inl (PeProfile agent_type ''jail.start'' (UnknownValue v)))"

definition validate_hide_home ::
  "string \<Rightarrow> string list \<Rightarrow> u32 \<Rightarrow> string list checked" where
  "validate_hide_home agent_type xs schema =
     (if xs = [] then Inr xs
      else if schema < PROFILES_SCHEMA_2
        then Inl (PeProfile agent_type ''jail.hide_home'' NeedsSchema2)
      else if length xs > MAX_HIDE_HOME
        then Inl (PeProfile agent_type ''jail.hide_home'' (TooManyEntries (length xs)))
      else rbind (all_or is_home_path (\<lambda>p. PeProfile agent_type ''jail.hide_home'' (NotHomePath p)) xs)
        (\<lambda>_. Inr (sorted_list xs)))"

definition validate_jail :: "string \<Rightarrow> jail_entry \<Rightarrow> u32 \<Rightarrow> jail_profile checked" where
  "validate_jail agent_type j schema =
     rbind (validate_jail_start agent_type (je_start j) schema) (\<lambda>start.
     rbind (validate_hide_home agent_type (je_hide_home j) schema) (\<lambda>hide_home.
     rbind (rguard (je_net j \<noteq> Some False) (PeProfile agent_type ''jail.net'' NetUnavailable)) (\<lambda>_.
     rbind (case je_project_rw j of
              Some project \<Rightarrow> rguard (is_jail_path project)
                (PeProfile agent_type ''jail.project_rw'' (NotPath project))
            | None \<Rightarrow> Inr ()) (\<lambda>_.
     rbind (bounded agent_type ''jail.extra_ro'' (je_extra_ro j)) (\<lambda>_.
     rbind (all_or is_jail_path (\<lambda>p. PeProfile agent_type ''jail.extra_ro'' (NotPath p))
              (je_extra_ro j)) (\<lambda>_.
     rbind (bounded agent_type ''jail.deny_read'' (je_deny_read j)) (\<lambda>_.
     rbind (all_or is_project_glob (\<lambda>g. PeProfile agent_type ''jail.deny_read'' (NotGlob g))
              (je_deny_read j)) (\<lambda>_.
     Inr \<lparr>jp_project_rw = je_project_rw j, jp_extra_ro = sorted_list (je_extra_ro j),
          jp_deny_read = sorted_list (je_deny_read j), jp_start = start,
          jp_hide_home = hide_home\<rparr>))))))))"

definition check_mode :: "string \<Rightarrow> string option \<Rightarrow> profile_mode option checked" where
  "check_mode agent_type v =
     (case v of
        None \<Rightarrow> Inr None
      | Some m \<Rightarrow>
          if m = ''enforce'' then Inr (Some Enforce)
          else if m = ''block-review'' then Inr (Some BlockReview)
          else if m = ''monitor'' then Inl (PeProfile agent_type ''mode'' MonitorMode)
          else Inl (PeProfile agent_type ''mode'' (UnknownMode m)))"

definition validate_entry :: "string \<Rightarrow> profile_entry \<Rightarrow> u32 \<Rightarrow> agent_profile checked" where
  "validate_entry agent_type entry schema =
     rbind (validate_ask_host agent_type (pe_ask_host entry) schema) (\<lambda>ask_host.
     rbind (check_mode agent_type (pe_mode entry)) (\<lambda>mode.
     rbind (categories agent_type ''allow_categories'' (pe_allow_categories entry)) (\<lambda>allow_categories.
     rbind (categories agent_type ''deny_categories'' (pe_deny_categories entry)) (\<lambda>deny_categories.
     rbind (all_or (\<lambda>c. \<not> is_hard_signal c)
              (\<lambda>c. PeProfile agent_type ''allow_categories'' (HardRule c)) allow_categories) (\<lambda>_.
     rbind (all_or (\<lambda>c. c \<notin> set deny_categories)
              (\<lambda>c. PeProfile agent_type ''allow_categories'' (BothListed c)) allow_categories) (\<lambda>_.
     rbind (tools agent_type ''mcp_tools_allow'' (pe_mcp_tools_allow entry)) (\<lambda>mcp_tools_allow.
     rbind (tools agent_type ''mcp_tools_deny'' (pe_mcp_tools_deny entry)) (\<lambda>mcp_tools_deny.
     rbind (all_or (\<lambda>t. t \<notin> set mcp_tools_deny)
              (\<lambda>t. PeProfile agent_type ''mcp_tools_allow'' (BothListed t)) mcp_tools_allow) (\<lambda>_.
     rbind (case pe_jail entry of
              None \<Rightarrow> Inr jail_profile_default
            | Some j \<Rightarrow> validate_jail agent_type j schema) (\<lambda>j.
     Inr \<lparr>ap_mode = mode, ap_allow_categories = allow_categories,
          ap_deny_categories = deny_categories, ap_mcp_tools_allow = mcp_tools_allow,
          ap_mcp_tools_deny = mcp_tools_deny, ap_jail = j, ap_ask_host = ask_host,
          ap_source = None\<rparr>))))))))))"

definition validate_type :: "u32 \<Rightarrow> string \<Rightarrow> profile_entry \<Rightarrow> agent_profile checked" where
  "validate_type schema agent_type entry =
     (if \<not> is_agent_id agent_type then Inl (PeNotAgentType agent_type)
      else if agent_type = GENERAL_PROFILE then Inl PeReservedName
      else validate_entry agent_type entry schema)"

definition validate_agent_table ::
  "(string \<Rightarrow> bool) \<Rightarrow> string list \<Rightarrow> string \<Rightarrow> agent_entry \<Rightarrow> agent_record checked" where
  "validate_agent_table is_rfc3339 names agent_type entry =
     (if \<not> is_agent_id agent_type then Inl (PeNotAgentTable agent_type)
      else validate_agent is_rfc3339 agent_type entry names)"

definition validate_profiles ::
  "(string \<Rightarrow> bool) \<Rightarrow> profiles_file \<Rightarrow> agent_profiles checked" where
  "validate_profiles is_rfc3339 file =
     (if pfile_schema_version file \<notin> set READABLE_PROFILES_SCHEMAS
        then Inl (PeSchema (pfile_schema_version file))
      else if length (pfile_profile file) > MAX_TYPES
        then Inl (PeTooManyProfiles (length (pfile_profile file)))
      else if length (pfile_agent file) > MAX_TYPES
        then Inl (PeTooManyAgents (length (pfile_agent file)))
      else
        rbind (rtraverse (validate_type (pfile_schema_version file)) (pfile_profile file)) (\<lambda>types.
        rbind (rtraverse (validate_agent_table is_rfc3339 (map fst (pfile_profile file)))
                 (pfile_agent file)) (\<lambda>agents.
        Inr \<lparr>pf_types = types, pf_agents = agents\<rparr>)))"

text \<open>\<open>from_toml\<close> stands for \<^verbatim>\<open>toml::from_str\<close>.\<close>

definition parse_profiles ::
  "(string \<Rightarrow> profiles_file option) \<Rightarrow> (string \<Rightarrow> bool) \<Rightarrow> bytes \<Rightarrow> agent_profiles checked" where
  "parse_profiles from_toml is_rfc3339 bs =
     (if length bs > MAX_PROFILES_BYTES then Inl PeTooLarge
      else case from_utf8 bs of
        None \<Rightarrow> Inl PeNotUtf8
      | Some t \<Rightarrow> (case from_toml t of
          None \<Rightarrow> Inl PeNotProfiles
        | Some file \<Rightarrow> validate_profiles is_rfc3339 file))"

text \<open>The first field of a record or a profile only the system file may set.\<close>

definition record_relaxing_field :: "agent_record \<Rightarrow> string option" where
  "record_relaxing_field r =
     (if ar_allow_categories r \<noteq> [] then Some ''allow_categories''
      else if ar_mcp_tools_allow r \<noteq> [] then Some ''mcp_tools_allow''
      else if ar_exceptions r \<noteq> [] then Some ''exception'' else None)"

definition profile_relaxing_field :: "agent_profile \<Rightarrow> string option" where
  "profile_relaxing_field p =
     (if ap_allow_categories p \<noteq> [] then Some ''allow_categories''
      else if ap_mcp_tools_allow p \<noteq> [] then Some ''mcp_tools_allow''
      else if ap_mode p = Some Enforce then Some ''mode'' else None)"

fun first_field :: "('v \<Rightarrow> string option) \<Rightarrow> (string \<times> 'v) list \<Rightarrow> (string \<times> string) option" where
  "first_field f [] = None"
| "first_field f ((k, v) # m) =
     (case f v of Some field \<Rightarrow> Some (k, field) | None \<Rightarrow> first_field f m)"

definition check_user_file :: "agent_profiles \<Rightarrow> unit checked" where
  "check_user_file ps =
     (case first_field (\<lambda>p. map_option (\<lambda>_. ''ask_host'') (ap_ask_host p)) (pf_types ps) of
        Some (t, field) \<Rightarrow> Inl (PeProfile t field OnlySystemFile)
      | None \<Rightarrow>
        (case first_field record_relaxing_field (pf_agents ps) of
           Some (t, field) \<Rightarrow> Inl (PeAgent t field OnlySystemFile)
         | None \<Rightarrow>
           (case first_field profile_relaxing_field (pf_types ps) of
              Some (t, field) \<Rightarrow> Inl (PeProfile t field OnlySystemFile)
            | None \<Rightarrow> Inr ())))"

subsection \<open>The merge of two files\<close>

definition union :: "string list \<Rightarrow> string list \<Rightarrow> string list" where
  "union left right = sorted_list (left @ right)"

text \<open>What one \<^verbatim>\<open>[agent.<type>]\<close> table resolves its type's profile to.\<close>

definition resolved_base :: "agent_profiles \<Rightarrow> string \<Rightarrow> agent_record \<Rightarrow> agent_profile option" where
  "resolved_base ps agent_type r =
     (let base = (case ar_profile r of
            None \<Rightarrow> bget (pf_types ps) agent_type
          | Some name \<Rightarrow> if name = GENERAL_PROFILE then None else bget (pf_types ps) name)
      in if ar_allow_categories r \<noteq> [] \<or> ar_mcp_tools_allow r \<noteq> [] then
           (let p = (case base of Some p \<Rightarrow> p | None \<Rightarrow> agent_profile_default) in
            Some (p\<lparr>ap_allow_categories := sorted_list (ap_allow_categories p @ ar_allow_categories r),
                    ap_mcp_tools_allow := sorted_list (ap_mcp_tools_allow p @ ar_mcp_tools_allow r)\<rparr>))
         else base)"

definition resolved_types ::
  "agent_profiles \<Rightarrow> profile_source \<Rightarrow> (string, agent_profile) bmap" where
  "resolved_types ps source =
     map (\<lambda>(t, p). (t, p\<lparr>ap_source := Some source\<rparr>))
       (fold (\<lambda>(t, r) types.
                case resolved_base ps t r of Some p \<Rightarrow> bput t p types | None \<Rightarrow> bdel t types)
          (pf_agents ps) (pf_types ps))"

definition merge_jail :: "jail_profile \<Rightarrow> jail_profile \<Rightarrow> jail_profile" where
  "merge_jail merged j =
     \<lparr>jp_project_rw = (if jp_project_rw j \<noteq> None then jp_project_rw j else jp_project_rw merged),
      jp_extra_ro = union (jp_extra_ro merged) (jp_extra_ro j),
      jp_deny_read = union (jp_deny_read merged) (jp_deny_read j),
      jp_start = max (jp_start merged) (jp_start j),
      jp_hide_home = union (jp_hide_home merged) (jp_hide_home j)\<rparr>"

definition merge_profile :: "agent_profile \<Rightarrow> agent_profile \<Rightarrow> agent_profile" where
  "merge_profile p merged =
     \<lparr>ap_mode = max (ap_mode merged) (ap_mode p),
      ap_allow_categories = union (ap_allow_categories merged) (ap_allow_categories p),
      ap_deny_categories = union (ap_deny_categories merged) (ap_deny_categories p),
      ap_mcp_tools_allow = union (ap_mcp_tools_allow merged) (ap_mcp_tools_allow p),
      ap_mcp_tools_deny = union (ap_mcp_tools_deny merged) (ap_mcp_tools_deny p),
      ap_jail = merge_jail (ap_jail merged) (ap_jail p),
      ap_ask_host = (if ap_source p = Some System then ap_ask_host p else ap_ask_host merged),
      ap_source = (if ap_source merged = None then ap_source p else ap_source merged)\<rparr>"

definition merge_exception :: "instance_exception \<Rightarrow> instance_exception \<Rightarrow> instance_exception" where
  "merge_exception e slot =
     \<lparr>ie_categories = union (ie_categories slot) (ie_categories e),
      ie_mcp_tools = union (ie_mcp_tools slot) (ie_mcp_tools e)\<rparr>"

definition first_some :: "'a option \<Rightarrow> 'a option \<Rightarrow> 'a option" where
  "first_some left right = (if left = None then right else left)"

definition merge_lifecycle :: "lifecycle option \<Rightarrow> lifecycle option \<Rightarrow> lifecycle option" where
  "merge_lifecycle a b =
     (if a = Some Revoked \<or> b = Some Revoked then Some Revoked
      else if a = Some Approved \<or> b = Some Approved then Some Approved else None)"

definition merge_record :: "agent_record \<Rightarrow> agent_record \<Rightarrow> agent_record" where
  "merge_record nxt merged =
     (let who = ar_revoked_by merged = None \<and> ar_revoked_at merged = None in
     \<lparr>ar_lifecycle = merge_lifecycle (ar_lifecycle merged) (ar_lifecycle nxt),
      ar_owner = first_some (ar_owner merged) (ar_owner nxt),
      ar_profile = first_some (ar_profile merged) (ar_profile nxt),
      ar_approved_by = first_some (ar_approved_by merged) (ar_approved_by nxt),
      ar_approved_at = first_some (ar_approved_at merged) (ar_approved_at nxt),
      ar_revoked_by = (if who then ar_revoked_by nxt else ar_revoked_by merged),
      ar_revoked_at = (if who then ar_revoked_at nxt else ar_revoked_at merged),
      ar_revoked_instances = union (ar_revoked_instances merged) (ar_revoked_instances nxt),
      ar_allow_categories = union (ar_allow_categories merged) (ar_allow_categories nxt),
      ar_mcp_tools_allow = union (ar_mcp_tools_allow merged) (ar_mcp_tools_allow nxt),
      ar_exceptions = fold (\<lambda>(i, e). bupsert instance_exception_default (merge_exception e) i)
        (ar_exceptions nxt) (ar_exceptions merged)\<rparr>)"

definition some_list :: "'a option \<Rightarrow> 'a list" where
  "some_list x = (case x of Some y \<Rightarrow> [y] | None \<Rightarrow> [])"

definition merge :: "agent_profiles option \<Rightarrow> agent_profiles option \<Rightarrow> agent_profiles" where
  "merge sys usr =
     \<lparr>pf_types =
        fold (\<lambda>side types. fold (\<lambda>(t, p). bupsert agent_profile_default (merge_profile p) t) side types)
          (some_list (map_option (\<lambda>p. resolved_types p System) sys)
             @ some_list (map_option (\<lambda>p. resolved_types p User) usr)) [],
      pf_agents =
        fold (\<lambda>ps agents. fold (\<lambda>(t, r). bupsert agent_record_default (merge_record r) t)
                (pf_agents ps) agents)
          (some_list sys @ some_list usr) []\<rparr>"

subsection \<open>Decisions\<close>

definition command_rule :: "agent_profile \<Rightarrow> string list \<Rightarrow> layer_rule option" where
  "command_rule p charged =
     (if list_ex (\<lambda>name. name \<in> set (ap_deny_categories p)) charged then Some RDeny
      else if charged \<noteq> [] \<and> list_all (\<lambda>name. name \<in> set (ap_allow_categories p)) charged
        then Some RAllow
      else None)"

definition tool_rule :: "agent_profile \<Rightarrow> string \<Rightarrow> string list \<Rightarrow> layer_rule option" where
  "tool_rule p tool charged =
     (if tool \<in> set (ap_mcp_tools_deny p)
         \<or> list_ex (\<lambda>name. name \<in> set (ap_deny_categories p)) charged then Some RDeny
      else if tool \<in> set (ap_mcp_tools_allow p)
         \<and> list_all (\<lambda>name. name \<in> set (ap_allow_categories p)) charged then Some RAllow
      else None)"

definition review_blocks :: "bool \<Rightarrow> profile_mode option \<Rightarrow> trust \<Rightarrow> bool" where
  "review_blocks line_block_review mode t =
     (if mode = Some BlockReview then True
      else if mode = Some Enforce \<and> t = Confined then False
      else line_block_review)"

record shell_call =
  sh_general :: verdict
  sh_charged :: "string list"
  sh_blocks_today :: bool
  sh_names_llm_key :: bool
  sh_tainted :: bool

record shell_outcome =
  so_decision :: decision
  so_blocks :: bool
  so_note :: "string option"
  so_relaxation_withheld :: bool

fun verdict_word :: "verdict \<Rightarrow> string" where
  "verdict_word VAllow = ''allow''"
| "verdict_word VReview = ''review''"
| "verdict_word VDeny = ''deny''"

definition exception_command_rule ::
  "instance_exception \<Rightarrow> string list \<Rightarrow> layer_rule option" where
  "exception_command_rule e charged =
     (if charged \<noteq> [] \<and> list_all (\<lambda>name. name \<in> set (ie_categories e)) charged
      then Some RAllow else None)"

definition relaxation_withheld :: "layers \<Rightarrow> trust \<Rightarrow> decision \<Rightarrow> bool" where
  "relaxation_withheld l t d =
     (if t = Confined \<or> dn_deciding_layer d \<noteq> LGeneral then False
      else let c = decide l Confined in
        dn_verdict c = VAllow \<and> (dn_deciding_layer c = LAgentType \<or> dn_deciding_layer c = LInstance))"

text \<open>The layers a shell call puts to \<^verbatim>\<open>decide\<close>.\<close>

definition hard_signal :: "shell_call \<Rightarrow> bool" where
  "hard_signal call \<longleftrightarrow> sh_blocks_today call \<and> list_ex is_hard_signal (sh_charged call)"

definition shell_layers ::
  "shell_call \<Rightarrow> (string \<times> agent_profile) option \<Rightarrow> record_facts \<Rightarrow> layers" where
  "shell_layers call profile rcd =
     \<lparr>ly_hard_refused = sh_names_llm_key call \<or> hard_signal call \<or> rcf_revoked rcd \<noteq> None,
      ly_general = sh_general call,
      ly_agent_type =
        opt_filter (\<lambda>rule. \<not> (sh_tainted call \<and> rule = RAllow))
          (Option.bind profile (\<lambda>(_, p). command_rule p (sh_charged call))),
      ly_instance =
        opt_filter (\<lambda>_. \<not> sh_tainted call)
          (Option.bind (rcf_exception rcd) (\<lambda>e. exception_command_rule e (sh_charged call)))\<rparr>"

definition shell_note ::
  "shell_call \<Rightarrow> (string \<times> agent_profile) option \<Rightarrow> record_facts \<Rightarrow> bool \<Rightarrow> bool \<Rightarrow> decision
   \<Rightarrow> string option" where
  "shell_note call profile rcd line_block_review review d =
     (let name = (case profile of Some (n, _) \<Rightarrow> n | None \<Rightarrow> '''') in
      if dn_deciding_layer d = LHard \<and> rcf_revoked rcd \<noteq> None \<and> \<not> hard_signal call then
        map_option revocation_sentence (rcf_revoked rcd)
      else if dn_deciding_layer d = LHard \<and> sh_names_llm_key call \<and> \<not> hard_signal call then
        Some ''hard rule: the command reaches the guard's own LLM key''
      else if dn_deciding_layer d = LInstance \<and> dn_verdict d = VAllow then
        Some (''an exception for this confined instance allows '' @ join '', '' (sh_charged call))
      else if dn_deciding_layer d = LAgentType \<and> dn_verdict d = VDeny then
        Some (''the `'' @ name @ ''` agent profile denies ''
          @ (case profile of
               Some (_, p) \<Rightarrow>
                 join '', '' (filter (\<lambda>s. s \<in> set (ap_deny_categories p)) (sh_charged call))
             | None \<Rightarrow> ''''))
      else if dn_deciding_layer d = LAgentType \<and> dn_verdict d = VAllow then
        Some (''the `'' @ name @ ''` agent profile allows '' @ join '', '' (sh_charged call)
          @ '' for this confined instance'')
      else if dn_verdict d = VReview \<and> review \<noteq> line_block_review then
        Some (if review then ''the `'' @ name @ ''` agent profile holds a review to block''
              else ''the `'' @ name @ ''` agent profile lets a review run for this confined instance'')
      else None)"

definition decide_shell_in ::
  "shell_call \<Rightarrow> (string \<times> agent_profile) option \<Rightarrow> record_facts \<Rightarrow> bool \<Rightarrow> trust \<Rightarrow> shell_outcome"
where
  "decide_shell_in call profile rcd line_block_review t =
     (let l = shell_layers call profile rcd;
          d = decide l t;
          review = review_blocks line_block_review (Option.bind profile (\<lambda>(_, p). ap_mode p)) t
      in \<lparr>so_decision = d,
          so_blocks = (case dn_verdict d of VDeny \<Rightarrow> True | VReview \<Rightarrow> review | VAllow \<Rightarrow> False),
          so_note = shell_note call profile rcd line_block_review review d,
          so_relaxation_withheld = relaxation_withheld l t d\<rparr>)"

definition decide_shell ::
  "shell_call \<Rightarrow> (string \<times> agent_profile) option \<Rightarrow> bool \<Rightarrow> trust \<Rightarrow> shell_outcome" where
  "decide_shell call profile line_block_review t =
     decide_shell_in call profile record_facts_default line_block_review t"

record tool_call_facts =
  tc_tool :: string
  tc_allowed :: bool
  tc_has_alerts :: bool
  tc_charged :: "string list"
  tc_hard_alert :: bool
  tc_names_llm_key :: bool

definition tool_general :: "tool_call_facts \<Rightarrow> verdict" where
  "tool_general call =
     (if \<not> tc_allowed call then VDeny else if tc_has_alerts call then VReview else VAllow)"

definition tool_hard_rule :: "tool_call_facts \<Rightarrow> bool" where
  "tool_hard_rule call \<longleftrightarrow>
     \<not> tc_allowed call \<and> (tc_hard_alert call \<or> list_ex is_hard_signal (tc_charged call))"

definition tool_layers ::
  "tool_call_facts \<Rightarrow> (string \<times> agent_profile) option \<Rightarrow> revocation option \<Rightarrow> layers" where
  "tool_layers call profile revoked =
     \<lparr>ly_hard_refused = tc_names_llm_key call \<or> tool_hard_rule call \<or> revoked \<noteq> None,
      ly_general = tool_general call,
      ly_agent_type = Option.bind profile (\<lambda>(_, p). tool_rule p (tc_tool call) (tc_charged call)),
      ly_instance = None\<rparr>"

definition decide_tool_call_in ::
  "tool_call_facts \<Rightarrow> (string \<times> agent_profile) option \<Rightarrow> revocation option \<Rightarrow> trust
   \<Rightarrow> decision \<times> string option" where
  "decide_tool_call_in call profile revoked t =
     (let d = decide (tool_layers call profile revoked) t;
          name = (case profile of Some (n, _) \<Rightarrow> n | None \<Rightarrow> '''')
      in (d,
          if dn_deciding_layer d = LHard \<and> revoked \<noteq> None \<and> \<not> tool_hard_rule call then
            map_option revocation_sentence revoked
          else if dn_deciding_layer d = LHard \<and> tc_names_llm_key call \<and> \<not> tool_hard_rule call then
            Some ''hard rule: the call reaches the guard's own LLM key''
          else if dn_deciding_layer d = LAgentType \<and> dn_verdict d = VDeny then
            Some (''the `'' @ name @ ''` agent profile denies the tool `'' @ tc_tool call @ ''`'')
          else None))"

definition decide_tool_call ::
  "tool_call_facts \<Rightarrow> (string \<times> agent_profile) option \<Rightarrow> trust \<Rightarrow> decision \<times> string option" where
  "decide_tool_call call profile t = decide_tool_call_in call profile None t"

datatype proxy_profile =
    ProxyActive (px_agent_type: "string option") (px_profile: "agent_profile option")
      (px_trust: trust) (px_revoked: "revocation option")
  | ProxyInvalid (px_why: string)

subsection \<open>What changed\<close>

record profile_change =
  pc_layer :: rule_layer
  pc_action :: string
  pc_agent_type :: string
  pc_value :: string

definition to_type :: "string \<Rightarrow> string \<Rightarrow> string \<Rightarrow> profile_change" where
  "to_type action agent_type value =
     \<lparr>pc_layer = LAgentType, pc_action = action, pc_agent_type = agent_type, pc_value = value\<rparr>"

fun lifecycle_as_str :: "lifecycle \<Rightarrow> string" where
  "lifecycle_as_str Discovered = ''discovered''"
| "lifecycle_as_str Approved = ''approved''"
| "lifecycle_as_str Revoked = ''revoked''"

definition opt_str :: "('a \<Rightarrow> string) \<Rightarrow> 'a option \<Rightarrow> string" where
  "opt_str f v = (case v of Some x \<Rightarrow> f x | None \<Rightarrow> '''')"

definition list_changes ::
  "(string \<Rightarrow> string \<Rightarrow> profile_change) \<Rightarrow> string \<Rightarrow> string list \<Rightarrow> string list \<Rightarrow> profile_change list"
where
  "list_changes push label old new =
     map (\<lambda>v. push (label @ ''_added'') v) (filter (\<lambda>v. v \<notin> set old) new)
     @ map (\<lambda>v. push (label @ ''_removed'') v) (filter (\<lambda>v. v \<notin> set new) old)"

definition type_changes ::
  "string \<Rightarrow> agent_profile option \<Rightarrow> agent_profile option \<Rightarrow> profile_change list" where
  "type_changes name old new =
     (let push = (\<lambda>action value. to_type action name value);
          o' = (case old of Some p \<Rightarrow> p | None \<Rightarrow> agent_profile_default);
          n' = (case new of Some p \<Rightarrow> p | None \<Rightarrow> agent_profile_default) in
      (case (old, new) of
         (None, Some _) \<Rightarrow> [push ''profile_added'' '''']
       | (Some _, None) \<Rightarrow> [push ''profile_removed'' '''']
       | _ \<Rightarrow> [])
      @ (if ap_mode o' \<noteq> ap_mode n'
         then [push ''mode_changed'' (opt_str profile_mode_as_str (ap_mode n'))] else [])
      @ (if jp_project_rw (ap_jail o') \<noteq> jp_project_rw (ap_jail n')
         then [push ''jail_project_rw_changed'' (opt_str (\<lambda>x. x) (jp_project_rw (ap_jail n')))] else [])
      @ (if ap_ask_host o' \<noteq> ap_ask_host n'
         then [push ''ask_host_changed'' (opt_str ask_host_as_str (ap_ask_host n'))] else [])
      @ (if jp_start (ap_jail o') \<noteq> jp_start (ap_jail n')
         then [push ''jail_start_changed'' (opt_str jail_start_as_str (jp_start (ap_jail n')))] else [])
      @ list_changes push ''allow_category'' (ap_allow_categories o') (ap_allow_categories n')
      @ list_changes push ''deny_category'' (ap_deny_categories o') (ap_deny_categories n')
      @ list_changes push ''mcp_tool_allow'' (ap_mcp_tools_allow o') (ap_mcp_tools_allow n')
      @ list_changes push ''mcp_tool_deny'' (ap_mcp_tools_deny o') (ap_mcp_tools_deny n')
      @ list_changes push ''jail_extra_ro'' (jp_extra_ro (ap_jail o')) (jp_extra_ro (ap_jail n'))
      @ list_changes push ''jail_deny_read'' (jp_deny_read (ap_jail o')) (jp_deny_read (ap_jail n'))
      @ list_changes push ''jail_hide_home'' (jp_hide_home (ap_jail o')) (jp_hide_home (ap_jail n')))"

definition exception_changes ::
  "string \<Rightarrow> agent_record \<Rightarrow> agent_record \<Rightarrow> string \<Rightarrow> profile_change list" where
  "exception_changes name old new i =
     (let was = (case bget (ar_exceptions old) i of Some e \<Rightarrow> e | None \<Rightarrow> instance_exception_default);
          is = (case bget (ar_exceptions new) i of Some e \<Rightarrow> e | None \<Rightarrow> instance_exception_default);
          push = (\<lambda>action v. \<lparr>pc_layer = LInstance, pc_action = action, pc_agent_type = name,
                              pc_value = i @ '' '' @ v\<rparr>) in
      list_changes push ''exception_category'' (ie_categories was) (ie_categories is)
      @ list_changes push ''exception_mcp_tool'' (ie_mcp_tools was) (ie_mcp_tools is))"

definition agent_changes ::
  "string \<Rightarrow> agent_record \<Rightarrow> agent_record \<Rightarrow> profile_change list" where
  "agent_changes name old new =
     (let push = (\<lambda>layer action v. \<lparr>pc_layer = layer, pc_action = action, pc_agent_type = name,
                                     pc_value = v\<rparr>) in
      (if record_lifecycle old \<noteq> record_lifecycle new
       then [push LAgentType ''lifecycle_changed'' (lifecycle_as_str (record_lifecycle new))] else [])
      @ (if ar_profile old \<noteq> ar_profile new
         then [push LAgentType ''profile_assigned'' (opt_str (\<lambda>x. x) (ar_profile new))] else [])
      @ map (push LInstance ''instance_revoked'')
          (filter (\<lambda>i. i \<notin> set (ar_revoked_instances old)) (ar_revoked_instances new))
      @ map (push LInstance ''instance_revocation_removed'')
          (filter (\<lambda>i. i \<notin> set (ar_revoked_instances new)) (ar_revoked_instances old))
      @ concat (map (exception_changes name old new)
          (sort_dedup (map fst (ar_exceptions old) @ map fst (ar_exceptions new)))))"

definition record_changes :: "agent_profiles \<Rightarrow> agent_profiles \<Rightarrow> profile_change list" where
  "record_changes before after =
     concat (map (\<lambda>name. agent_changes name
         (case bget (pf_agents before) name of Some r \<Rightarrow> r | None \<Rightarrow> agent_record_default)
         (case bget (pf_agents after) name of Some r \<Rightarrow> r | None \<Rightarrow> agent_record_default))
       (sort_dedup (map fst (pf_agents before) @ map fst (pf_agents after))))"

definition changes :: "agent_profiles \<Rightarrow> agent_profiles \<Rightarrow> profile_change list" where
  "changes before after =
     concat (map (\<lambda>name. type_changes name (bget (pf_types before) name) (bget (pf_types after) name))
       (sort_dedup (map fst (pf_types before) @ map fst (pf_types after))))
     @ record_changes before after"

subsection \<open>What a profile says, and whether a change widens it\<close>

definition describe :: "agent_profile option \<Rightarrow> string list" where
  "describe profile =
     (case profile of
        None \<Rightarrow> [''Your general rules, nothing added.'']
      | Some p \<Rightarrow>
         (let items = (\<lambda>label xs. if xs \<noteq> [] then [label @ '': '' @ join '', '' xs @ ''.''] else []);
              out =
                items ''Runs without review, when confined'' (ap_allow_categories p)
                @ items ''Refused'' (ap_deny_categories p)
                @ items ''MCP tools let through, when confined'' (ap_mcp_tools_allow p)
                @ items ''MCP tools refused'' (ap_mcp_tools_deny p)
                @ (case ap_mode p of
                     Some BlockReview \<Rightarrow> [''A review is refused too.'']
                   | Some Enforce \<Rightarrow> [''A review runs, when confined.'']
                   | None \<Rightarrow> [])
                @ (case jp_project_rw (ap_jail p) of
                     Some project \<Rightarrow> [''Project folder read-write in the jail: '' @ project @ ''.'']
                   | None \<Rightarrow> [])
                @ items ''Read-only in the jail'' (jp_extra_ro (ap_jail p))
                @ items ''Hidden in the jail'' (jp_deny_read (ap_jail p))
                @ items ''Hidden from the home in the jail'' (jp_hide_home (ap_jail p))
                @ (if jail_profile_start (ap_jail p) = OnlyWhenAdmitted then
                     [''The jail starts only when InnerWarden Pro on this host admits it.''] else [])
                @ (if ap_ask_host p = Some EveryCommand then
                     [''In a jail, InnerWarden Pro on this host is asked about every shell command, not only a review.'']
                   else [])
          in if out = [] then [''Your general rules, nothing added.''] else out))"

definition mode_strictness :: "profile_mode option \<Rightarrow> nat" where
  "mode_strictness mode =
     (case mode of Some BlockReview \<Rightarrow> 2 | None \<Rightarrow> 1 | Some Enforce \<Rightarrow> 0)"

definition gains :: "string list \<Rightarrow> string list \<Rightarrow> bool" where
  "gains old new \<longleftrightarrow> list_ex (\<lambda>v. v \<notin> set old) new"

definition relaxes :: "agent_profile option \<Rightarrow> agent_profile option \<Rightarrow> bool" where
  "relaxes before after \<longleftrightarrow>
     (let b = (case before of Some p \<Rightarrow> p | None \<Rightarrow> agent_profile_default);
          a = (case after of Some p \<Rightarrow> p | None \<Rightarrow> agent_profile_default) in
      gains (ap_allow_categories b) (ap_allow_categories a)
      \<or> gains (ap_mcp_tools_allow b) (ap_mcp_tools_allow a)
      \<or> gains (ap_deny_categories a) (ap_deny_categories b)
      \<or> gains (ap_mcp_tools_deny a) (ap_mcp_tools_deny b)
      \<or> mode_strictness (ap_mode a) < mode_strictness (ap_mode b)
      \<or> gains (jp_extra_ro (ap_jail b)) (jp_extra_ro (ap_jail a))
      \<or> gains (jp_deny_read (ap_jail a)) (jp_deny_read (ap_jail b))
      \<or> gains (jp_hide_home (ap_jail a)) (jp_hide_home (ap_jail b))
      \<or> jail_profile_start (ap_jail a) < jail_profile_start (ap_jail b)
      \<or> (jp_project_rw (ap_jail a) \<noteq> None \<and> jp_project_rw (ap_jail a) \<noteq> jp_project_rw (ap_jail b))
      \<or> (ap_ask_host a = Some EveryCommand \<and> ap_ask_host b \<noteq> Some EveryCommand))"

subsection \<open>What validation establishes\<close>

lemma sorted_list_eq: "sorted_list xs = sort_dedup xs"
  by (simp add: sorted_list_def sort_dedup_def)

lemma set_sorted_list [simp]: "set (sorted_list xs) = set xs"
  by (simp add: sorted_list_eq)

lemma sorted_list_strict [simp]: "sorted_wrt (<) (sorted_list xs)"
  by (simp add: sorted_list_eq)

lemma length_sorted_list: "length (sorted_list xs) \<le> length xs"
  by (simp add: sorted_list_eq length_sort_dedup_le)

lemma set_union [simp]: "set (union a b) = set a \<union> set b"
  by (simp add: union_def)

lemma all_or_Inr [simp]: "all_or P e xs = Inr u \<longleftrightarrow> list_all P xs"
  by (auto simp: all_or_def find_None_iff find_Some_iff list_all_iff split: option.split)

lemma check_categories_Inr: "check_categories t f xs = Inr u \<longleftrightarrow> set xs \<subseteq> set SIGNAL_NAMES"
  by (induction xs) auto

lemma categories_Inr:
  "categories t f xs = Inr ys \<longleftrightarrow>
     ys = sorted_list xs \<and> set xs \<subseteq> set SIGNAL_NAMES \<and> length xs \<le> MAX_ENTRIES"
  by (auto simp: categories_def rbind_Inr bounded_def check_categories_Inr)

lemma tools_Inr:
  "tools t f xs = Inr ys \<longleftrightarrow>
     ys = sorted_list xs \<and> list_all is_tool_name xs \<and> length xs \<le> MAX_ENTRIES"
  by (auto simp: tools_def rbind_Inr bounded_def)

lemma allowed_categories_Inr:
  "allowed_categories t f xs = Inr ys \<longleftrightarrow>
     categories t f xs = Inr ys \<and> list_all (\<lambda>c. \<not> is_hard_signal c) ys"
  by (auto simp: allowed_categories_def rbind_Inr)

text \<open>A list as validation leaves it: each entry once, in order, at most \<open>MAX_ENTRIES\<close>.\<close>

definition tidy :: "string list \<Rightarrow> bool" where
  "tidy xs \<longleftrightarrow> sorted_wrt (<) xs \<and> length xs \<le> MAX_ENTRIES"

lemma tidy_sorted_list: "length xs \<le> MAX_ENTRIES \<Longrightarrow> tidy (sorted_list xs)"
  using length_sorted_list[of xs] by (simp add: tidy_def)

definition no_hard :: "string list \<Rightarrow> bool" where
  "no_hard xs \<longleftrightarrow> (\<forall>c\<in>set xs. \<not> is_hard_signal c)"

definition profile_valid :: "agent_profile \<Rightarrow> bool" where
  "profile_valid p \<longleftrightarrow>
     tidy (ap_allow_categories p) \<and> tidy (ap_deny_categories p)
     \<and> tidy (ap_mcp_tools_allow p) \<and> tidy (ap_mcp_tools_deny p)
     \<and> set (ap_allow_categories p) \<union> set (ap_deny_categories p) \<subseteq> set SIGNAL_NAMES
     \<and> set (ap_allow_categories p) \<inter> set (ap_deny_categories p) = {}
     \<and> set (ap_mcp_tools_allow p) \<inter> set (ap_mcp_tools_deny p) = {}
     \<and> no_hard (ap_allow_categories p)
     \<and> (\<forall>t\<in>set (ap_mcp_tools_allow p) \<union> set (ap_mcp_tools_deny p). is_tool_name t)
     \<and> ap_source p = None"

lemma validate_entry_valid:
  assumes "validate_entry t e schema = Inr p"
  shows "profile_valid p"
  using assms
  by (auto simp: validate_entry_def rbind_Inr categories_Inr tools_Inr profile_valid_def
      no_hard_def list_all_iff tidy_sorted_list)

lemma validate_entry_schema1:
  assumes "validate_entry t e PROFILES_SCHEMA = Inr p"
  shows "ap_ask_host p = None \<and> jp_start (ap_jail p) = None \<and> jp_hide_home (ap_jail p) = []"
  using assms
  by (auto simp: validate_entry_def validate_ask_host_def validate_jail_def validate_jail_start_def
      validate_hide_home_def PROFILES_SCHEMA_def PROFILES_SCHEMA_2_def rbind_Inr
      jail_profile_default_def split: option.splits if_splits)

definition exception_valid :: "instance_exception \<Rightarrow> bool" where
  "exception_valid e \<longleftrightarrow> set (ie_categories e) \<subseteq> set SIGNAL_NAMES \<and> no_hard (ie_categories e)"

definition record_valid :: "agent_record \<Rightarrow> bool" where
  "record_valid r \<longleftrightarrow> no_hard (ar_allow_categories r) \<and> bmap_wf (ar_exceptions r)
     \<and> (\<forall>(i, e)\<in>set (ar_exceptions r). is_instance_id i \<and> exception_valid e)
     \<and> list_all is_instance_id (ar_revoked_instances r)"

lemma bput_values: "(k', v') \<in> set (bput k v m) \<Longrightarrow> (k', v') = (k, v) \<or> (k', v') \<in> set m"
  by (induction k v m rule: bput.induct) (auto split: if_splits)

lemma exception_step_inv:
  assumes "exception_step t e m = Inr m'" "bmap_wf m"
    "\<forall>(i, e)\<in>set m. is_instance_id i \<and> exception_valid e"
  shows "bmap_wf m' \<and> (\<forall>(i, e)\<in>set m'. is_instance_id i \<and> exception_valid e)"
proof -
  have slot: "exception_valid (case bget m k of Some w \<Rightarrow> w | None \<Rightarrow> instance_exception_default)" for k
    using assms(3) by (auto simp: exception_valid_def no_hard_def instance_exception_default_def
        dest!: bget_in split: option.split)
  show ?thesis using assms slot[of "ee_instance_id e"]
    by (auto simp: exception_step_def rbind_Inr allowed_categories_Inr categories_Inr tools_Inr
        bupsert_def bmap_wf_bput exception_valid_def no_hard_def list_all_iff
        split: if_splits option.splits dest!: bput_values)
qed

lemma exceptions_loop_inv:
  assumes "exceptions_loop t es m = Inr m'" "bmap_wf m"
    "\<forall>(i, e)\<in>set m. is_instance_id i \<and> exception_valid e"
  shows "bmap_wf m' \<and> (\<forall>(i, e)\<in>set m'. is_instance_id i \<and> exception_valid e)"
  using assms
proof (induction es arbitrary: m)
  case (Cons e es)
  obtain m1 where m1: "exception_step t e m = Inr m1" "exceptions_loop t es m1 = Inr m'"
    using Cons.prems(1) by (auto simp: rbind_Inr)
  show ?case using Cons.IH[OF m1(2)] exception_step_inv[OF m1(1) Cons.prems(2,3)] by blast
qed simp

lemma validate_agent_valid:
  assumes "validate_agent rfc t e names = Inr r"
  shows "record_valid r"
proof -
  obtain ex where ex: "exceptions_loop t (ae_exception e) [] = Inr ex"
    "ar_exceptions r = map (\<lambda>(i, e). (i, sort_exception e)) ex"
    and rest: "no_hard (ar_allow_categories r)" "list_all is_instance_id (ar_revoked_instances r)"
    using assms by (auto simp: validate_agent_def rbind_Inr allowed_categories_Inr no_hard_def
        list_all_iff)
  have "bmap_wf ex \<and> (\<forall>(i, e)\<in>set ex. is_instance_id i \<and> exception_valid e)"
    using exceptions_loop_inv[OF ex(1)] by (simp add: bmap_wf_def)
  then have wf: "bmap_wf ex"
    and all: "\<And>i e. (i, e) \<in> set ex \<Longrightarrow> is_instance_id i \<and> exception_valid (sort_exception e)"
    by (auto simp: exception_valid_def sort_exception_def no_hard_def)
  show ?thesis using rest wf all by (auto simp: record_valid_def ex(2))
qed

definition profiles_valid :: "agent_profiles \<Rightarrow> bool" where
  "profiles_valid ps \<longleftrightarrow> bmap_wf (pf_types ps) \<and> bmap_wf (pf_agents ps)
     \<and> (\<forall>(t, p)\<in>set (pf_types ps). is_agent_id t \<and> t \<noteq> GENERAL_PROFILE \<and> profile_valid p)
     \<and> (\<forall>(t, r)\<in>set (pf_agents ps). is_agent_id t \<and> record_valid r)"

text \<open>The file is two maps, which serde builds with their keys in order.\<close>

definition file_wf :: "profiles_file \<Rightarrow> bool" where
  "file_wf f \<longleftrightarrow> bmap_wf (pfile_profile f) \<and> bmap_wf (pfile_agent f)"

lemma validated_valid:
  assumes "file_wf file" and "validate_profiles rfc file = Inr ps"
  shows "profiles_valid ps"
proof -
  obtain ts ags where
    ts: "rtraverse (validate_type (pfile_schema_version file)) (pfile_profile file) = Inr ts" and
    ags: "rtraverse (validate_agent_table rfc (map fst (pfile_profile file))) (pfile_agent file)
            = Inr ags" and
    ps: "ps = \<lparr>pf_types = ts, pf_agents = ags\<rparr>"
    using assms(2) by (auto simp: validate_profiles_def rbind_Inr split: if_splits)
  have wf: "bmap_wf ts" "bmap_wf ags"
    using assms(1) rtraverse_keys[OF ts] rtraverse_keys[OF ags]
    by (auto simp: file_wf_def dest: bmap_wf_keys)
  have "is_agent_id t \<and> t \<noteq> GENERAL_PROFILE \<and> profile_valid p" if "(t, p) \<in> set ts" for t p
    using rtraverse_values[OF ts that]
    by (auto simp: validate_type_def split: if_splits dest: validate_entry_valid)
  moreover have "is_agent_id t \<and> record_valid r" if "(t, r) \<in> set ags" for t r
    using rtraverse_values[OF ags that]
    by (auto simp: validate_agent_table_def split: if_splits dest: validate_agent_valid)
  ultimately show ?thesis using wf by (auto simp: profiles_valid_def ps)
qed


definition sample_entry :: profile_entry where
  "sample_entry = \<lparr>pe_mode = Some ''enforce'', pe_allow_categories = [''tmp_execution'', ''bare_ip_fetch''],
     pe_deny_categories = [''anti_forensics''], pe_mcp_tools_allow = [''write_file''],
     pe_mcp_tools_deny = [], pe_jail = None, pe_ask_host = None\<rparr>"

definition sample_agent :: agent_entry where
  "sample_agent = \<lparr>ae_lifecycle = Some ''approved'', ae_owner = None, ae_profile = Some ''claude-code'',
     ae_approved_by = None, ae_approved_at = None, ae_revoked_by = None, ae_revoked_at = None,
     ae_revoked_instances = [replicate 32 (CHR ''c'')], ae_allow_categories = [],
     ae_mcp_tools_allow = [],
     ae_exception = [\<lparr>ee_instance_id = replicate 32 (CHR ''a''), ee_category = Some ''tmp_execution'',
                      ee_mcp_tool = None\<rparr>]\<rparr>"

definition sample_file :: profiles_file where
  "sample_file = \<lparr>pfile_schema_version = 1, pfile_profile = [(''claude-code'', sample_entry)],
     pfile_agent = [(''aider'', sample_agent)]\<rparr>"

definition sample_profile :: agent_profile where
  "sample_profile = agent_profile_default\<lparr>ap_mode := Some Enforce,
     ap_allow_categories := [''bare_ip_fetch'', ''tmp_execution''],
     ap_deny_categories := [''anti_forensics''], ap_mcp_tools_allow := [''write_file'']\<rparr>"

definition sample_agent_record :: agent_record where
  "sample_agent_record = agent_record_default\<lparr>ar_lifecycle := Some Approved,
     ar_profile := Some ''claude-code'', ar_revoked_instances := [replicate 32 (CHR ''c'')],
     ar_exceptions := [(replicate 32 (CHR ''a''), \<lparr>ie_categories = [''tmp_execution''], ie_mcp_tools = []\<rparr>)]\<rparr>"

definition sample_profiles :: agent_profiles where
  "sample_profiles = \<lparr>pf_types = [(''claude-code'', sample_profile)],
     pf_agents = [(''aider'', sample_agent_record)]\<rparr>"

lemma sample_file_validates: "validate_profiles (\<lambda>_. True) sample_file = Inr sample_profiles"
  by code_simp

lemma sample_file_wf: "file_wf sample_file"
  by (simp add: file_wf_def sample_file_def bmap_wf_def)


subsection \<open>Decisions keep the screening contract\<close>

interpretation shell: screening
  "\<lambda>(call, profile, rcd, line) t. so_decision (decide_shell_in call profile rcd line t)"
  "\<lambda>(call, profile, rcd, line). sh_general call"
  "\<lambda>(call, profile, rcd, line). ly_hard_refused (shell_layers call profile rcd)"
proof -
  have a: "(\<lambda>(call, profile, rcd, line) t. so_decision (decide_shell_in call profile rcd line t))
      = (\<lambda>f. decide (case f of (call, profile, rcd, line) \<Rightarrow> shell_layers call profile rcd))"
    by (auto simp: decide_shell_in_def Let_def fun_eq_iff)
  have b: "(\<lambda>(call, profile, rcd, line). sh_general call)
      = (\<lambda>f. ly_general (case f of (call, profile, rcd, line) \<Rightarrow> shell_layers call profile rcd))"
    by (auto simp: shell_layers_def fun_eq_iff)
  have c: "(\<lambda>(call, profile, rcd, line). ly_hard_refused (shell_layers call profile rcd))
      = (\<lambda>f. ly_hard_refused (case f of (call, profile, rcd, line) \<Rightarrow> shell_layers call profile rcd))"
    by (auto simp: fun_eq_iff)
  show "screening
      (\<lambda>(call, profile, rcd, line) t. so_decision (decide_shell_in call profile rcd line t))
      (\<lambda>(call, profile, rcd, line). sh_general call)
      (\<lambda>(call, profile, rcd, line). ly_hard_refused (shell_layers call profile rcd))"
    unfolding a b c by (rule screening_comp[OF layered.screening_axioms])
qed

interpretation tool: screening
  "\<lambda>(call, profile, revoked) t. fst (decide_tool_call_in call profile revoked t)"
  "\<lambda>(call, profile, revoked). tool_general call"
  "\<lambda>(call, profile, revoked). ly_hard_refused (tool_layers call profile revoked)"
proof -
  have a: "(\<lambda>(call, profile, revoked) t. fst (decide_tool_call_in call profile revoked t))
      = (\<lambda>f. decide (case f of (call, profile, revoked) \<Rightarrow> tool_layers call profile revoked))"
    by (auto simp: decide_tool_call_in_def Let_def fun_eq_iff)
  have b: "(\<lambda>(call, profile, revoked). tool_general call)
      = (\<lambda>f. ly_general (case f of (call, profile, revoked) \<Rightarrow> tool_layers call profile revoked))"
    by (auto simp: tool_layers_def fun_eq_iff)
  have c: "(\<lambda>(call, profile, revoked). ly_hard_refused (tool_layers call profile revoked))
      = (\<lambda>f. ly_hard_refused (case f of (call, profile, revoked) \<Rightarrow> tool_layers call profile revoked))"
    by (auto simp: fun_eq_iff)
  show "screening
      (\<lambda>(call, profile, revoked) t. fst (decide_tool_call_in call profile revoked t))
      (\<lambda>(call, profile, revoked). tool_general call)
      (\<lambda>(call, profile, revoked). ly_hard_refused (tool_layers call profile revoked))"
    unfolding a b c by (rule screening_comp[OF layered.screening_axioms])
qed

lemma so_decision_eq: "so_decision (decide_shell_in call pr rcd line t) = decide (shell_layers call pr rcd) t"
  by (simp add: decide_shell_in_def Let_def)

lemma so_blocks_eq:
  "so_blocks (decide_shell_in call pr rcd line t) \<longleftrightarrow>
     dn_verdict (decide (shell_layers call pr rcd) t) = VDeny
     \<or> dn_verdict (decide (shell_layers call pr rcd) t) = VReview
        \<and> review_blocks line (Option.bind pr (\<lambda>(_, p). ap_mode p)) t"
  by (simp add: decide_shell_in_def Let_def split: verdict.split)

lemma tool_decision_eq: "fst (decide_tool_call_in call pr rv t) = decide (tool_layers call pr rv) t"
  by (simp add: decide_tool_call_in_def Let_def)

lemma shell_layers_simps [simp]:
  "ly_general (shell_layers call pr rcd) = sh_general call"
  "ly_hard_refused (shell_layers call pr rcd) \<longleftrightarrow>
     sh_names_llm_key call \<or> hard_signal call \<or> rcf_revoked rcd \<noteq> None"
  by (simp_all add: shell_layers_def)

text \<open>What a shell decision looser than the general one took.\<close>

lemma shell_relaxed:
  assumes "strictness (dn_verdict (so_decision (decide_shell_in call pr rcd line t)))
             < strictness (sh_general call)"
  shows "t = Confined \<and> sh_general call = VReview \<and> \<not> sh_tainted call \<and> sh_charged call \<noteq> []
     \<and> \<not> sh_names_llm_key call \<and> \<not> hard_signal call \<and> rcf_revoked rcd = None
     \<and> ((\<exists>n p. pr = Some (n, p) \<and> set (sh_charged call) \<subseteq> set (ap_allow_categories p))
        \<or> (\<exists>e. rcf_exception rcd = Some e \<and> set (sh_charged call) \<subseteq> set (ie_categories e)))"
proof -
  let ?l = "shell_layers call pr rcd"
  have r: "t = Confined" "sh_general call = VReview" "narrowly_allowed ?l" "\<not> refused ?l"
    using assms decide_relaxes_iff[of ?l t] by (simp_all add: so_decision_eq)
  have a: "ly_agent_type ?l = Some RAllow \<Longrightarrow>
      \<not> sh_tainted call \<and> sh_charged call \<noteq> [] \<and>
      (\<exists>n p. pr = Some (n, p) \<and> set (sh_charged call) \<subseteq> set (ap_allow_categories p))"
    by (auto simp: shell_layers_def opt_filter_Some bind_eq_Some_conv command_rule_def list_all_iff
        split: if_splits)
  have i: "ly_instance ?l = Some RAllow \<Longrightarrow>
      \<not> sh_tainted call \<and> sh_charged call \<noteq> [] \<and>
      (\<exists>e. rcf_exception rcd = Some e \<and> set (sh_charged call) \<subseteq> set (ie_categories e))"
    by (auto simp: shell_layers_def opt_filter_Some bind_eq_Some_conv exception_command_rule_def
        list_all_iff split: if_splits)
  show ?thesis using r a i by (auto simp: narrowly_allowed_def refused_def)
qed

text \<open>A shell command is decided looser than the general rules exactly when the instance is
  confined, the command was sent to review with something charged, no argument is tainted,
  nothing hard or revoked is involved, no charged signal is denied by the profile, and the
  profile or the instance's exception lists every charged signal.\<close>

theorem decide_shell_relaxes_iff:
  "strictness (dn_verdict (so_decision (decide_shell_in call pr rcd line t)))
      < strictness (sh_general call) \<longleftrightarrow>
     t = Confined \<and> sh_general call = VReview \<and> sh_charged call \<noteq> [] \<and> \<not> sh_tainted call
     \<and> \<not> sh_names_llm_key call \<and> \<not> (sh_blocks_today call \<and> list_ex is_hard_signal (sh_charged call))
     \<and> rcf_revoked rcd = None
     \<and> (case pr of None \<Rightarrow> True
        | Some (_, p) \<Rightarrow> set (sh_charged call) \<inter> set (ap_deny_categories p) = {})
     \<and> ((case pr of None \<Rightarrow> False
         | Some (_, p) \<Rightarrow> set (sh_charged call) \<subseteq> set (ap_allow_categories p))
        \<or> (case rcf_exception rcd of None \<Rightarrow> False
           | Some e \<Rightarrow> set (sh_charged call) \<subseteq> set (ie_categories e)))"
proof -
  let ?l = "shell_layers call pr rcd"
  have at: "ly_agent_type ?l =
      (case pr of None \<Rightarrow> None
       | Some (_, p) \<Rightarrow>
          if set (sh_charged call) \<inter> set (ap_deny_categories p) \<noteq> {} then Some RDeny
          else if sh_charged call \<noteq> [] \<and> set (sh_charged call) \<subseteq> set (ap_allow_categories p)
            \<and> \<not> sh_tainted call then Some RAllow else None)"
    by (auto simp: shell_layers_def command_rule_def list_all_iff list_ex_iff split: option.split)
  have "ly_instance ?l =
      (case rcf_exception rcd of None \<Rightarrow> None
       | Some e \<Rightarrow> if sh_charged call \<noteq> [] \<and> set (sh_charged call) \<subseteq> set (ie_categories e)
            \<and> \<not> sh_tainted call then Some RAllow else None)"
    by (auto simp: shell_layers_def exception_command_rule_def list_all_iff split: option.split)
  then show ?thesis
    using decide_relaxes_iff[of ?l t] at
    by (cases pr; cases "rcf_exception rcd")
       (auto simp: so_decision_eq narrowly_allowed_def refused_def hard_signal_def split: if_splits)
qed

subsection \<open>Tightening\<close>

definition or_default :: "agent_profile option \<Rightarrow> agent_profile" where
  "or_default p = (case p of Some q \<Rightarrow> q | None \<Rightarrow> agent_profile_default)"

text \<open>The parts of a profile a decision reads, compared.\<close>

definition tightens :: "agent_profile \<Rightarrow> agent_profile \<Rightarrow> bool" where
  "tightens b a \<longleftrightarrow> set (ap_allow_categories a) \<subseteq> set (ap_allow_categories b)
     \<and> set (ap_mcp_tools_allow a) \<subseteq> set (ap_mcp_tools_allow b)
     \<and> set (ap_deny_categories b) \<subseteq> set (ap_deny_categories a)
     \<and> set (ap_mcp_tools_deny b) \<subseteq> set (ap_mcp_tools_deny a)
     \<and> mode_strictness (ap_mode b) \<le> mode_strictness (ap_mode a)"

lemma gains_iff: "gains old new \<longleftrightarrow> \<not> set new \<subseteq> set old"
  by (auto simp: gains_def list_ex_iff)

lemma not_relaxes_tightens: "\<not> relaxes b a \<Longrightarrow> tightens (or_default b) (or_default a)"
  by (auto simp: relaxes_def Let_def tightens_def gains_iff or_default_def not_less)

lemma command_rule_tightens:
  "tightens b a \<Longrightarrow> rule_strictness (command_rule b c) \<le> rule_strictness (command_rule a c)"
  by (auto simp: tightens_def command_rule_def list_ex_iff list_all_iff)

lemma tool_rule_tightens:
  "tightens b a \<Longrightarrow> rule_strictness (tool_rule b nm c) \<le> rule_strictness (tool_rule a nm c)"
  by (auto simp: tightens_def tool_rule_def list_ex_iff list_all_iff)

lemma command_rule_default: "command_rule agent_profile_default c = None"
  by (auto simp: command_rule_def agent_profile_default_def list_ex_iff list_all_iff neq_Nil_conv)

lemma tool_rule_default: "tool_rule agent_profile_default nm c = None"
  by (auto simp: tool_rule_def agent_profile_default_def list_ex_iff)

lemma bind_command_rule:
  "Option.bind (map_option (Pair n) p) (\<lambda>(_, q). command_rule q c) = command_rule (or_default p) c"
  by (cases p) (simp_all add: or_default_def command_rule_default)

lemma bind_tool_rule:
  "Option.bind (map_option (Pair n) p) (\<lambda>(_, q). tool_rule q nm c) = tool_rule (or_default p) nm c"
  by (cases p) (simp_all add: or_default_def tool_rule_default)

lemma bind_mode:
  "Option.bind (map_option (Pair n) p) (\<lambda>(_, q). ap_mode q) = ap_mode (or_default p)"
  by (cases p) (simp_all add: or_default_def agent_profile_default_def)

lemma review_blocks_mono:
  "\<lbrakk>mode_strictness m \<le> mode_strictness m'; review_blocks line m t\<rbrakk> \<Longrightarrow> review_blocks line m' t"
  by (cases m rule: option.exhaust; cases m' rule: option.exhaust)
     (auto simp: review_blocks_def mode_strictness_def split: profile_mode.splits if_splits)

text \<open>The facts of a record, compared: a revocation may appear, an exception may not.\<close>

definition facts_le :: "record_facts \<Rightarrow> record_facts \<Rightarrow> bool" where
  "facts_le r s \<longleftrightarrow> (rcf_revoked r \<noteq> None \<longrightarrow> rcf_revoked s \<noteq> None)
     \<and> (case rcf_exception s of None \<Rightarrow> True
        | Some e \<Rightarrow> (case rcf_exception r of None \<Rightarrow> ie_categories e = []
            | Some e' \<Rightarrow> set (ie_categories e) \<subseteq> set (ie_categories e')))"

lemma exception_rule_le:
  assumes "facts_le r s"
  shows "rule_strictness (Option.bind (rcf_exception r) (\<lambda>e. exception_command_rule e c))
       \<le> rule_strictness (Option.bind (rcf_exception s) (\<lambda>e. exception_command_rule e c))"
  using assms
  by (cases "rcf_exception r"; cases "rcf_exception s")
     (auto simp: facts_le_def exception_command_rule_def list_all_iff neq_Nil_conv)

lemma opt_filter_taint_le:
  "rule_strictness x \<le> rule_strictness y \<Longrightarrow>
   rule_strictness (opt_filter (\<lambda>rule. \<not> (b \<and> rule = RAllow)) x)
     \<le> rule_strictness (opt_filter (\<lambda>rule. \<not> (b \<and> rule = RAllow)) y)"
  by (cases x rule: rule_strictness.cases; cases y rule: rule_strictness.cases) auto

lemma opt_filter_const_le:
  "\<lbrakk>rule_strictness x \<le> rule_strictness y; y \<noteq> Some RDeny; x \<noteq> Some RDeny\<rbrakk> \<Longrightarrow>
   rule_strictness (opt_filter (\<lambda>_. b) x) \<le> rule_strictness (opt_filter (\<lambda>_. b) y)"
  by (cases x rule: rule_strictness.cases; cases y rule: rule_strictness.cases) auto

lemma exception_rule_no_deny:
  "Option.bind x (\<lambda>e. exception_command_rule e c) \<noteq> Some RDeny"
  by (cases x) (auto simp: exception_command_rule_def)

lemma shell_layers_le:
  assumes "tightens (or_default b) (or_default a)" "facts_le r s"
  shows "layers_le (shell_layers call (map_option (Pair n) b) r)
                   (shell_layers call (map_option (Pair n') a) s)"
proof -
  have "rule_strictness (ly_agent_type (shell_layers call (map_option (Pair n) b) r))
      \<le> rule_strictness (ly_agent_type (shell_layers call (map_option (Pair n') a) s))"
    unfolding shell_layers_def layers.simps bind_command_rule
    by (rule opt_filter_taint_le[OF command_rule_tightens[OF assms(1)]])
  moreover have "rule_strictness (ly_instance (shell_layers call (map_option (Pair n) b) r))
      \<le> rule_strictness (ly_instance (shell_layers call (map_option (Pair n') a) s))"
    unfolding shell_layers_def layers.simps
    by (rule opt_filter_const_le[OF exception_rule_le[OF assms(2)]]) (rule exception_rule_no_deny)+
  ultimately show ?thesis using assms(2) by (auto simp: layers_le_def facts_le_def)
qed

lemma decide_shell_tightens:
  assumes "tightens (or_default b) (or_default a)" "facts_le r s"
  shows "strictness (dn_verdict (so_decision (decide_shell_in call (map_option (Pair n) b) r line t)))
       \<le> strictness (dn_verdict (so_decision (decide_shell_in call (map_option (Pair n') a) s line t)))"
    "so_blocks (decide_shell_in call (map_option (Pair n) b) r line t)
       \<Longrightarrow> so_blocks (decide_shell_in call (map_option (Pair n') a) s line t)"
proof -
  let ?d = "decide (shell_layers call (map_option (Pair n) b) r) t"
  let ?e = "decide (shell_layers call (map_option (Pair n') a) s) t"
  have le: "strictness (dn_verdict ?d) \<le> strictness (dn_verdict ?e)"
    by (rule decide_mono_layers[OF shell_layers_le[OF assms]])
  then show "strictness (dn_verdict (so_decision (decide_shell_in call (map_option (Pair n) b) r line t)))
       \<le> strictness (dn_verdict (so_decision (decide_shell_in call (map_option (Pair n') a) s line t)))"
    by (simp add: so_decision_eq)
  have m: "mode_strictness (ap_mode (or_default b)) \<le> mode_strictness (ap_mode (or_default a))"
    using assms(1) by (simp add: tightens_def)
  show "so_blocks (decide_shell_in call (map_option (Pair n') a) s line t)"
    if "so_blocks (decide_shell_in call (map_option (Pair n) b) r line t)"
    using that le review_blocks_mono[OF m, of line t]
    unfolding so_blocks_eq bind_mode by (cases "dn_verdict ?e") auto
qed

lemma decide_tool_tightens:
  assumes "tightens (or_default b) (or_default a)" "rv \<noteq> None \<longrightarrow> rv' \<noteq> None"
  shows "strictness (dn_verdict (fst (decide_tool_call_in call (map_option (Pair n) b) rv t)))
       \<le> strictness (dn_verdict (fst (decide_tool_call_in call (map_option (Pair n') a) rv' t)))"
proof -
  have "layers_le (tool_layers call (map_option (Pair n) b) rv)
                  (tool_layers call (map_option (Pair n') a) rv')"
    using assms tool_rule_tightens[OF assms(1), of "tc_tool call" "tc_charged call"]
    by (auto simp: layers_le_def tool_layers_def bind_tool_rule)
  from decide_mono_layers[OF this] show ?thesis by (simp add: tool_decision_eq)
qed

text \<open>C27: \<open>relaxes\<close> is sound. When it says a change from one profile to another (or from or to
  none) relaxes nothing, no shell command and no tool call is decided looser after the
  change, and every shell command that blocked still blocks, at every trust, on either kind of
  line, for any record.\<close>

theorem relaxes_sound:
  assumes "\<not> relaxes before after"
  shows "strictness (dn_verdict (so_decision
            (decide_shell_in call (map_option (Pair n) before) rcd line t)))
       \<le> strictness (dn_verdict (so_decision
            (decide_shell_in call (map_option (Pair n') after) rcd line t)))
     \<and> (so_blocks (decide_shell_in call (map_option (Pair n) before) rcd line t) \<longrightarrow>
        so_blocks (decide_shell_in call (map_option (Pair n') after) rcd line t))
     \<and> strictness (dn_verdict (fst (decide_tool_call_in tool_call (map_option (Pair n) before) rv t)))
       \<le> strictness (dn_verdict (fst (decide_tool_call_in tool_call (map_option (Pair n') after) rv t)))"
proof -
  note tight = not_relaxes_tightens[OF assms]
  have "facts_le rcd rcd" by (auto simp: facts_le_def split: option.split)
  then show ?thesis using decide_shell_tightens[OF tight] decide_tool_tightens[OF tight] by blast
qed

definition stricter_sample :: agent_profile where
  "stricter_sample = sample_profile\<lparr>ap_mode := Some BlockReview,
     ap_deny_categories := [''anti_forensics'', ''bare_ip_fetch''], ap_allow_categories := [''tmp_execution'']\<rparr>"

definition sample_call :: shell_call where
  "sample_call = \<lparr>sh_general = VReview, sh_charged = [''bare_ip_fetch''], sh_blocks_today = False,
     sh_names_llm_key = False, sh_tainted = False\<rparr>"

theorem relaxes_sound_witness:
  "\<not> relaxes (Some sample_profile) (Some stricter_sample)
   \<and> \<not> so_blocks (decide_shell_in sample_call (map_option (Pair ''claude-code'') (Some sample_profile))
         record_facts_default False Confined)
   \<and> strictness (dn_verdict (so_decision (decide_shell_in sample_call
         (map_option (Pair ''claude-code'') (Some sample_profile)) record_facts_default False Confined)))
     \<le> strictness (dn_verdict (so_decision (decide_shell_in sample_call
         (map_option (Pair ''claude-code'') (Some stricter_sample)) record_facts_default False Confined)))"
proof -
  have r: "\<not> relaxes (Some sample_profile) (Some stricter_sample)" by code_simp
  have "\<not> so_blocks (decide_shell_in sample_call (map_option (Pair ''claude-code'') (Some sample_profile))
         record_facts_default False Confined)" by code_simp
  then show ?thesis using relaxes_sound[OF r] r by blast
qed

subsection \<open>What the merge gives each type\<close>

definition profiles_wf :: "agent_profiles \<Rightarrow> bool" where
  "profiles_wf ps \<longleftrightarrow> bmap_wf (pf_types ps) \<and> bmap_wf (pf_agents ps)
     \<and> (\<forall>(t, r)\<in>set (pf_agents ps). bmap_wf (ar_exceptions r))"

lemma profiles_valid_wf: "profiles_valid ps \<Longrightarrow> profiles_wf ps"
  by (auto simp: profiles_valid_def profiles_wf_def record_valid_def)

text \<open>The profile of one type as one file resolves it.\<close>

definition resolved_get :: "agent_profiles \<Rightarrow> string \<Rightarrow> agent_profile option" where
  "resolved_get ps t =
     (case bget (pf_agents ps) t of
        None \<Rightarrow> bget (pf_types ps) t
      | Some r \<Rightarrow> resolved_base ps t r)"

lemma bget_resolved_types:
  assumes "profiles_wf ps"
  shows "bget (resolved_types ps src) t
       = map_option (\<lambda>p. p\<lparr>ap_source := Some src\<rparr>) (resolved_get ps t)"
proof -
  have wf: "bmap_wf (pf_types ps)" "distinct (map fst (pf_agents ps))"
    using assms by (auto simp: profiles_wf_def bmap_wf_distinct)
  show ?thesis
    unfolding resolved_types_def bget_map_values resolved_get_def
    by (subst bstore.get_fold_decide[OF wf]) (simp add: bget_def)
qed

lemma resolved_types_wf:
  assumes "profiles_wf ps"
  shows "bmap_wf (resolved_types ps src)"
  using assms unfolding resolved_types_def profiles_wf_def
  by (auto intro: bstore.inv_fold_decide)

text \<open>One side merged into what is there.\<close>

definition merge_into :: "agent_profile option \<Rightarrow> agent_profile option \<Rightarrow> agent_profile option" where
  "merge_into side was =
     (case side of None \<Rightarrow> was
      | Some p \<Rightarrow> Some (merge_profile p (or_default was)))"

definition side_get :: "agent_profiles option \<Rightarrow> profile_source \<Rightarrow> string \<Rightarrow> agent_profile option" where
  "side_get ps src t =
     (case ps of None \<Rightarrow> None
      | Some q \<Rightarrow> map_option (\<lambda>p. p\<lparr>ap_source := Some src\<rparr>) (resolved_get q t))"

definition option_wf :: "agent_profiles option \<Rightarrow> bool" where
  "option_wf x \<longleftrightarrow> (case x of None \<Rightarrow> True | Some p \<Rightarrow> profiles_wf p)"

lemma bget_fold_sides:
  "\<lbrakk>\<forall>m\<in>set ms. bmap_wf m; bmap_wf s\<rbrakk> \<Longrightarrow>
   bmap_wf (fold (\<lambda>side types. fold (\<lambda>(t, p). bupsert d (f p) t) side types) ms s)"
  by (induction ms arbitrary: s) (auto simp: bmap_wf_fold_bupsert)

lemma bget_merge_types:
  assumes "option_wf s" "option_wf u"
  shows "bget (pf_types (merge s u)) t = merge_into (side_get u User t) (merge_into (side_get s System t) None)"
proof -
  have step: "bget (fold (\<lambda>(t, p). bupsert agent_profile_default (merge_profile p) t)
        (resolved_types q src) m) t = merge_into (side_get (Some q) src t) (bget m t)"
    if "profiles_wf q" "bmap_wf m" for q src m
    by (subst bget_fold_bupsert[OF that(2) bmap_wf_distinct[OF resolved_types_wf[OF that(1)]]])
       (simp add: bget_resolved_types[OF that(1)] merge_into_def side_get_def or_default_def
          option.case_eq_if option.map_sel)
  have nil: "bmap_wf ([] :: (string, agent_profile) bmap)" "bmap_wf ([] :: (string, agent_record) bmap)" by (simp_all add: bmap_wf_def)
  have wf: "bmap_wf (fold (\<lambda>(t, p). bupsert agent_profile_default (merge_profile p) t)
        (resolved_types q src) [])" for q src
    by (intro bmap_wf_fold_bupsert) (simp add: bmap_wf_def)
  show ?thesis
    using assms
    by (cases s; cases u)
       (simp_all add: merge_def some_list_def option_wf_def step wf nil bget_def[of "[]"]
          side_get_def[of None] merge_into_def[of None])
qed

definition record_or_default :: "agent_record option \<Rightarrow> agent_record" where
  "record_or_default r = (case r of Some q \<Rightarrow> q | None \<Rightarrow> agent_record_default)"

definition merge_record_into :: "agent_record option \<Rightarrow> agent_record option \<Rightarrow> agent_record option" where
  "merge_record_into side was =
     (case side of None \<Rightarrow> was
      | Some r \<Rightarrow> Some (merge_record r (record_or_default was)))"

definition agent_get :: "agent_profiles option \<Rightarrow> string \<Rightarrow> agent_record option" where
  "agent_get ps t = (case ps of None \<Rightarrow> None | Some q \<Rightarrow> bget (pf_agents q) t)"

lemma bget_merge_agents:
  assumes "option_wf s" "option_wf u"
  shows "bget (pf_agents (merge s u)) t
       = merge_record_into (agent_get u t) (merge_record_into (agent_get s t) None)"
    "bmap_wf (pf_agents (merge s u))"
proof -
  have step: "bget (fold (\<lambda>(t, r). bupsert agent_record_default (merge_record r) t)
        (pf_agents q) m) t = merge_record_into (bget (pf_agents q) t) (bget m t)"
    if "profiles_wf q" "bmap_wf m" for q m
  proof -
    have d: "distinct (map fst (pf_agents q))"
      using that(1) by (simp add: profiles_wf_def bmap_wf_distinct)
    show ?thesis
      by (subst bget_fold_bupsert[OF that(2) d])
         (cases "bget (pf_agents q) t"; simp add: merge_record_into_def record_or_default_def)
  qed
  have nil: "bmap_wf ([] :: (string, agent_profile) bmap)" "bmap_wf ([] :: (string, agent_record) bmap)" by (simp_all add: bmap_wf_def)
  have wf: "bmap_wf (fold (\<lambda>(t, r). bupsert agent_record_default (merge_record r) t)
        (pf_agents q) [])" for q
    by (intro bmap_wf_fold_bupsert) (simp add: bmap_wf_def)
  show "bget (pf_agents (merge s u)) t
       = merge_record_into (agent_get u t) (merge_record_into (agent_get s t) None)"
    using assms
    by (cases s; cases u)
       (simp_all add: merge_def some_list_def option_wf_def step wf nil bget_def[of "[]"]
          agent_get_def merge_record_into_def[of None])
  show "bmap_wf (pf_agents (merge s u))"
    by (cases s; cases u) (simp_all add: merge_def some_list_def wf bmap_wf_fold_bupsert nil)
qed

lemma bget_merge_exceptions:
  assumes "bmap_wf (ar_exceptions nxt)" "bmap_wf (ar_exceptions m)"
  shows "bget (ar_exceptions (merge_record nxt m)) i =
     (case bget (ar_exceptions nxt) i of None \<Rightarrow> bget (ar_exceptions m) i
      | Some e \<Rightarrow> Some (merge_exception e
          (case bget (ar_exceptions m) i of Some w \<Rightarrow> w | None \<Rightarrow> instance_exception_default)))"
  using bget_fold_bupsert[OF assms(2) bmap_wf_distinct[OF assms(1)], of instance_exception_default merge_exception i]
  by (simp add: merge_record_def Let_def)

subsection \<open>Hard signals under the merged profiles\<close>

text \<open>A side of the merge: no file, or a file that validated.\<close>

definition loaded :: "(string \<Rightarrow> bool) \<Rightarrow> agent_profiles option \<Rightarrow> bool" where
  "loaded rfc x \<longleftrightarrow>
     (case x of None \<Rightarrow> True
      | Some ps \<Rightarrow> \<exists>file. file_wf file \<and> validate_profiles rfc file = Inr ps)"

lemma loaded_valid: "loaded rfc (Some ps) \<Longrightarrow> profiles_valid ps"
  by (auto simp: loaded_def intro: validated_valid)

lemma loaded_wf: "loaded rfc x \<Longrightarrow> option_wf x"
  by (cases x) (auto simp: option_wf_def intro: profiles_valid_wf dest: loaded_valid)

lemma no_hard_simps [simp]:
  "no_hard []" "no_hard (sorted_list xs) = no_hard xs" "no_hard (xs @ ys) \<longleftrightarrow> no_hard xs \<and> no_hard ys"
  "no_hard (union xs ys) \<longleftrightarrow> no_hard xs \<and> no_hard ys"
  by (auto simp: no_hard_def)

lemma resolved_no_hard:
  assumes "profiles_valid ps" "resolved_get ps t = Some p"
  shows "no_hard (ap_allow_categories p)"
proof -
  have ty: "no_hard (ap_allow_categories q)" if "bget (pf_types ps) k = Some q" for k q
    using assms(1) bget_in[OF that] by (auto simp: profiles_valid_def profile_valid_def)
  have ag: "no_hard (ar_allow_categories r)" if "bget (pf_agents ps) k = Some r" for k r
    using assms(1) bget_in[OF that] by (auto simp: profiles_valid_def record_valid_def)
  show ?thesis using assms(2) ty ag
    by (auto simp: resolved_get_def resolved_base_def Let_def agent_profile_default_def
        split: option.splits if_splits)
qed

lemma side_no_hard:
  "\<lbrakk>loaded rfc x; side_get x src t = Some p\<rbrakk> \<Longrightarrow> no_hard (ap_allow_categories p)"
  by (cases x) (auto simp: side_get_def intro: resolved_no_hard[OF loaded_valid])

lemma merge_into_no_hard:
  assumes "\<And>p. side = Some p \<Longrightarrow> no_hard (ap_allow_categories p)"
    "\<And>p. was = Some p \<Longrightarrow> no_hard (ap_allow_categories p)" "merge_into side was = Some q"
  shows "no_hard (ap_allow_categories q)"
  using assms
  by (cases side; cases was)
     (auto simp: merge_into_def merge_profile_def or_default_def agent_profile_default_def)

lemma merged_no_hard:
  assumes "loaded rfc s" "loaded rfc u" "bget (pf_types (merge s u)) t = Some p"
  shows "no_hard (ap_allow_categories p)"
  using assms(3) unfolding bget_merge_types[OF loaded_wf[OF assms(1)] loaded_wf[OF assms(2)]]
  by (rule merge_into_no_hard[rotated 2])
     (auto intro: side_no_hard[OF assms(1)] side_no_hard[OF assms(2)]
       dest: merge_into_no_hard[rotated 2] simp: merge_into_def merge_profile_def or_default_def
         agent_profile_default_def split: option.splits)

definition exceptions_no_hard :: "agent_record \<Rightarrow> bool" where
  "exceptions_no_hard r \<longleftrightarrow> bmap_wf (ar_exceptions r)
     \<and> (\<forall>i e. bget (ar_exceptions r) i = Some e \<longrightarrow> no_hard (ie_categories e))"

lemma agent_get_no_hard: "\<lbrakk>loaded rfc x; agent_get x t = Some r\<rbrakk> \<Longrightarrow> exceptions_no_hard r"
  by (cases x)
     (force simp: agent_get_def exceptions_no_hard_def profiles_valid_def record_valid_def
       exception_valid_def dest!: loaded_valid bget_in)+

lemma merge_record_no_hard:
  assumes "exceptions_no_hard n" "exceptions_no_hard m"
  shows "exceptions_no_hard (merge_record n m)"
proof -
  have wf: "bmap_wf (ar_exceptions n)" "bmap_wf (ar_exceptions m)"
    using assms by (auto simp: exceptions_no_hard_def)
  have "bmap_wf (ar_exceptions (merge_record n m))"
    using wf by (simp add: merge_record_def Let_def bmap_wf_fold_bupsert)
  then show ?thesis using assms
    by (auto simp: exceptions_no_hard_def bget_merge_exceptions[OF wf] merge_exception_def
        instance_exception_default_def split: option.splits)
qed

lemma merge_record_into_no_hard:
  assumes "\<And>r. side = Some r \<Longrightarrow> exceptions_no_hard r" "\<And>r. was = Some r \<Longrightarrow> exceptions_no_hard r"
    "merge_record_into side was = Some q"
  shows "exceptions_no_hard q"
proof -
  have "exceptions_no_hard agent_record_default"
    by (simp add: exceptions_no_hard_def agent_record_default_def bmap_wf_def bget_def)
  then show ?thesis using assms
    by (cases side; cases was)
       (auto simp: merge_record_into_def record_or_default_def merge_record_no_hard)
qed

lemma merged_exceptions_no_hard:
  assumes "loaded rfc s" "loaded rfc u" "bget (pf_agents (merge s u)) t = Some r"
  shows "exceptions_no_hard r"
proof -
  have i: "exceptions_no_hard q" if "merge_record_into (agent_get s t) None = Some q" for q
    using that by (rule merge_record_into_no_hard[rotated 2]) (auto intro: agent_get_no_hard[OF assms(1)])
  show ?thesis
    using assms(3) unfolding bget_merge_agents(1)[OF loaded_wf[OF assms(1)] loaded_wf[OF assms(2)]]
    by (rule merge_record_into_no_hard[rotated 2]) (auto intro: agent_get_no_hard[OF assms(2)] i)
qed

text \<open>C23: nothing relaxes a hard rule. Whatever the system's and the user's file say, once both
  validated, a shell command or a tool call charged with a hard signal is decided at least as
  strictly as the general rules decided it, at every trust, with any exception; and a shell
  command the guard already blocks for one is refused by the hard layer.\<close>

theorem hard_signal_never_relaxed:
  assumes "loaded rfc s" and "loaded rfc u" and "c \<in> set (sh_charged call)" and "is_hard_signal c"
    and "c \<in> set (tc_charged tool_call)"
  defines "m \<equiv> merge s u"
  shows "strictness (sh_general call) \<le> strictness (dn_verdict (so_decision (decide_shell_in call
           (map_option (Pair n) (bget (pf_types m) ty)) (profiles_facts m agent inst) line t)))
     \<and> (sh_blocks_today call \<longrightarrow> so_decision (decide_shell_in call
           (map_option (Pair n) (bget (pf_types m) ty)) (profiles_facts m agent inst) line t)
         = \<lparr>dn_verdict = VDeny, dn_deciding_layer = LHard\<rparr>)
     \<and> strictness (tool_general tool_call) \<le> strictness (dn_verdict (fst (decide_tool_call_in tool_call
           (map_option (Pair n) (bget (pf_types m) ty)) rv t)))"
proof -
  let ?pr = "map_option (Pair n) (bget (pf_types m) ty)"
  let ?f = "profiles_facts m agent inst"
  have allow: "c \<notin> set (ap_allow_categories p)" if "?pr = Some (k, p)" for k p
    using merged_no_hard[OF assms(1,2), of ty p] that assms(4) by (auto simp: no_hard_def m_def)
  have exc: "c \<notin> set (ie_categories e)" if "rcf_exception ?f = Some e" for e
    using that merged_exceptions_no_hard[OF assms(1,2)] assms(4)
    by (auto simp: profiles_facts_def bind_eq_Some_conv m_def exceptions_no_hard_def no_hard_def
        split: option.splits)
  have "\<not> strictness (dn_verdict (so_decision (decide_shell_in call ?pr ?f line t))) < strictness (sh_general call)"
    using shell_relaxed[of call ?pr ?f line t] allow exc assms(3) by blast
  moreover have "so_decision (decide_shell_in call ?pr ?f line t)
      = \<lparr>dn_verdict = VDeny, dn_deciding_layer = LHard\<rparr>" if "sh_blocks_today call"
    using that assms(3,4) by (auto simp: so_decision_eq decide_def hard_signal_def list_ex_iff)
  moreover have "tool_rule p (tc_tool tool_call) (tc_charged tool_call) \<noteq> Some RAllow"
    if "?pr = Some (k, p)" for k p
    using allow[OF that] assms(5) by (auto simp: tool_rule_def list_all_iff)
  then have "\<not> narrowly_allowed (tool_layers tool_call ?pr rv)"
    by (auto simp: narrowly_allowed_def tool_layers_def bind_eq_Some_conv)
  then have "strictness (tool_general tool_call)
      \<le> strictness (dn_verdict (decide (tool_layers tool_call ?pr rv) t))"
    by (simp add: decide_verdict) (simp add: tool_layers_def)
  ultimately show ?thesis by (auto simp: tool_decision_eq not_less)
qed

definition hard_call :: shell_call where
  "hard_call = \<lparr>sh_general = VReview, sh_charged = [''tmp_execution'', ''guard_self_disable''],
     sh_blocks_today = True, sh_names_llm_key = False, sh_tainted = False\<rparr>"

definition hard_tool_call :: tool_call_facts where
  "hard_tool_call = \<lparr>tc_tool = ''bash'', tc_allowed = True, tc_has_alerts = True,
     tc_charged = [''guard_self_disable''], tc_hard_alert = False, tc_names_llm_key = False\<rparr>"

theorem hard_signal_never_relaxed_witness:
  "so_decision (decide_shell_in hard_call
      (map_option (Pair ''claude-code'') (bget (pf_types (merge (Some sample_profiles) None)) ''claude-code''))
      (profiles_facts (merge (Some sample_profiles) None) (Some ''claude-code'') None) False Confined)
    = \<lparr>dn_verdict = VDeny, dn_deciding_layer = LHard\<rparr>"
proof -
  have l: "loaded (\<lambda>_. True) (Some sample_profiles)" "loaded (\<lambda>_. True) None"
    using sample_file_wf sample_file_validates by (auto simp: loaded_def)
  have h: "is_hard_signal ''guard_self_disable''" by code_simp
  have "sh_blocks_today hard_call" by (simp add: hard_call_def)
  then show ?thesis
    using hard_signal_never_relaxed[OF l _ h, of hard_call hard_tool_call "''claude-code''" "''claude-code''"
        "Some ''claude-code''" None False Confined None]
    by (simp add: hard_call_def hard_tool_call_def)
qed

subsection \<open>A user's file only tightens\<close>

lemma first_field_None: "first_field f m = None \<longleftrightarrow> (\<forall>(k, v)\<in>set m. f v = None)"
  by (induction f m rule: first_field.induct) (auto split: option.splits)

lemma check_user_file_Inr:
  "check_user_file u = Inr () \<longleftrightarrow>
     (\<forall>(t, p)\<in>set (pf_types u). ap_ask_host p = None \<and> profile_relaxing_field p = None)
     \<and> (\<forall>(t, r)\<in>set (pf_agents u). record_relaxing_field r = None)"
proof -
  have "check_user_file u = Inr () \<longleftrightarrow>
      first_field (\<lambda>p. map_option (\<lambda>_. ''ask_host'') (ap_ask_host p)) (pf_types u) = None
      \<and> first_field record_relaxing_field (pf_agents u) = None
      \<and> first_field profile_relaxing_field (pf_types u) = None"
    by (simp add: check_user_file_def split: option.split)
  then show ?thesis unfolding first_field_None by auto
qed

lemma user_resolved:
  assumes "check_user_file u = Inr ()" "resolved_get u t = Some p"
  shows "ap_allow_categories p = []" "ap_mcp_tools_allow p = []" "ap_mode p \<noteq> Some Enforce"
proof -
  have ty: "ap_allow_categories q = [] \<and> ap_mcp_tools_allow q = [] \<and> ap_mode q \<noteq> Some Enforce"
    if "bget (pf_types u) k = Some q" for k q
    using assms(1) bget_in[OF that]
    by (auto simp: check_user_file_Inr profile_relaxing_field_def split: if_splits)
  have ag: "ar_allow_categories r = [] \<and> ar_mcp_tools_allow r = []"
    if "bget (pf_agents u) k = Some r" for k r
    using assms(1) bget_in[OF that]
    by (auto simp: check_user_file_Inr record_relaxing_field_def split: if_splits)
  have "\<exists>k. bget (pf_types u) k = Some p"
    using assms(2) ag
    by (auto simp: resolved_get_def resolved_base_def Let_def split: option.splits if_splits)
  then show "ap_allow_categories p = []" "ap_mcp_tools_allow p = []" "ap_mode p \<noteq> Some Enforce"
    using ty by auto
qed

lemma max_mode_strictness:
  "p \<noteq> Some Enforce \<Longrightarrow> mode_strictness q \<le> mode_strictness (max q p)"
  by (cases p; cases q rule: option.exhaust)
     (auto simp: mode_strictness_def max_def less_eq_profile_mode_def split: profile_mode.splits)

lemma merge_user_tightens:
  assumes "check_user_file u = Inr ()" "side_get (Some u) User t = Some p"
  shows "tightens q (merge_profile p q)"
proof -
  obtain p' where p': "resolved_get u t = Some p'" "p = p'\<lparr>ap_source := Some User\<rparr>"
    using assms(2) by (auto simp: side_get_def)
  show ?thesis
    using user_resolved[OF assms(1) p'(1)] max_mode_strictness[of "ap_mode p'" "ap_mode q"]
    by (auto simp: tightens_def merge_profile_def p'(2))
qed

lemma tightens_refl [simp]: "tightens p p"
  by (simp add: tightens_def)

lemma merged_tightens:
  assumes "option_wf s" "profiles_wf u" "check_user_file u = Inr ()"
  shows "tightens (or_default (bget (pf_types (merge s None)) t))
                  (or_default (bget (pf_types (merge s (Some u))) t))"
proof -
  have wf: "option_wf (Some u)" "option_wf None" using assms(2) by (simp_all add: option_wf_def)
  let ?was = "merge_into (side_get s System t) None"
  have b: "bget (pf_types (merge s None)) t = ?was"
    unfolding bget_merge_types[OF assms(1) wf(2)] by (simp add: side_get_def merge_into_def)
  show ?thesis
    unfolding b bget_merge_types[OF assms(1) wf(1)]
    using merge_user_tightens[OF assms(3)]
    by (cases "side_get (Some u) User t") (simp_all add: merge_into_def or_default_def[of "Some _"])
qed

text \<open>A record's facts, by lookup.\<close>

definition revokes_instance :: "agent_record option \<Rightarrow> string \<Rightarrow> bool" where
  "revokes_instance r i \<longleftrightarrow> is_some_and r (\<lambda>q. i \<in> set (ar_revoked_instances q))"

definition revokes_type :: "agent_record option \<Rightarrow> bool" where
  "revokes_type r \<longleftrightarrow> is_some_and r (\<lambda>q. ar_lifecycle q = Some Revoked)"

lemma profiles_revocation_iff:
  assumes "bmap_wf (pf_agents ps)"
  shows "profiles_revocation ps agent inst \<noteq> None \<longleftrightarrow>
     is_some_and agent (\<lambda>n. revokes_type (bget (pf_agents ps) n))
     \<or> is_some_and inst (\<lambda>i. \<exists>k. revokes_instance (bget (pf_agents ps) k) i)"
proof -
  have "list_ex (\<lambda>(_, r). i \<in> set (ar_revoked_instances r)) (pf_agents ps)
      \<longleftrightarrow> (\<exists>k. revokes_instance (bget (pf_agents ps) k) i)" for i
    by (auto simp: list_ex_iff revokes_instance_def is_some_and_iff dest: bget_in)
       (use in_bget[OF assms] in blast)
  moreover have "profiles_lifecycle ps n = Revoked \<longleftrightarrow> revokes_type (bget (pf_agents ps) n)" for n
    by (auto simp: profiles_lifecycle_def revokes_type_def record_lifecycle_def split: option.splits)
  ultimately show ?thesis
    by (auto simp: profiles_revocation_def split: option.splits)
qed

lemma merge_record_into_revokes:
  "revokes_type (merge_record_into side was) \<longleftrightarrow> revokes_type side \<or> revokes_type was"
  "revokes_instance (merge_record_into side was) i \<longleftrightarrow>
     revokes_instance side i \<or> revokes_instance was i"
  by (cases side; cases was;
      auto simp: merge_record_into_def record_or_default_def revokes_type_def revokes_instance_def
        merge_record_def Let_def merge_lifecycle_def agent_record_default_def)+

lemma merged_revocation:
  assumes "option_wf s" "option_wf u"
  shows "profiles_revocation (merge s u) agent inst \<noteq> None \<longleftrightarrow>
     is_some_and agent (\<lambda>n. revokes_type (agent_get s n) \<or> revokes_type (agent_get u n))
     \<or> is_some_and inst (\<lambda>i. \<exists>k. revokes_instance (agent_get s k) i \<or> revokes_instance (agent_get u k) i)"
proof -
  have none: "revokes_type None = False" "revokes_instance None i = False" for i
    by (simp_all add: revokes_type_def revokes_instance_def)
  show ?thesis
    unfolding profiles_revocation_iff[OF bget_merge_agents(2)[OF assms]] bget_merge_agents(1)[OF assms]
      merge_record_into_revokes none
    by (cases agent; cases inst) auto
qed

lemma user_exception:
  assumes "option_wf s" "profiles_wf u" "check_user_file u = Inr ()"
  shows "rcf_exception (profiles_facts (merge s (Some u)) agent inst)
       = rcf_exception (profiles_facts (merge s None) agent inst)"
proof -
  have wf: "option_wf (Some u)" "option_wf None" using assms(2) by (simp_all add: option_wf_def)
  have ne: "ar_exceptions r = []" if "bget (pf_agents u) k = Some r" for k r
    using assms(3) bget_in[OF that]
    by (auto simp: check_user_file_Inr record_relaxing_field_def split: if_splits)
  have "Option.bind (merge_record_into (bget (pf_agents u) k) was) (\<lambda>r. bget (ar_exceptions r) i)
      = Option.bind was (\<lambda>r. bget (ar_exceptions r) i)" for k i was
    by (cases "bget (pf_agents u) k"; cases was)
       (auto simp: merge_record_into_def merge_record_def Let_def ne record_or_default_def
         agent_record_default_def bget_def)
  then show ?thesis
    unfolding profiles_facts_def bget_merge_agents(1)[OF assms(1) wf(1)]
      bget_merge_agents(1)[OF assms(1) wf(2)]
    by (simp add: agent_get_def merge_record_into_def[of None] split: option.split)
qed

text \<open>C24: a user's file only tightens. With any system file (or none) and a user file that the
  check for user files accepts, every shell command and every tool call is decided at least as
  strictly as with the system file alone, and every shell command that blocks still blocks,
  for any agent type, instance and trust.\<close>

theorem user_file_only_tightens:
  assumes "loaded rfc s" and "loaded rfc (Some u)" and "check_user_file u = Inr ()"
  defines "b \<equiv> merge s None" and "m \<equiv> merge s (Some u)"
  shows "strictness (dn_verdict (so_decision (decide_shell_in call
           (map_option (Pair n) (bget (pf_types b) ty)) (profiles_facts b agent inst) line t)))
       \<le> strictness (dn_verdict (so_decision (decide_shell_in call
           (map_option (Pair n) (bget (pf_types m) ty)) (profiles_facts m agent inst) line t)))
     \<and> (so_blocks (decide_shell_in call
           (map_option (Pair n) (bget (pf_types b) ty)) (profiles_facts b agent inst) line t) \<longrightarrow>
        so_blocks (decide_shell_in call
           (map_option (Pair n) (bget (pf_types m) ty)) (profiles_facts m agent inst) line t))
     \<and> strictness (dn_verdict (fst (decide_tool_call_in tool_call
           (map_option (Pair n) (bget (pf_types b) ty)) (profiles_revocation b agent inst) t)))
       \<le> strictness (dn_verdict (fst (decide_tool_call_in tool_call
           (map_option (Pair n) (bget (pf_types m) ty)) (profiles_revocation m agent inst) t)))"
proof -
  have wf: "option_wf s" "profiles_wf u" "option_wf (Some u)" "option_wf None"
    using loaded_wf[OF assms(1)] loaded_wf[OF assms(2)] by (auto simp: option_wf_def)
  note tight = merged_tightens[OF wf(1,2) assms(3), of ty, folded b_def m_def]
  have rv: "profiles_revocation b agent inst \<noteq> None \<longrightarrow> profiles_revocation m agent inst \<noteq> None"
    unfolding b_def m_def merged_revocation[OF wf(1,4)] merged_revocation[OF wf(1,3)]
    by (auto simp: is_some_and_iff agent_get_def revokes_type_def revokes_instance_def)
  have "facts_le (profiles_facts b agent inst) (profiles_facts m agent inst)"
    using rv user_exception[OF wf(1,2) assms(3), of agent inst]
    by (auto simp: facts_le_def b_def m_def profiles_facts_def[of _ agent inst] split: option.split)
  from decide_shell_tightens[OF tight this] decide_tool_tightens[OF tight rv]
  show ?thesis by blast
qed

definition user_profiles :: agent_profiles where
  "user_profiles = \<lparr>pf_types = [(''claude-code'', agent_profile_default\<lparr>ap_mode := Some BlockReview,
      ap_deny_categories := [''bare_ip_fetch'']\<rparr>)], pf_agents = []\<rparr>"

definition user_file :: profiles_file where
  "user_file = \<lparr>pfile_schema_version = 1, pfile_profile =
     [(''claude-code'', \<lparr>pe_mode = Some ''block-review'', pe_allow_categories = [],
        pe_deny_categories = [''bare_ip_fetch''], pe_mcp_tools_allow = [], pe_mcp_tools_deny = [],
        pe_jail = None, pe_ask_host = None\<rparr>)], pfile_agent = []\<rparr>"

theorem user_file_only_tightens_witness:
  "check_user_file user_profiles = Inr ()
   \<and> so_decision (decide_shell_in sample_call (map_option (Pair ''claude-code'')
       (bget (pf_types (merge (Some sample_profiles) None)) ''claude-code'')) record_facts_default False Confined)
     = \<lparr>dn_verdict = VAllow, dn_deciding_layer = LAgentType\<rparr>
   \<and> strictness (dn_verdict (fst (decide_tool_call_in hard_tool_call
       (map_option (Pair ''claude-code'') (bget (pf_types (merge (Some sample_profiles) None)) ''claude-code''))
       (profiles_revocation (merge (Some sample_profiles) None) None None) Confined)))
     \<le> strictness (dn_verdict (fst (decide_tool_call_in hard_tool_call
       (map_option (Pair ''claude-code'') (bget (pf_types (merge (Some sample_profiles) (Some user_profiles))) ''claude-code''))
       (profiles_revocation (merge (Some sample_profiles) (Some user_profiles)) None None) Confined)))"
proof -
  have c: "check_user_file user_profiles = Inr ()" by code_simp
  have d: "so_decision (decide_shell_in sample_call (map_option (Pair ''claude-code'')
       (bget (pf_types (merge (Some sample_profiles) None)) ''claude-code'')) record_facts_default False Confined)
     = \<lparr>dn_verdict = VAllow, dn_deciding_layer = LAgentType\<rparr>" by code_simp
  have "validate_profiles (\<lambda>_. True) user_file = Inr user_profiles" "file_wf user_file" by code_simp+
  then have l: "loaded (\<lambda>_. True) (Some user_profiles)" "loaded (\<lambda>_. True) (Some sample_profiles)"
    using sample_file_wf sample_file_validates by (auto simp: loaded_def)
  show ?thesis using user_file_only_tightens[OF l(2,1) c] c d by blast
qed

text \<open>C26: either file can revoke, and nothing answers a revocation. When the system's or the
  user's file alone revokes the type or the instance, the merged profiles refuse every shell
  command and every tool call by the hard layer, and the shell command blocks on either kind
  of line.\<close>

theorem revocation_refuses:
  assumes "loaded rfc s" and "loaded rfc u"
    and "(\<exists>p. s = Some p \<and> profiles_revocation p agent inst \<noteq> None)
       \<or> (\<exists>p. u = Some p \<and> profiles_revocation p agent inst \<noteq> None)"
  defines "m \<equiv> merge s u"
  shows "so_decision (decide_shell_in call pr (profiles_facts m agent inst) line t)
           = \<lparr>dn_verdict = VDeny, dn_deciding_layer = LHard\<rparr>
     \<and> so_blocks (decide_shell_in call pr (profiles_facts m agent inst) line t)
     \<and> fst (decide_tool_call_in tool_call pr (profiles_revocation m agent inst) t)
           = \<lparr>dn_verdict = VDeny, dn_deciding_layer = LHard\<rparr>"
proof -
  have wf: "option_wf s" "option_wf u" using loaded_wf assms(1,2) by blast+
  have one: "profiles_revocation p agent inst \<noteq> None \<longleftrightarrow>
      is_some_and agent (\<lambda>n. revokes_type (agent_get (Some p) n))
      \<or> is_some_and inst (\<lambda>i. \<exists>k. revokes_instance (agent_get (Some p) k) i)"
    if "profiles_wf p" for p
    using that by (subst profiles_revocation_iff) (auto simp: profiles_wf_def agent_get_def)
  obtain p where p: "s = Some p \<or> u = Some p" "profiles_revocation p agent inst \<noteq> None"
    using assms(3) by blast
  have "profiles_wf p" using p(1) wf by (auto simp: option_wf_def)
  from one[OF this, THEN iffD1, OF p(2)] p(1)
  have "profiles_revocation m agent inst \<noteq> None"
    unfolding m_def merged_revocation[OF wf] by (auto simp: is_some_and_iff)
  then show ?thesis
    by (auto simp: so_decision_eq so_blocks_eq tool_decision_eq decide_def profiles_facts_def
        tool_layers_def)
qed

theorem revocation_refuses_witness:
  "so_decision (decide_shell_in sample_call None
      (profiles_facts (merge None (Some sample_profiles)) None (Some (replicate 32 (CHR ''c'')))) False Confined)
    = \<lparr>dn_verdict = VDeny, dn_deciding_layer = LHard\<rparr>"
proof -
  have l: "loaded (\<lambda>_. True) None" "loaded (\<lambda>_. True) (Some sample_profiles)"
    using sample_file_wf sample_file_validates by (auto simp: loaded_def)
  have "profiles_revocation sample_profiles None (Some (replicate 32 (CHR ''c''))) \<noteq> None"
    by code_simp
  then show ?thesis
    using revocation_refuses[OF l, of None "Some (replicate 32 (CHR ''c''))" sample_call None
        False Confined hard_tool_call] by blast
qed

subsection \<open>The audit line\<close>

lemma list_changes_Nil: "list_changes push label old new = [] \<longleftrightarrow> set new = set old"
  by (auto simp: list_changes_def filter_empty_conv)

lemma type_changes_Nil:
  assumes "type_changes name old new = []"
  shows "\<not> relaxes old new" "\<not> relaxes new old"
  using assms
  by (auto simp: type_changes_def Let_def relaxes_def gains_iff list_changes_Nil jail_profile_start_def
      split: option.splits if_splits)

lemma type_changes_agent: "c \<in> set (type_changes name old new) \<Longrightarrow> pc_agent_type c = name"
  by (auto simp: type_changes_def Let_def list_changes_def to_type_def split: option.splits if_splits)

lemma type_changes_same: "type_changes name p p = []"
  by (auto simp: type_changes_def Let_def list_changes_Nil split: option.splits)

lemma agent_changes_same: "agent_changes name r r = []"
  by (auto simp: agent_changes_def Let_def exception_changes_def list_changes_Nil filter_empty_conv
      split: option.splits)

lemma bget_None: "bget m k = None \<longleftrightarrow> k \<notin> fst ` set m"
  by (simp add: bget_def map_of_eq_None_iff)

lemma changes_of_type:
  assumes "k \<in> fst ` set (pf_types b) \<union> fst ` set (pf_types a)"
  shows "set (type_changes k (bget (pf_types b) k) (bget (pf_types a) k)) \<subseteq> set (changes b a)"
  using assms by (auto simp: changes_def)

lemma record_changes_of_agent:
  assumes "k \<in> fst ` set (pf_agents b) \<union> fst ` set (pf_agents a)"
  shows "set (agent_changes k (record_or_default (bget (pf_agents b) k))
            (record_or_default (bget (pf_agents a) k))) \<subseteq> set (changes b a)"
  using assms by (auto simp: changes_def record_changes_def record_or_default_def)

lemma agent_changes_lifecycle:
  "record_lifecycle old \<noteq> record_lifecycle new \<Longrightarrow>
   \<exists>c\<in>set (agent_changes name old new). pc_agent_type c = name \<and> pc_action c = ''lifecycle_changed''
      \<and> pc_value c = lifecycle_as_str (record_lifecycle new)"
  by (auto simp: agent_changes_def Let_def)

lemma agent_changes_revoked:
  "\<lbrakk>i \<in> set (ar_revoked_instances old); i \<notin> set (ar_revoked_instances new)\<rbrakk> \<Longrightarrow>
   \<exists>c\<in>set (agent_changes name old new). pc_agent_type c = name
      \<and> pc_action c = ''instance_revocation_removed'' \<and> pc_value c = i"
  by (rule bexI[of _ "\<lparr>pc_layer = LInstance, pc_action = ''instance_revocation_removed'',
        pc_agent_type = name, pc_value = i\<rparr>"]) (auto simp: agent_changes_def Let_def)

text \<open>the audit line misses no relaxation. If a type's profile after a change relaxes
  anything over what it was, a line for that type is written; if a type or an instance that
  was revoked no longer is, a line says which; and no line is written when nothing changed.\<close>

theorem changes_complete:
  "(relaxes (bget (pf_types before) t) (bget (pf_types after) t) \<longrightarrow>
      (\<exists>c\<in>set (changes before after). pc_agent_type c = t))
   \<and> (profiles_lifecycle before t = Revoked \<and> profiles_lifecycle after t \<noteq> Revoked \<longrightarrow>
      (\<exists>c\<in>set (changes before after). pc_agent_type c = t \<and> pc_action c = ''lifecycle_changed''
         \<and> pc_value c \<noteq> ''revoked''))
   \<and> (revokes_instance (bget (pf_agents before) t) i \<and> \<not> revokes_instance (bget (pf_agents after) t) i \<longrightarrow>
      (\<exists>c\<in>set (changes before after). pc_agent_type c = t
         \<and> pc_action c = ''instance_revocation_removed'' \<and> pc_value c = i))
   \<and> changes before before = []"
proof (intro conjI impI)
  assume r: "relaxes (bget (pf_types before) t) (bget (pf_types after) t)"
  have "t \<in> fst ` set (pf_types before) \<union> fst ` set (pf_types after)"
  proof (rule ccontr)
    assume "\<not> ?thesis"
    then have "bget (pf_types before) t = None" "bget (pf_types after) t = None"
      by (auto simp: bget_None)
    then show False using r type_changes_Nil(1)[OF type_changes_same[of t None]] by simp
  qed
  moreover obtain c where "c \<in> set (type_changes t (bget (pf_types before) t) (bget (pf_types after) t))"
    using r type_changes_Nil(1)[of t] by (metis list.set_sel(1))
  ultimately show "\<exists>c\<in>set (changes before after). pc_agent_type c = t"
    using changes_of_type type_changes_agent by blast
next
  assume l: "profiles_lifecycle before t = Revoked \<and> profiles_lifecycle after t \<noteq> Revoked"
  then have in_b: "t \<in> fst ` set (pf_agents before)"
    using bget_None[of "pf_agents before" t] by (auto simp: profiles_lifecycle_def split: option.splits)
  have "record_lifecycle (record_or_default (bget (pf_agents after) t)) \<noteq> Revoked"
    "record_lifecycle (record_or_default (bget (pf_agents before) t)) = Revoked"
    using l by (auto simp: profiles_lifecycle_def record_or_default_def record_lifecycle_def
        agent_record_default_def split: option.splits)
  moreover have "lifecycle_as_str x \<noteq> ''revoked''" if "x \<noteq> Revoked" for x
    using that by (cases x) auto
  ultimately show "\<exists>c\<in>set (changes before after). pc_agent_type c = t
      \<and> pc_action c = ''lifecycle_changed'' \<and> pc_value c \<noteq> ''revoked''"
    using agent_changes_lifecycle[of "record_or_default (bget (pf_agents before) t)"
        "record_or_default (bget (pf_agents after) t)" t]
      record_changes_of_agent[of t before after] in_b by (metis UnI1 subsetD)
next
  assume r: "revokes_instance (bget (pf_agents before) t) i \<and> \<not> revokes_instance (bget (pf_agents after) t) i"
  then have in_b: "t \<in> fst ` set (pf_agents before)"
    using bget_None[of "pf_agents before" t] by (auto simp: revokes_instance_def is_some_and_iff)
  have "i \<in> set (ar_revoked_instances (record_or_default (bget (pf_agents before) t)))"
    "i \<notin> set (ar_revoked_instances (record_or_default (bget (pf_agents after) t)))"
    using r by (auto simp: revokes_instance_def record_or_default_def agent_record_default_def
        is_some_and_def split: option.splits)
  from agent_changes_revoked[OF this, of t]
  show "\<exists>c\<in>set (changes before after). pc_agent_type c = t
      \<and> pc_action c = ''instance_revocation_removed'' \<and> pc_value c = i"
    using record_changes_of_agent[of t before after] in_b by blast
next
  show "changes before before = []"
    by (simp add: changes_def record_changes_def type_changes_same agent_changes_same)
qed

theorem changes_complete_witness:
  "relaxes None (bget (pf_types sample_profiles) ''claude-code'')
   \<and> (\<exists>c\<in>set (changes \<lparr>pf_types = [], pf_agents = []\<rparr> sample_profiles). pc_agent_type c = ''claude-code'')"
proof -
  have "relaxes (bget (pf_types \<lparr>pf_types = [], pf_agents = []\<rparr>) ''claude-code'')
      (bget (pf_types sample_profiles) ''claude-code'')" by code_simp
  then show ?thesis
    using changes_complete[of "\<lparr>pf_types = [], pf_agents = []\<rparr>" "''claude-code''" sample_profiles]
    by (simp add: bget_def)
qed

end
