(* ===== verification/Seccomp.thy ===== *)
theory Seccomp
  imports Prelude
begin

unbundle bit_operations_syntax

text \<open>
  \<^verbatim>\<open>src/crates/agent-guard/src/seccomp.rs\<close>: the classic BPF programs a contained jail
  starts under. The symbolic steps and their assembly into instructions with forward jump
  offsets, the bytes handed over, and the interpreter of the module's tests, which states
  what the kernel does with the instructions. The assembler is proved correct against a
  semantics of the symbolic steps, and the four programs against the policy they stand for.
\<close>

subsection \<open>Numbers\<close>

definition AUDIT_ARCH_X86_64 :: u32 where "AUDIT_ARCH_X86_64 = 0xC000003E"
definition AUDIT_ARCH_AARCH64 :: u32 where "AUDIT_ARCH_AARCH64 = 0xC00000B7"
definition AUDIT_ARCH_I386 :: u32 where "AUDIT_ARCH_I386 = 0x40000003"
definition AUDIT_ARCH_ARM :: u32 where "AUDIT_ARCH_ARM = 0x40000028"
definition X32_SYSCALL_BIT :: u32 where "X32_SYSCALL_BIT = 0x40000000"
definition X32_IOCTL :: u32 where "X32_IOCTL = 514"
definition COMPAT_IOCTL :: u32 where "COMPAT_IOCTL = 54"
definition SKIPPED_CALL :: u32 where "SKIPPED_CALL = 0xFFFFFFFF"
definition CLONE_NEWUSER :: u32 where "CLONE_NEWUSER = 0x10000000"
definition TIOCSTI :: u32 where "TIOCSTI = 0x5412"
definition TIOCLINUX :: u32 where "TIOCLINUX = 0x541C"
definition IOC_WRITE :: u32 where "IOC_WRITE = 1"

definition iow :: "u32 \<Rightarrow> u32 \<Rightarrow> u32 \<Rightarrow> u32" where
  "iow ty nr sz = push_bit 30 IOC_WRITE + push_bit 16 sz + push_bit 8 ty + nr"

definition BTRFS_IOCTL_MAGIC :: u32 where "BTRFS_IOCTL_MAGIC = 0x94"
definition BTRFS_VOL_ARGS_SIZE :: u32 where "BTRFS_VOL_ARGS_SIZE = 8 + (4087 + 1)"
definition BTRFS_VOL_ARGS_V2_SIZE :: u32 where
  "BTRFS_VOL_ARGS_V2_SIZE = 3 * 8 + 4 * 8 + (4039 + 1)"
definition BTRFS_IOC_SNAP_CREATE :: u32 where
  "BTRFS_IOC_SNAP_CREATE = iow BTRFS_IOCTL_MAGIC 1 BTRFS_VOL_ARGS_SIZE"
definition BTRFS_IOC_SUBVOL_CREATE :: u32 where
  "BTRFS_IOC_SUBVOL_CREATE = iow BTRFS_IOCTL_MAGIC 14 BTRFS_VOL_ARGS_SIZE"
definition BTRFS_IOC_SNAP_CREATE_V2 :: u32 where
  "BTRFS_IOC_SNAP_CREATE_V2 = iow BTRFS_IOCTL_MAGIC 23 BTRFS_VOL_ARGS_V2_SIZE"
definition BTRFS_IOC_SUBVOL_CREATE_V2 :: u32 where
  "BTRFS_IOC_SUBVOL_CREATE_V2 = iow BTRFS_IOCTL_MAGIC 24 BTRFS_VOL_ARGS_V2_SIZE"
definition BCACHEFS_IOCTL_MAGIC :: u32 where "BCACHEFS_IOCTL_MAGIC = 0xbc"
definition BCH_SUBVOLUME_SIZE :: u32 where "BCH_SUBVOLUME_SIZE = 4 + 4 + 2 + 3 * 2 + 8 + 8"
definition BCH_SUBVOLUME_V2_SIZE :: u32 where
  "BCH_SUBVOLUME_V2_SIZE = BCH_SUBVOLUME_SIZE + 8 + 4 + 4"
definition BCH_IOCTL_SUBVOLUME_CREATE :: u32 where
  "BCH_IOCTL_SUBVOLUME_CREATE = iow BCACHEFS_IOCTL_MAGIC 16 BCH_SUBVOLUME_SIZE"
definition BCH_IOCTL_SUBVOLUME_CREATE_V2 :: u32 where
  "BCH_IOCTL_SUBVOLUME_CREATE_V2 = iow BCACHEFS_IOCTL_MAGIC 29 BCH_SUBVOLUME_V2_SIZE"

definition NEW_SUBVOLUME :: "u32 list" where
  "NEW_SUBVOLUME = [BTRFS_IOC_SNAP_CREATE, BTRFS_IOC_SUBVOL_CREATE, BTRFS_IOC_SNAP_CREATE_V2,
     BTRFS_IOC_SUBVOL_CREATE_V2, BCH_IOCTL_SUBVOLUME_CREATE, BCH_IOCTL_SUBVOLUME_CREATE_V2]"

definition EPERM :: u32 where "EPERM = 1"
definition ENOSYS :: u32 where "ENOSYS = 38"
definition SECCOMP_RET_KILL_PROCESS :: u32 where "SECCOMP_RET_KILL_PROCESS = 0x80000000"
definition SECCOMP_RET_ERRNO :: u32 where "SECCOMP_RET_ERRNO = 0x00050000"
definition SECCOMP_RET_ALLOW :: u32 where "SECCOMP_RET_ALLOW = 0x7fff0000"
definition RET_EPERM :: u32 where "RET_EPERM = SECCOMP_RET_ERRNO + EPERM"
definition RET_ENOSYS :: u32 where "RET_ENOSYS = SECCOMP_RET_ERRNO + ENOSYS"
definition OFFSET_NR :: u32 where "OFFSET_NR = 0"
definition OFFSET_ARCH :: u32 where "OFFSET_ARCH = 4"
definition OFFSET_ARG0_LOW :: u32 where "OFFSET_ARG0_LOW = 16"
definition OFFSET_ARG1_LOW :: u32 where "OFFSET_ARG1_LOW = 24"
definition BPF_LD_W_ABS :: u16 where "BPF_LD_W_ABS = 0x20"
definition BPF_JMP_JEQ_K :: u16 where "BPF_JMP_JEQ_K = 0x15"
definition BPF_JMP_JGE_K :: u16 where "BPF_JMP_JGE_K = 0x35"
definition BPF_JMP_JSET_K :: u16 where "BPF_JMP_JSET_K = 0x45"
definition BPF_RET_K :: u16 where "BPF_RET_K = 0x06"

lemmas opcode_defs = BPF_LD_W_ABS_def BPF_JMP_JEQ_K_def BPF_JMP_JGE_K_def BPF_JMP_JSET_K_def
  BPF_RET_K_def

record insn =
  in_code :: u16
  in_jt :: u8
  in_jf :: u8
  in_k :: u32

datatype arch = X86_64 | Aarch64

record numbers =
  nu_clone :: u32
  nu_unshare :: u32
  nu_setns :: u32
  nu_clone3 :: u32
  nu_ioctl :: u32

fun arch_audit :: "arch \<Rightarrow> u32" where
  "arch_audit X86_64 = AUDIT_ARCH_X86_64"
| "arch_audit Aarch64 = AUDIT_ARCH_AARCH64"

fun arch_compat :: "arch \<Rightarrow> u32 \<times> u32" where
  "arch_compat X86_64 = (AUDIT_ARCH_I386, COMPAT_IOCTL)"
| "arch_compat Aarch64 = (AUDIT_ARCH_ARM, COMPAT_IOCTL)"

fun arch_numbers :: "arch \<Rightarrow> numbers" where
  "arch_numbers X86_64 = \<lparr>nu_clone = 56, nu_unshare = 272, nu_setns = 308, nu_clone3 = 435, nu_ioctl = 16\<rparr>"
| "arch_numbers Aarch64 = \<lparr>nu_clone = 220, nu_unshare = 97, nu_setns = 268, nu_clone3 = 435, nu_ioctl = 29\<rparr>"

datatype rules = Terminal | Identified

subsection \<open>The symbolic program\<close>

datatype label = LFlags | LX32 | LCompat | LIoctl | LAllow | LEperm | LEnosys | LKill

datatype target = Next | At label

datatype step = Load u32 | Jump u16 u32 target target | Mark label | Ret u32

definition jeq :: "u32 \<Rightarrow> target \<Rightarrow> target \<Rightarrow> step" where
  "jeq k yes no = Jump BPF_JMP_JEQ_K k yes no"

definition steps :: "arch \<Rightarrow> rules \<Rightarrow> step list" where
  "steps arch rules =
     (let n = arch_numbers arch; identified = (rules = Identified); x86 = (arch = X86_64) in
      [Load OFFSET_ARCH,
       jeq (arch_audit arch) Next (At (if identified then LKill else LCompat)),
       Load OFFSET_NR]
      @ (if x86 then
           [jeq SKIPPED_CALL (At LAllow) Next,
            Jump BPF_JMP_JGE_K X32_SYSCALL_BIT (At (if identified then LKill else LX32)) Next]
         else [])
      @ (if identified then
           [jeq (nu_clone3 n) (At LEnosys) Next, jeq (nu_setns n) (At LEperm) Next,
            jeq (nu_unshare n) (At LFlags) Next, jeq (nu_clone n) (At LFlags) Next]
         else [])
      @ (if x86 then
           [jeq (nu_ioctl n) (At LIoctl) Next, jeq X32_IOCTL (At LIoctl) (At LAllow)]
         else [jeq (nu_ioctl n) (At LIoctl) (At LAllow)])
      @ (if identified then
           [Mark LFlags, Load OFFSET_ARG0_LOW,
            Jump BPF_JMP_JSET_K CLONE_NEWUSER (At LEperm) (At LAllow)]
         else
           (if x86 then
              [Mark LX32, jeq (X32_SYSCALL_BIT + X32_IOCTL) (At LIoctl) Next,
               jeq (X32_SYSCALL_BIT + nu_ioctl n) (At LIoctl) (At LAllow)]
            else [])
           @ (let (compat, compat_ioctl) = arch_compat arch in
              [Mark LCompat, jeq compat Next (At LKill), Load OFFSET_NR,
               jeq compat_ioctl (At LIoctl) (At LAllow)]))
      @ [Mark LIoctl, Load OFFSET_ARG1_LOW, jeq TIOCSTI (At LEperm) Next,
         jeq TIOCLINUX (At LEperm) Next]
      @ map (\<lambda>command. jeq command (At LEperm) Next) NEW_SUBVOLUME
      @ [Mark LAllow, Ret SECCOMP_RET_ALLOW, Mark LEperm, Ret RET_EPERM]
      @ (if rules = Identified then [Mark LEnosys, Ret RET_ENOSYS] else [])
      @ [Mark LKill, Ret SECCOMP_RET_KILL_PROCESS])"

subsection \<open>The assembler\<close>

text \<open>First pass: where each label is, counting the instructions before it.\<close>

fun label_table :: "step list \<Rightarrow> nat \<Rightarrow> (label \<times> nat) list" where
  "label_table [] count = []"
| "label_table (Mark l # r) count = (l, count) # label_table r count"
| "label_table (_ # r) count = label_table r (Suc count)"

definition target_of :: "(label \<times> nat) list \<Rightarrow> label \<Rightarrow> nat" where
  "target_of table l = (case map_of table l of Some i \<Rightarrow> i | None \<Rightarrow> 0)"

text \<open>The offset saturates twice: a backward distance at 0, a far one at 255.\<close>

fun offset :: "(label \<times> nat) list \<Rightarrow> nat \<Rightarrow> target \<Rightarrow> u8" where
  "offset table here Next = 0"
| "offset table here (At l) =
     (let distance = target_of table l - (here + 1) in
      if distance \<le> 255 then of_nat distance else 255)"

fun emit :: "(label \<times> nat) list \<Rightarrow> nat \<Rightarrow> step list \<Rightarrow> insn list" where
  "emit table here [] = []"
| "emit table here (Mark l # r) = emit table here r"
| "emit table here (Load k # r) =
     \<lparr>in_code = BPF_LD_W_ABS, in_jt = 0, in_jf = 0, in_k = k\<rparr> # emit table (Suc here) r"
| "emit table here (Jump code k yes no # r) =
     \<lparr>in_code = code, in_jt = offset table here yes, in_jf = offset table here no, in_k = k\<rparr>
       # emit table (Suc here) r"
| "emit table here (Ret k # r) =
     \<lparr>in_code = BPF_RET_K, in_jt = 0, in_jf = 0, in_k = k\<rparr> # emit table (Suc here) r"

definition assemble :: "step list \<Rightarrow> insn list" where
  "assemble s = emit (label_table s 0) 0 s"

definition program :: "arch \<Rightarrow> rules \<Rightarrow> insn list" where
  "program arch rules = assemble (steps arch rules)"

definition le_bytes2 :: "u16 \<Rightarrow> u8 list" where
  "le_bytes2 w = [ucast w, ucast (drop_bit 8 w)]"

definition le_bytes4 :: "u32 \<Rightarrow> u8 list" where
  "le_bytes4 w = [ucast w, ucast (drop_bit 8 w), ucast (drop_bit 16 w), ucast (drop_bit 24 w)]"

definition insn_bytes :: "insn \<Rightarrow> u8 list" where
  "insn_bytes i = le_bytes2 (in_code i) @ [in_jt i, in_jf i] @ le_bytes4 (in_k i)"

definition to_bytes :: "insn list \<Rightarrow> u8 list" where
  "to_bytes p = concat (map insn_bytes p)"

definition filter_bytes :: "arch \<Rightarrow> rules \<Rightarrow> u8 list" where
  "filter_bytes arch rules = to_bytes (program arch rules)"

text \<open>\<open>native\<close> is the build's architecture, when the module has its numbers.\<close>

definition native_filter :: "arch option \<Rightarrow> rules \<Rightarrow> u8 list option" where
  "native_filter native rules = map_option (\<lambda>a. filter_bytes a rules) native"

subsection \<open>The interpreter\<close>

record syscall =
  sy_arch :: u32
  sy_nr :: u32
  sy_ip :: u64
  sy_args :: "u64 list"

definition words_of :: "u64 \<Rightarrow> u32 list" where
  "words_of w = [ucast w, ucast (drop_bit 32 w)]"

text \<open>\<^verbatim>\<open>struct seccomp_data\<close> as its 16 little-endian words.\<close>

definition call_data :: "syscall \<Rightarrow> u32 list" where
  "call_data c = [sy_nr c, sy_arch c] @ words_of (sy_ip c) @ concat (map words_of (sy_args c))"

definition load_word :: "syscall \<Rightarrow> u32 \<Rightarrow> u32 option" where
  "load_word c k =
     (if unat k mod 4 = 0 \<and> unat k div 4 < length (call_data c)
      then Some (call_data c ! (unat k div 4)) else None)"

datatype bpf_verdict = BAllow | BErrno u32 | BKill

definition ret_verdict :: "u32 \<Rightarrow> bpf_verdict option" where
  "ret_verdict k =
     (let action = k AND 0xffff0000 in
      if action = SECCOMP_RET_ALLOW then Some BAllow
      else if action = SECCOMP_RET_ERRNO then Some (BErrno (k AND 0x0000ffff))
      else if action = SECCOMP_RET_KILL_PROCESS then Some BKill
      else None)"

definition jump_test :: "u16 \<Rightarrow> u32 \<Rightarrow> u32 \<Rightarrow> bool option" where
  "jump_test code acc k =
     (if code = BPF_JMP_JEQ_K then Some (acc = k)
      else if code = BPF_JMP_JGE_K then Some (k \<le> acc)
      else if code = BPF_JMP_JSET_K then Some (acc AND k \<noteq> 0)
      else None)"

text \<open>
  A panic of the interpreter (a program counter or a load outside its range, an unknown
  instruction or return) is \<open>None\<close>. Every jump is forward, so a run ends.
\<close>

function run_from :: "insn list \<Rightarrow> syscall \<Rightarrow> nat \<Rightarrow> u32 \<Rightarrow> bpf_verdict option" where
  "run_from prog c pc acc =
     (if length prog \<le> pc then None
      else
        (let i = prog ! pc in
         if in_code i = BPF_LD_W_ABS then
           (case load_word c (in_k i) of None \<Rightarrow> None | Some w \<Rightarrow> run_from prog c (pc + 1) w)
         else if in_code i = BPF_RET_K then ret_verdict (in_k i)
         else
           (case jump_test (in_code i) acc (in_k i) of
              None \<Rightarrow> None
            | Some taken \<Rightarrow>
                run_from prog c (pc + 1 + unat (if taken then in_jt i else in_jf i)) acc)))"
  by pat_completeness auto
termination
  by (relation "measure (\<lambda>(prog, c, pc, acc). length prog - pc)") auto

declare run_from.simps [simp del]

definition run :: "insn list \<Rightarrow> syscall \<Rightarrow> bpf_verdict option" where
  "run prog c = run_from prog c 0 0"

subsection \<open>What the symbolic steps mean\<close>

fun after :: "label \<Rightarrow> step list \<Rightarrow> step list option" where
  "after l [] = None"
| "after l (Mark m # r) = (if m = l then Some r else after l r)"
| "after l (_ # r) = after l r"

lemma after_length: "after l r = Some r' \<Longrightarrow> length r' < length r"
  by (induction l r rule: after.induct) (auto split: if_splits)

text \<open>A step list runs on its own suffixes: a jump goes on after the label's mark.\<close>

function sexec :: "step list \<Rightarrow> syscall \<Rightarrow> u32 \<Rightarrow> bpf_verdict option" where
  "sexec [] c acc = None"
| "sexec (Mark l # r) c acc = sexec r c acc"
| "sexec (Load k # r) c acc = (case load_word c k of None \<Rightarrow> None | Some w \<Rightarrow> sexec r c w)"
| "sexec (Ret k # r) c acc = ret_verdict k"
| "sexec (Jump code k yes no # r) c acc =
     (case jump_test code acc k of
        None \<Rightarrow> None
      | Some taken \<Rightarrow>
          (case (if taken then yes else no) of
             Next \<Rightarrow> sexec r c acc
           | At l \<Rightarrow> (case after l r of None \<Rightarrow> None | Some r' \<Rightarrow> sexec r' c acc)))"
  by pat_completeness auto
termination
  by (relation "measure (\<lambda>(s, c, acc). length s)") (auto dest: after_length)

subsection \<open>The assembler is correct\<close>

fun insn_count :: "step list \<Rightarrow> nat" where
  "insn_count [] = 0"
| "insn_count (Mark l # r) = insn_count r"
| "insn_count (_ # r) = Suc (insn_count r)"

fun labels :: "step list \<Rightarrow> label list" where
  "labels [] = []"
| "labels (Mark l # r) = l # labels r"
| "labels (_ # r) = labels r"

text \<open>How many instructions stand before the next mark of a label.\<close>

fun dist :: "label \<Rightarrow> step list \<Rightarrow> nat option" where
  "dist l [] = None"
| "dist l (Mark m # r) = (if m = l then Some 0 else dist l r)"
| "dist l (_ # r) = map_option Suc (dist l r)"

definition in_reach :: "target \<Rightarrow> step list \<Rightarrow> bool" where
  "in_reach t r = (case t of Next \<Rightarrow> True | At l \<Rightarrow> is_some_and (dist l r) (\<lambda>d. d \<le> 255))"

text \<open>No jump's code is the load's or the return's, and each label it names is ahead, within
  what an offset can hold.\<close>

fun jumps_ok :: "step list \<Rightarrow> bool" where
  "jumps_ok [] = True"
| "jumps_ok (Jump code k yes no # r) \<longleftrightarrow>
     code \<noteq> BPF_LD_W_ABS \<and> code \<noteq> BPF_RET_K \<and> in_reach yes r \<and> in_reach no r \<and> jumps_ok r"
| "jumps_ok (_ # r) = jumps_ok r"

lemma insn_count_append [simp]: "insn_count (a @ b) = insn_count a + insn_count b"
  by (induction a rule: insn_count.induct) auto

lemma labels_append [simp]: "labels (a @ b) = labels a @ labels b"
  by (induction a rule: labels.induct) auto

lemma label_table_append:
  "label_table (a @ b) n = label_table a n @ label_table b (n + insn_count a)"
  by (induction a n rule: label_table.induct) auto

lemma label_table_keys: "map fst (label_table s n) = labels s"
  by (induction s n rule: label_table.induct) auto

lemma emit_append: "emit t n (a @ b) = emit t n a @ emit t (n + insn_count a) b"
  by (induction t n a rule: emit.induct) auto

lemma emit_length: "length (emit t n s) = insn_count s"
  by (induction t n s rule: emit.induct) auto

lemma dist_table: "dist l r = Some d \<Longrightarrow> map_of (label_table r n) l = Some (n + d)"
  by (induction l r arbitrary: d n rule: dist.induct) (auto split: if_splits)

lemma dist_after:
  "dist l r = Some d \<Longrightarrow> \<exists>mid r'. after l r = Some r' \<and> r = mid @ Mark l # r' \<and> insn_count mid = d"
proof (induction r arbitrary: d)
  case (Cons x r)
  show ?case
  proof (cases "x = Mark l")
    case True
    then have "after l (x # r) = Some r \<and> x # r = [] @ Mark l # r \<and> insn_count [] = d"
      using Cons.prems by auto
    then show ?thesis by blast
  next
    case False
    then obtain d' where d': "dist l r = Some d'" "d = insn_count [x] + d'" "after l (x # r) = after l r"
      using Cons.prems by (cases x) auto
    obtain mid r' where "after l r = Some r'" "r = mid @ Mark l # r'" "insn_count mid = d'"
      using Cons.IH[OF d'(1)] by blast
    moreover from this have "insn_count (x # mid) = d" using d'(2) by (cases x) auto
    ultimately have "after l (x # r) = Some r' \<and> x # r = (x # mid) @ Mark l # r' \<and> insn_count (x # mid) = d"
      using d'(3) by simp
    then show ?thesis by blast
  qed
qed simp

lemma jumps_ok_suffix: "jumps_ok (a @ b) \<Longrightarrow> jumps_ok b"
  by (induction a rule: jumps_ok.induct) auto

lemma target_of_label:
  assumes "distinct (labels (pre @ r))" "dist l r = Some d"
  shows "target_of (label_table (pre @ r) 0) l = insn_count pre + d"
proof -
  have "l \<in> set (labels r)"
    using map_of_SomeD[OF dist_table[OF assms(2), of 0]] label_table_keys[of r 0, symmetric] by force
  then have "l \<notin> set (labels pre)" using assms(1) by auto
  then have "map_of (label_table pre 0) l = None"
    by (metis label_table_keys map_of_eq_None_iff list.set_map)
  then show ?thesis using dist_table[OF assms(2)]
    by (simp add: target_of_def label_table_append map_add_def)
qed

lemma offset_in_reach:
  assumes "distinct (labels (pre @ s # r))" "in_reach (At l) r" "\<forall>m. s \<noteq> Mark m"
  obtains r' mid where "after l r = Some r'" "r = mid @ Mark l # r'"
    "unat (offset (label_table (pre @ s # r) 0) (insn_count pre) (At l)) = insn_count mid"
proof -
  obtain d where d: "dist l r = Some d" "d \<le> 255"
    using assms(2) by (auto simp: in_reach_def is_some_and_iff)
  obtain mid r' where r': "after l r = Some r'" "r = mid @ Mark l # r'" "insn_count mid = d"
    using dist_after[OF d(1)] by blast
  have c: "insn_count (pre @ [s]) = insn_count pre + 1" using assms(3) by (cases s) auto
  have "target_of (label_table ((pre @ [s]) @ r) 0) l = insn_count (pre @ [s]) + d"
    using assms(1) by (intro target_of_label[OF _ d(1)]) simp
  then have "target_of (label_table (pre @ s # r) 0) l - (insn_count pre + 1) = d"
    using c by simp
  moreover have "unat (of_nat d :: u8) = d" using d(2) by (intro unat_of_nat_lt) simp
  ultimately have "unat (offset (label_table (pre @ s # r) 0) (insn_count pre) (At l)) = d"
    using d(2) by (simp add: Let_def)
  then show ?thesis using that[OF r'(1,2)] r'(3) by simp
qed

lemma run_from_suffix:
  assumes "distinct (labels (pre @ s))" "jumps_ok (pre @ s)"
  shows "run_from (assemble (pre @ s)) c (insn_count pre) acc = sexec s c acc"
  using assms
proof (induction "length s" arbitrary: pre s acc rule: less_induct)
  case less
  define prog where "prog = assemble (pre @ s)"
  have len: "length prog = insn_count pre + insn_count s"
    by (simp add: prog_def assemble_def emit_length)
  show ?case
  proof (cases s)
    case Nil
    then show ?thesis using len by (subst run_from.simps) (simp add: prog_def)
  next
    case (Cons x r)
    let ?t = "label_table (pre @ x # r) 0"
    have IH: "run_from prog c (insn_count (pre @ mid)) a = sexec r' c a"
      if "s = mid @ r'" "mid \<noteq> []" for mid r' a
      using less.hyps[of r' "pre @ mid" a] less.prems that by (simp add: prog_def)
    have nth: "prog ! insn_count pre = hd (emit ?t (insn_count pre) (x # r))"
      if "\<forall>m. x \<noteq> Mark m"
      using that by (cases x) (auto simp: prog_def Cons assemble_def emit_append nth_append emit_length)
    have inside: "insn_count pre < length prog" if "\<forall>m. x \<noteq> Mark m"
      using that len Cons by (cases x) auto
    have nxt: "run_from prog c (insn_count pre + 1) a = sexec r c a" if "\<forall>m. x \<noteq> Mark m" for a
      using IH[of "[x]" r a] that Cons by (cases x) auto
    have "run_from prog c (insn_count pre) acc = sexec s c acc"
    proof (cases x)
      case (Mark l)
      then show ?thesis using IH[of "[x]" r acc] Cons by simp
    next
      case (Load k)
      then show ?thesis using nth inside nxt Cons
        by (subst run_from.simps) (simp split: option.split)
    next
      case (Ret k)
      then show ?thesis using nth inside Cons
        by (subst run_from.simps) (simp add: opcode_defs)
    next
      case (Jump code k yes no)
      have ok: "code \<noteq> BPF_LD_W_ABS" "code \<noteq> BPF_RET_K" "in_reach yes r" "in_reach no r"
        using jumps_ok_suffix[OF less.prems(2)] by (simp_all add: Cons Jump)
      have go: "run_from prog c (insn_count pre + 1 + unat (offset ?t (insn_count pre) to)) acc
          = (case to of Next \<Rightarrow> sexec r c acc
             | At l \<Rightarrow> (case after l r of None \<Rightarrow> None | Some r' \<Rightarrow> sexec r' c acc))"
        if "in_reach to r" for to
      proof (cases to)
        case Next
        then show ?thesis using nxt[of acc] Jump by simp
      next
        case (At l)
        have h: "distinct (labels (pre @ x # r))" "in_reach (At l) r" "\<forall>m. x \<noteq> Mark m"
          using less.prems(1) that At Cons Jump by auto
        obtain r' mid where r': "after l r = Some r'" "r = mid @ Mark l # r'"
          "unat (offset ?t (insn_count pre) (At l)) = insn_count mid"
          by (rule offset_in_reach[OF h])
        have "run_from prog c (insn_count (pre @ (x # mid @ [Mark l]))) acc = sexec r' c acc"
          by (rule IH) (simp_all add: Cons r'(2))
        then show ?thesis using r' At Jump by (simp add: add.assoc)
      qed
      have ins: "insn_count pre < length prog" "prog ! insn_count pre =
          \<lparr>in_code = code, in_jt = offset ?t (insn_count pre) yes,
           in_jf = offset ?t (insn_count pre) no, in_k = k\<rparr>"
        using nth inside Jump by simp_all
      have sx: "sexec s c acc = (case jump_test code acc k of None \<Rightarrow> None
          | Some taken \<Rightarrow> (case (if taken then yes else no) of Next \<Rightarrow> sexec r c acc
             | At l \<Rightarrow> (case after l r of None \<Rightarrow> None | Some r' \<Rightarrow> sexec r' c acc)))"
        by (simp add: Cons Jump)
      have "run_from prog c (insn_count pre) acc =
          (case jump_test code acc k of None \<Rightarrow> None
           | Some taken \<Rightarrow> run_from prog c (insn_count pre + 1 + unat (offset ?t (insn_count pre)
               (if taken then yes else no))) acc)"
        using ins ok(1,2)
        by (subst run_from.simps) (simp add: if_distrib[of "offset ?t (insn_count pre)"] split: option.split)
      then show ?thesis unfolding sx using go[OF ok(3)] go[OF ok(4)] by (simp split: option.split)
    qed
    then show ?thesis by (simp add: prog_def)
  qed
qed

text \<open>the assembler is correct. For any step list whose labels are distinct and whose jumps
  are forward and within 255 instructions, running the assembled instructions gives on every
  call what the symbolic steps say, a panic included.\<close>

theorem assemble_correct:
  assumes "distinct (labels s)" and "jumps_ok s"
  shows "run (assemble s) c = sexec s c 0"
  using run_from_suffix[of "[]" s c 0] assms by (simp add: run_def)

subsection \<open>The four programs\<close>

definition arg_low :: "syscall \<Rightarrow> nat \<Rightarrow> u32" where
  "arg_low c i = ucast (sy_args c ! i)"

text \<open>The \<open>ioctl\<close> rule of every jail, by the low word of the command.\<close>

definition ioctl_rule :: "syscall \<Rightarrow> bpf_verdict" where
  "ioctl_rule c =
     (if arg_low c 1 \<in> insert TIOCSTI (insert TIOCLINUX (set NEW_SUBVOLUME))
      then BErrno EPERM else BAllow)"

text \<open>A number of the x32 ABI, other than the one a tracer writes over a skipped call.\<close>

definition is_x32 :: "arch \<Rightarrow> u32 \<Rightarrow> bool" where
  "is_x32 a nr \<longleftrightarrow> a = X86_64 \<and> X32_SYSCALL_BIT \<le> nr \<and> nr \<noteq> SKIPPED_CALL"

definition is_native_ioctl :: "arch \<Rightarrow> u32 \<Rightarrow> bool" where
  "is_native_ioctl a nr \<longleftrightarrow> nr = nu_ioctl (arch_numbers a) \<or> (a = X86_64 \<and> nr = X32_IOCTL)"

text \<open>What each jail's filter stands for.\<close>

fun policy :: "arch \<Rightarrow> rules \<Rightarrow> syscall \<Rightarrow> bpf_verdict" where
  "policy a Identified c =
     (if sy_arch c \<noteq> arch_audit a \<or> is_x32 a (sy_nr c) then BKill
      else if a = X86_64 \<and> sy_nr c = SKIPPED_CALL then BAllow
      else if sy_nr c = nu_clone3 (arch_numbers a) then BErrno ENOSYS
      else if sy_nr c = nu_setns (arch_numbers a) then BErrno EPERM
      else if sy_nr c \<in> {nu_unshare (arch_numbers a), nu_clone (arch_numbers a)} then
        (if arg_low c 0 AND CLONE_NEWUSER \<noteq> 0 then BErrno EPERM else BAllow)
      else if is_native_ioctl a (sy_nr c) then ioctl_rule c
      else BAllow)"
| "policy a Terminal c =
     (if sy_arch c = arch_audit a then
        (if a = X86_64 \<and> sy_nr c = SKIPPED_CALL then BAllow
         else if is_x32 a (sy_nr c) then
           (if sy_nr c \<in> {X32_SYSCALL_BIT + X32_IOCTL, X32_SYSCALL_BIT + nu_ioctl (arch_numbers a)}
            then ioctl_rule c else BAllow)
         else if is_native_ioctl a (sy_nr c) then ioctl_rule c else BAllow)
      else if sy_arch c = fst (arch_compat a) then
        (if sy_nr c = snd (arch_compat a) then ioctl_rule c else BAllow)
      else BKill)"

lemma call_loads:
  assumes "length (sy_args c) = 6"
  shows "load_word c OFFSET_NR = Some (sy_nr c)" "load_word c OFFSET_ARCH = Some (sy_arch c)"
    "load_word c OFFSET_ARG0_LOW = Some (arg_low c 0)"
    "load_word c OFFSET_ARG1_LOW = Some (arg_low c 1)"
proof -
  obtain a0 a1 a2 a3 a4 a5 where args: "sy_args c = [a0, a1, a2, a3, a4, a5]"
    using assms by (auto simp: length_Suc_conv numeral_eq_Suc)
  show "load_word c OFFSET_NR = Some (sy_nr c)" "load_word c OFFSET_ARCH = Some (sy_arch c)"
    "load_word c OFFSET_ARG0_LOW = Some (arg_low c 0)"
    "load_word c OFFSET_ARG1_LOW = Some (arg_low c 1)"
    by (simp_all add: load_word_def OFFSET_NR_def OFFSET_ARCH_def OFFSET_ARG0_LOW_def
        OFFSET_ARG1_LOW_def call_data_def args words_of_def arg_low_def)
qed

lemma ret_verdicts:
  "ret_verdict SECCOMP_RET_ALLOW = Some BAllow" "ret_verdict RET_EPERM = Some (BErrno EPERM)"
  "ret_verdict RET_ENOSYS = Some (BErrno ENOSYS)" "ret_verdict SECCOMP_RET_KILL_PROCESS = Some BKill"
  by code_simp+

lemma jump_tests:
  "jump_test BPF_JMP_JEQ_K acc k = Some (acc = k)" "jump_test BPF_JMP_JGE_K acc k = Some (k \<le> acc)"
  "jump_test BPF_JMP_JSET_K acc k = Some (acc AND k \<noteq> 0)"
  by (simp_all add: jump_test_def opcode_defs)

lemmas steps_simps = steps_def jeq_def Let_def NEW_SUBVOLUME_def

lemma steps_well_formed: "distinct (labels (steps a r)) \<and> jumps_ok (steps a r)"
  by (cases a; cases r; simp add: steps_simps in_reach_def; simp add: opcode_defs)

lemma program_sexec: "run (program a r) c = sexec (steps a r) c 0"
  unfolding program_def run_def
  using run_from_suffix[of "[]" "steps a r" c 0] steps_well_formed[of a r] by simp

text \<open>A jump, as going on at a label of the steps ahead.\<close>

definition goto :: "label \<Rightarrow> step list \<Rightarrow> syscall \<Rightarrow> u32 \<Rightarrow> bpf_verdict option" where
  "goto l s c acc = (case after l s of None \<Rightarrow> None | Some r \<Rightarrow> sexec r c acc)"

lemma goto_simps:
  "goto l (Mark m # r) c acc = (if m = l then sexec r c acc else goto l r c acc)"
  "goto l (Load k # r) c acc = goto l r c acc"
  "goto l (Jump code k yes no # r) c acc = goto l r c acc"
  "goto l (Ret k # r) c acc = goto l r c acc"
  by (simp_all add: goto_def)

fun jump_to :: "target \<Rightarrow> step list \<Rightarrow> syscall \<Rightarrow> u32 \<Rightarrow> bpf_verdict option" where
  "jump_to Next r c acc = sexec r c acc"
| "jump_to (At l) r c acc = goto l r c acc"

lemma jump_to_eq:
  "jump_to t r c acc =
     (case t of Next \<Rightarrow> sexec r c acc
      | At l \<Rightarrow> (case after l r of None \<Rightarrow> None | Some r' \<Rightarrow> sexec r' c acc))"
  by (cases t) (simp_all add: goto_def)

lemma case_target_if:
  "(case (if b then y else n) of Next \<Rightarrow> f | At l \<Rightarrow> g l) =
     (if b then (case y of Next \<Rightarrow> f | At l \<Rightarrow> g l) else (case n of Next \<Rightarrow> f | At l \<Rightarrow> g l))"
  by simp

lemma sexec_jump:
  "sexec (Jump BPF_JMP_JEQ_K k yes no # r) c acc =
     (if acc = k then jump_to yes r c acc else jump_to no r c acc)"
  "sexec (Jump BPF_JMP_JGE_K k yes no # r) c acc =
     (if k \<le> acc then jump_to yes r c acc else jump_to no r c acc)"
  "sexec (Jump BPF_JMP_JSET_K k yes no # r) c acc =
     (if acc AND k \<noteq> 0 then jump_to yes r c acc else jump_to no r c acc)"
  by (simp_all only: sexec.simps jump_tests option.case jump_to_eq case_target_if)

lemma sexec_jeq:
  "sexec (jeq k yes no # r) c acc = (if acc = k then jump_to yes r c acc else jump_to no r c acc)"
  by (simp only: jeq_def sexec_jump)

lemma goto_compares:
  "goto l (map (\<lambda>k. jeq k t Next) ks @ r) c acc = goto l r c acc"
  by (induction ks) (simp_all add: jeq_def goto_simps)

text \<open>A list of compares refuses the values it lists.\<close>

lemma sexec_compares:
  "sexec (map (\<lambda>k. jeq k (At l) Next) ks @ r) c acc =
     (if acc \<in> set ks then goto l r c acc else sexec r c acc)"
proof (induction ks)
  case (Cons k ks)
  then show ?case by (simp add: sexec_jeq goto_compares)
qed simp

text \<open>The common end of every program: the \<open>ioctl\<close> check and the returns.\<close>

definition returns_part :: "rules \<Rightarrow> step list" where
  "returns_part r = [Ret SECCOMP_RET_ALLOW, Mark LEperm, Ret RET_EPERM]
     @ (if r = Identified then [Mark LEnosys, Ret RET_ENOSYS] else [])
     @ [Mark LKill, Ret SECCOMP_RET_KILL_PROCESS]"

definition ioctl_part :: "rules \<Rightarrow> step list" where
  "ioctl_part r = Load OFFSET_ARG1_LOW
     # map (\<lambda>k. jeq k (At LEperm) Next) (TIOCSTI # TIOCLINUX # NEW_SUBVOLUME)
     @ Mark LAllow # returns_part r"

lemma returns_part_exec:
  "sexec (returns_part r) c acc = Some BAllow" "goto LEperm (returns_part r) c acc = Some (BErrno EPERM)"
  "goto LEnosys (returns_part Identified) c acc = Some (BErrno ENOSYS)"
  "goto LKill (returns_part r) c acc = Some BKill"
  by (simp_all add: returns_part_def ret_verdicts goto_simps)

lemma ioctl_part_exec:
  assumes "length (sy_args c) = 6"
  shows "sexec (ioctl_part r) c acc = Some (ioctl_rule c)"
    "goto LEperm (ioctl_part r) c acc = Some (BErrno EPERM)"
    "goto LEnosys (ioctl_part Identified) c acc = Some (BErrno ENOSYS)"
    "goto LKill (ioctl_part r) c acc = Some BKill" "goto LAllow (ioctl_part r) c acc = Some BAllow"
proof -
  show "sexec (ioctl_part r) c acc = Some (ioctl_rule c)"
    unfolding ioctl_part_def sexec.simps(3) call_loads(4)[OF assms] option.case sexec_compares
    by (simp add: ioctl_rule_def goto_simps returns_part_exec)
qed (simp_all only: ioctl_part_def goto_simps goto_compares returns_part_exec label.distinct
       simp_thms if_True if_False)

text \<open>The start of each program.\<close>

lemma steps_split:
  "steps X86_64 Identified =
     [Load OFFSET_ARCH, jeq AUDIT_ARCH_X86_64 Next (At LKill), Load OFFSET_NR,
      jeq SKIPPED_CALL (At LAllow) Next, Jump BPF_JMP_JGE_K X32_SYSCALL_BIT (At LKill) Next,
      jeq 435 (At LEnosys) Next, jeq 308 (At LEperm) Next, jeq 272 (At LFlags) Next,
      jeq 56 (At LFlags) Next, jeq 16 (At LIoctl) Next, jeq X32_IOCTL (At LIoctl) (At LAllow),
      Mark LFlags, Load OFFSET_ARG0_LOW, Jump BPF_JMP_JSET_K CLONE_NEWUSER (At LEperm) (At LAllow),
      Mark LIoctl] @ ioctl_part Identified"
  "steps Aarch64 Identified =
     [Load OFFSET_ARCH, jeq AUDIT_ARCH_AARCH64 Next (At LKill), Load OFFSET_NR,
      jeq 435 (At LEnosys) Next, jeq 268 (At LEperm) Next, jeq 97 (At LFlags) Next,
      jeq 220 (At LFlags) Next, jeq 29 (At LIoctl) (At LAllow),
      Mark LFlags, Load OFFSET_ARG0_LOW, Jump BPF_JMP_JSET_K CLONE_NEWUSER (At LEperm) (At LAllow),
      Mark LIoctl] @ ioctl_part Identified"
  "steps X86_64 Terminal =
     [Load OFFSET_ARCH, jeq AUDIT_ARCH_X86_64 Next (At LCompat), Load OFFSET_NR,
      jeq SKIPPED_CALL (At LAllow) Next, Jump BPF_JMP_JGE_K X32_SYSCALL_BIT (At LX32) Next,
      jeq 16 (At LIoctl) Next, jeq X32_IOCTL (At LIoctl) (At LAllow),
      Mark LX32, jeq (X32_SYSCALL_BIT + X32_IOCTL) (At LIoctl) Next,
      jeq (X32_SYSCALL_BIT + 16) (At LIoctl) (At LAllow),
      Mark LCompat, jeq AUDIT_ARCH_I386 Next (At LKill), Load OFFSET_NR,
      jeq COMPAT_IOCTL (At LIoctl) (At LAllow), Mark LIoctl] @ ioctl_part Terminal"
  "steps Aarch64 Terminal =
     [Load OFFSET_ARCH, jeq AUDIT_ARCH_AARCH64 Next (At LCompat), Load OFFSET_NR,
      jeq 29 (At LIoctl) (At LAllow),
      Mark LCompat, jeq AUDIT_ARCH_ARM Next (At LKill), Load OFFSET_NR,
      jeq COMPAT_IOCTL (At LIoctl) (At LAllow), Mark LIoctl] @ ioctl_part Terminal"
  by (simp_all add: steps_def Let_def ioctl_part_def returns_part_def jeq_def)

lemma sexec_policy:
  assumes "length (sy_args c) = 6"
  shows "sexec (steps a r) c 0 = Some (policy a r c)"
proof (cases a; cases r)
  assume "a = X86_64" "r = Terminal"
  then show ?thesis
    by (simp add: steps_split jeq_def call_loads[OF assms] goto_simps sexec_jump
        ioctl_part_exec[OF assms] is_x32_def is_native_ioctl_def
        del: sexec.simps(5))
next
  assume "a = X86_64" "r = Identified"
  then show ?thesis
    by (simp add: steps_split jeq_def call_loads[OF assms] goto_simps sexec_jump
        ioctl_part_exec[OF assms] is_x32_def is_native_ioctl_def
        del: sexec.simps(5))
next
  assume "a = Aarch64" "r = Terminal"
  then show ?thesis
    by (simp add: steps_split jeq_def call_loads[OF assms] goto_simps sexec_jump
        ioctl_part_exec[OF assms] is_x32_def is_native_ioctl_def
        del: sexec.simps(5))
next
  assume "a = Aarch64" "r = Identified"
  then show ?thesis
    by (simp add: steps_split jeq_def call_loads[OF assms] goto_simps sexec_jump
        ioctl_part_exec[OF assms] is_x32_def is_native_ioctl_def
        del: sexec.simps(5))
qed

declare policy.simps [simp del]

theorem assemble_correct_witness:
  "run (assemble [Load OFFSET_NR, jeq 5 (At LKill) Next, Mark LAllow, Ret SECCOMP_RET_ALLOW,
      Mark LKill, Ret SECCOMP_RET_KILL_PROCESS])
     \<lparr>sy_arch = 0, sy_nr = 5, sy_ip = 0, sy_args = []\<rparr> = Some BKill"
proof -
  let ?s = "[Load OFFSET_NR, jeq 5 (At LKill) Next, Mark LAllow, Ret SECCOMP_RET_ALLOW,
      Mark LKill, Ret SECCOMP_RET_KILL_PROCESS]"
  let ?c = "\<lparr>sy_arch = 0, sy_nr = 5, sy_ip = 0, sy_args = []\<rparr> :: syscall"
  have "distinct (labels ?s)" "jumps_ok ?s"
    by (simp_all add: jeq_def opcode_defs in_reach_def)
  moreover have "sexec ?s ?c 0 = Some BKill" by code_simp
  ultimately show ?thesis using assemble_correct[of ?s ?c] by simp
qed

lemma run_program_policy:
  "length (sy_args c) = 6 \<Longrightarrow> run (program a r) c = Some (policy a r c)"
  by (simp only: program_sexec sexec_policy)

text \<open>C34: each of the four programs is its policy. On every call the kernel can describe, running
  the assembled instructions ends with the verdict the policy gives, never a panic: the
  architecture first, then the x32 numbers, the namespace calls, and the \<open>ioctl\<close> commands by
  the low word of the argument, whatever its high word holds.\<close>

theorem program_is_policy:
  assumes "length (sy_args c) = 6"
  shows "run (program a r) c = Some (policy a r c)"
  by (rule run_program_policy[OF assms])

definition tiocsti_call :: syscall where
  "tiocsti_call = \<lparr>sy_arch = AUDIT_ARCH_X86_64, sy_nr = 16, sy_ip = 0,
     sy_args = [0, 0xffffffff00005412, 0, 0, 0, 0]\<rparr>"

theorem program_is_policy_witness:
  "run (program X86_64 Terminal) tiocsti_call = Some (BErrno 1)"
proof -
  have "length (sy_args tiocsti_call) = 6" by (simp add: tiocsti_call_def)
  moreover have "policy X86_64 Terminal tiocsti_call = BErrno 1" by code_simp
  ultimately show ?thesis using program_is_policy[of tiocsti_call X86_64 Terminal] by simp
qed

lemma compat_not_native: "fst (arch_compat a) \<noteq> arch_audit a"
  by (cases a) (simp_all add: AUDIT_ARCH_I386_def AUDIT_ARCH_X86_64_def AUDIT_ARCH_ARM_def
      AUDIT_ARCH_AARCH64_def)

lemma numbers_distinct:
  "nr \<in> {nu_clone3 (arch_numbers a), nu_setns (arch_numbers a), nu_unshare (arch_numbers a),
     nu_clone (arch_numbers a)} \<Longrightarrow> \<not> is_native_ioctl a nr \<and> \<not> is_x32 a nr \<and> nr \<noteq> SKIPPED_CALL"
  by (cases a) (auto simp: is_native_ioctl_def is_x32_def X32_IOCTL_def X32_SYSCALL_BIT_def SKIPPED_CALL_def)

lemma if_shape:
  "\<lbrakk>p \<or> q \<or> r; \<not> i\<rbrakk> \<Longrightarrow>
   (if p then A else if q then B else if r then (if f then C else D) else if i then E else D)
   = (if p then A else if q then B else if r \<and> f then C else D)"
  by simp

text \<open>What identity adds. Everything the plain jail refuses the identified jail refuses; on a
  call of the native ABI the two agree except that the identified one also refuses the calls
  that make or join a namespace (\<open>clone3\<close> with \<open>ENOSYS\<close>, so that the library falls back);
  and a call of any other ABI it ends.\<close>

theorem identified_adds_namespaces:
  assumes "length (sy_args c) = 6"
  shows "(run (program a Terminal) c \<noteq> Some BAllow \<longrightarrow> run (program a Identified) c \<noteq> Some BAllow)
   \<and> (sy_arch c = arch_audit a \<and> \<not> is_x32 a (sy_nr c) \<longrightarrow>
        run (program a Identified) c =
          (if sy_nr c = nu_clone3 (arch_numbers a) then Some (BErrno ENOSYS)
           else if sy_nr c = nu_setns (arch_numbers a) then Some (BErrno EPERM)
           else if sy_nr c \<in> {nu_unshare (arch_numbers a), nu_clone (arch_numbers a)}
             \<and> arg_low c 0 AND CLONE_NEWUSER \<noteq> 0 then Some (BErrno EPERM)
           else run (program a Terminal) c))
   \<and> (sy_arch c \<noteq> arch_audit a \<or> is_x32 a (sy_nr c) \<longrightarrow> run (program a Identified) c = Some BKill)"
proof -
  let ?nr = "sy_nr c"
  let ?N = "{nu_clone3 (arch_numbers a), nu_setns (arch_numbers a), nu_unshare (arch_numbers a),
     nu_clone (arch_numbers a)}"
  show ?thesis
  proof (cases "sy_arch c = arch_audit a \<and> \<not> is_x32 a ?nr")
    case False
    then have "policy a Identified c = BKill" unfolding policy.simps by simp
    then have "run (program a Identified) c = Some BKill" by (simp add: run_program_policy[OF assms])
    moreover have "Some BKill \<noteq> Some BAllow" by simp
    ultimately show ?thesis using False by argo
  next
    case native: True
    show ?thesis
    proof (cases "?nr \<in> ?N")
      case True
      note nd = numbers_distinct[OF True, THEN conjunct1] numbers_distinct[OF True, THEN conjunct2, THEN conjunct1]
        numbers_distinct[OF True, THEN conjunct2, THEN conjunct2]
      have t: "policy a Terminal c = BAllow"
        unfolding policy.simps by (simp only: native nd simp_thms if_True if_False)
      have "policy a Identified c =
          (if ?nr = nu_clone3 (arch_numbers a) then BErrno ENOSYS
           else if ?nr = nu_setns (arch_numbers a) then BErrno EPERM
           else if ?nr \<in> {nu_unshare (arch_numbers a), nu_clone (arch_numbers a)}
             then (if arg_low c 0 AND CLONE_NEWUSER \<noteq> 0 then BErrno EPERM else BAllow)
           else if is_native_ioctl a ?nr then ioctl_rule c else BAllow)"
        unfolding policy.simps by (simp only: native nd simp_thms if_True if_False)
      also have "\<dots> = (if ?nr = nu_clone3 (arch_numbers a) then BErrno ENOSYS
           else if ?nr = nu_setns (arch_numbers a) then BErrno EPERM
           else if ?nr \<in> {nu_unshare (arch_numbers a), nu_clone (arch_numbers a)}
             \<and> arg_low c 0 AND CLONE_NEWUSER \<noteq> 0 then BErrno EPERM else BAllow)"
        by (rule if_shape) (use True nd in blast)+
      finally show ?thesis unfolding run_program_policy[OF assms] t using native by presburger
    next
      case False
      then have n: "?nr \<noteq> nu_clone3 (arch_numbers a)" "?nr \<noteq> nu_setns (arch_numbers a)"
        "?nr \<notin> {nu_unshare (arch_numbers a), nu_clone (arch_numbers a)}" by blast+
      have "policy a Identified c = policy a Terminal c"
        unfolding policy.simps by (simp only: native n simp_thms if_True if_False)
      then show ?thesis unfolding run_program_policy[OF assms] using native n by presburger
    qed
  qed
qed

theorem identified_adds_namespaces_witness:
  "run (program X86_64 Identified) (tiocsti_call\<lparr>sy_nr := 435\<rparr>) = Some (BErrno ENOSYS)
   \<and> run (program X86_64 Identified) (tiocsti_call\<lparr>sy_arch := AUDIT_ARCH_I386\<rparr>) = Some BKill"
proof -
  let ?c = "tiocsti_call\<lparr>sy_nr := 435\<rparr>"
  let ?d = "tiocsti_call\<lparr>sy_arch := AUDIT_ARCH_I386\<rparr>"
  have l: "length (sy_args ?c) = 6" "length (sy_args ?d) = 6" by (simp_all add: tiocsti_call_def)
  have "sy_arch ?c = arch_audit X86_64 \<and> \<not> is_x32 X86_64 (sy_nr ?c)" by code_simp
  moreover have "sy_arch ?d \<noteq> arch_audit X86_64" by code_simp
  ultimately show ?thesis
    using identified_adds_namespaces[OF l(1), of X86_64] identified_adds_namespaces[OF l(2), of X86_64]
    by simp
qed

subsection \<open>The bytes\<close>

definition le2 :: "u8 \<Rightarrow> u8 \<Rightarrow> u16" where
  "le2 a b = ucast a OR push_bit 8 (ucast b)"

definition le4 :: "u8 \<Rightarrow> u8 \<Rightarrow> u8 \<Rightarrow> u8 \<Rightarrow> u32" where
  "le4 a b c d = ucast a OR push_bit 8 (ucast b) OR push_bit 16 (ucast c) OR push_bit 24 (ucast d)"

text \<open>Reading instructions back, as the kernel lays out \<^verbatim>\<open>struct sock_filter\<close>.\<close>

fun of_bytes :: "u8 list \<Rightarrow> insn list" where
  "of_bytes (c0 # c1 # jt # jf # k0 # k1 # k2 # k3 # r) =
     \<lparr>in_code = le2 c0 c1, in_jt = jt, in_jf = jf, in_k = le4 k0 k1 k2 k3\<rparr> # of_bytes r"
| "of_bytes _ = []"

lemma le2_bytes: "le2 (ucast (w :: u16)) (ucast (drop_bit 8 w)) = w"
  by (rule bit_word_eqI) (auto simp: le2_def bit_simps)

lemma le4_bytes:
  "le4 (ucast (w :: u32)) (ucast (drop_bit 8 w)) (ucast (drop_bit 16 w)) (ucast (drop_bit 24 w)) = w"
proof (rule bit_word_eqI)
  fix n
  assume "n < LENGTH(32)"
  consider "n < 8" | "8 \<le> n \<and> n < 16" | "16 \<le> n \<and> n < 24" | "24 \<le> n" by linarith
  then show "bit (le4 (ucast w) (ucast (drop_bit 8 w)) (ucast (drop_bit 16 w)) (ucast (drop_bit 24 w))) n
      = bit w n"
    using \<open>n < LENGTH(32)\<close> by cases (auto simp: le4_def bit_simps)
qed

lemma of_bytes_insn: "of_bytes (insn_bytes i @ r) = i # of_bytes r"
  by (simp add: insn_bytes_def le_bytes2_def le_bytes4_def le2_bytes le4_bytes)

lemma of_to_bytes: "of_bytes (to_bytes p) = p"
  by (induction p) (simp_all add: to_bytes_def of_bytes_insn)

lemma length_to_bytes: "length (to_bytes p) = 8 * length p"
  by (induction p) (simp_all add: to_bytes_def insn_bytes_def le_bytes2_def le_bytes4_def)

lemma filter_inject: "filter_bytes a r = filter_bytes a' r' \<Longrightarrow> program a r = program a' r'"
  unfolding filter_bytes_def by (metis of_to_bytes)

text \<open>the bytes handed over are the program. A filter is a whole number of 8-byte
  instructions, at most the 4096 the kernel takes, it reads back to exactly the program,
  and what the kernel reads back gives every call the verdict of the policy.\<close>

theorem filter_bytes_roundtrip:
  "of_bytes (filter_bytes a r) = program a r
   \<and> length (filter_bytes a r) = 8 * length (program a r) \<and> length (program a r) \<in> {1..4096}
   \<and> (length (sy_args c) = 6 \<longrightarrow> run (of_bytes (filter_bytes a r)) c = Some (policy a r c))"
proof -
  have "length (program a r) = insn_count (steps a r)"
    by (simp add: program_def assemble_def emit_length)
  moreover have "insn_count (steps a r) \<in> {1..4096}"
    by (cases a; cases r; simp add: steps_simps)
  ultimately show ?thesis
    by (simp add: filter_bytes_def of_to_bytes length_to_bytes run_program_policy)
qed

theorem filter_bytes_roundtrip_witness:
  "run (of_bytes (filter_bytes X86_64 Terminal)) tiocsti_call = Some (BErrno 1)"
proof -
  have "length (sy_args tiocsti_call) = 6" by (simp add: tiocsti_call_def)
  moreover have "policy X86_64 Terminal tiocsti_call = BErrno 1" by code_simp
  ultimately show ?thesis using filter_bytes_roundtrip[of X86_64 Terminal tiocsti_call] by metis
qed

end
