(* ===== verification/Breaker.thy ===== *)
theory Breaker
  imports Prelude
begin

text \<open>
  \<^verbatim>\<open>src/crates/agent-guard/src/breaker.rs\<close>: the identical-call loop breaker of the MCP
  proxy. A call is remembered by a hash of its signature, which is an argument here; the
  hash table is an association list in any order. The clock and the window are 64-bit
  words, with the saturating subtraction of the source.
\<close>

record breaker_config =
  bc_max_identical_calls :: u32
  bc_window_secs :: u64
  bc_max_tracked_calls :: nat

definition breaker_config_default :: breaker_config where
  "breaker_config_default =
     \<lparr>bc_max_identical_calls = 3, bc_window_secs = 60, bc_max_tracked_calls = 1024\<rparr>"

text \<open>The reason of a trip is kept as its three numbers: the limit, the window, and after how
  many seconds the call is accepted again.\<close>

datatype breaker_verdict = BvOk | BvTripped nat u64 u64

definition is_tripped :: "breaker_verdict \<Rightarrow> bool" where
  "is_tripped v \<longleftrightarrow> (case v of BvTripped _ _ _ \<Rightarrow> True | BvOk \<Rightarrow> False)"

record recent =
  re_accepted :: "u64 list"
  re_last_touch :: u64

definition recent_default :: recent where
  "recent_default = \<lparr>re_accepted = [], re_last_touch = 0\<rparr>"

record breaker =
  br_config :: breaker_config
  br_calls :: "(u64 \<times> recent) list"
  br_touches :: u64

definition breaker_new :: "breaker_config \<Rightarrow> breaker" where
  "breaker_new config = \<lparr>br_config = config, br_calls = [], br_touches = 0\<rparr>"

definition is_live :: "u64 \<Rightarrow> u64 \<Rightarrow> u64 \<Rightarrow> bool" where
  "is_live at now window \<longleftrightarrow> saturating_sub now at < window"

definition has_live :: "u64 \<Rightarrow> u64 \<Rightarrow> recent \<Rightarrow> bool" where
  "has_live now window r \<longleftrightarrow> list_ex (\<lambda>at. is_live at now window) (re_accepted r)"

text \<open>One pass over the table: keep the live ones, noting the least recently seen of them.\<close>

fun retain_live ::
  "u64 \<Rightarrow> u64 \<Rightarrow> (u64 \<times> u64) option \<Rightarrow> (u64 \<times> recent) list
   \<Rightarrow> (u64 \<times> u64) option \<times> (u64 \<times> recent) list" where
  "retain_live now window least [] = (least, [])"
| "retain_live now window least ((key, r) # calls) =
     (let live = has_live now window r;
          least' = (if live \<and> is_none_or least (\<lambda>(touch, _). re_last_touch r < touch)
                    then Some (re_last_touch r, key) else least);
          (l, kept) = retain_live now window least' calls
      in (l, if live then (key, r) # kept else kept))"

definition make_room :: "breaker \<Rightarrow> u64 \<Rightarrow> breaker" where
  "make_room b now =
     (let cap = max 1 (bc_max_tracked_calls (br_config b)) in
      if length (br_calls b) < cap then b
      else
        (let (least, kept) = retain_live now (bc_window_secs (br_config b)) None (br_calls b) in
         b\<lparr>br_calls :=
             (if cap \<le> length kept then
                (case least of Some (_, key) \<Rightarrow> filter (\<lambda>(k, _). k \<noteq> key) kept | None \<Rightarrow> kept)
              else kept)\<rparr>))"

fun set_call :: "u64 \<Rightarrow> recent \<Rightarrow> (u64 \<times> recent) list \<Rightarrow> (u64 \<times> recent) list" where
  "set_call key r [] = [(key, r)]"
| "set_call key r ((k, s) # calls) =
     (if k = key then (key, r) # calls else (k, s) # set_call key r calls)"

definition get_call :: "(u64 \<times> recent) list \<Rightarrow> u64 \<Rightarrow> recent" where
  "get_call calls key = (case map_of calls key of Some r \<Rightarrow> r | None \<Rightarrow> recent_default)"

text \<open>The call is given by its key, the hash of its signature.\<close>

definition record_key :: "breaker \<Rightarrow> u64 \<Rightarrow> u64 \<Rightarrow> breaker \<times> breaker_verdict" where
  "record_key b0 key now =
     (let b = (if map_of (br_calls b0) key = None then make_room b0 now else b0);
          window = bc_window_secs (br_config b);
          limit = unat (bc_max_identical_calls (br_config b));
          touches = br_touches b + 1;
          accepted = filter (\<lambda>at. is_live at now window) (re_accepted (get_call (br_calls b) key))
      in
      if limit \<le> length accepted then
        (b\<lparr>br_touches := touches,
           br_calls := set_call key \<lparr>re_accepted = accepted, re_last_touch = touches\<rparr> (br_calls b)\<rparr>,
         BvTripped limit window
           (max 1 (case accepted of [] \<Rightarrow> window
                   | oldest # _ \<Rightarrow> saturating_sub (oldest + window) now)))
      else
        (b\<lparr>br_touches := touches,
           br_calls := set_call key \<lparr>re_accepted = accepted @ [now], re_last_touch = touches\<rparr>
             (br_calls b)\<rparr>,
         BvOk))"

definition breaker_record ::
  "(string \<Rightarrow> u64) \<Rightarrow> breaker \<Rightarrow> string \<Rightarrow> u64 \<Rightarrow> breaker \<times> breaker_verdict" where
  "breaker_record hash_one b signature now = record_key b (hash_one signature) now"

subsection \<open>The table\<close>

lemma set_call_keys: "fst ` set (set_call key r calls) = insert key (fst ` set calls)"
  by (induction key r calls rule: set_call.induct) auto

lemma set_call_distinct: "distinct (map fst calls) \<Longrightarrow> distinct (map fst (set_call key r calls))"
proof (induction key r calls rule: set_call.induct)
  case (2 key r k s calls)
  have "k \<notin> fst ` set (set_call key r calls)" if "k \<noteq> key"
    using that 2(2) by (simp add: set_call_keys)
  then show ?case using 2 by auto
qed simp

lemma set_call_length:
  "length (set_call key r calls) = (if map_of calls key = None then Suc (length calls) else length calls)"
  by (induction key r calls rule: set_call.induct) auto

lemma get_set_call: "get_call (set_call key r calls) k = (if k = key then r else get_call calls k)"
  by (induction key r calls rule: set_call.induct) (auto simp: get_call_def)

lemma set_call_values: "(k, s) \<in> set (set_call key r calls) \<Longrightarrow> (k, s) = (key, r) \<or> (k, s) \<in> set calls"
  by (induction key r calls rule: set_call.induct) (auto split: if_splits)

definition note_least :: "u64 \<Rightarrow> u64 \<Rightarrow> (u64 \<times> u64) option \<Rightarrow> u64 \<Rightarrow> recent \<Rightarrow> (u64 \<times> u64) option" where
  "note_least now window least key r =
     (if has_live now window r \<and> is_none_or least (\<lambda>(touch, _). re_last_touch r < touch)
      then Some (re_last_touch r, key) else least)"

lemma retain_live_Cons:
  "fst (retain_live now window least ((key, r) # calls)) =
     fst (retain_live now window (note_least now window least key r) calls)"
  "snd (retain_live now window least ((key, r) # calls)) =
     (if has_live now window r then (key, r) # snd (retain_live now window (note_least now window least key r) calls)
      else snd (retain_live now window (note_least now window least key r) calls))"
  by (simp_all add: Let_def case_prod_beta note_least_def)

lemma retain_live_kept: "snd (retain_live now window least calls) = filter (\<lambda>(_, r). has_live now window r) calls"
proof (induction calls arbitrary: least)
  case (Cons c calls)
  then show ?case by (cases c) (simp only: retain_live_Cons filter.simps prod.case)
qed simp

text \<open>The entry the pass notes: nothing that is live was seen less recently.\<close>

lemma retain_live_least:
  "fst (retain_live now window least calls) = Some (t, key) \<Longrightarrow>
   (least = Some (t, key) \<or> (\<exists>r. (key, r) \<in> set calls \<and> has_live now window r \<and> re_last_touch r = t)) \<and>
   (\<forall>(k, r) \<in> set calls. has_live now window r \<longrightarrow> t \<le> re_last_touch r) \<and>
   (\<forall>u k. least = Some (u, k) \<longrightarrow> t \<le> u)"
proof (induction calls arbitrary: least)
  case (Cons c calls)
  obtain k r where c: "c = (k, r)" by (cases c)
  define least' where "least' = note_least now window least k r"
  have "fst (retain_live now window least' calls) = Some (t, key)"
    using Cons.prems unfolding c retain_live_Cons least'_def .
  note IH = Cons.IH[OF this]
  show ?case
  proof (cases "least' = least")
    case True
    then have "has_live now window r \<Longrightarrow> \<exists>u k. least = Some (u, k) \<and> u \<le> re_last_touch r"
      by (cases least) (auto simp: least'_def note_least_def not_less split: if_splits)
    then show ?thesis using IH True by (fastforce simp: c)
  next
    case False
    then have live: "has_live now window r" "is_none_or least (\<lambda>(touch, _). re_last_touch r < touch)"
      and l: "least' = Some (re_last_touch r, k)" by (auto simp: least'_def note_least_def split: if_splits)
    have "t \<le> re_last_touch r" using IH l by blast
    moreover have "least = Some (u, i) \<Longrightarrow> t \<le> u" for u i
      using live(2) calculation by simp
    ultimately show ?thesis using IH l live(1) by (fastforce simp: c)
  qed
qed simp

lemma retain_live_None:
  "fst (retain_live now window least calls) = None \<Longrightarrow>
   least = None \<and> filter (\<lambda>(_, r). has_live now window r) calls = []"
proof (induction calls arbitrary: least)
  case (Cons c calls)
  obtain k r where c: "c = (k, r)" by (cases c)
  have "note_least now window least k r = None"
    and "filter (\<lambda>(_, r). has_live now window r) calls = []"
    using Cons.IH[of "note_least now window least k r"] Cons.prems unfolding c retain_live_Cons by auto
  then show ?case by (cases least) (auto simp: c note_least_def split: if_splits)
qed simp

subsection \<open>What the table keeps\<close>

definition breaker_cap :: "breaker \<Rightarrow> nat" where
  "breaker_cap b = max 1 (bc_max_tracked_calls (br_config b))"

definition breaker_ok :: "breaker \<Rightarrow> bool" where
  "breaker_ok b \<longleftrightarrow>
     distinct (map fst (br_calls b)) \<and>
     length (br_calls b) \<le> breaker_cap b \<and>
     (\<forall>(_, r) \<in> set (br_calls b).
        length (re_accepted r) \<le> unat (bc_max_identical_calls (br_config b)))"

lemma make_room_config [simp]: "br_config (make_room b now) = br_config b"
  by (simp add: make_room_def Let_def case_prod_beta)

lemma make_room_touches [simp]: "br_touches (make_room b now) = br_touches b"
  by (simp add: make_room_def Let_def case_prod_beta)

text \<open>What is left is a part of the table, and it has room for one more call.\<close>

lemma make_room_calls:
  "br_calls (make_room b now) =
     (let cap = max 1 (bc_max_tracked_calls (br_config b));
          kept = filter (\<lambda>(_, r). has_live now (bc_window_secs (br_config b)) r) (br_calls b)
      in if length (br_calls b) < cap then br_calls b
         else if cap \<le> length kept then
           (case fst (retain_live now (bc_window_secs (br_config b)) None (br_calls b)) of
              Some (_, key) \<Rightarrow> filter (\<lambda>(k, _). k \<noteq> key) kept | None \<Rightarrow> kept)
         else kept)"
  by (simp add: make_room_def Let_def case_prod_beta retain_live_kept)

definition live_calls :: "breaker \<Rightarrow> u64 \<Rightarrow> (u64 \<times> recent) list" where
  "live_calls b now = filter (\<lambda>(_, r). has_live now (bc_window_secs (br_config b)) r) (br_calls b)"

text \<open>The three ways to make room: nothing to do, the expired calls dropped, and the live call
  seen least recently forgotten.\<close>

lemma make_room_cases:
  obtains (enough) "length (br_calls b) < breaker_cap b" "br_calls (make_room b now) = br_calls b"
  | (expired) "breaker_cap b \<le> length (br_calls b)" "length (live_calls b now) < breaker_cap b"
      "br_calls (make_room b now) = live_calls b now"
  | (forgotten) key r where "breaker_cap b \<le> length (live_calls b now)"
      "(key, r) \<in> set (live_calls b now)"
      "\<forall>(k, s) \<in> set (live_calls b now). re_last_touch r \<le> re_last_touch s"
      "br_calls (make_room b now) = filter (\<lambda>(k, _). k \<noteq> key) (live_calls b now)"
proof -
  let ?res = "retain_live now (bc_window_secs (br_config b)) None (br_calls b)"
  note calls = make_room_calls[of b now, folded live_calls_def breaker_cap_def, unfolded Let_def]
  consider "length (br_calls b) < breaker_cap b"
    | "breaker_cap b \<le> length (br_calls b)" "length (live_calls b now) < breaker_cap b"
    | "breaker_cap b \<le> length (br_calls b)" "breaker_cap b \<le> length (live_calls b now)"
    by linarith
  then show thesis
  proof cases
    case 1
    then show thesis using enough calls by simp
  next
    case 2
    then show thesis using expired calls by simp
  next
    case 3
    then have "live_calls b now \<noteq> []" by (auto simp: breaker_cap_def max_def split: if_splits)
    then obtain t key where least: "fst ?res = Some (t, key)"
      using retain_live_None[of now "bc_window_secs (br_config b)" None "br_calls b"]
      by (cases "fst ?res") (auto simp: live_calls_def)
    then obtain r where "(key, r) \<in> set (live_calls b now)" "re_last_touch r = t"
      using retain_live_least[OF least] by (auto simp: live_calls_def)
    moreover have "\<forall>(k, s) \<in> set (live_calls b now). t \<le> re_last_touch s"
      using retain_live_least[OF least] by (auto simp: live_calls_def)
    ultimately show thesis using forgotten[of key r] 3 least calls by simp
  qed
qed

lemma make_room_filter: "\<exists>P. br_calls (make_room b now) = filter P (br_calls b)"
proof (cases rule: make_room_cases[of b now])
  case enough
  then show ?thesis by (intro exI[of _ "\<lambda>_. True"]) simp
next
  case expired
  then show ?thesis unfolding live_calls_def by blast
next
  case (forgotten key r)
  then show ?thesis unfolding live_calls_def by (simp only: filter_filter) blast
qed

lemma make_room_length:
  assumes "length (br_calls b) \<le> breaker_cap b"
  shows "length (br_calls (make_room b now)) < breaker_cap b"
proof (cases rule: make_room_cases[of b now])
  case (forgotten key r)
  have "length (live_calls b now) \<le> length (br_calls b)" by (simp add: live_calls_def)
  moreover have "length (filter (\<lambda>(k, _). k \<noteq> key) (live_calls b now)) < length (live_calls b now)"
    using forgotten(2) by (rule length_filter_less) simp
  ultimately show ?thesis using assms forgotten(1) unfolding forgotten(4) by linarith
qed auto

lemma breaker_ok_filter: "breaker_ok b \<Longrightarrow> breaker_ok (b\<lparr>br_calls := filter P (br_calls b)\<rparr>)"
  by (auto simp: breaker_ok_def breaker_cap_def distinct_map_filter intro: le_trans[OF length_filter_le])

lemma make_room_ok: "breaker_ok b \<Longrightarrow> breaker_ok (make_room b now)"
proof -
  assume b: "breaker_ok b"
  obtain P where P: "br_calls (make_room b now) = filter P (br_calls b)" using make_room_filter by blast
  have "make_room b now = b\<lparr>br_calls := br_calls (make_room b now)\<rparr>"
    by (simp add: breaker.equality)
  then show ?thesis using breaker_ok_filter[OF b, of P] P by metis
qed

text \<open>The table a call finds, after room was made for it.\<close>

definition roomy :: "breaker \<Rightarrow> u64 \<Rightarrow> u64 \<Rightarrow> breaker" where
  "roomy b key now = (if map_of (br_calls b) key = None then make_room b now else b)"

definition live_accepted :: "breaker \<Rightarrow> u64 \<Rightarrow> u64 \<Rightarrow> u64 list" where
  "live_accepted b key now =
     filter (\<lambda>at. is_live at now (bc_window_secs (br_config b))) (re_accepted (get_call (br_calls b) key))"


definition call_limit :: "breaker \<Rightarrow> nat" where
  "call_limit b = unat (bc_max_identical_calls (br_config b))"

lemma roomy_simps [simp]:
  "br_config (roomy b key now) = br_config b" "br_touches (roomy b key now) = br_touches b"
  by (simp_all add: roomy_def)

lemma live_accepted_roomy: "live_accepted (roomy b key now) key now = live_accepted b key now"
proof (cases "map_of (br_calls b) key")
  case None
  obtain P where "br_calls (make_room b now) = filter P (br_calls b)" using make_room_filter by blast
  moreover have "key \<notin> fst ` set (br_calls b)" using None by (simp add: map_of_eq_None_iff)
  ultimately have "map_of (br_calls (make_room b now)) key = None"
    by (auto simp: map_of_eq_None_iff)
  then show ?thesis using None by (simp add: live_accepted_def get_call_def roomy_def)
qed (simp add: roomy_def)

text \<open>One call in one equation: the verdict is read off the live times of that call, and the
  table is the roomy one with that call's entry rewritten.\<close>

lemma record_key_state:
  "fst (record_key b key now) =
     (let acc = live_accepted b key now in
      (roomy b key now)\<lparr>br_touches := br_touches b + 1,
         br_calls := set_call key
           \<lparr>re_accepted = (if call_limit b \<le> length acc then acc else acc @ [now]),
            re_last_touch = br_touches b + 1\<rparr> (br_calls (roomy b key now))\<rparr>)"
  using live_accepted_roomy[of b key now]
  by (simp add: record_key_def Let_def roomy_def[symmetric] live_accepted_def call_limit_def)

lemma record_key_verdict:
  "snd (record_key b key now) =
     (let acc = live_accepted b key now; window = bc_window_secs (br_config b) in
      if call_limit b \<le> length acc
      then BvTripped (call_limit b) window
             (max 1 (case acc of [] \<Rightarrow> window | oldest # _ \<Rightarrow> saturating_sub (oldest + window) now))
      else BvOk)"
  using live_accepted_roomy[of b key now]
  by (simp add: record_key_def Let_def roomy_def[symmetric] live_accepted_def call_limit_def
      split: list.split)

lemma record_key_config [simp]: "br_config (fst (record_key b key now)) = br_config b"
  by (simp add: record_key_state Let_def)

lemma record_key_tripped:
  "is_tripped (snd (record_key b key now)) \<longleftrightarrow> call_limit b \<le> length (live_accepted b key now)"
  by (simp add: record_key_verdict Let_def is_tripped_def)

lemma live_accepted_limit:
  assumes "breaker_ok b"
  shows "length (live_accepted b key now) \<le> call_limit b"
proof (cases "map_of (br_calls b) key")
  case (Some r)
  then have "(key, r) \<in> set (br_calls b)" by (rule map_of_SomeD)
  then have "length (re_accepted r) \<le> call_limit b"
    using assms by (auto simp: breaker_ok_def call_limit_def)
  then show ?thesis using Some le_trans[OF length_filter_le]
    by (simp add: live_accepted_def get_call_def)
qed (simp add: live_accepted_def get_call_def recent_default_def)

lemma roomy_ok: "breaker_ok b \<Longrightarrow> breaker_ok (roomy b key now)"
  by (simp add: roomy_def make_room_ok)

lemma roomy_length:
  assumes "breaker_ok b"
  shows "map_of (br_calls (roomy b key now)) key = None \<Longrightarrow>
    length (br_calls (roomy b key now)) < breaker_cap b"
  using make_room_length assms by (auto simp: roomy_def breaker_ok_def split: if_splits)

lemma record_key_ok:
  assumes "breaker_ok b"
  shows "breaker_ok (fst (record_key b key now))"
proof -
  let ?b = "roomy b key now" and ?acc = "live_accepted b key now"
  define r where "r = \<lparr>re_accepted = (if call_limit b \<le> length ?acc then ?acc else ?acc @ [now]),
    re_last_touch = br_touches b + 1\<rparr>"
  have ok: "breaker_ok ?b" using assms by (rule roomy_ok)
  have cap: "breaker_cap ?b = breaker_cap b" "call_limit ?b = call_limit b"
    by (simp_all add: breaker_cap_def call_limit_def)
  have len: "length (set_call key r (br_calls ?b)) \<le> breaker_cap b"
    using ok roomy_length[OF assms, of key now] by (auto simp: set_call_length breaker_ok_def cap)
  have "length (re_accepted r) \<le> call_limit b"
    using live_accepted_limit[OF assms, of key now] by (simp add: r_def)
  moreover have "length (re_accepted s) \<le> call_limit b" if "(k, s) \<in> set (br_calls ?b)" for k s
    using ok that by (auto simp: breaker_ok_def call_limit_def)
  ultimately have "\<forall>(k, s) \<in> set (set_call key r (br_calls ?b)). length (re_accepted s) \<le> call_limit b"
    using set_call_values by fastforce
  moreover have "distinct (map fst (set_call key r (br_calls ?b)))"
    using ok by (intro set_call_distinct) (simp add: breaker_ok_def)
  moreover have "br_calls (fst (record_key b key now)) = set_call key r (br_calls ?b)"
    by (simp add: record_key_state Let_def r_def)
  ultimately show ?thesis
    using len by (simp only: breaker_ok_def breaker_cap_def call_limit_def record_key_config simp_thms)
qed

definition record_step :: "u64 \<times> u64 \<Rightarrow> breaker \<Rightarrow> breaker" where
  "record_step c b = fst (record_key b (fst c) (snd c))"

interpretation bounded: invariant_steps record_step breaker_ok
  by unfold_locales (simp add: record_step_def record_key_ok)

lemma breaker_new_ok: "breaker_ok (breaker_new config)"
  by (simp add: breaker_ok_def breaker_new_def breaker_cap_def)

lemma run_config: "br_config (fold record_step cs b) = br_config b"
  by (induction cs arbitrary: b) (simp_all add: record_step_def)


subsection \<open>Forgetting\<close>

lemma record_key_calls:
  "\<exists>r. br_calls (fst (record_key b key now)) = set_call key r (br_calls (roomy b key now))"
  by (simp add: record_key_state Let_def) blast

lemma set_call_other: "k \<noteq> key \<Longrightarrow> (k, s) \<in> set (set_call key r calls) \<longleftrightarrow> (k, s) \<in> set calls"
  by (induction key r calls rule: set_call.induct) auto

lemma live_kept_or_forgotten:
  assumes ok: "breaker_ok b"
    and "(k, r) \<in> set (br_calls b)" "has_live now (bc_window_secs (br_config b)) r" "k \<noteq> key"
  shows "(k, r) \<in> set (br_calls (roomy b key now)) \<or>
    map_of (br_calls b) key = None \<and> breaker_cap b \<le> length (live_calls b now) \<and>
    (\<forall>(j, s) \<in> set (live_calls b now). re_last_touch r \<le> re_last_touch s)"
proof (cases "map_of (br_calls b) key = None")
  case True
  then have roomy: "roomy b key now = make_room b now" by (simp add: roomy_def)
  have live: "(k, r) \<in> set (live_calls b now)" using assms by (simp add: live_calls_def)
  show ?thesis
  proof (cases rule: make_room_cases[of b now])
    case (forgotten key' r')
    then have "(key', r') \<in> set (br_calls b)" by (simp add: live_calls_def)
    then have "k = key' \<Longrightarrow> r = r'"
      using ok assms(2) by (auto simp: breaker_ok_def dest: eq_key_imp_eq_value)
    then show ?thesis using forgotten live roomy True by auto
  qed (use assms live roomy in auto)
qed (use assms in \<open>auto simp: roomy_def\<close>)


text \<open>The breaker stays bounded and holds no call back for another: after any sequence of
  calls, at any clock readings, the table has at most the configured number of distinct calls and
  at most the limit of times for each. One more call keeps the record of every other call with
  something left in the window, unless the call is new and the table is full of such calls; then
  the record it loses is of a call seen least recently.\<close>

theorem breaker_bounded:
  assumes "b = fold record_step cs (breaker_new config)"
  shows "distinct (map fst (br_calls b)) \<and>
    length (br_calls b) \<le> max 1 (bc_max_tracked_calls config) \<and>
    (\<forall>(k, r) \<in> set (br_calls b). length (re_accepted r) \<le> unat (bc_max_identical_calls config)) \<and>
    (\<forall>(k, r) \<in> set (br_calls b). has_live now (bc_window_secs config) r \<and> k \<noteq> key \<longrightarrow>
      (k, r) \<in> set (br_calls (fst (record_key b key now))) \<or>
      key \<notin> fst ` set (br_calls b) \<and>
      length (live_calls b now) = max 1 (bc_max_tracked_calls config) \<and>
      (\<forall>(j, s) \<in> set (live_calls b now). re_last_touch r \<le> re_last_touch s))"
proof -
  have config: "br_config b = config"
    unfolding assms run_config by (simp add: breaker_new_def)
  have ok: "breaker_ok b" unfolding assms by (rule bounded.run_inv) (rule breaker_new_ok)
  have full: "length (live_calls b now) \<le> breaker_cap b"
    using ok le_trans[OF length_filter_le] unfolding live_calls_def breaker_ok_def by blast
  have "(k, r) \<in> set (br_calls (fst (record_key b key now))) \<or>
      key \<notin> fst ` set (br_calls b) \<and>
      length (live_calls b now) = max 1 (bc_max_tracked_calls config) \<and>
      (\<forall>(j, s) \<in> set (live_calls b now). re_last_touch r \<le> re_last_touch s)"
    if kr: "(k, r) \<in> set (br_calls b)" "has_live now (bc_window_secs config) r" "k \<noteq> key" for k r
  proof -
    have "(k, r) \<in> set (br_calls (fst (record_key b key now))) \<longleftrightarrow> (k, r) \<in> set (br_calls (roomy b key now))"
      using record_key_calls[of b key now] set_call_other[OF kr(3)] by auto
    then show ?thesis
      using live_kept_or_forgotten[OF ok kr(1) _ kr(3), of now] kr(2) full
      by (auto simp: config breaker_cap_def map_of_eq_None_iff)
  qed
  then show ?thesis
    using ok unfolding breaker_ok_def breaker_cap_def config by blast
qed

definition small_config :: breaker_config where
  "small_config = \<lparr>bc_max_identical_calls = 3, bc_window_secs = 60, bc_max_tracked_calls = 2\<rparr>"

lemma breaker_bounded_witness:
  "length (br_calls (fold record_step [(1, 0), (2, 1), (1, 2), (3, 3)] (breaker_new small_config))) \<le> 2"
  using breaker_bounded[OF refl, of "[(1, 0), (2, 1), (1, 2), (3, 3)]" small_config 0 0,
    THEN conjunct2, THEN conjunct1]
  by (simp add: small_config_def del: fold_simps)

subsection \<open>The sliding window\<close>

text \<open>What the breaker promises, without a table: a history of every call accepted, and a call
  trips when the history holds the limit of its own kind inside the window.\<close>

definition in_window :: "u64 \<Rightarrow> u64 \<Rightarrow> (u64 \<times> u64) list \<Rightarrow> u64 \<Rightarrow> u64 list" where
  "in_window window now history key =
     filter (\<lambda>at. is_live at now window) (map snd (filter (\<lambda>(k, _). k = key) history))"

definition window_trips :: "nat \<Rightarrow> u64 \<Rightarrow> (u64 \<times> u64) list \<Rightarrow> u64 \<times> u64 \<Rightarrow> bool" where
  "window_trips limit window history c \<longleftrightarrow>
     limit \<le> length (in_window window (snd c) history (fst c))"

definition window_step :: "nat \<Rightarrow> u64 \<Rightarrow> (u64 \<times> u64) list \<Rightarrow> u64 \<times> u64 \<Rightarrow> (u64 \<times> u64) list" where
  "window_step limit window history c =
     (if window_trips limit window history c then history else history @ [c])"

fun window_verdicts :: "nat \<Rightarrow> u64 \<Rightarrow> (u64 \<times> u64) list \<Rightarrow> (u64 \<times> u64) list \<Rightarrow> bool list" where
  "window_verdicts limit window history [] = []"
| "window_verdicts limit window history (c # cs) =
     window_trips limit window history c #
     window_verdicts limit window (window_step limit window history c) cs"

text \<open>The distinct calls inside the window, this one with them, never pass the cap.\<close>

definition active_keys :: "u64 \<Rightarrow> (u64 \<times> u64) list \<Rightarrow> u64 \<times> u64 \<Rightarrow> u64 list" where
  "active_keys window history c =
     remdups (fst c # map fst (filter (\<lambda>(_, at). is_live at (snd c) window) history))"

fun within_cap :: "nat \<Rightarrow> nat \<Rightarrow> u64 \<Rightarrow> (u64 \<times> u64) list \<Rightarrow> (u64 \<times> u64) list \<Rightarrow> bool" where
  "within_cap cap limit window history [] = True"
| "within_cap cap limit window history (c # cs) =
     (length (active_keys window history c) \<le> cap \<and>
      within_cap cap limit window (window_step limit window history c) cs)"

fun record_verdicts :: "breaker \<Rightarrow> (u64 \<times> u64) list \<Rightarrow> bool list" where
  "record_verdicts b [] = []"
| "record_verdicts b (c # cs) =
     is_tripped (snd (record_key b (fst c) (snd c))) # record_verdicts (record_step c b) cs"

text \<open>The simulation relation: from now on, the table and the history agree on every call.\<close>

definition agrees :: "breaker \<Rightarrow> (u64 \<times> u64) list \<Rightarrow> u64 \<Rightarrow> bool" where
  "agrees b history now \<longleftrightarrow>
     (\<forall>key. \<forall>later \<ge> now.
        live_accepted b key later = in_window (bc_window_secs (br_config b)) later history key)"

lemma is_live_earlier: "is_live at later window \<Longrightarrow> now \<le> later \<Longrightarrow> is_live at now window"
  unfolding is_live_def word_less_nat_alt unat_saturating_sub word_le_nat_alt by linarith

lemma filter_live_later:
  "now \<le> later \<Longrightarrow> filter (\<lambda>at. is_live at later window) (filter (\<lambda>at. is_live at now window) xs) =
    filter (\<lambda>at. is_live at later window) xs"
  by (simp add: filter_filter) (metis is_live_earlier)

lemma live_accepted_after:
  "live_accepted (fst (record_key b key now)) k later =
    (if k = key then
       filter (\<lambda>at. is_live at later (bc_window_secs (br_config b)))
         (if call_limit b \<le> length (live_accepted b key now)
          then live_accepted b key now else live_accepted b key now @ [now])
     else live_accepted (roomy b key now) k later)"
proof -
  have "br_calls (fst (record_key b key now)) = set_call key
      \<lparr>re_accepted = (if call_limit b \<le> length (live_accepted b key now)
         then live_accepted b key now else live_accepted b key now @ [now]),
       re_last_touch = br_touches b + 1\<rparr> (br_calls (roomy b key now))"
    by (simp add: record_key_state Let_def)
  moreover have "live_accepted (fst (record_key b key now)) k later =
    filter (\<lambda>at. is_live at later (bc_window_secs (br_config b)))
      (re_accepted (get_call (br_calls (fst (record_key b key now))) k))"
    by (simp add: live_accepted_def)
  ultimately show ?thesis
    by (simp add: get_set_call live_accepted_def[of "roomy b key now" k later])
qed

lemma has_live_filter:
  "has_live now window r \<longleftrightarrow> filter (\<lambda>at. is_live at now window) (re_accepted r) \<noteq> []"
  by (auto simp: has_live_def list_ex_iff filter_empty_conv)

lemma get_call_in:
  assumes "breaker_ok b"
  shows "(k, r) \<in> set (br_calls b) \<Longrightarrow> get_call (br_calls b) k = r"
  using assms by (auto simp: breaker_ok_def get_call_def split: option.splits
      dest: map_of_is_SomeI map_of_SomeD)

text \<open>Making room changes nothing from now on, when the live calls leave room.\<close>

lemma make_room_keeps:
  assumes ok: "breaker_ok b" and room: "length (live_calls b now) < breaker_cap b"
    and later: "now \<le> later"
  shows "live_accepted (make_room b now) k later = live_accepted b k later"
proof (cases rule: make_room_cases[of b now])
  case enough
  then show ?thesis by (simp add: live_accepted_def)
next
  case expired
  let ?w = "bc_window_secs (br_config b)" and ?P = "\<lambda>(_, r). has_live now (bc_window_secs (br_config b)) r"
  have d: "distinct (map fst (br_calls b))" using ok by (simp add: breaker_ok_def)
  have dead: "filter (\<lambda>at. is_live at later ?w) (re_accepted r) = []" if "\<not> has_live now ?w r" for r
    using that is_live_earlier[OF _ later] by (auto simp: has_live_def list_ex_iff filter_empty_conv)
  show ?thesis
  proof (cases "map_of (br_calls b) k")
    case None
    then have "map_of (live_calls b now) k = None"
      by (auto simp: map_of_eq_None_iff live_calls_def)
    then show ?thesis using None by (simp add: live_accepted_def get_call_def expired)
  next
    case (Some r)
    then have r: "(k, r) \<in> set (br_calls b)" by (rule map_of_SomeD)
    have unique: "(k, s) \<in> set (br_calls b) \<Longrightarrow> s = r" for s
      using d r by (metis eq_key_imp_eq_value)
    show ?thesis
    proof (cases "has_live now ?w r")
      case True
      then have "(k, r) \<in> set (live_calls b now)" using r by (simp add: live_calls_def)
      moreover have "distinct (map fst (live_calls b now))"
        using d unfolding live_calls_def by (rule distinct_map_filter)
      ultimately show ?thesis using Some by (simp add: live_accepted_def get_call_def expired)
    next
      case False
      then have "map_of (live_calls b now) k = None"
        using unique by (auto simp: map_of_eq_None_iff live_calls_def)
      then show ?thesis
        using Some dead[OF False] by (simp add: live_accepted_def get_call_def expired recent_default_def)
    qed
  qed
next
  case (forgotten key r)
  then show ?thesis using room by simp
qed

lemma live_calls_active:
  assumes ok: "breaker_ok b" and ag: "agrees b history now" and key: "map_of (br_calls b) key = None"
  shows "length (live_calls b now) < length (active_keys (bc_window_secs (br_config b)) history (key, now))"
proof -
  let ?w = "bc_window_secs (br_config b)"
  let ?ks = "fst ` set (filter (\<lambda>(_, at). is_live at now ?w) history)"
  have "k \<in> ?ks" if kr: "(k, r) \<in> set (live_calls b now)" for k r
  proof -
    have "(k, r) \<in> set (br_calls b)" "has_live now ?w r" using kr by (simp_all add: live_calls_def)
    then have "live_accepted b k now \<noteq> []"
      using get_call_in[OF ok] by (simp add: live_accepted_def has_live_filter)
    then have "in_window ?w now history k \<noteq> []" using ag by (simp add: agrees_def)
    then show ?thesis by (force simp: in_window_def filter_empty_conv)
  qed
  then have "insert key (fst ` set (live_calls b now)) \<subseteq> insert key ?ks" by auto
  moreover have "key \<notin> fst ` set (live_calls b now)"
    using key by (auto simp: live_calls_def map_of_eq_None_iff)
  moreover have "card (fst ` set (live_calls b now)) = length (live_calls b now)"
    using ok distinct_map_filter[of fst "br_calls b"]
    by (metis (no_types, lifting) breaker_ok_def distinct_card length_map list.set_map live_calls_def)
  ultimately have "Suc (length (live_calls b now)) \<le> card (insert key ?ks)"
    using card_mono[of "insert key ?ks" "insert key (fst ` set (live_calls b now))"] by simp
  also have "\<dots> = length (active_keys ?w history (key, now))"
    by (simp add: active_keys_def length_remdups_card_conv del: remdups.simps)
  finally show ?thesis by simp
qed

lemma roomy_keeps:
  assumes "breaker_ok b" "agrees b history now" "now \<le> later"
    and "length (active_keys (bc_window_secs (br_config b)) history (key, now)) \<le> breaker_cap b"
  shows "live_accepted (roomy b key now) k later = live_accepted b k later"
proof (cases "map_of (br_calls b) key = None")
  case True
  then have "length (live_calls b now) < breaker_cap b"
    using live_calls_active[OF assms(1,2) True] assms(4) by linarith
  then show ?thesis using make_room_keeps[OF assms(1) _ assms(3)] True by (simp add: roomy_def)
qed (auto simp: roomy_def)

lemma agrees_step:
  assumes "breaker_ok b" and ag: "agrees b history now"
    and "length (active_keys (bc_window_secs (br_config b)) history (key, now)) \<le> breaker_cap b"
  shows "is_tripped (snd (record_key b key now)) \<longleftrightarrow>
      window_trips (call_limit b) (bc_window_secs (br_config b)) history (key, now)"
    and "agrees (fst (record_key b key now))
      (window_step (call_limit b) (bc_window_secs (br_config b)) history (key, now)) now"
proof -
  let ?w = "bc_window_secs (br_config b)"
  have acc: "live_accepted b key now = in_window ?w now history key" using ag by (simp add: agrees_def)
  show "is_tripped (snd (record_key b key now)) \<longleftrightarrow> window_trips (call_limit b) ?w history (key, now)"
    by (simp add: record_key_tripped window_trips_def acc)
  show "agrees (fst (record_key b key now)) (window_step (call_limit b) ?w history (key, now)) now"
    unfolding agrees_def
  proof (intro allI impI)
    fix k later :: u64
    assume later: "now \<le> later"
    have same: "live_accepted b k later = in_window ?w later history k"
      using ag later by (simp add: agrees_def)
    have "filter (\<lambda>at. is_live at later ?w) (in_window ?w now history k) = in_window ?w later history k"
      unfolding in_window_def using later by (rule filter_live_later)
    then show "live_accepted (fst (record_key b key now)) k later =
      in_window (bc_window_secs (br_config (fst (record_key b key now)))) later
        (window_step (call_limit b) ?w history (key, now)) k"
      using roomy_keeps[OF assms(1,2) later assms(3)] same
      by (auto simp: live_accepted_after window_step_def window_trips_def acc in_window_def[of _ _ "_ @ _"]
          in_window_def[symmetric])
  qed
qed


lemma agrees_run:
  assumes "breaker_ok b" "agrees b history t" "sorted (t # map snd cs)"
    and "within_cap (breaker_cap b) (call_limit b) (bc_window_secs (br_config b)) history cs"
  shows "record_verdicts b cs =
    window_verdicts (call_limit b) (bc_window_secs (br_config b)) history cs"
  using assms
proof (induction cs arbitrary: b history t)
  case (Cons c cs)
  obtain key now where c: "c = (key, now)" by (cases c)
  have now: "t \<le> now" "sorted (now # map snd cs)" using Cons.prems(3) by (auto simp: c)
  have ag: "agrees b history now"
    using Cons.prems(2) now(1) unfolding agrees_def by (meson order_trans)
  have cap: "length (active_keys (bc_window_secs (br_config b)) history (key, now)) \<le> breaker_cap b"
    using Cons.prems(4) by (simp add: c)
  let ?b = "record_step c b"
  have conf: "br_config ?b = br_config b" by (simp add: record_step_def)
  then have same: "breaker_cap ?b = breaker_cap b" "call_limit ?b = call_limit b"
    by (simp_all add: breaker_cap_def call_limit_def)
  have "agrees ?b (window_step (call_limit b) (bc_window_secs (br_config b)) history c) now"
    using agrees_step(2)[OF Cons.prems(1) ag cap] by (simp add: record_step_def c)
  note Cons.IH[OF bounded.step_inv[OF Cons.prems(1)] this now(2), unfolded same conf]
  then show ?case
    using agrees_step(1)[OF Cons.prems(1) ag cap] Cons.prems(4) by (simp add: c)
qed simp

lemma agrees_new: "agrees (breaker_new config) [] 0"
  by (simp add: agrees_def live_accepted_def in_window_def breaker_new_def get_call_def recent_default_def)

text \<open>C35: On a monotonic clock, and as long as the distinct calls inside the window fit the cap, the
  bounded breaker gives exactly the verdicts of the sliding window it documents, which remembers
  everything: a call trips when the limit of its own kind was accepted within the last window
  seconds, tripped repeats not counted.\<close>

theorem breaker_is_sliding_window:
  assumes "sorted (map snd cs)"
    and "within_cap (max 1 (bc_max_tracked_calls config)) (unat (bc_max_identical_calls config))
      (bc_window_secs config) [] cs"
  shows "record_verdicts (breaker_new config) cs =
    window_verdicts (unat (bc_max_identical_calls config)) (bc_window_secs config) [] cs"
  using agrees_run[OF breaker_new_ok agrees_new, of cs config] assms
  by (simp add: breaker_new_def breaker_cap_def call_limit_def)

lemma breaker_is_sliding_window_witness:
  "record_verdicts (breaker_new small_config) [(1, 0), (1, 1), (1, 2), (1, 3), (2, 3), (1, 59), (1, 60), (1, 60)] =
   [False, False, False, True, False, True, False, True]"
  using breaker_is_sliding_window[of "[(1, 0), (1, 1), (1, 2), (1, 3), (2, 3), (1, 59), (1, 60), (1, 60)]" small_config]
  by (simp add: small_config_def window_trips_def window_step_def in_window_def active_keys_def is_live_def
      saturating_sub_def del: record_verdicts.simps)

subsection \<open>When a call is accepted again\<close>

definition breaker_at :: "u64 \<Rightarrow> breaker \<Rightarrow> bool" where
  "breaker_at t b \<longleftrightarrow>
     (\<forall>key. sorted (re_accepted (get_call (br_calls b) key)) \<and>
        (\<forall>at \<in> set (re_accepted (get_call (br_calls b) key)). at \<le> t))"

lemma get_call_roomy:
  assumes "breaker_ok b"
  shows "get_call (br_calls (roomy b key now)) k = get_call (br_calls b) k \<or>
    get_call (br_calls (roomy b key now)) k = recent_default"
proof -
  obtain P where P: "br_calls (roomy b key now) = filter P (br_calls b)"
    using make_room_filter[of b now] filter_True[of "br_calls b" "\<lambda>_. True"]
    unfolding roomy_def by (metis (full_types))
  show ?thesis
  proof (cases "map_of (br_calls (roomy b key now)) k")
    case (Some r)
    then have "(k, r) \<in> set (br_calls b)" using P map_of_SomeD by fastforce
    then show ?thesis using Some get_call_in[OF assms] by (simp add: get_call_def)
  qed (simp add: get_call_def)
qed

lemma breaker_at_step:
  assumes "breaker_ok b" "breaker_at t b" "t \<le> now"
  shows "breaker_at now (fst (record_key b key now))"
proof -
  have old: "sorted (re_accepted (get_call (br_calls b) k))"
    "at \<in> set (re_accepted (get_call (br_calls b) k)) \<Longrightarrow> at \<le> now" for k at
    using assms(2,3) by (auto simp: breaker_at_def intro: order_trans)
  then have acc: "sorted (live_accepted b key now)" "\<And>at. at \<in> set (live_accepted b key now) \<Longrightarrow> at \<le> now"
    by (auto simp: live_accepted_def intro: sorted_wrt_filter)
  have "sorted (re_accepted (get_call (br_calls (fst (record_key b key now))) k)) \<and>
    (\<forall>at \<in> set (re_accepted (get_call (br_calls (fst (record_key b key now))) k)). at \<le> now)" for k
    using acc old(1)[of k] old(2)[where k = k] get_call_roomy[OF assms(1), of key now k]
    by (auto simp: record_key_state Let_def get_set_call sorted_append recent_default_def)
  then show ?thesis by (simp add: breaker_at_def)
qed

lemma breaker_at_run:
  assumes "breaker_ok b" "breaker_at t b" "sorted (t # map snd cs @ [now])"
  shows "breaker_at now (fold record_step cs b)"
  using assms
proof (induction cs arbitrary: b t)
  case Nil
  then show ?case by (auto simp: breaker_at_def intro: order_trans)
next
  case (Cons c cs)
  then show ?case
    using Cons.IH[OF bounded.step_inv[OF Cons.prems(1)], of "snd c" c]
      breaker_at_step[OF Cons.prems(1,2), of "snd c" "fst c"]
    by (simp add: record_step_def)
qed


lemma breaker_at_new: "breaker_at 0 (breaker_new config)"
  by (simp add: breaker_at_def breaker_new_def get_call_def recent_default_def)

text \<open>A full window holds until its oldest time leaves it.\<close>

lemma full_window_opens:
  fixes now later window :: u64
  assumes acc: "acc = filter (\<lambda>at. is_live at now window) xs"
    and "sorted xs" "\<forall>at \<in> set xs. at \<le> now" and len: "length acc = limit" "0 < limit"
    and later: "now \<le> later" and no_wrap: "unat now + unat window < 2 ^ 64"
  shows "limit \<le> length (filter (\<lambda>at. is_live at later window) acc) \<longleftrightarrow>
    unat later < unat (hd acc) + unat window"
    and "unat (hd acc + window) = unat (hd acc) + unat window"
    and "hd acc \<le> now" and "unat now < unat (hd acc) + unat window"
proof -
  have "acc \<noteq> []" using len by auto
  then have hd_in: "hd acc \<in> set acc" by simp
  then have "hd acc \<in> set xs" and live: "is_live (hd acc) now window" by (simp_all add: acc)
  then show le: "hd acc \<le> now" using assms(3) by blast
  have "sorted acc" unfolding acc by (rule sorted_wrt_filter) (rule assms(2))
  then have first: "at \<in> set acc \<Longrightarrow> hd acc \<le> at" for at
    by (cases acc) auto
  have live_iff: "is_live at later window \<longleftrightarrow> unat later < unat at + unat window" if "at \<in> set acc" for at
  proof -
    have "at \<le> later" using that assms(3) later by (auto simp: acc intro: order_trans)
    then have "unat at \<le> unat later" by (simp add: word_le_nat_alt)
    then show ?thesis unfolding is_live_def word_less_nat_alt unat_saturating_sub by linarith
  qed
  show "limit \<le> length (filter (\<lambda>at. is_live at later window) acc) \<longleftrightarrow>
    unat later < unat (hd acc) + unat window"
  proof
    assume "limit \<le> length (filter (\<lambda>at. is_live at later window) acc)"
    then have "\<forall>at \<in> set acc. is_live at later window"
      using len(1) length_filter_less[of _ acc "\<lambda>at. is_live at later window"] by (meson leD)
    then show "unat later < unat (hd acc) + unat window" using hd_in live_iff by blast
  next
    assume l: "unat later < unat (hd acc) + unat window"
    have "is_live at later window" if "at \<in> set acc" for at
      using l first[OF that] by (simp add: live_iff[OF that] word_le_nat_alt)
    then show "limit \<le> length (filter (\<lambda>at. is_live at later window) acc)"
      using len(1) by simp
  qed
  have "unat (hd acc) \<le> unat now" using le by (simp add: word_le_nat_alt)
  then show "unat (hd acc + window) = unat (hd acc) + unat window"
    using no_wrap by (simp add: unat_word_ariths)
  show "unat now < unat (hd acc) + unat window"
    using live \<open>unat (hd acc) \<le> unat now\<close>
    unfolding is_live_def word_less_nat_alt unat_saturating_sub by linarith
qed

text \<open>The refusal tells the truth about when it ends: if a call trips, saying it is accepted
  again in s seconds, then the same call made alone at any later time trips exactly before those s
  seconds are over, and s is between one second and the window. (For a limit of at least one and
  a clock that stays clear of the 64-bit edge by a window.)\<close>

theorem breaker_accepts_again:
  assumes "b = fold record_step cs (breaker_new config)" and "sorted (map snd cs @ [now])"
    and "0 < bc_max_identical_calls config"
    and "unat now + unat (bc_window_secs config) < 2 ^ 64"
    and "record_key b key now = (b', BvTripped limit window again)"
    and "now \<le> later"
  shows "(is_tripped (snd (record_key b' key later)) \<longleftrightarrow> unat later < unat now + unat again) \<and>
    0 < again \<and> again \<le> bc_window_secs config"
proof -
  let ?acc = "live_accepted b key now"
  have conf: "br_config b = config" unfolding assms(1) run_config by (simp add: breaker_new_def)
  have ok: "breaker_ok b" unfolding assms(1) by (rule bounded.run_inv) (rule breaker_new_ok)
  have at: "breaker_at now b"
    unfolding assms(1) using assms(2) by (intro breaker_at_run[OF breaker_new_ok breaker_at_new]) simp
  have v: "snd (record_key b key now) = BvTripped limit window again" "b' = fst (record_key b key now)"
    using assms(5) by simp_all
  then have "call_limit b \<le> length ?acc" using record_key_tripped[of b key now] by (simp add: is_tripped_def)
  then have len: "length ?acc = call_limit b" using live_accepted_limit[OF ok, of key now] by simp
  have pos: "0 < call_limit b" using assms(3) by (simp add: call_limit_def conf unat_gt_0 word_neq_0_conv)
  note opens = full_window_opens[OF live_accepted_def[of b key now, unfolded conf] _ _ len pos _ assms(4)]
  note opens = opens[OF at[unfolded breaker_at_def, THEN spec, of key, THEN conjunct1]
      at[unfolded breaker_at_def, THEN spec, of key, THEN conjunct2]]
  have ne: "?acc \<noteq> []" using len pos by auto
  then have again: "again = max 1 (saturating_sub (hd ?acc + bc_window_secs config) now)"
    using v(1) len by (cases ?acc) (auto simp: record_key_verdict Let_def conf)
  have "unat (saturating_sub (hd ?acc + bc_window_secs config) now) =
      unat (hd ?acc) + unat (bc_window_secs config) - unat now"
    by (simp add: unat_saturating_sub opens(2)[OF assms(6)])
  then have s: "unat again = unat (hd ?acc) + unat (bc_window_secs config) - unat now"
    using opens(4)[OF assms(6)] by (simp add: again max_def word_le_nat_alt)
  have "is_tripped (snd (record_key b' key later)) \<longleftrightarrow>
      call_limit b \<le> length (filter (\<lambda>at. is_live at later (bc_window_secs config)) ?acc)"
    by (simp add: record_key_tripped v(2) live_accepted_after len conf call_limit_def)
  then have "is_tripped (snd (record_key b' key later)) \<longleftrightarrow> unat later < unat now + unat again"
    using opens(1,4)[OF assms(6)] s by auto
  moreover have "0 < again" using s opens(4)[OF assms(6)] by (simp add: word_less_nat_alt)
  moreover have "again \<le> bc_window_secs config"
    using s opens(3)[OF assms(6)] by (simp add: word_le_nat_alt)
  ultimately show ?thesis by blast
qed

lemma breaker_accepts_again_witness:
  "is_tripped (snd (record_key (fst (record_key
     (fold record_step [(1, 0), (1, 10), (1, 20)] (breaker_new small_config)) 1 25)) 1 60)) = False"
proof -
  let ?b = "fold record_step [(1, 0), (1, 10), (1, 20)] (breaker_new small_config)"
  have "snd (record_key ?b 1 25) = BvTripped 3 60 35" by code_simp
  then have "record_key ?b 1 25 = (fst (record_key ?b 1 25), BvTripped 3 60 35)" by (simp add: prod_eq_iff del: fold_simps)
  from breaker_accepts_again[OF refl _ _ _ this, of 60] show ?thesis
    by (simp add: small_config_def del: fold_simps)
qed

end
