(* ===== verification/Text.thy ===== *)
theory Text
  imports Prelude
begin

text \<open>
  The string operations of Rust's \<^verbatim>\<open>str\<close> that cut text by character: the characters of a
  string as chunks of bytes, \<^verbatim>\<open>trim\<close>, \<^verbatim>\<open>split_whitespace\<close>, \<^verbatim>\<open>find\<close>, \<^verbatim>\<open>contains\<close> and ASCII
  lower case.
\<close>

subsection \<open>Characters as chunks of bytes\<close>

definition char_len :: "char \<Rightarrow> nat" where
  "char_len a = (if byte a < 128 then 1 else if byte a < 224 then 2 else if byte a < 240 then 3 else 4)"

lemma char_len_pos [simp]: "0 < char_len a"
  by (simp add: char_len_def)

function chunks :: "string \<Rightarrow> string list" where
  "chunks [] = []"
| "chunks (a # s) = take (char_len a) (a # s) # chunks (drop (char_len a) (a # s))"
  by pat_completeness auto
termination
  by (relation "measure length") (auto simp: char_len_def)

lemma chunks_ne: "c \<in> set (chunks s) \<Longrightarrow> c \<noteq> []"
proof (induction s rule: chunks.induct)
  case (2 a s)
  moreover have "take (char_len a) (a # s) \<noteq> []" using char_len_pos[of a] by (cases "char_len a") simp_all
  ultimately show ?case by (metis (no_types) chunks.simps(2) set_ConsD)
qed simp

lemma concat_chunks [simp]: "concat (chunks s) = s"
proof (induction s rule: chunks.induct)
  case (2 a s)
  then show ?case unfolding chunks.simps concat.simps by (simp only: append_take_drop_id)
qed simp

lemma chunks_Nil [simp]: "chunks s = [] \<longleftrightarrow> s = []"
  by (cases s) simp_all

lemma chunks_ascii: "list_all (\<lambda>c. byte c < 128) s \<Longrightarrow> chunks s = map (\<lambda>c. [c]) s"
proof (induction s)
  case (Cons a s)
  then have "char_len a = 1" by (simp add: char_len_def)
  then show ?case using Cons unfolding chunks.simps by simp
qed simp

text \<open>A chunk that is white space, and one that holds a given ASCII byte.\<close>

definition ws_chunk :: "string \<Rightarrow> bool" where
  "ws_chunk c \<longleftrightarrow> list_all is_whitespace (chars c)"

definition trim_start :: "string \<Rightarrow> string" where
  "trim_start s = concat (dropWhile ws_chunk (chunks s))"

definition trim_end :: "string \<Rightarrow> string" where
  "trim_end s = concat (List.rev (dropWhile ws_chunk (List.rev (chunks s))))"

definition trim :: "string \<Rightarrow> string" where
  "trim s = concat (List.rev (dropWhile ws_chunk (List.rev (dropWhile ws_chunk (chunks s)))))"

lemma trim_ascii:
  assumes "list_all (\<lambda>c. byte c < 128) s" "s \<noteq> []"
    and "\<not> is_whitespace (byte (hd s))" "\<not> is_whitespace (byte (last s))"
  shows "trim s = s"
proof -
  have ws: "ws_chunk [c] \<longleftrightarrow> is_whitespace (byte c)" if "byte c < 128" for c
    using that by (simp add: ws_chunk_def)
  have ascii: "byte (hd s) < 128" "byte (last s) < 128" using assms(1,2) by (auto simp: list_all_iff)
  have "dropWhile ws_chunk (map (\<lambda>c. [c]) s) = map (\<lambda>c. [c]) s"
    using assms(2,3) ascii(1) by (cases s) (simp_all add: ws)
  moreover have "dropWhile ws_chunk (List.rev (map (\<lambda>c. [c]) s)) = List.rev (map (\<lambda>c. [c]) s)"
    using assms(2,4) ascii(2) by (cases s rule: rev_cases) (simp_all add: ws)
  moreover have "concat (map (\<lambda>c. [c]) s) = s" by simp
  ultimately show ?thesis using assms(1) by (simp add: trim_def chunks_ascii)
qed

text \<open>The words of a text: the longest runs of characters that are not white space.\<close>

fun words_of_chunks :: "string list \<Rightarrow> string \<Rightarrow> string list" where
  "words_of_chunks [] w = (if w = [] then [] else [w])"
| "words_of_chunks (c # cs) w =
     (if ws_chunk c then (if w = [] then words_of_chunks cs [] else w # words_of_chunks cs [])
      else words_of_chunks cs (w @ c))"

definition split_whitespace :: "string \<Rightarrow> string list" where
  "split_whitespace s = words_of_chunks (chunks s) []"

subsection \<open>Searching\<close>

text \<open>\<^verbatim>\<open>str::find\<close>: where a string first occurs.\<close>

fun find_str :: "string \<Rightarrow> string \<Rightarrow> nat option" where
  "find_str [] p = (if p = [] then Some 0 else None)"
| "find_str (c # s) p = (if prefix p (c # s) then Some 0 else map_option Suc (find_str s p))"

definition contains :: "string \<Rightarrow> string \<Rightarrow> bool" where
  "contains s p \<longleftrightarrow> find_str s p \<noteq> None"

lemma find_str_Some:
  "find_str s p = Some i \<Longrightarrow> i + length p \<le> length s \<and> s = take i s @ p @ drop (i + length p) s"
proof (induction s arbitrary: i)
  case (Cons c s)
  show ?case
  proof (cases "prefix p (c # s)")
    case True
    then obtain r where "c # s = p @ r" by (auto simp: prefix_def)
    moreover from this have "length p \<le> Suc (length s)" by (metis le_add1 length_Cons length_append)
    moreover have "i = 0" using Cons.prems True by simp
    ultimately show ?thesis by simp
  next
    case False
    then obtain j where j: "find_str s p = Some j" "i = Suc j" using Cons.prems by auto
    then show ?thesis using Cons.IH[OF j(1)] by simp
  qed
qed (auto split: if_splits)

text \<open>Nothing occurs earlier: an occurrence leaves at most what the first one leaves.\<close>

lemma find_str_first:
  "s = u @ p @ v \<Longrightarrow> \<exists>i w. find_str s p = Some i \<and> i \<le> length u \<and> drop (i + length p) s = w @ v"
proof (induction s arbitrary: u)
  case Nil
  then show ?case by simp
next
  case (Cons c s)
  show ?case
  proof (cases "prefix p (c # s)")
    case True
    then obtain r where r: "c # s = p @ r" by (auto simp: prefix_def)
    then have "length r = length u + length v" using arg_cong[OF Cons.prems, of length]
      arg_cong[OF r, of length] by simp
    then have "drop (length r - length v) r = v"
      using Cons.prems r by (metis append_assoc append_eq_append_conv append_take_drop_id
        diff_add_inverse2 diff_diff_cancel le_add2 length_append length_drop)
    then have "r = take (length r - length v) r @ v" by (metis append_take_drop_id)
    moreover have "find_str (c # s) p = Some 0" using True by simp
    ultimately show ?thesis using r by (metis add_0 append_eq_conv_conj le0)
  next
    case False
    then obtain u' where u': "u = c # u'" "s = u' @ p @ v"
      using Cons.prems by (cases u) auto
    from Cons.IH[OF u'(2)] show ?thesis using False by (auto simp: u'(1))
  qed
qed

lemma find_str_None: "find_str s p = None \<longleftrightarrow> (\<nexists>u v. s = u @ p @ v)"
  using find_str_first find_str_Some by (metis not_None_eq)

lemma contains_iff: "contains s p \<longleftrightarrow> (\<exists>u v. s = u @ p @ v)"
  by (auto simp: contains_def find_str_None)

definition to_ascii_lowercase :: "string \<Rightarrow> string" where
  "to_ascii_lowercase s = map (\<lambda>c. if is_ascii_uppercase c then char_of (byte c + 32) else c) s"

definition eq_ignore_ascii_case :: "string \<Rightarrow> string \<Rightarrow> bool" where
  "eq_ignore_ascii_case a b \<longleftrightarrow> to_ascii_lowercase a = to_ascii_lowercase b"

text \<open>\<^verbatim>\<open>chars().take(n)\<close> collected, and \<^verbatim>\<open>chars().count()\<close>.\<close>

definition take_chars :: "nat \<Rightarrow> string \<Rightarrow> string" where
  "take_chars n s = concat (take n (chunks s))"

definition char_count :: "string \<Rightarrow> nat" where
  "char_count s = length (chunks s)"

lemma prefix_take_chars: "prefix (take_chars n s) s"
proof -
  have "s = concat (take n (chunks s)) @ concat (drop n (chunks s))"
    by (metis append_take_drop_id concat_append concat_chunks)
  then show ?thesis unfolding take_chars_def by (metis prefixI)
qed

subsection \<open>Lines and numbers\<close>

text \<open>\<^verbatim>\<open>str::lines\<close>: a line ends in a newline, and a carriage return before it is dropped.\<close>

fun line_pieces :: "string list \<Rightarrow> string list" where
  "line_pieces [] = []"
| "line_pieces [p] = (if p = [] then [] else [p])"
| "line_pieces (p # q # ps) =
     (case strip_suffix [CHR 0x0D] p of Some r \<Rightarrow> r | None \<Rightarrow> p) # line_pieces (q # ps)"

definition str_lines :: "string \<Rightarrow> string list" where
  "str_lines s = line_pieces (split_on (CHR 0x0A) s)"

definition nat_of_digits :: "string \<Rightarrow> nat" where
  "nat_of_digits s = foldl (\<lambda>n c. n * 10 + (byte c - 48)) 0 s"

text \<open>\<^verbatim>\<open>str::parse\<close> for an unsigned integer below \<open>bound\<close>: an optional plus, then digits.\<close>

definition parse_unsigned :: "nat \<Rightarrow> string \<Rightarrow> nat option" where
  "parse_unsigned bound s =
     (let digits = (case s of c # r \<Rightarrow> if c = CHR ''+'' then r else s | [] \<Rightarrow> []) in
      if digits \<noteq> [] \<and> list_all is_ascii_digit digits \<and> nat_of_digits digits < bound
      then Some (nat_of_digits digits) else None)"

lemma nat_of_digits_snoc: "nat_of_digits (s @ [c]) = nat_of_digits s * 10 + (byte c - 48)"
  by (simp add: nat_of_digits_def)

lemma nat_of_digits_show: "nat_of_digits (show_nat n) = n"
proof (induction n rule: show_nat.induct)
  case (1 n)
  show ?case
  proof (cases "n < 10")
    case True
    then show ?thesis by (subst show_nat.simps) (simp add: nat_of_digits_def)
  next
    case False
    then show ?thesis using 1
      by (subst show_nat.simps) (simp add: nat_of_digits_snoc)
  qed
qed


lemma show_nat_digits: "list_all is_ascii_digit (show_nat n)"
proof (induction n rule: show_nat.induct)
  case (1 n)
  have "is_ascii_digit (char_of (48 + k))" if "k < 10" for k :: nat
    using that by (simp add: is_ascii_digit_def)
  then show ?case using 1 by (subst show_nat.simps) simp
qed

lemma parse_unsigned_show: "k < bound \<Longrightarrow> parse_unsigned bound (show_nat k) = Some k"
proof -
  assume k: "k < bound"
  obtain c r where s: "show_nat k = c # r" using show_nat_ne[of k] by (cases "show_nat k") auto
  then have "c \<noteq> CHR ''+''" using show_nat_digits[of k] by (auto simp: is_ascii_digit_def)
  then show ?thesis using k show_nat_digits[of k] nat_of_digits_show[of k] s
    by (simp add: parse_unsigned_def Let_def)
qed

definition parse_u32 :: "string \<Rightarrow> nat option" where
  "parse_u32 = parse_unsigned (2 ^ 32)"

end
