(* ===== verification/Suppress.thy ===== *)
theory Suppress
  imports Engine Json Text
begin

text \<open>
  \<^verbatim>\<open>src/crates/cli/src/suppress.rs\<close>: the user's own allow patterns and mutes, applied to a
  rules verdict before anything else looks at it. The verdict is the JSON value the rules
  engine wrote. Reading the TOML file is a parameter of \<^verbatim>\<open>load\<close>; the warnings it prints are
  kept as the pattern each one quotes.
\<close>

record suppress_config =
  su_allow :: "string list"
  su_mute_rules :: "string list"
  su_mute_categories :: "string list"

definition suppress_default :: suppress_config where
  "suppress_default = \<lparr>su_allow = [], su_mute_rules = [], su_mute_categories = []\<rparr>"

datatype load_warning = MatchesEverything string | NoLiteralStart string

subsection \<open>Patterns\<close>

text \<open>The loop over the parts of a pattern; the text is what is left from \<^verbatim>\<open>pos\<close> on.\<close>

fun glob_loop :: "nat \<Rightarrow> nat \<Rightarrow> string list \<Rightarrow> string \<Rightarrow> bool" where
  "glob_loop n i [] t = True"
| "glob_loop n i (part # parts) t =
     (if part = [] then glob_loop n (Suc i) parts t
      else if i = 0 then
        (if \<not> starts_with t part then False else glob_loop n (Suc i) parts (drop (length part) t))
      else if i = n - 1 then ends_with t part
      else (case find_str t part of
              Some idx \<Rightarrow> glob_loop n (Suc i) parts (drop (idx + length part) t)
            | None \<Rightarrow> False))"

definition glob_match :: "string \<Rightarrow> string \<Rightarrow> bool" where
  "glob_match pattern text =
     (let parts = split_on CHR ''*'' pattern in
      if length parts = 1 then pattern = text else glob_loop (length parts) 0 parts text)"

definition is_universal_pattern :: "string \<Rightarrow> bool" where
  "is_universal_pattern pattern \<longleftrightarrow>
     (let p = trim pattern in p \<noteq> [] \<and> list_all (\<lambda>c. c = 42) (chars p))"

definition is_unanchored_pattern :: "string \<Rightarrow> bool" where
  "is_unanchored_pattern pattern \<longleftrightarrow>
     (case split_whitespace pattern of [] \<Rightarrow> True | word # _ \<Rightarrow> CHR ''*'' \<in> set word)"

definition load :: "(string \<Rightarrow> suppress_config option) \<Rightarrow> string \<Rightarrow> suppress_config \<times> load_warning list" where
  "load from_toml s =
     (let cfg = (case from_toml s of Some c \<Rightarrow> c | None \<Rightarrow> suppress_default);
          kept = cfg\<lparr>su_allow := filter (\<lambda>p. \<not> is_universal_pattern p) (su_allow cfg)\<rparr>
      in (kept, map MatchesEverything (filter is_universal_pattern (su_allow cfg))
                @ map NoLiteralStart (filter is_unanchored_pattern (su_allow kept))))"

subsection \<open>Verdicts\<close>

definition SELF_DISABLE_SIGNAL :: string where
  "SELF_DISABLE_SIGNAL = ''guard_self_disable''"

definition charged :: "json \<Rightarrow> string \<Rightarrow> bool" where
  "charged verdict name \<longleftrightarrow>
     is_some_and (get_array verdict ''signals'') (\<lambda>signals.
       list_ex (\<lambda>s. get_str s ''signal'' = Some name
         \<and> is_none_or (get_u64 s ''score'') (\<lambda>score. 0 < score)) signals)"

definition allow_may_lift :: "string \<Rightarrow> json \<Rightarrow> bool" where
  "allow_may_lift pattern verdict =
     (if charged verdict SELF_DISABLE_SIGNAL then False
      else if \<not> is_unanchored_pattern pattern then True
      else (let refused = (get_str verdict ''recommendation'' = Some ''deny'') in
        \<not> refused \<and> \<not> list_ex (charged verdict) AGENT_REVIEW_FLOOR))"

definition user_allow :: "json \<Rightarrow> string \<Rightarrow> json" where
  "user_allow verdict reason =
     (let out = jset (jset verdict ''recommendation'' (JStr ''allow'')) ''decided_by'' (JStr ''user'')
      in jset out ''explanation''
           (JStr (trim (str_or (get_str verdict ''explanation'') @ '' [suppressed: '' @ reason @ '']''))))"

text \<open>What mutes one match of a rule, if anything does.\<close>

definition mute_of :: "suppress_config \<Rightarrow> json \<Rightarrow> string option" where
  "mute_of cfg m =
     (let rule = str_or (get_str m ''rule_id''); cat = str_or (get_str m ''category'') in
      if rule \<noteq> [] \<and> rule \<in> set (su_mute_rules cfg) then Some (''rule '' @ rule)
      else if cat \<noteq> [] \<and> cat \<in> set (su_mute_categories cfg) then Some (''category '' @ cat)
      else None)"

fun mute_all :: "suppress_config \<Rightarrow> json list \<Rightarrow> string list option" where
  "mute_all cfg [] = Some []"
| "mute_all cfg (m # ms) =
     (case mute_of cfg m of None \<Rightarrow> None
      | Some mute \<Rightarrow> map_option (Cons mute) (mute_all cfg ms))"

definition is_base_signal :: "json \<Rightarrow> bool" where
  "is_base_signal s =
     (let name = str_or (get_str s ''signal'');
          charged = (case get_u64 s ''score'' of Some score \<Rightarrow> 0 < score | None \<Rightarrow> True)
      in charged \<and> \<not> starts_with name ''atr:'')"

definition suppress_apply :: "string \<Rightarrow> json \<Rightarrow> suppress_config \<Rightarrow> json option" where
  "suppress_apply command verdict cfg =
     (case List.find (\<lambda>p. glob_match p command \<and> allow_may_lift p verdict)
             (filter (\<lambda>p. \<not> is_universal_pattern p) (su_allow cfg)) of
        Some pat \<Rightarrow> Some (user_allow verdict (''allow '' @ pat))
      | None \<Rightarrow>
          (if get_str verdict ''recommendation'' \<notin> {Some ''deny'', Some ''review''} then None
           else if su_mute_rules cfg = [] \<and> su_mute_categories cfg = [] then None
           else (let atr = (case get_array verdict ''atr_matches'' of Some xs \<Rightarrow> xs | None \<Rightarrow> []);
                     signals = (case get_array verdict ''signals'' of Some xs \<Rightarrow> xs | None \<Rightarrow> [])
                 in case (if atr = [] then None else mute_all cfg atr) of
                      Some mutes \<Rightarrow>
                        if list_ex is_base_signal signals then None
                        else Some (user_allow verdict (''mute '' @ join ''; '' (sort_dedup mutes)))
                    | None \<Rightarrow> None)))"

subsection \<open>Glob patterns, declaratively\<close>

inductive globs :: "string \<Rightarrow> string \<Rightarrow> bool" where
  finished: "globs [] []"
| literal: "c \<noteq> CHR ''*'' \<Longrightarrow> globs p t \<Longrightarrow> globs (c # p) (c # t)"
| skip: "globs p t \<Longrightarrow> globs (CHR ''*'' # p) t"
| eat: "globs (CHR ''*'' # p) t \<Longrightarrow> globs (CHR ''*'' # p) (c # t)"

inductive_cases globs_Nil_E: "globs [] t"
inductive_cases globs_literal_E: "globs (c # p) t"

lemma globs_Nil [simp]: "globs [] t \<longleftrightarrow> t = []"
  by (auto intro: globs.finished elim: globs_Nil_E)

lemma globs_literal: "c \<noteq> CHR ''*'' \<Longrightarrow> globs (c # p) t \<longleftrightarrow> (\<exists>u. t = c # u \<and> globs p u)"
  by (auto intro: globs.literal elim: globs_literal_E)

lemma globs_star: "globs (CHR ''*'' # p) t \<longleftrightarrow> (\<exists>u v. t = u @ v \<and> globs p v)"
proof
  show "globs (CHR ''*'' # p) t \<Longrightarrow> \<exists>u v. t = u @ v \<and> globs p v"
  proof (induction "CHR ''*'' # p" t rule: globs.induct)
    case (skip t)
    then show ?case by (metis append_Nil)
  next
    case (eat t c)
    then show ?case by (metis append_Cons)
  qed simp
  assume "\<exists>u v. t = u @ v \<and> globs p v"
  then obtain u v where "t = u @ v" "globs p v" by blast
  then show "globs (CHR ''*'' # p) t"
    by (induction u arbitrary: t) (auto intro: globs.skip globs.eat)
qed

text \<open>The text after a star, part by part: any text before each, the last at the end.\<close>

fun stars :: "string list \<Rightarrow> string \<Rightarrow> bool" where
  "stars [] t = (t = [])"
| "stars [q] t = suffix q t"
| "stars (q # qs) t = (\<exists>u v. t = u @ q @ v \<and> stars qs v)"

lemma stars_more: "qs \<noteq> [] \<Longrightarrow> stars qs t \<Longrightarrow> stars qs (w @ t)"
proof (induction qs t rule: stars.induct)
  case (3 q q' qs t)
  then obtain u v where "t = u @ q @ v" "stars (q' # qs) v" by auto
  then show ?case by (auto intro: exI[of _ "w @ u"])
qed (auto simp: suffix_def)

lemma globs_parts:
  "globs p t \<longleftrightarrow> (case split_on CHR ''*'' p of
     [q] \<Rightarrow> t = q | q # qs \<Rightarrow> \<exists>v. t = q @ v \<and> stars qs v | [] \<Rightarrow> False)"
proof (induction p arbitrary: t)
  case (Cons c p)
  obtain q qs where s: "split_on CHR ''*'' p = q # qs" by (cases "split_on CHR ''*'' p") auto
  show ?case
  proof (cases "c = CHR ''*''")
    case True
    have "globs (c # p) t \<longleftrightarrow> (\<exists>u v. t = u @ v \<and> (if qs = [] then v = q else \<exists>w. v = q @ w \<and> stars qs w))"
      unfolding True globs_star Cons.IH s by (cases qs) auto
    then show ?thesis by (cases qs) (auto simp: True s suffix_def)
  next
    case False
    then show ?thesis unfolding globs_literal[OF False] Cons.IH by (cases qs) (auto simp: s)
  qed
qed simp

lemma stars_Nil_first: "qs \<noteq> [] \<Longrightarrow> stars ([] # qs) t \<longleftrightarrow> stars qs t"
  by (cases qs) (auto intro: stars_more simp del: stars.simps(3) simp: stars.simps(3)[of "[]"])

text \<open>Taking the first occurrence of a part never loses a match.\<close>

lemma stars_find:
  assumes "qs \<noteq> []"
  shows "stars (q # qs) t \<longleftrightarrow>
    (case find_str t q of Some i \<Rightarrow> stars qs (drop (i + length q) t) | None \<Rightarrow> False)"
proof (cases "find_str t q")
  case None
  then show ?thesis using assms find_str_first by (cases qs) fastforce+
next
  case (Some i)
  have split: "stars (q # qs) t \<longleftrightarrow> (\<exists>u v. t = u @ q @ v \<and> stars qs v)"
    using assms by (cases qs) auto
  have "stars qs (drop (i + length q) t)" if "t = u @ q @ v" "stars qs v" for u v
    using find_str_first[OF that(1)] Some stars_more[OF assms that(2)] by auto
  then show ?thesis using find_str_Some[OF Some] Some by (auto simp: split)
qed

lemma glob_loop_stars:
  "\<lbrakk>qs \<noteq> []; 0 < i; i + length qs = n\<rbrakk> \<Longrightarrow> glob_loop n i qs t \<longleftrightarrow> stars qs t"
proof (induction qs arbitrary: i t)
  case (Cons q qs)
  show ?case
  proof (cases "qs = []")
    case True
    then show ?thesis using Cons.prems by auto
  next
    case False
    have IH: "glob_loop n (Suc i) qs t \<longleftrightarrow> stars qs t" for t
      using Cons.IH[OF False] Cons.prems by simp
    have "i \<noteq> n - 1" using False Cons.prems by (cases qs) auto
    then have step: "glob_loop n i (q # qs) t \<longleftrightarrow> (if q = [] then stars qs t
        else case find_str t q of Some j \<Rightarrow> stars qs (drop (j + length q) t) | None \<Rightarrow> False)"
      using Cons.prems by (cases "find_str t q") (simp_all add: IH)
    show ?thesis
    proof (cases "q = []")
      case True
      then show ?thesis using stars_Nil_first[OF False, of t] step by simp
    next
      case False
      then show ?thesis using stars_find[OF \<open>qs \<noteq> []\<close>, of q t] step by simp
    qed
  qed
qed simp

lemma glob_match_globs: "glob_match p t \<longleftrightarrow> globs p t"
proof -
  obtain q qs where s: "split_on CHR ''*'' p = q # qs" by (cases "split_on CHR ''*'' p") auto
  show ?thesis
  proof (cases "qs = []")
    case True
    have "split_on CHR ''*'' p = [q] \<Longrightarrow> q = p" for q
      by (induction p arbitrary: q) (auto split: list.splits if_splits)
    then show ?thesis using s True by (auto simp: glob_match_def Let_def globs_parts)
  next
    case False
    have "globs p t \<longleftrightarrow> (\<exists>v. t = q @ v \<and> stars qs v)"
      using False unfolding globs_parts s by (cases qs) auto
    moreover have "glob_match p t \<longleftrightarrow> (if q = [] then stars qs t
        else prefix q t \<and> stars qs (drop (length q) t))"
      using False by (auto simp: glob_match_def s Let_def glob_loop_stars)
    ultimately show ?thesis by (auto simp: prefix_def)
  qed
qed


text \<open>C33: The pattern matcher is right: walking the parts between the stars, taking the first
  occurrence of each, decides exactly the language of the pattern, in which a star stands for
  any text and every other character for itself.\<close>

theorem glob_match_correct: "glob_match pattern text \<longleftrightarrow> globs pattern text"
  by (rule glob_match_globs)

subsection \<open>What suppression lifts\<close>

lemma mute_all_Some:
  "mute_all cfg ms \<noteq> None \<longleftrightarrow> list_all (\<lambda>m. mute_of cfg m \<noteq> None) ms"
  by (induction ms) (auto split: option.splits)

lemma mute_of_configured: "mute_of cfg m \<noteq> None \<Longrightarrow> su_mute_rules cfg \<noteq> [] \<or> su_mute_categories cfg \<noteq> []"
  by (auto simp: mute_of_def Let_def split: if_splits)

lemma find_None_ex: "List.find P xs = None \<longleftrightarrow> \<not> (\<exists>x \<in> set xs. P x)"
  by (auto simp: find_None_iff)

definition atr_of :: "json \<Rightarrow> json list" where
  "atr_of verdict = (case get_array verdict ''atr_matches'' of Some xs \<Rightarrow> xs | None \<Rightarrow> [])"

definition signals_of :: "json \<Rightarrow> json list" where
  "signals_of verdict = (case get_array verdict ''signals'' of Some xs \<Rightarrow> xs | None \<Rightarrow> [])"

definition allowed_by :: "suppress_config \<Rightarrow> string \<Rightarrow> json \<Rightarrow> string \<Rightarrow> bool" where
  "allowed_by cfg command verdict p \<longleftrightarrow>
     p \<in> set (su_allow cfg) \<and> \<not> is_universal_pattern p \<and> glob_match p command \<and> allow_may_lift p verdict"

definition muted_away :: "suppress_config \<Rightarrow> json \<Rightarrow> bool" where
  "muted_away cfg verdict \<longleftrightarrow>
     get_str verdict ''recommendation'' \<in> {Some ''deny'', Some ''review''} \<and>
     atr_of verdict \<noteq> [] \<and> list_all (\<lambda>m. mute_of cfg m \<noteq> None) (atr_of verdict) \<and>
     \<not> list_ex is_base_signal (signals_of verdict)"

lemma suppress_apply_cases:
  "(suppress_apply command verdict cfg \<noteq> None \<longleftrightarrow>
     (\<exists>p. allowed_by cfg command verdict p) \<or> muted_away cfg verdict) \<and>
   (suppress_apply command verdict cfg = None \<or>
     (\<exists>reason. suppress_apply command verdict cfg = Some (user_allow verdict reason)))"
proof (cases "List.find (\<lambda>p. glob_match p command \<and> allow_may_lift p verdict)
    (filter (\<lambda>p. \<not> is_universal_pattern p) (su_allow cfg))")
  case (Some p)
  then have "allowed_by cfg command verdict p"
    by (auto simp: allowed_by_def find_Some_iff) (metis in_set_conv_nth mem_Collect_eq set_filter)+
  then show ?thesis using Some by (auto simp: suppress_apply_def)
next
  case None
  then have no: "\<not> allowed_by cfg command verdict p" for p
    by (auto simp: find_None_ex allowed_by_def)
  have conf: "mute_of cfg m \<noteq> None \<Longrightarrow> \<not> (su_mute_rules cfg = [] \<and> su_mute_categories cfg = [])" for m
    using mute_of_configured by blast
  show ?thesis
  proof (cases "atr_of verdict")
    case Nil
    then show ?thesis using None no
      by (auto simp: suppress_apply_def muted_away_def atr_of_def Let_def split: option.splits)
  next
    case (Cons m ms)
    then show ?thesis
      using None no conf[of m] mute_all_Some[of cfg "atr_of verdict"]
      by (cases "mute_all cfg (atr_of verdict)")
        (auto simp: suppress_apply_def muted_away_def Let_def atr_of_def[symmetric] signals_of_def[symmetric])
  qed
qed

lemma user_allow_fields:
  assumes "jobject verdict"
  shows "get_str (user_allow verdict reason) ''recommendation'' = Some ''allow''"
    and "get_str (user_allow verdict reason) ''decided_by'' = Some ''user''"
    and "k \<notin> {''recommendation'', ''decided_by'', ''explanation''} \<Longrightarrow>
      jget (user_allow verdict reason) k = jget verdict k"
  using assms by (simp_all add: user_allow_def Let_def get_str_def)

text \<open>When suppression overrides a verdict, and what it writes: it does exactly when one of the
  user's patterns, not matching everything, matches the command and may lift this verdict, or when
  the verdict refuses or asks for review, something matched a rule, every such match is muted by
  its rule or its category, and no charged signal of the engine's own remains. The override is
  the same verdict with the recommendation allow, decided by the user.\<close>

theorem suppress_apply_spec:
  "(suppress_apply command verdict cfg \<noteq> None \<longleftrightarrow>
     (\<exists>p. p \<in> set (su_allow cfg) \<and> \<not> is_universal_pattern p \<and> globs p command \<and>
        \<not> charged verdict SELF_DISABLE_SIGNAL \<and>
        (\<not> is_unanchored_pattern p \<or>
         get_str verdict ''recommendation'' \<noteq> Some ''deny'' \<and>
         \<not> list_ex (charged verdict) AGENT_REVIEW_FLOOR)) \<or>
     get_str verdict ''recommendation'' \<in> {Some ''deny'', Some ''review''} \<and>
     atr_of verdict \<noteq> [] \<and> list_all (\<lambda>m. mute_of cfg m \<noteq> None) (atr_of verdict) \<and>
     \<not> list_ex is_base_signal (signals_of verdict)) \<and>
   (suppress_apply command verdict cfg = Some out \<and> jobject verdict \<longrightarrow>
     get_str out ''recommendation'' = Some ''allow'' \<and> get_str out ''decided_by'' = Some ''user'' \<and>
     (\<forall>k. k \<in> {''recommendation'', ''decided_by'', ''explanation''} \<or> jget out k = jget verdict k))"
proof -
  have "(\<exists>p. allowed_by cfg command verdict p) \<longleftrightarrow>
     (\<exists>p. p \<in> set (su_allow cfg) \<and> \<not> is_universal_pattern p \<and> globs p command \<and>
        \<not> charged verdict SELF_DISABLE_SIGNAL \<and>
        (\<not> is_unanchored_pattern p \<or>
         get_str verdict ''recommendation'' \<noteq> Some ''deny'' \<and>
         \<not> list_ex (charged verdict) AGENT_REVIEW_FLOOR))"
    unfolding allowed_by_def allow_may_lift_def glob_match_globs Let_def by auto
  moreover have "\<exists>reason. out = user_allow verdict reason" if "suppress_apply command verdict cfg = Some out"
    using suppress_apply_cases[of command verdict cfg] that by auto
  ultimately show ?thesis
    using suppress_apply_cases[of command verdict cfg] user_allow_fields[of verdict]
    unfolding muted_away_def by auto
qed

definition sample_verdict :: "string \<Rightarrow> (string \<times> nat) list \<Rightarrow> json" where
  "sample_verdict recommendation signals = jobj
     [(''recommendation'', JStr recommendation),
      (''signals'', JArr (map (\<lambda>(s, n). jobj [(''signal'', JStr s), (''score'', jnum_u64 (of_nat n))]) signals)),
      (''atr_matches'', JArr [jobj [(''rule_id'', JStr ''ATR-1''), (''category'', JStr ''exfil'')]])]"

definition sample_config :: suppress_config where
  "sample_config = \<lparr>su_allow = [''* | bash'', ''tar czf *''], su_mute_rules = [''ATR-1''],
     su_mute_categories = []\<rparr>"

lemma suppress_apply_spec_witness:
  "get_str (the (suppress_apply ''tar czf x y'' (sample_verdict ''deny'' [(''x'', 30)]) sample_config))
     ''recommendation'' = Some ''allow''"
proof -
  let ?v = "sample_verdict ''deny'' [(''x'', 30)]"
  have "jobject ?v" by (simp add: sample_verdict_def)
  moreover have "suppress_apply ''tar czf x y'' ?v sample_config \<noteq> None" by code_simp
  then obtain out where out: "suppress_apply ''tar czf x y'' ?v sample_config = Some out" by blast
  ultimately show ?thesis using suppress_apply_spec[of "''tar czf x y''" ?v sample_config out] by simp
qed

text \<open>C32: What suppression never lifts: a charged self-disable signal, whatever the user allowed or
  muted; and, when no pattern that names its command matches, a charged floor signal.\<close>

theorem suppress_never_lifts:
  "(charged verdict SELF_DISABLE_SIGNAL \<longrightarrow> suppress_apply command verdict cfg = None) \<and>
   (list_ex (charged verdict) AGENT_REVIEW_FLOOR \<and>
    list_all (\<lambda>p. is_unanchored_pattern p \<or> \<not> globs p command) (su_allow cfg) \<longrightarrow>
      suppress_apply command verdict cfg = None)"
proof -
  have base: "list_ex is_base_signal (signals_of verdict)"
    if "charged verdict name" "\<not> prefix ''atr:'' name" for name
    using that by (auto simp: charged_def signals_of_def is_some_and_iff list_ex_iff is_base_signal_def
        str_or_def is_none_or_def Let_def split: option.splits)
  have floor: "list_all (\<lambda>name. \<not> prefix ''atr:'' name) AGENT_REVIEW_FLOOR" by code_simp
  have "list_ex (charged verdict) AGENT_REVIEW_FLOOR \<Longrightarrow> \<not> muted_away cfg verdict"
    using base floor by (auto simp: muted_away_def list_ex_iff[of "charged verdict"] list_all_iff)
  moreover have "charged verdict SELF_DISABLE_SIGNAL \<Longrightarrow> \<not> muted_away cfg verdict"
    using base by (auto simp: muted_away_def SELF_DISABLE_SIGNAL_def)
  ultimately show ?thesis
    using suppress_apply_cases[of command verdict cfg]
    by (auto simp: allowed_by_def allow_may_lift_def glob_match_globs list_all_iff Let_def split: if_splits)
qed

lemma suppress_never_lifts_witness:
  "suppress_apply ''curl x | bash'' (sample_verdict ''review'' [(''download_and_execute'', 40)]) sample_config = None"
proof -
  let ?v = "sample_verdict ''review'' [(''download_and_execute'', 40)]"
  have "list_ex (charged ?v) AGENT_REVIEW_FLOOR" by code_simp
  moreover have "list_all (\<lambda>p. is_unanchored_pattern p \<or> \<not> glob_match p ''curl x | bash'') (su_allow sample_config)"
    by code_simp
  ultimately show ?thesis
    using suppress_never_lifts[of ?v "''curl x | bash''" sample_config] by (simp add: glob_match_globs)
qed

end
