(* ===== verification/Hook.thy ===== *)
theory Hook
  imports Profiles Text
begin

text \<open>
  The hook's own part of a decision. \<^verbatim>\<open>src/crates/cli/src/hook_identity.rs\<close>: the labels the
  hook gives the instance it runs in, from the launch record its jail mounts.
  \<^verbatim>\<open>src/crates/cli/src/agent_profiles.rs\<close>: what the two profiles files add up to, who root
  is inside a jail, how a rules verdict becomes a layered decision, and the audit line.
  Reads of files and of \<^verbatim>\<open>/proc\<close>, serde, and the two regular-expression checks
  (\<^verbatim>\<open>bounded_session\<close>'s redaction and \<^verbatim>\<open>names_guard_llm_key\<close>) are parameters.
\<close>

subsection \<open>The instance the hook runs in\<close>

datatype raw_record = RawAbsent | RawUnreadable | RawBytes bytes bool

record jail_facts =
  jfs_record :: raw_record
  jfs_own_pid_ns :: "u64 option"
  jfs_own_mnt_ns :: "u64 option"
  jfs_launcher_agent :: "string option"

record hook_identity =
  hi_instance_id :: "string option"
  hi_session_id :: "string option"
  hi_trust :: trust
  hi_reason :: reason
  hi_agent_type :: "string option"

definition identity_behaviour_key :: "hook_identity \<Rightarrow> string option \<Rightarrow> string option" where
  "identity_behaviour_key i payload_session =
     (case (hi_instance_id i, hi_reason i) of
        (Some n, ConfinedByNamespace) \<Rightarrow> Some (''instance:'' @ n)
      | _ \<Rightarrow> payload_session)"

definition behaviour_key :: "hook_identity option \<Rightarrow> string option \<Rightarrow> string option" where
  "behaviour_key ident payload_session =
     (case ident of Some i \<Rightarrow> identity_behaviour_key i payload_session | None \<Rightarrow> payload_session)"

definition report_fields :: "hook_identity \<Rightarrow> string option \<times> string" where
  "report_fields i = (hi_instance_id i, trust_as_str (hi_trust i))"

text \<open>Two names for one hook: the lower of the two readings stands.\<close>

definition resolve_claim ::
  "trust \<times> reason \<Rightarrow> string \<Rightarrow> string option \<Rightarrow> string option \<Rightarrow> trust \<times> reason" where
  "resolve_claim judged record_agent hook_agent launcher_agent =
     (case (hook_agent, launcher_agent) of
        (Some line, Some launcher) \<Rightarrow>
          if line \<noteq> launcher then
            (let by_line = judge_agent_claim judged record_agent (Some line);
                 by_launcher = judge_agent_claim judged record_agent (Some launcher)
             in if fst by_line \<le> fst by_launcher then by_line else by_launcher)
          else judge_agent_claim judged record_agent (Some line)
      | (Some line, None) \<Rightarrow> judge_agent_claim judged record_agent (Some line)
      | (None, launcher) \<Rightarrow> judge_agent_claim judged record_agent launcher)"

definition resolve ::
  "(bytes \<Rightarrow> record_error + launch_record) \<Rightarrow> (string \<Rightarrow> string) \<Rightarrow> jail_facts \<Rightarrow> string option
   \<Rightarrow> string option \<Rightarrow> hook_identity option" where
  "resolve parse_record bounded_session facts hook_agent payload_session =
     (let session_id = opt_filter (\<lambda>s. s \<noteq> []) (map_option bounded_session payload_session);
          unreadable = \<lparr>hi_instance_id = None, hi_session_id = session_id, hi_trust = Declared,
            hi_reason = RecordUnreadable, hi_agent_type = None\<rparr>
      in case jfs_record facts of
           RawAbsent \<Rightarrow> None
         | RawUnreadable \<Rightarrow> Some unreadable
         | RawBytes bs read_only \<Rightarrow>
             (case parse_record bs of
                Inl _ \<Rightarrow> Some unreadable
              | Inr r \<Rightarrow>
                  (let judged = judge_trust_in_jail
                         \<lparr>jf_record = ReadPresent r read_only, jf_own_pid_ns = jfs_own_pid_ns facts,
                          jf_own_mnt_ns = jfs_own_mnt_ns facts\<rparr>;
                       (t, why) = resolve_claim judged (lr_agent_type r) hook_agent (jfs_launcher_agent facts);
                       matched = Declared < t
                   in Some \<lparr>hi_instance_id = (if matched then Some (lr_instance_id r) else None),
                            hi_session_id = session_id, hi_trust = t, hi_reason = why,
                            hi_agent_type = (if matched then Some (lr_agent_type r) else None)\<rparr>)))"

definition launcher_agent :: "string option \<Rightarrow> string option" where
  "launcher_agent value = map_option (\<lambda>v. if is_agent_id v then v else []) value"

subsection \<open>The profiles in force\<close>

datatype file_read = FrAbsent | FrBytes bytes | FrRefused string

datatype profiles_state = PsOff | PsOn agent_profiles | PsInvalid string

text \<open>One of the two files, and what is wrong with it.\<close>

definition read_side ::
  "(bytes \<Rightarrow> agent_profiles checked) \<Rightarrow> (profile_error \<Rightarrow> string) \<Rightarrow> bool \<Rightarrow> string \<times> file_read
   \<Rightarrow> string + agent_profiles option" where
  "read_side parse show_error is_user side =
     (case side of (path, rd) \<Rightarrow>
        (case rd of
           FrAbsent \<Rightarrow> Inr None
         | FrRefused why \<Rightarrow> Inl (path @ '': '' @ why)
         | FrBytes bs \<Rightarrow>
             (case rbind (parse bs) (\<lambda>ps.
                     rbind (if is_user then check_user_file ps else Inr ()) (\<lambda>_. Inr ps)) of
                Inr ps \<Rightarrow> Inr (Some ps)
              | Inl e \<Rightarrow> Inl (path @ '': '' @ show_error e))))"

definition state_from ::
  "(bytes \<Rightarrow> agent_profiles checked) \<Rightarrow> (profile_error \<Rightarrow> string) \<Rightarrow> string \<times> file_read
   \<Rightarrow> string \<times> file_read \<Rightarrow> profiles_state" where
  "state_from parse show_error system user =
     (case read_side parse show_error False system of
        Inl why \<Rightarrow> PsInvalid why
      | Inr s \<Rightarrow>
          (case read_side parse show_error True user of
             Inl why \<Rightarrow> PsInvalid why
           | Inr u \<Rightarrow> if s = None \<and> u = None then PsOff else PsOn (merge s u)))"

record root_view =
  rv_maps_root :: "bool option"
  rv_overflow_uid :: "u32 option"
  rv_launcher_proved :: bool

definition launcher_proved :: "bool \<Rightarrow> bool \<Rightarrow> bool" where
  "launcher_proved record_mounted marker_mounted \<longleftrightarrow> record_mounted \<or> marker_mounted"

definition system_owner_is_root :: "u32 \<Rightarrow> root_view \<Rightarrow> bool" where
  "system_owner_is_root uid view =
     (if uid = 0 then True
      else rv_launcher_proved view \<and> rv_maps_root view = Some False \<and> rv_overflow_uid view = Some uid)"

definition uid_map_maps_root :: "string \<Rightarrow> bool" where
  "uid_map_maps_root mp = list_ex (\<lambda>line.
     let fields = split_whitespace line;
         inside = (if 0 < length fields then parse_u32 (fields ! 0) else None);
         count = (if 2 < length fields then parse_u32 (fields ! 2) else None)
     in inside = Some 0 \<and> is_some_and count (\<lambda>c. 0 < c)) (str_lines mp)"

definition hook_agent_type :: "string option \<Rightarrow> hook_identity option \<Rightarrow> string option" where
  "hook_agent_type hook_agent ident =
     (case hook_agent of Some a \<Rightarrow> Some a | None \<Rightarrow> Option.bind ident hi_agent_type)"

definition hook_trust :: "hook_identity option \<Rightarrow> trust" where
  "hook_trust ident = (case ident of Some i \<Rightarrow> hi_trust i | None \<Rightarrow> Declared)"

subsection \<open>From a rules verdict to a layered decision\<close>

definition charged_signals :: "json \<Rightarrow> string list" where
  "charged_signals v =
     List.map_filter (\<lambda>signal. get_str signal ''signal'')
       (filter (\<lambda>signal. is_none_or (get_u64 signal ''score'') (\<lambda>score. 0 < score))
         (case get_array v ''signals'' of Some xs \<Rightarrow> xs | None \<Rightarrow> []))"

definition general_verdict :: "json \<Rightarrow> verdict" where
  "general_verdict v =
     (if get_str v ''recommendation'' = Some ''deny'' then VDeny
      else if get_str v ''recommendation'' = Some ''review'' then VReview else VAllow)"

record hook_decision =
  hd_verdict :: json
  hd_blocks :: bool
  hd_deciding_layer :: rule_layer
  hd_profile :: "string option"
  hd_relaxation_withheld :: bool

record hook_facts =
  hf_command :: string
  hf_verdict :: json
  hf_blocks_today :: bool
  hf_tainted :: bool
  hf_line_block_review :: bool

text \<open>The profile in force, by name (\<^verbatim>\<open>src/crates/cli/src/agent_decisions.rs\<close>).\<close>

definition profile_name :: "agent_profiles \<Rightarrow> string \<Rightarrow> string option" where
  "profile_name ps agent =
     (case Option.bind (bget (pf_agents ps) agent) ar_profile of
        Some name \<Rightarrow>
          if name = GENERAL_PROFILE then map_option (\<lambda>_. agent) (bget (pf_types ps) agent) else Some name
      | None \<Rightarrow> map_option (\<lambda>_. agent) (bget (pf_types ps) agent))"

definition shell_call_of :: "(string \<Rightarrow> bool) \<Rightarrow> hook_facts \<Rightarrow> shell_call" where
  "shell_call_of names_llm_key facts =
     \<lparr>sh_general = general_verdict (hf_verdict facts), sh_charged = charged_signals (hf_verdict facts),
      sh_blocks_today = hf_blocks_today facts, sh_names_llm_key = names_llm_key (hf_command facts),
      sh_tainted = hf_tainted facts\<rparr>"

definition decide_hook ::
  "(string \<Rightarrow> bool) \<Rightarrow> hook_facts \<Rightarrow> agent_profiles \<Rightarrow> string option \<Rightarrow> string option \<Rightarrow> trust
   \<Rightarrow> hook_decision" where
  "decide_hook names_llm_key facts ps agent_type instance_id t =
     (let call = shell_call_of names_llm_key facts;
          named = Option.bind agent_type (\<lambda>name. map_option (Pair name) (bget (pf_types ps) name));
          outcome = decide_shell_in call named (profiles_facts ps agent_type instance_id)
            (hf_line_block_review facts) t;
          word = dn_verdict (so_decision outcome);
          v = (if word \<noteq> general_verdict (hf_verdict facts)
               then jset (hf_verdict facts) ''recommendation'' (JStr (verdict_word word))
               else hf_verdict facts);
          v = (case so_note outcome of
                 Some note \<Rightarrow> jset v ''explanation''
                   (JStr (trim (str_or (get_str v ''explanation'') @ '' ['' @ note @ '']'')))
               | None \<Rightarrow> v)
      in \<lparr>hd_verdict = v, hd_blocks = so_blocks outcome,
          hd_deciding_layer = dn_deciding_layer (so_decision outcome),
          hd_profile = Option.bind agent_type (profile_name ps),
          hd_relaxation_withheld = so_relaxation_withheld outcome\<rparr>)"

subsection \<open>The audit line\<close>

record snapshot =
  sn_profiles :: agent_profiles
  sn_rejected :: "string option"

definition snapshot_default :: snapshot where
  "snapshot_default = \<lparr>sn_profiles = \<lparr>pf_types = [], pf_agents = []\<rparr>, sn_rejected = None\<rparr>"

definition audit_write ::
  "(snapshot \<Rightarrow> bytes option) \<Rightarrow> bool \<Rightarrow> snapshot \<Rightarrow> snapshot \<Rightarrow> profile_change list
   \<Rightarrow> (bytes \<times> profile_change list) option" where
  "audit_write to_vec had_previous before after changed =
     (if changed = [] \<and> had_previous \<and> after = before then None
      else map_option (\<lambda>bs. (bs, changed)) (to_vec after))"

definition audit_step ::
  "(bytes \<Rightarrow> snapshot option) \<Rightarrow> (snapshot \<Rightarrow> bytes option) \<Rightarrow> bytes option \<Rightarrow> profiles_state
   \<Rightarrow> (bytes \<times> profile_change list) option" where
  "audit_step from_slice to_vec previous state =
     (let before = (case Option.bind previous from_slice of Some s \<Rightarrow> s | None \<Rightarrow> snapshot_default) in
      case state of
        PsOff \<Rightarrow> None
      | PsOn current \<Rightarrow>
          audit_write to_vec (previous \<noteq> None) before \<lparr>sn_profiles = current, sn_rejected = None\<rparr>
            ((if sn_rejected before \<noteq> None then [to_type ''profiles_accepted'' [] []] else [])
             @ changes (sn_profiles before) current)
      | PsInvalid why \<Rightarrow>
          if sn_rejected before = Some why then None
          else audit_write to_vec (previous \<noteq> None) before
                 \<lparr>sn_profiles = sn_profiles before, sn_rejected = Some why\<rparr>
                 [to_type ''profiles_rejected'' [] why])"


subsection \<open>Inside the jail nothing is confined\<close>

lemma judge_not_confined: "fst (judge_trust_in_jail facts) \<noteq> Confined"
  by (auto simp: judge_trust_in_jail_def split: record_read.splits option.splits)

lemma judge_above_declared:
  assumes "fst (judge_trust_in_jail \<lparr>jf_record = ReadPresent r ro, jf_own_pid_ns = p, jf_own_mnt_ns = m\<rparr>) \<noteq> Declared"
  shows "ro \<and> validate_launch_record r = None \<and> p = Some (jl_pid_ns (lr_jail r)) \<and> m = Some (jl_mnt_ns (lr_jail r))"
  using assms by (auto simp: judge_trust_in_jail_def split: option.splits if_splits)

lemma claim_cases:
  "judge_agent_claim j ra ha = j \<and> (fst j \<noteq> Declared \<longrightarrow> ha = Some ra) \<or> fst (judge_agent_claim j ra ha) = Declared"
  by (auto simp: judge_agent_claim_def split: option.splits)

lemma trust_le_declared [simp]: "t \<le> Declared \<longleftrightarrow> t = Declared" "Declared \<le> t"
  by (cases t; simp add: less_eq_trust_def)+

lemma declared_less [simp]: "Declared < t \<longleftrightarrow> t \<noteq> Declared"
  by (cases t) (simp_all add: less_trust_def)

text \<open>A level above declared takes one name for the agent, the record's, and no second name.\<close>

lemma resolve_claim_above:
  assumes "fst (resolve_claim j ra line launcher) \<noteq> Declared"
  shows "resolve_claim j ra line launcher = j \<and> set_option line \<union> set_option launcher = {ra}"
proof -
  have one: "judge_agent_claim j ra ha = j \<and> ha = Some ra" if "fst (judge_agent_claim j ra ha) \<noteq> Declared" for ha
    using claim_cases[of j ra ha] that by auto
  show ?thesis
  proof (cases "line \<noteq> None \<and> launcher \<noteq> None \<and> line \<noteq> launcher")
    case True
    then obtain a b where ab: "line = Some a" "launcher = Some b" "a \<noteq> b" by auto
    then have "fst (judge_agent_claim j ra line) = Declared \<or> fst (judge_agent_claim j ra launcher) = Declared"
      using one[of line] one[of launcher] by auto
    then show ?thesis using assms ab by (auto simp: resolve_claim_def Let_def split: if_splits)
  next
    case False
    then consider "launcher = None" | "line = None" | "line = launcher" by auto
    then show ?thesis
      using assms one[of line] one[of launcher]
      by cases (auto simp: resolve_claim_def split: option.splits)
  qed
qed

lemma resolve_trust:
  assumes "resolve parse bsession facts line session = Some i"
  shows "hi_trust i \<noteq> Confined" and "hi_instance_id i \<noteq> None \<longleftrightarrow> hi_trust i \<noteq> Declared"
    and "hi_agent_type i \<noteq> None \<longleftrightarrow> hi_trust i \<noteq> Declared"
proof -
  have "fst (resolve_claim (judge_trust_in_jail f) ra line la) \<noteq> Confined" for f ra la
    using resolve_claim_above[of "judge_trust_in_jail f" ra line la] judge_not_confined[of f]
    by (cases "fst (resolve_claim (judge_trust_in_jail f) ra line la)") auto
  then show "hi_trust i \<noteq> Confined"
    using assms by (auto simp: resolve_def Let_def case_prod_beta split: raw_record.splits sum.splits)
  show "hi_instance_id i \<noteq> None \<longleftrightarrow> hi_trust i \<noteq> Declared"
    "hi_agent_type i \<noteq> None \<longleftrightarrow> hi_trust i \<noteq> Declared"
    using assms by (auto simp: resolve_def Let_def case_prod_beta split: raw_record.splits sum.splits if_splits)
qed

lemma decide_shell_unconfined:
  "t \<noteq> Confined \<Longrightarrow> decide_shell_in call pr rcd line t = decide_shell_in call pr rcd line Declared"
  using layered.unconfined_same[of t Declared "shell_layers call pr rcd"]
  by (simp add: decide_shell_in_def review_blocks_def relaxation_withheld_def Let_def)

lemma decide_hook_unconfined:
  "t \<noteq> Confined \<Longrightarrow> decide_hook k facts ps ty inst t = decide_hook k facts ps ty inst Declared"
  by (simp add: decide_hook_def decide_shell_unconfined[of t])

text \<open>C31: What the hook says of its own instance. Whatever it finds at the record's place and
  whatever the hook line and the launcher name, its level is never confined, so every shell
  command is decided as for a declared instance; and it names an instance exactly when it is
  above declared, which takes a record that parses, mounted read-only, of the hook's own PID and
  mount namespaces, and one name only for the agent, the record's.\<close>

theorem resolve_sound:
  assumes "resolve parse bsession facts line session = Some i"
  shows "hi_trust i \<noteq> Confined
    \<and> decide_hook k hf ps ty inst (hook_trust (Some i)) = decide_hook k hf ps ty inst Declared
    \<and> (hi_instance_id i \<noteq> None \<longleftrightarrow> hi_trust i \<noteq> Declared)
    \<and> (hi_instance_id i = Some n \<longrightarrow>
        (\<exists>bs r. jfs_record facts = RawBytes bs True \<and> parse bs = Inr r \<and> n = lr_instance_id r
           \<and> validate_launch_record r = None
           \<and> jfs_own_pid_ns facts = Some (jl_pid_ns (lr_jail r))
           \<and> jfs_own_mnt_ns facts = Some (jl_mnt_ns (lr_jail r))
           \<and> hi_agent_type i = Some (lr_agent_type r)
           \<and> set_option line \<union> set_option (jfs_launcher_agent facts) = {lr_agent_type r}))"
proof -
  note t = resolve_trust[OF assms]
  have "\<exists>bs r. jfs_record facts = RawBytes bs True \<and> parse bs = Inr r \<and> n = lr_instance_id r
           \<and> validate_launch_record r = None
           \<and> jfs_own_pid_ns facts = Some (jl_pid_ns (lr_jail r))
           \<and> jfs_own_mnt_ns facts = Some (jl_mnt_ns (lr_jail r))
           \<and> hi_agent_type i = Some (lr_agent_type r)
           \<and> set_option line \<union> set_option (jfs_launcher_agent facts) = {lr_agent_type r}"
    if n: "hi_instance_id i = Some n"
  proof -
    obtain bs ro r where b: "jfs_record facts = RawBytes bs ro" "parse bs = Inr r"
      using assms n by (auto simp: resolve_def Let_def split: raw_record.splits sum.splits)
    let ?j = "judge_trust_in_jail \<lparr>jf_record = ReadPresent r ro, jf_own_pid_ns = jfs_own_pid_ns facts,
                jf_own_mnt_ns = jfs_own_mnt_ns facts\<rparr>"
    have i: "hi_trust i = fst (resolve_claim ?j (lr_agent_type r) line (jfs_launcher_agent facts))"
      "hi_trust i \<noteq> Declared" "n = lr_instance_id r" "hi_agent_type i = Some (lr_agent_type r)"
      using assms n b by (auto simp: resolve_def Let_def case_prod_beta split: if_splits)
    then have "fst (resolve_claim ?j (lr_agent_type r) line (jfs_launcher_agent facts)) \<noteq> Declared" by simp
    note above = resolve_claim_above[OF this]
    then have "fst ?j \<noteq> Declared" using i by metis
    then show ?thesis using judge_above_declared[of r ro] b i(3,4) above by auto
  qed
  then show ?thesis using t(1,2) decide_hook_unconfined[OF t(1)] by (simp add: hook_trust_def)
qed

definition sample_jail :: jail_facts where
  "sample_jail = \<lparr>jfs_record = RawBytes ''record'' True, jfs_own_pid_ns = Some 100,
     jfs_own_mnt_ns = Some 200, jfs_launcher_agent = None\<rparr>"

theorem resolve_sound_witness:
  "\<exists>i. resolve (\<lambda>_. Inr sample_record) id sample_jail (Some ''claude-code'') None = Some i
     \<and> hi_instance_id i = Some (lr_instance_id sample_record) \<and> hi_trust i = Observed"
proof -
  let ?res = "resolve (\<lambda>_. Inr sample_record) id sample_jail (Some ''claude-code'') None"
  have "map_option (\<lambda>i. (hi_trust i, hi_instance_id i)) ?res = Some (Observed, Some (lr_instance_id sample_record))"
    by code_simp
  then obtain i where i: "?res = Some i" "hi_trust i = Observed" "hi_instance_id i = Some (lr_instance_id sample_record)"
    by auto
  show ?thesis using resolve_sound[OF i(1)] i by auto
qed

subsection \<open>The profiles in force are whole\<close>

lemma read_side_Inr:
  "read_side parse show is_user (path, rd) = Inr x \<longleftrightarrow>
     (case rd of FrAbsent \<Rightarrow> x = None | FrRefused _ \<Rightarrow> False
      | FrBytes bs \<Rightarrow> (\<exists>ps. x = Some ps \<and> parse bs = Inr ps \<and> (is_user \<longrightarrow> check_user_file ps = Inr ())))"
  by (cases rd) (auto simp: read_side_def rbind_def split: sum.splits)

text \<open>A policy is never applied with half of it missing. Profiles are in force exactly when no
  file that is there was refused, each of the files there parses, the user's is one that only
  tightens, and at least one is there; and what is in force is their merge. With neither file
  the state is off; in every other case it is invalid.\<close>

theorem state_from_spec:
  "(state_from parse show_error (sp, s) (up, u) = PsOn m \<longleftrightarrow>
      (\<exists>x y. m = merge x y \<and> \<not> (x = None \<and> y = None)
        \<and> (case s of FrAbsent \<Rightarrow> x = None | FrRefused _ \<Rightarrow> False
            | FrBytes bs \<Rightarrow> \<exists>ps. x = Some ps \<and> parse bs = Inr ps)
        \<and> (case u of FrAbsent \<Rightarrow> y = None | FrRefused _ \<Rightarrow> False
            | FrBytes bs \<Rightarrow> \<exists>ps. y = Some ps \<and> parse bs = Inr ps \<and> check_user_file ps = Inr ())))
   \<and> (state_from parse show_error (sp, s) (up, u) = PsOff \<longleftrightarrow> s = FrAbsent \<and> u = FrAbsent)"
proof (cases "read_side parse show_error False (sp, s)")
  case (Inl e)
  then have "\<not> (case s of FrAbsent \<Rightarrow> x = None | FrRefused _ \<Rightarrow> False
      | FrBytes bs \<Rightarrow> \<exists>ps. x = Some ps \<and> parse bs = Inr ps)" for x
    using read_side_Inr[of parse show_error False sp s x] by (auto split: file_read.splits)
  moreover have "s \<noteq> FrAbsent" using Inl by (auto simp: read_side_def)
  ultimately show ?thesis using Inl by (simp add: state_from_def)
next
  case (Inr x)
  then have x: "(case s of FrAbsent \<Rightarrow> x' = None | FrRefused _ \<Rightarrow> False
      | FrBytes bs \<Rightarrow> \<exists>ps. x' = Some ps \<and> parse bs = Inr ps) \<longleftrightarrow> x' = x" for x'
    using read_side_Inr[of parse show_error False sp s x] by (auto split: file_read.splits)
  show ?thesis
  proof (cases "read_side parse show_error True (up, u)")
    case (Inl e)
    then have "\<not> (case u of FrAbsent \<Rightarrow> y = None | FrRefused _ \<Rightarrow> False
        | FrBytes bs \<Rightarrow> \<exists>ps. y = Some ps \<and> parse bs = Inr ps \<and> check_user_file ps = Inr ())" for y
      using read_side_Inr[of parse show_error True up u y] by (auto split: file_read.splits)
    moreover have "u \<noteq> FrAbsent" using Inl by (auto simp: read_side_def)
    ultimately show ?thesis using Inl Inr by (simp add: state_from_def)
  next
    case (Inr y)
    then have y: "(case u of FrAbsent \<Rightarrow> y' = None | FrRefused _ \<Rightarrow> False
        | FrBytes bs \<Rightarrow> \<exists>ps. y' = Some ps \<and> parse bs = Inr ps \<and> check_user_file ps = Inr ()) \<longleftrightarrow> y' = y" for y'
      using read_side_Inr[of parse show_error True up u y] by (auto split: file_read.splits)
    have "x = None \<longleftrightarrow> s = FrAbsent" "y = None \<longleftrightarrow> u = FrAbsent"
      using x[of x] y[of y] by (auto split: file_read.splits)
    then show ?thesis
      using Inr \<open>read_side parse show_error False (sp, s) = Inr x\<close> unfolding x y
      by (auto simp: state_from_def)
  qed
qed

subsection \<open>The audit line says each change once\<close>

lemma changes_same [simp]: "changes ps ps = []"
  by (simp add: changes_def record_changes_def type_changes_same agent_changes_same)

text \<open>A change of the profiles is reported once: when a load wrote a snapshot, the next load of
  the same state reads it back, reports nothing and writes nothing. (For a snapshot format that
  reads back what it wrote.)\<close>

theorem audit_step_once:
  assumes "\<And>s bs. to_vec s = Some bs \<Longrightarrow> from_slice bs = Some s"
    and "audit_step from_slice to_vec previous state = Some (bs, cs)"
  shows "audit_step from_slice to_vec (Some bs) state = None"
proof (cases state)
  case (PsOn current)
  then have "to_vec \<lparr>sn_profiles = current, sn_rejected = None\<rparr> = Some bs"
    using assms(2) by (auto simp: audit_step_def audit_write_def Let_def split: if_splits option.splits)
  from assms(1)[OF this] show ?thesis by (simp add: audit_step_def audit_write_def PsOn)
next
  case (PsInvalid why)
  then obtain ps where "to_vec \<lparr>sn_profiles = ps, sn_rejected = Some why\<rparr> = Some bs"
    using assms(2) by (auto simp: audit_step_def audit_write_def Let_def split: if_splits option.splits)
  from assms(1)[OF this] show ?thesis by (simp add: audit_step_def PsInvalid)
qed (use assms(2) in \<open>simp add: audit_step_def\<close>)

definition sample_snapshot :: snapshot where
  "sample_snapshot = \<lparr>sn_profiles = \<lparr>pf_types = [], pf_agents = []\<rparr>, sn_rejected = Some ''bad''\<rparr>"

theorem audit_step_once_witness:
  "audit_step (\<lambda>bs. if bs = ''x'' then Some sample_snapshot else None)
     (\<lambda>s. if s = sample_snapshot then Some ''x'' else None) (Some ''x'') (PsInvalid ''bad'') = None"
proof (rule audit_step_once)
  show "audit_step (\<lambda>bs. if bs = ''x'' then Some sample_snapshot else None)
     (\<lambda>s. if s = sample_snapshot then Some ''x'' else None) None (PsInvalid ''bad'') =
     Some (''x'', [to_type ''profiles_rejected'' [] ''bad''])"
    by (simp add: audit_step_def audit_write_def snapshot_default_def sample_snapshot_def)
qed (simp split: if_splits)

end
