(* ===== verification/HostDecide.thy ===== *)
theory HostDecide
  imports Hook
begin

text \<open>
  \<^verbatim>\<open>src/crates/cli/src/host_decide.rs\<close>: when the hook asks the Active Defence agent on its
  host about a shell command, what it sends, and the decision that stands once both have spoken.
  The request itself and the installed check are parameters (\<open>consult\<close>, \<open>ad\<close>); that each is
  called at most once is a state the calls thread, with the calls made on it as events.
\<close>

definition HOST_URL :: string where "HOST_URL = ''https://127.0.0.1:8787''"
definition INSTANCE_DECIDE_ROUTE :: string where "INSTANCE_DECIDE_ROUTE = ''/api/agent/instance-decide''"
definition AGENT_TLS_SPKI_PATH :: string where "AGENT_TLS_SPKI_PATH = ''/etc/innerwarden/agent-tls.spki''"
definition JAIL_SPKI_PIN_PATH :: string where "JAIL_SPKI_PIN_PATH = ''/run/innerwarden/agent-tls.spki''"

definition instance_decide_url :: "string option \<Rightarrow> string option" where
  "instance_decide_url var =
     (case var of
        Some value \<Rightarrow> if eq_ignore_ascii_case (trim value) ''off'' then None
                      else Some (HOST_URL @ INSTANCE_DECIDE_ROUTE)
      | None \<Rightarrow> Some (HOST_URL @ INSTANCE_DECIDE_ROUTE))"

definition ask_for :: "profiles_state \<Rightarrow> string option \<Rightarrow> ask_host" where
  "ask_for profiles agent_type =
     (case profiles of PsOn ps \<Rightarrow> profiles_ask_host ps agent_type | PsOff \<Rightarrow> AskReview | PsInvalid _ \<Rightarrow> AskReview)"

datatype key_file = KeyJail | KeyHost

fun key_file_path :: "key_file \<Rightarrow> string" where
  "key_file_path KeyJail = JAIL_SPKI_PIN_PATH"
| "key_file_path KeyHost = AGENT_TLS_SPKI_PATH"

definition key_file_of :: "bool \<Rightarrow> key_file" where
  "key_file_of in_jail = (if in_jail then KeyJail else KeyHost)"

subsection \<open>The two closures\<close>

datatype host_event = AskedInstalled | Consulted string instance_decide_request key_file

record host_calls =
  hc_ad_known :: "bool option"
  hc_consulted :: bool
  hc_events :: "host_event list"

definition no_calls :: host_calls where
  "no_calls = \<lparr>hc_ad_known = None, hc_consulted = False, hc_events = []\<rparr>"

definition call_ad :: "bool \<Rightarrow> host_calls \<Rightarrow> bool \<times> host_calls" where
  "call_ad ad c =
     (case hc_ad_known c of
        Some known \<Rightarrow> (known, c)
      | None \<Rightarrow> (ad, c\<lparr>hc_ad_known := Some ad, hc_events := hc_events c @ [AskedInstalled]\<rparr>))"

type_synonym consult = "string \<Rightarrow> instance_decide_request \<Rightarrow> key_file \<Rightarrow> (u16 \<times> bytes) option"

definition call_consult ::
  "consult \<Rightarrow> string \<Rightarrow> instance_decide_request \<Rightarrow> key_file \<Rightarrow> host_calls
   \<Rightarrow> (u16 \<times> bytes) option \<times> host_calls" where
  "call_consult consult url rq key c =
     (if hc_consulted c then (None, c)
      else (consult url rq key, c\<lparr>hc_consulted := True, hc_events := hc_events c @ [Consulted url rq key]\<rparr>))"

subsection \<open>When to ask, and what to send\<close>

fun is_on :: "profiles_state \<Rightarrow> bool" where
  "is_on (PsOn _) = True" | "is_on _ = False"

definition should_ask ::
  "verdict \<Rightarrow> rule_layer \<Rightarrow> ask_host \<Rightarrow> hook_identity option \<Rightarrow> profiles_state \<Rightarrow> bool \<Rightarrow> string option
   \<Rightarrow> host_calls \<Rightarrow> bool \<times> host_calls" where
  "should_ask general own_layer ask ident profiles ad url c =
     (let asked_about = (case ask of AskReview \<Rightarrow> general = VReview
                         | EveryCommand \<Rightarrow> general = VAllow \<or> general = VReview) in
      if asked_about \<and> own_layer = LGeneral \<and> is_some_and ident (\<lambda>i. hi_instance_id i \<noteq> None)
         \<and> is_on profiles \<and> url \<noteq> None
      then call_ad ad c else (False, c))"

definition should_report ::
  "bool \<Rightarrow> bool \<Rightarrow> hook_identity option \<Rightarrow> profiles_state \<Rightarrow> bool \<Rightarrow> string option
   \<Rightarrow> host_calls \<Rightarrow> bool \<times> host_calls" where
  "should_report asked refuses ident profiles ad url c =
     (if \<not> asked \<and> refuses \<and> is_some_and ident (\<lambda>i. hi_instance_id i \<noteq> None)
         \<and> is_on profiles \<and> url \<noteq> None
      then call_ad ad c else (False, c))"

definition facts_for ::
  "hook_identity \<Rightarrow> string \<Rightarrow> string option \<Rightarrow> string \<Rightarrow> json \<Rightarrow> bool \<Rightarrow> request_facts" where
  "facts_for i inst agent_type command v tainted =
     \<lparr>rf_instance_id = inst, rf_claimed_agent_type = agent_type, rf_session_id = hi_session_id i,
      rf_command = command, rf_charged = charged_signals v, rf_tainted = tainted\<rparr>"

definition report_for ::
  "hook_identity \<Rightarrow> string option \<Rightarrow> string \<Rightarrow> json \<Rightarrow> bool \<Rightarrow> hook_decision
   \<Rightarrow> instance_decide_request option" where
  "report_for i agent_type command v tainted decided =
     Option.bind (hi_instance_id i) (\<lambda>inst.
       instance_decide_refusal (facts_for i inst agent_type command v tainted) (hd_deciding_layer decided))"

definition request_for ::
  "hook_identity \<Rightarrow> string option \<Rightarrow> string \<Rightarrow> json \<Rightarrow> bool \<Rightarrow> ask_host
   \<Rightarrow> instance_decide_request option" where
  "request_for i agent_type command v tainted ask =
     Option.bind (hi_instance_id i) (\<lambda>inst.
       let f = facts_for i inst agent_type command v tainted in
       case ask of
         AskReview \<Rightarrow> instance_decide_request_v1 f
       | EveryCommand \<Rightarrow> instance_decide_request_v2 f (general_verdict v))"

subsection \<open>The reply\<close>

datatype host_reply = HrNone | HrInvalid | HrAnswer instance_decide_answer

definition read_reply ::
  "(bytes \<Rightarrow> instance_decide_answer option) \<Rightarrow> (u16 \<times> bytes) option \<Rightarrow> string option \<Rightarrow> host_reply" where
  "read_reply from_slice reply own_instance_id =
     (case reply of
        None \<Rightarrow> HrNone
      | Some (status, body) \<Rightarrow>
          if status \<noteq> 200 then HrNone
          else case own_instance_id of
            None \<Rightarrow> HrInvalid
          | Some own \<Rightarrow>
              (case read_host_answer from_slice body own of
                 HostAnswer a \<Rightarrow> HrAnswer a | HostWithheld \<Rightarrow> HrInvalid))"

definition decision_trust :: "trust \<Rightarrow> host_reply \<Rightarrow> trust" where
  "decision_trust inside reply =
     (case reply of
        HrAnswer a \<Rightarrow> if answer_relaxes a then Confined else inside
      | _ \<Rightarrow> inside)"

record host_label =
  hl_answered :: bool
  hl_decision :: "string option"
  hl_withheld :: "string option"
  hl_decided :: bool

fun rank :: "verdict \<Rightarrow> nat" where
  "rank VAllow = 0" | "rank VReview = 1" | "rank VDeny = 2"

definition relaxed :: "verdict \<Rightarrow> rule_layer \<Rightarrow> bool" where
  "relaxed v layer \<longleftrightarrow> v = VAllow \<and> (layer = LAgentType \<or> layer = LInstance)"

definition HOST_DENY_SENTENCE :: string where
  "HOST_DENY_SENTENCE = ''InnerWarden Pro on this host will not start a program in this command.''"

definition HOST_DECIDED_BY :: string where "HOST_DECIDED_BY = ''host''"

record settle_facts =
  sf_general :: json
  sf_line_block_review :: bool
  sf_mode :: "profile_mode option"
  sf_inside :: trust

definition settle_answer ::
  "hook_decision \<Rightarrow> instance_decide_answer \<Rightarrow> settle_facts \<Rightarrow> hook_decision \<times> host_label" where
  "settle_answer local a facts =
     (let local_verdict = general_verdict (hd_verdict local);
          local_relaxed = relaxed local_verdict (hd_deciding_layer local);
          general = general_verdict (sf_general facts);
          own_refusal = refuses_on_its_own a;
          host_stricter = rank (an_verdict a) > rank local_verdict \<and> (general \<noteq> VAllow \<or> own_refusal);
          settled =
            (if host_stricter then
               (let v = (if an_verdict a \<noteq> general
                         then jset (sf_general facts) ''recommendation'' (JStr (verdict_word (an_verdict a)))
                         else sf_general facts);
                    v = (if own_refusal
                         then jset (jset v ''explanation'' (JStr HOST_DENY_SENTENCE))
                                ''decided_by'' (JStr HOST_DECIDED_BY)
                         else v);
                    blocks = (case an_verdict a of
                        VDeny \<Rightarrow> True
                      | VReview \<Rightarrow> review_blocks (sf_line_block_review facts) (sf_mode facts)
                          (decision_trust (sf_inside facts) (HrAnswer a))
                      | VAllow \<Rightarrow> False)
                in \<lparr>hd_verdict = v, hd_blocks = blocks, hd_deciding_layer = an_deciding_layer a,
                    hd_profile = hd_profile local,
                    hd_relaxation_withheld = local_relaxed \<or> hd_relaxation_withheld local\<rparr>)
             else local);
          decided = answer_relaxes a
            \<and> relaxed (general_verdict (hd_verdict settled)) (hd_deciding_layer settled)
      in (settled, \<lparr>hl_answered = True, hl_decision = Some (an_decision_id a),
                    hl_withheld = an_withheld a, hl_decided = decided\<rparr>))"

definition settle ::
  "hook_decision \<Rightarrow> host_reply \<Rightarrow> settle_facts \<Rightarrow> hook_decision \<times> host_label option" where
  "settle local reply facts =
     (case reply of
        HrNone \<Rightarrow> (local, None)
      | HrInvalid \<Rightarrow> (local, Some \<lparr>hl_answered = False, hl_decision = None,
          hl_withheld = Some HOST_ANSWER_INVALID, hl_decided = False\<rparr>)
      | HrAnswer a \<Rightarrow> map_prod id Some (settle_answer local a facts))"

subsection \<open>The whole decision\<close>

record shell_facts =
  shf_hook :: hook_facts
  shf_state :: profiles_state
  shf_profiles :: agent_profiles
  shf_agent_type :: "string option"
  shf_identity :: "hook_identity option"
  shf_url :: "string option"

definition decide_at :: "(string \<Rightarrow> bool) \<Rightarrow> shell_facts \<Rightarrow> trust \<Rightarrow> hook_decision" where
  "decide_at names_llm_key f t =
     decide_hook names_llm_key (shf_hook f) (shf_profiles f) (shf_agent_type f)
       (Option.bind (shf_identity f) hi_instance_id) t"

text \<open>The question, its reply, and the report of a refusal, each with the calls it makes.\<close>

definition ask_host_about ::
  "consult \<Rightarrow> shell_facts \<Rightarrow> ask_host \<Rightarrow> bool \<Rightarrow> host_calls \<Rightarrow> (u16 \<times> bytes) option \<times> host_calls" where
  "ask_host_about consult f ask asked c =
     (case (asked, shf_identity f, shf_url f) of
        (True, Some i, Some url) \<Rightarrow>
          (case request_for i (shf_agent_type f) (hf_command (shf_hook f)) (hf_verdict (shf_hook f))
                  (hf_tainted (shf_hook f)) ask of
             Some rq \<Rightarrow> call_consult consult url rq (key_file_of True) c
           | None \<Rightarrow> (None, c))
      | _ \<Rightarrow> (None, c))"

definition report_refusal ::
  "consult \<Rightarrow> shell_facts \<Rightarrow> hook_decision \<Rightarrow> host_calls \<Rightarrow> host_calls" where
  "report_refusal consult f settled c =
     (case (shf_identity f, shf_url f) of
        (Some i, Some url) \<Rightarrow>
          (case report_for i (shf_agent_type f) (hf_command (shf_hook f)) (hf_verdict (shf_hook f))
                  (hf_tainted (shf_hook f)) settled of
             Some report \<Rightarrow> snd (call_consult consult url report (key_file_of True) c)
           | None \<Rightarrow> c)
      | _ \<Rightarrow> c)"

definition decide_with_host ::
  "(string \<Rightarrow> bool) \<Rightarrow> (bytes \<Rightarrow> instance_decide_answer option) \<Rightarrow> shell_facts \<Rightarrow> bool \<Rightarrow> consult
   \<Rightarrow> (hook_decision \<times> host_label option) \<times> host_calls" where
  "decide_with_host names_llm_key from_slice f ad consult =
     (let hook = shf_hook f;
          inside = hook_trust (shf_identity f);
          own = decide_at names_llm_key f inside;
          ask = ask_for (shf_state f) (shf_agent_type f);
          (asked, c) = should_ask (general_verdict (hf_verdict hook)) (hd_deciding_layer own) ask
            (shf_identity f) (shf_state f) ad (shf_url f) no_calls;
          (raw, c) = ask_host_about consult f ask asked c;
          reply = read_reply from_slice raw (Option.bind (shf_identity f) hi_instance_id);
          t = decision_trust inside reply;
          local = (if t = inside then own else decide_at names_llm_key f t);
          settled = settle local reply
            \<lparr>sf_general = hf_verdict hook, sf_line_block_review = hf_line_block_review hook,
             sf_mode = Option.bind (Option.bind (shf_agent_type f) (bget (pf_types (shf_profiles f)))) ap_mode,
             sf_inside = inside\<rparr>;
          refuses = hd_blocks (fst settled) \<and> general_verdict (hd_verdict (fst settled)) = VDeny;
          (report, c) = should_report asked refuses (shf_identity f) (shf_state f) ad (shf_url f) c
      in (settled, if report then report_refusal consult f (fst settled) c else c))"

subsection \<open>What a decision records is what was decided\<close>

definition hook_outcome ::
  "(string \<Rightarrow> bool) \<Rightarrow> hook_facts \<Rightarrow> agent_profiles \<Rightarrow> string option \<Rightarrow> string option \<Rightarrow> trust \<Rightarrow> shell_outcome" where
  "hook_outcome k facts ps ty inst t =
     decide_shell_in (shell_call_of k facts)
       (Option.bind ty (\<lambda>name. map_option (Pair name) (bget (pf_types ps) name)))
       (profiles_facts ps ty inst) (hf_line_block_review facts) t"

abbreviation word :: "hook_decision \<Rightarrow> verdict" where
  "word d \<equiv> general_verdict (hd_verdict d)"

lemma general_verdict_word [simp]:
  "jobject v \<Longrightarrow> general_verdict (jset v ''recommendation'' (JStr (verdict_word w))) = w"
  by (cases w) (simp_all add: general_verdict_def get_str_def)

lemmas general_verdict_words [simp] =
  general_verdict_word[of _ VAllow, simplified] general_verdict_word[of _ VReview, simplified]
  general_verdict_word[of _ VDeny, simplified]

lemma general_verdict_other [simp]:
  "jobject v \<Longrightarrow> k \<noteq> ''recommendation'' \<Longrightarrow> general_verdict (jset v k x) = general_verdict v"
  by (simp add: general_verdict_def get_str_def)

lemma decide_hook_word:
  assumes "jobject (hf_verdict facts)"
  shows "word (decide_hook k facts ps ty inst t) = dn_verdict (so_decision (hook_outcome k facts ps ty inst t))"
  using assms by (simp add: decide_hook_def Let_def hook_outcome_def split: option.split)

lemma decide_hook_simps [simp]:
  "hd_blocks (decide_hook k facts ps ty inst t) = so_blocks (hook_outcome k facts ps ty inst t)"
  "hd_deciding_layer (decide_hook k facts ps ty inst t) =
     dn_deciding_layer (so_decision (hook_outcome k facts ps ty inst t))"
  by (simp_all add: decide_hook_def Let_def hook_outcome_def)

lemma general_layer_word:
  "dn_deciding_layer (decide l t) = LGeneral \<Longrightarrow> dn_verdict (decide l t) = ly_general l"
  by (auto simp: decide_def split: if_splits)

lemma outcome_confined:
  "strictness (dn_verdict (so_decision (hook_outcome k facts ps ty inst Confined)))
     \<le> strictness (dn_verdict (so_decision (hook_outcome k facts ps ty inst t)))"
  unfolding hook_outcome_def so_decision_eq by (rule layered.confined_looser)

lemma outcome_general:
  assumes "dn_deciding_layer (so_decision (hook_outcome k facts ps ty inst t)) = LGeneral"
  shows "dn_verdict (so_decision (hook_outcome k facts ps ty inst t)) = general_verdict (hf_verdict facts)"
  using general_layer_word[OF assms[unfolded hook_outcome_def so_decision_eq]]
  by (simp add: hook_outcome_def so_decision_eq shell_call_of_def)

lemma outcome_blocks:
  "so_blocks (hook_outcome k facts ps ty inst t) \<Longrightarrow>
   dn_verdict (so_decision (hook_outcome k facts ps ty inst t)) \<noteq> VAllow"
  by (auto simp: hook_outcome_def decide_shell_in_def Let_def split: verdict.splits)

lemma rank_strictness: "rank v = strictness v"
  by (cases v) simp_all

subsection \<open>Settling\<close>

text \<open>What stands once the host has answered. The host's verdict stands when it is the stricter
  and either the general rules did not allow the command or the refusal is the host's own; in
  every other case the hook's own decision stands as it was. What stands records the host's
  layer and blocks as that verdict does, a refusal of its own says so and names the host, and
  the label says the host decided only when its relaxation is what stands.\<close>

theorem settle_spec:
  fixes a :: instance_decide_answer and local :: hook_decision and facts :: settle_facts
  assumes "jobject (sf_general facts)"
  defines "stricter \<equiv> strictness (word local) < strictness (an_verdict a) \<and>
    (general_verdict (sf_general facts) \<noteq> VAllow \<or> refuses_on_its_own a)"
  defines "r \<equiv> settle local (HrAnswer a) facts"
  shows "word (fst r) = (if stricter then an_verdict a else word local)
    \<and> (\<not> stricter \<longrightarrow> fst r = local)
    \<and> (stricter \<longrightarrow> hd_deciding_layer (fst r) = an_deciding_layer a \<and>
        (hd_blocks (fst r) \<longleftrightarrow> an_verdict a = VDeny \<or>
           review_blocks (sf_line_block_review facts) (sf_mode facts)
             (decision_trust (sf_inside facts) (HrAnswer a))))
    \<and> (stricter \<and> refuses_on_its_own a \<longrightarrow>
        get_str (hd_verdict (fst r)) ''explanation'' = Some HOST_DENY_SENTENCE \<and>
        get_str (hd_verdict (fst r)) ''decided_by'' = Some HOST_DECIDED_BY)
    \<and> (\<exists>l. snd r = Some l \<and> hl_answered l \<and> hl_decision l = Some (an_decision_id a) \<and>
        (hl_decided l \<longleftrightarrow> an_trust a = Confined \<and> an_withheld a = None \<and>
           relaxed (word (fst r)) (hd_deciding_layer (fst r))))"
proof (cases stricter)
  case True
  then have "an_verdict a \<noteq> VAllow" by (cases "an_verdict a") (auto simp: stricter_def)
  moreover have "rank (word local) < rank (an_verdict a) \<and>
      (general_verdict (sf_general facts) \<noteq> VAllow \<or> refuses_on_its_own a)"
    using True by (simp add: stricter_def rank_strictness)
  ultimately show ?thesis
    using assms(1) True
    by (cases "an_verdict a"; cases "an_verdict a = general_verdict (sf_general facts)"; cases "refuses_on_its_own a")
       (simp_all add: r_def settle_def settle_answer_def Let_def answer_relaxes_def get_str_def)
next
  case False
  then have "\<not> (rank (word local) < rank (an_verdict a) \<and>
      (general_verdict (sf_general facts) \<noteq> VAllow \<or> refuses_on_its_own a))"
    by (simp add: stricter_def rank_strictness)
  then show ?thesis using False
    by (auto simp: r_def settle_def settle_answer_def Let_def answer_relaxes_def)
qed

definition answered_by ::
  "(bytes \<Rightarrow> instance_decide_answer option) \<Rightarrow> consult \<Rightarrow> shell_facts \<Rightarrow> instance_decide_answer \<Rightarrow> bool" where
  "answered_by from_slice consult f a \<longleftrightarrow>
     (\<exists>i inst url rq body.
        shf_identity f = Some i \<and> hi_instance_id i = Some inst \<and> shf_url f = Some url \<and>
        request_for i (shf_agent_type f) (hf_command (shf_hook f)) (hf_verdict (shf_hook f))
          (hf_tainted (shf_hook f)) (ask_for (shf_state f) (shf_agent_type f)) = Some rq \<and>
        consult url rq KeyJail = Some (200, body) \<and> read_host_answer from_slice body inst = HostAnswer a)"

definition may_ask :: "(string \<Rightarrow> bool) \<Rightarrow> shell_facts \<Rightarrow> bool" where
  "may_ask k f \<longleftrightarrow>
     (case ask_for (shf_state f) (shf_agent_type f) of
        AskReview \<Rightarrow> general_verdict (hf_verdict (shf_hook f)) = VReview
      | EveryCommand \<Rightarrow> general_verdict (hf_verdict (shf_hook f)) \<noteq> VDeny) \<and>
     hd_deciding_layer (decide_at k f (hook_trust (shf_identity f))) = LGeneral \<and>
     is_some_and (shf_identity f) (\<lambda>i. hi_instance_id i \<noteq> None) \<and> is_on (shf_state f) \<and> shf_url f \<noteq> None"

lemma not_deny: "v \<noteq> VDeny \<longleftrightarrow> v = VAllow \<or> v = VReview"
  by (cases v) simp_all

lemma should_ask_may_ask:
  "should_ask (general_verdict (hf_verdict (shf_hook f)))
     (hd_deciding_layer (decide_at k f (hook_trust (shf_identity f))))
     (ask_for (shf_state f) (shf_agent_type f)) (shf_identity f) (shf_state f) ad (shf_url f) no_calls =
   (if may_ask k f
    then (ad, \<lparr>hc_ad_known = Some ad, hc_consulted = False, hc_events = [AskedInstalled]\<rparr>)
    else (False, no_calls))"
  by (simp add: should_ask_def may_ask_def call_ad_def no_calls_def not_deny split: ask_host.split)

definition settle_facts_of :: "shell_facts \<Rightarrow> settle_facts" where
  "settle_facts_of f =
     \<lparr>sf_general = hf_verdict (shf_hook f), sf_line_block_review = hf_line_block_review (shf_hook f),
      sf_mode = Option.bind (Option.bind (shf_agent_type f) (bget (pf_types (shf_profiles f)))) ap_mode,
      sf_inside = hook_trust (shf_identity f)\<rparr>"

text \<open>A run asks nothing and the hook's own decision stands, or it asks and what it was answered
  is settled.\<close>

lemma decide_with_host_result:
  obtains
    (own) label where "fst (decide_with_host k from_slice f ad consult) =
      (decide_at k f (hook_trust (shf_identity f)), label)"
      "\<not> (may_ask k f \<and> ad) \<Longrightarrow> label = None"
  | (answered) a where "may_ask k f" "ad" "answered_by from_slice consult f a"
      "fst (decide_with_host k from_slice f ad consult) =
        settle (decide_at k f (decision_trust (hook_trust (shf_identity f)) (HrAnswer a))) (HrAnswer a)
          (settle_facts_of f)"
proof -
  let ?inside = "hook_trust (shf_identity f)"
  let ?ask = "ask_for (shf_state f) (shf_agent_type f)"
  define asked c where "asked = (may_ask k f \<and> ad)"
    and "c = (if may_ask k f then \<lparr>hc_ad_known = Some ad, hc_consulted = False, hc_events = [AskedInstalled]\<rparr>
              else no_calls)"
  define raw where "raw = fst (ask_host_about consult f ?ask asked c)"
  define reply where "reply = read_reply from_slice raw (Option.bind (shf_identity f) hi_instance_id)"
  have ask_eq: "should_ask (general_verdict (hf_verdict (shf_hook f)))
     (hd_deciding_layer (decide_at k f ?inside)) ?ask (shf_identity f) (shf_state f) ad (shf_url f) no_calls =
     (asked, c)" by (simp add: should_ask_may_ask asked_def c_def)
  have run: "fst (decide_with_host k from_slice f ad consult) =
      settle (decide_at k f (decision_trust ?inside reply)) reply (settle_facts_of f)"
    by (simp add: decide_with_host_def ask_eq Let_def case_prod_beta raw_def[symmetric]
        reply_def[symmetric] settle_facts_of_def)
  show thesis
  proof (cases reply)
    case HrNone
    then show thesis using run by (intro own) (simp_all add: settle_def decision_trust_def)
  next
    case HrInvalid
    have "asked"
    proof (rule ccontr)
      assume "\<not> asked"
      then have "raw = None" by (simp add: raw_def ask_host_about_def split: option.split)
      then show False using HrInvalid by (simp add: reply_def read_reply_def)
    qed
    then show thesis using run HrInvalid by (intro own) (simp_all add: settle_def decision_trust_def asked_def)
  next
    case (HrAnswer a)
    then obtain inst body where r: "raw = Some (200, body)" "Option.bind (shf_identity f) hi_instance_id = Some inst"
      "read_host_answer from_slice body inst = HostAnswer a"
      by (auto simp: reply_def read_reply_def split: option.splits if_splits host_answer.splits)
    then obtain i where i: "shf_identity f = Some i" "hi_instance_id i = Some inst"
      by (cases "shf_identity f") auto
    have c0: "\<not> hc_consulted c" by (simp add: c_def no_calls_def)
    obtain url rq where q: "asked" "shf_url f = Some url"
      "request_for i (shf_agent_type f) (hf_command (shf_hook f)) (hf_verdict (shf_hook f))
          (hf_tainted (shf_hook f)) ?ask = Some rq" "consult url rq KeyJail = Some (200, body)"
      using r(1) c0 by (auto simp: raw_def ask_host_about_def i call_consult_def key_file_of_def
          split: option.splits bool.splits)
    show thesis
      by (rule answered[of a]) (use q r(3) i run HrAnswer in \<open>auto simp: asked_def answered_by_def\<close>)
  qed
qed

lemma decide_at_word:
  assumes "jobject (hf_verdict (shf_hook f))"
  shows "word (decide_at k f t) = dn_verdict (so_decision (hook_outcome k (shf_hook f) (shf_profiles f)
     (shf_agent_type f) (Option.bind (shf_identity f) hi_instance_id) t))"
  unfolding decide_at_def by (rule decide_hook_word) (rule assms)

lemma decide_at_confined:
  assumes "jobject (hf_verdict (shf_hook f))"
  shows "strictness (word (decide_at k f Confined)) \<le> strictness (word (decide_at k f t))"
  unfolding decide_at_word[OF assms] by (rule outcome_confined)

lemma may_ask_own:
  assumes "jobject (hf_verdict (shf_hook f))" "may_ask k f"
  shows "word (decide_at k f (hook_trust (shf_identity f))) = general_verdict (hf_verdict (shf_hook f))"
    and "general_verdict (hf_verdict (shf_hook f)) \<noteq> VDeny"
proof -
  have "hd_deciding_layer (decide_at k f (hook_trust (shf_identity f))) = LGeneral"
    using assms(2) by (simp add: may_ask_def)
  then show "word (decide_at k f (hook_trust (shf_identity f))) = general_verdict (hf_verdict (shf_hook f))"
    unfolding decide_at_word[OF assms(1)] by (intro outcome_general) (simp add: decide_at_def)
  show "general_verdict (hf_verdict (shf_hook f)) \<noteq> VDeny"
    using assms(2) by (auto simp: may_ask_def split: ask_host.splits)
qed

lemma decide_at_blocks:
  assumes "jobject (hf_verdict (shf_hook f))" "hd_blocks (decide_at k f t)"
  shows "word (decide_at k f t) \<noteq> VAllow"
  using assms outcome_blocks by (auto simp: decide_at_word) (auto simp: decide_at_def)

lemma settle_cases:
  fixes a :: instance_decide_answer and local :: hook_decision and facts :: settle_facts
  assumes "jobject (sf_general facts)"
  obtains (kept) "fst (settle local (HrAnswer a) facts) = local"
  | (stricter) "strictness (word local) < strictness (an_verdict a)"
      "general_verdict (sf_general facts) \<noteq> VAllow \<or> refuses_on_its_own a"
      "word (fst (settle local (HrAnswer a) facts)) = an_verdict a"
      "an_verdict a = VDeny \<Longrightarrow> hd_blocks (fst (settle local (HrAnswer a) facts))"
proof (cases "strictness (word local) < strictness (an_verdict a) \<and>
    (general_verdict (sf_general facts) \<noteq> VAllow \<or> refuses_on_its_own a)")
  case True
  then have "word (fst (settle local (HrAnswer a) facts)) = an_verdict a"
    using assms by (auto simp: settle_def settle_answer_def Let_def rank_strictness)
  moreover have "an_verdict a = VDeny \<Longrightarrow> hd_blocks (fst (settle local (HrAnswer a) facts))"
    using True by (auto simp: settle_def settle_answer_def Let_def rank_strictness)
  ultimately show thesis using stricter True by blast
next
  case False
  then show thesis
    by (intro kept) (auto simp: settle_def settle_answer_def Let_def rank_strictness)
qed


definition sample_hook :: hook_facts where
  "sample_hook = \<lparr>hf_command = ''curl http://1.2.3.4/x'', hf_verdict = jobj
     [(''recommendation'', JStr ''review''), (''signals'', JArr [jobj [(''signal'', JStr ''bare_ip_fetch''), (''score'', jnum_u64 20)]])],
     hf_blocks_today = False, hf_tainted = False, hf_line_block_review = True\<rparr>"

definition sample_shell :: shell_facts where
  "sample_shell = \<lparr>shf_hook = sample_hook, shf_state = PsOn (merge (Some sample_profiles) None),
     shf_profiles = merge (Some sample_profiles) None, shf_agent_type = Some ''claude-code'',
     shf_identity = resolve (\<lambda>_. Inr sample_record) id sample_jail (Some ''claude-code'') None,
     shf_url = instance_decide_url None\<rparr>"

definition sample_consult :: consult where
  "sample_consult url rq key = Some (200, ''answer'')"


subsection \<open>What leaves the hook\<close>

lemma request_for_valid:
  assumes "request_for i ty command v tainted ask = Some rq"
  shows "request_is_valid rq \<and> rq_command rq = command \<and> hi_instance_id i = Some (rq_instance_id rq) \<and>
    \<not> is_refusal_report rq"
proof -
  obtain inst where i: "hi_instance_id i = Some inst" using assms by (auto simp: request_for_def bind_eq_Some_conv)
  define w where "w = (case ask of AskReview \<Rightarrow> INSTANCE_DECIDE_VERSION | EveryCommand \<Rightarrow> INSTANCE_DECIDE_EVERY_COMMAND_VERSION)"
  define hv where "hv = (case ask of AskReview \<Rightarrow> VReview | EveryCommand \<Rightarrow> general_verdict v)"
  have b: "build_instance_decide_request w hv (facts_for i inst ty command v tainted) = Some rq"
    and hv: "hv \<noteq> VDeny"
    using assms by (auto simp: request_for_def i Let_def w_def hv_def instance_decide_request_v1_def
        instance_decide_request_v2_def split: ask_host.splits if_splits)
  have "request_shape rq \<and> \<not> is_refusal_report rq"
    using build_request_Some(8,9,10)[OF b] hv
    by (cases ask; cases hv) (simp_all add: request_shape_def w_def hv_def is_refusal_report_def decide_versions)
  then show ?thesis
    using build_request_valid(2)[OF b] build_request_Some(11,13)[OF b] i by (simp add: facts_for_def)
qed

lemma report_for_valid:
  assumes "report_for i ty command v tainted d = Some rq"
  shows "request_is_valid rq \<and> rq_command rq = command \<and> hi_instance_id i = Some (rq_instance_id rq) \<and>
    is_refusal_report rq \<and> rq_hook_layer rq = hd_deciding_layer d"
proof -
  obtain inst r0 where i: "hi_instance_id i = Some inst"
    and b: "build_instance_decide_request INSTANCE_DECIDE_REFUSAL_VERSION VDeny
      (facts_for i inst ty command v tainted) = Some r0"
    and rq: "rq = r0\<lparr>rq_hook_layer := hd_deciding_layer d\<rparr>"
    using assms by (auto simp: report_for_def bind_eq_Some_conv instance_decide_refusal_def)
  have "request_shape rq \<and> is_refusal_report rq"
    using build_request_Some(8,9)[OF b] by (simp add: rq request_shape_def is_refusal_report_def decide_versions)
  then show ?thesis
    using build_request_valid(1)[OF b, of "hd_deciding_layer d"] build_request_Some(11,13)[OF b] i
    by (simp add: rq facts_for_def)
qed

definition question :: "shell_facts \<Rightarrow> host_event list" where
  "question f =
     (case (shf_identity f, shf_url f) of
        (Some i, Some url) \<Rightarrow>
          (case request_for i (shf_agent_type f) (hf_command (shf_hook f)) (hf_verdict (shf_hook f))
                  (hf_tainted (shf_hook f)) (ask_for (shf_state f) (shf_agent_type f)) of
             Some rq \<Rightarrow> [Consulted url rq KeyJail] | None \<Rightarrow> [])
      | _ \<Rightarrow> [])"

definition report_of :: "shell_facts \<Rightarrow> hook_decision \<Rightarrow> host_event list" where
  "report_of f d =
     (case (shf_identity f, shf_url f) of
        (Some i, Some url) \<Rightarrow>
          (case report_for i (shf_agent_type f) (hf_command (shf_hook f)) (hf_verdict (shf_hook f))
                  (hf_tainted (shf_hook f)) d of
             Some rq \<Rightarrow> [Consulted url rq KeyJail] | None \<Rightarrow> [])
      | _ \<Rightarrow> [])"

definition may_report :: "shell_facts \<Rightarrow> hook_decision \<Rightarrow> bool" where
  "may_report f d \<longleftrightarrow> hd_blocks d \<and> word d = VDeny \<and>
     is_some_and (shf_identity f) (\<lambda>i. hi_instance_id i \<noteq> None) \<and> is_on (shf_state f) \<and> shf_url f \<noteq> None"

text \<open>The calls of a run, read off its decision.\<close>

lemma decide_with_host_events:
  "hc_events (snd (decide_with_host k from_slice f ad consult)) =
     (let d = fst (fst (decide_with_host k from_slice f ad consult)) in
      if may_ask k f then
        AskedInstalled # (if ad then question f else [])
      else if may_report f d then AskedInstalled # (if ad then report_of f d else [])
      else [])"
proof -
  let ?inside = "hook_trust (shf_identity f)"
  let ?ask = "ask_for (shf_state f) (shf_agent_type f)"
  define asked c where "asked = (may_ask k f \<and> ad)"
    and "c = (if may_ask k f then \<lparr>hc_ad_known = Some ad, hc_consulted = False, hc_events = [AskedInstalled]\<rparr>
              else no_calls)"
  have ask_eq: "should_ask (general_verdict (hf_verdict (shf_hook f)))
     (hd_deciding_layer (decide_at k f ?inside)) ?ask (shf_identity f) (shf_state f) ad (shf_url f) no_calls =
     (asked, c)" by (simp add: should_ask_may_ask asked_def c_def)
  define c2 where "c2 = snd (ask_host_about consult f ?ask asked c)"
  define d where "d = fst (fst (decide_with_host k from_slice f ad consult))"
  define rep where "rep = should_report asked (hd_blocks d \<and> word d = VDeny) (shf_identity f) (shf_state f) ad (shf_url f) c2"
  have run: "snd (decide_with_host k from_slice f ad consult) =
      (if fst rep then report_refusal consult f d (snd rep) else snd rep)"
    unfolding rep_def d_def
    by (simp add: decide_with_host_def ask_eq Let_def case_prod_beta c2_def)
  have c2: "c2 = (if asked then c\<lparr>hc_consulted := question f \<noteq> [], hc_events := hc_events c @ question f\<rparr> else c)"
    by (auto simp: c2_def ask_host_about_def question_def call_consult_def key_file_of_def asked_def c_def
        split: option.splits)
  have rep: "rep = (if \<not> asked \<and> may_report f d then call_ad ad c2 else (False, c2))"
    by (simp add: rep_def should_report_def may_report_def)
  have rr: "report_refusal consult f d (no_calls\<lparr>hc_ad_known := Some b, hc_events := [AskedInstalled]\<rparr>) =
      no_calls\<lparr>hc_ad_known := Some b, hc_consulted := report_of f d \<noteq> [],
        hc_events := AskedInstalled # report_of f d\<rparr>" for b
    by (auto simp: report_refusal_def report_of_def call_consult_def key_file_of_def no_calls_def
        split: option.splits)
  consider "may_ask k f" | "\<not> may_ask k f" "may_report f d" | "\<not> may_ask k f" "\<not> may_report f d" by blast
  then have "hc_events (snd (decide_with_host k from_slice f ad consult)) =
     (if may_ask k f then AskedInstalled # (if ad then question f else [])
      else if may_report f d then AskedInstalled # (if ad then report_of f d else []) else [])"
    unfolding run rep
  proof cases
    case 2
    then have "c2 = no_calls" by (simp add: c2 c_def asked_def)
    moreover have "call_ad b no_calls = (b, no_calls\<lparr>hc_ad_known := Some b, hc_events := [AskedInstalled]\<rparr>)" for b
      by (simp add: call_ad_def no_calls_def)
    ultimately show "hc_events (if fst (if \<not> asked \<and> may_report f d then call_ad ad c2 else (False, c2))
        then report_refusal consult f d (snd (if \<not> asked \<and> may_report f d then call_ad ad c2 else (False, c2)))
        else snd (if \<not> asked \<and> may_report f d then call_ad ad c2 else (False, c2))) =
      (if may_ask k f then AskedInstalled # (if ad then question f else [])
       else if may_report f d then AskedInstalled # (if ad then report_of f d else []) else [])"
      using 2 rr by (simp add: asked_def)
  qed (auto simp: c2 c_def asked_def call_ad_def no_calls_def)
  then show ?thesis by (simp add: d_def Let_def)
qed

text \<open>What leaves the hook about one command. Active Defence is looked for at most once, and
  only then is the host called, at most once, only where it is installed, the profiles are in
  force and an instance is named, at the given address and with the key the launcher handed in,
  with a well-formed request about this command and this instance. A question is only asked about
  a command the hook does not refuse; a report is only made of a refusal that stands, naming its
  layer; and a refusal of the hook's own is always reported.\<close>

theorem host_called_once:
  assumes "jobject (hf_verdict (shf_hook f))"
    and own_def: "own = decide_at k f (hook_trust (shf_identity f))"
    and r_def: "r = fst (fst (decide_with_host k from_slice f ad consult))"
    and ev_def: "ev = hc_events (snd (decide_with_host k from_slice f ad consult))"
    and inst_def: "inst = Option.bind (shf_identity f) hi_instance_id"
  shows "(ev = [] \<or> ev = [AskedInstalled] \<or>
      ad \<and> is_on (shf_state f) \<and> (\<exists>url rq. ev = [AskedInstalled, Consulted url rq KeyJail] \<and>
        shf_url f = Some url \<and> request_is_valid rq \<and> rq_command rq = hf_command (shf_hook f) \<and>
        inst = Some (rq_instance_id rq) \<and>
        (if is_refusal_report rq
         then hd_blocks r \<and> word r = VDeny \<and> rq_hook_layer rq = hd_deciding_layer r
         else hd_deciding_layer own = LGeneral \<and> word own \<noteq> VDeny)))
    \<and> (hd_blocks own \<and> word own = VDeny \<and> ad \<and> is_on (shf_state f) \<and> shf_url f = Some url \<and>
        is_some_and inst is_instance_id \<and> hf_command (shf_hook f) \<noteq> [] \<longrightarrow>
        (\<exists>rq. is_refusal_report rq \<and> ev = [AskedInstalled, Consulted url rq KeyJail]))"
proof (intro conjI impI)
  note events = decide_with_host_events[of k from_slice f ad consult, folded r_def ev_def, unfolded Let_def]
  show "ev = [] \<or> ev = [AskedInstalled] \<or>
      ad \<and> is_on (shf_state f) \<and> (\<exists>url rq. ev = [AskedInstalled, Consulted url rq KeyJail] \<and>
        shf_url f = Some url \<and> request_is_valid rq \<and> rq_command rq = hf_command (shf_hook f) \<and>
        inst = Some (rq_instance_id rq) \<and>
        (if is_refusal_report rq
         then hd_blocks r \<and> word r = VDeny \<and> rq_hook_layer rq = hd_deciding_layer r
         else hd_deciding_layer own = LGeneral \<and> word own \<noteq> VDeny))"
  proof (cases "may_ask k f")
    case True
    then have "hd_deciding_layer own = LGeneral" "word own \<noteq> VDeny" "is_on (shf_state f)"
      using may_ask_own[OF assms(1) True] by (simp_all add: own_def may_ask_def)
    moreover have "ad" "\<exists>i url rq. shf_identity f = Some i \<and> shf_url f = Some url \<and>
        ev = [AskedInstalled, Consulted url rq KeyJail] \<and>
        request_for i (shf_agent_type f) (hf_command (shf_hook f)) (hf_verdict (shf_hook f))
          (hf_tainted (shf_hook f)) (ask_for (shf_state f) (shf_agent_type f)) = Some rq"
      if "ev \<noteq> [AskedInstalled]"
      using events True that by (auto simp: question_def split: option.splits if_splits)
    ultimately show ?thesis using request_for_valid by (fastforce simp: inst_def)
  next
    case False
    show ?thesis
    proof (cases "may_report f r \<and> ev \<noteq> [AskedInstalled]")
      case True
      then have "ad" "\<exists>i url rq. shf_identity f = Some i \<and> shf_url f = Some url \<and>
        ev = [AskedInstalled, Consulted url rq KeyJail] \<and>
        report_for i (shf_agent_type f) (hf_command (shf_hook f)) (hf_verdict (shf_hook f))
          (hf_tainted (shf_hook f)) r = Some rq"
        using events False by (auto simp: report_of_def split: option.splits if_splits)
      moreover have "hd_blocks r" "word r = VDeny" "is_on (shf_state f)" using True by (simp_all add: may_report_def)
      ultimately show ?thesis using report_for_valid by (fastforce simp: inst_def)
    qed (use False events in \<open>auto split: if_splits\<close>)
  qed
next
  note events = decide_with_host_events[of k from_slice f ad consult, folded r_def ev_def, unfolded Let_def]
  assume h: "hd_blocks own \<and> word own = VDeny \<and> ad \<and> is_on (shf_state f) \<and> shf_url f = Some url \<and>
        is_some_and inst is_instance_id \<and> hf_command (shf_hook f) \<noteq> []"
  have no: "\<not> may_ask k f" using may_ask_own[OF assms(1)] h by (auto simp: own_def)
  have "r = own"
  proof (cases rule: decide_with_host_result[of k from_slice f ad consult])
    case (own label)
    then show ?thesis by (simp add: r_def own_def)
  qed (use no in simp)
  then have m: "may_report f r"
    using h by (auto simp: may_report_def inst_def is_some_and_iff bind_eq_Some_conv)
  obtain i n where i: "shf_identity f = Some i" "hi_instance_id i = Some n" "is_instance_id n"
    using h by (auto simp: inst_def is_some_and_iff bind_eq_Some_conv)
  then obtain rq where "report_for i (shf_agent_type f) (hf_command (shf_hook f)) (hf_verdict (shf_hook f))
      (hf_tainted (shf_hook f)) r = Some rq"
    using h by (auto simp: report_for_def instance_decide_refusal_def build_instance_decide_request_def
        facts_for_def Let_def)
  then show "\<exists>rq. is_refusal_report rq \<and> ev = [AskedInstalled, Consulted url rq KeyJail]"
    using events no m h i report_for_valid by (auto simp: report_of_def)
qed

definition refused_shell :: shell_facts where
  "refused_shell = sample_shell\<lparr>shf_hook := sample_hook\<lparr>hf_verdict := jobj [(''recommendation'', JStr ''deny'')]\<rparr>\<rparr>"

theorem host_called_once_witness:
  "\<exists>rq. is_refusal_report rq \<and>
     hc_events (snd (decide_with_host (\<lambda>_. False) (\<lambda>_. None) refused_shell True (\<lambda>_ _ _. None))) =
       [AskedInstalled, Consulted (HOST_URL @ INSTANCE_DECIDE_ROUTE) rq KeyJail]"
proof -
  let ?own = "decide_at (\<lambda>_. False) refused_shell (hook_trust (shf_identity refused_shell))"
  have own: "hd_blocks ?own" "word ?own = VDeny" by code_simp+
  have inst: "is_some_and (Option.bind (shf_identity refused_shell) hi_instance_id) is_instance_id" by code_simp
  have "jobject (hf_verdict (shf_hook refused_shell))"
    by (simp add: refused_shell_def sample_hook_def)
  moreover have "is_on (shf_state refused_shell)" "shf_url refused_shell = Some (HOST_URL @ INSTANCE_DECIDE_ROUTE)"
    "hf_command (shf_hook refused_shell) \<noteq> []"
    by (simp_all add: refused_shell_def sample_shell_def sample_hook_def instance_decide_url_def)
  ultimately show ?thesis
    using host_called_once[OF _ refl refl refl refl, of refused_shell "\<lambda>_. False" "\<lambda>_. None" True "\<lambda>_ _ _. None"
      "HOST_URL @ INSTANCE_DECIDE_ROUTE"] own inst by blast
qed

theorem settle_spec_witness:
  "hl_decided (the (snd (settle (decide_at (\<lambda>_. False) sample_shell Confined) (HrAnswer sample_answer)
     (settle_facts_of sample_shell)))) = True"
proof -
  have j: "jobject (sf_general (settle_facts_of sample_shell))"
    by (simp add: settle_facts_of_def sample_shell_def sample_hook_def)
  have r: "relaxed (word (decide_at (\<lambda>_. False) sample_shell Confined))
      (hd_deciding_layer (decide_at (\<lambda>_. False) sample_shell Confined))" by code_simp
  have a: "an_verdict sample_answer = VAllow" "an_trust sample_answer = Confined" "an_withheld sample_answer = None"
    by (simp_all add: sample_answer_def)
  show ?thesis
    using settle_spec[OF j, of "decide_at (\<lambda>_. False) sample_shell Confined" sample_answer] r a by auto
qed

end
