(* ===== verification/Alert.thy ===== *)
theory Alert
  imports Engine Json Text
begin

text \<open>
  What an inspection of an MCP message says (\<^verbatim>\<open>src/crates/agent-guard/src/mcp.rs\<close>): the alert,
  the verdict, and what a server declares about a tool. The alerts of
  the rule engine (\<^verbatim>\<open>from_atr\<close>) are built by a parameter where they occur.
\<close>

record verdict_alert =
  va_rule :: string
  va_detail :: string
  va_block :: bool
  va_category :: "string option"
  va_owasp :: "string list option"
  va_mitre :: "string list option"

record mcp_verdict =
  mv_allowed :: bool
  mv_alerts :: "verdict_alert list"

definition builtin_alert :: "string \<Rightarrow> string \<Rightarrow> bool \<Rightarrow> verdict_alert" where
  "builtin_alert rule detail blocks =
     \<lparr>va_rule = rule, va_detail = detail, va_block = blocks,
      va_category = None, va_owasp = None, va_mitre = None\<rparr>"

datatype tool_declaration = DeclUnknown | DeclReadOnly | DeclWrites

definition declaration_of :: "json \<Rightarrow> tool_declaration" where
  "declaration_of tool =
     (case Option.bind (jget tool ''annotations'') (\<lambda>a. Option.bind (jget a ''readOnlyHint'') as_bool) of
        Some True \<Rightarrow> DeclReadOnly
      | Some False \<Rightarrow> DeclWrites
      | None \<Rightarrow> DeclUnknown)"

lemma builtin_alert_simps [simp]:
  "va_rule (builtin_alert r d b) = r" "va_detail (builtin_alert r d b) = d" "va_block (builtin_alert r d b) = b"
  by (simp_all add: builtin_alert_def)

end
