(* ===== verification/TaintIndex.thy ===== *)
theory TaintIndex
  imports Alert
begin

text \<open>
  The store of \<^verbatim>\<open>src/crates/agent-guard/src/mcp_proxy/taint.rs\<close>: the tokens kept from tool
  results, their two indexes (by keyed hash, and by their first twelve bytes with the tokens of
  one start chained), and the search for a kept token in an argument. The keyed hashes are
  arbitrary functions carried by the tracker, so nothing here rests on their not colliding
  unless it says so. A slot is a natural number, with \<^verbatim>\<open>NO_SLOT\<close> as \<open>None\<close>: the store is
  bounded far below \<open>2 ^ 32\<close> slots. Texts are bytes, and so are all lengths.
\<close>

definition MIN_TOKEN_LEN :: nat where "MIN_TOKEN_LEN = 12"
definition MAX_KEPT_TOKEN_BYTES :: nat where "MAX_KEPT_TOKEN_BYTES = 256"
definition TOKEN_OVERHEAD :: nat where "TOKEN_OVERHEAD = 96"
definition MAX_SCAN_BYTES :: nat where "MAX_SCAN_BYTES = 64 * 1024"
definition MAX_RESULT_COST :: nat where
  "MAX_RESULT_COST = MAX_SCAN_BYTES + (MAX_SCAN_BYTES div (MIN_TOKEN_LEN + 1) + 1) * TOKEN_OVERHEAD"
definition RECENT_COST :: nat where "RECENT_COST = 640 * 1024"
definition OLDER_COST :: nat where "OLDER_COST = 512 * 1024"
definition OLDER_SHARE :: nat where "OLDER_SHARE = 4 * 1024"
definition DESTINATION_SHARE :: nat where "DESTINATION_SHARE = OLDER_SHARE div 2"
definition MAX_SEARCH_STEPS :: nat where "MAX_SEARCH_STEPS = 16000000"
definition CHAIN_WALK_LIMIT :: nat where "CHAIN_WALK_LIMIT = 16"
definition MAX_DECLARED_TOOLS :: nat where "MAX_DECLARED_TOOLS = 1024"
definition MAX_DECLARED_NAME_BYTES :: nat where "MAX_DECLARED_NAME_BYTES = 128"

definition LISTING_TOOLS :: "string list" where
  "LISTING_TOOLS = [''list_directory'', ''list_directory_with_sizes'', ''directory_tree'',
     ''search_files'', ''list_allowed_directories'']"

datatype provenance = Listing | Content

definition provenance_of_result :: "string option \<Rightarrow> bool \<Rightarrow> provenance" where
  "provenance_of_result tool is_error =
     (case tool of
        Some t \<Rightarrow> if \<not> is_error \<and> t \<in> set LISTING_TOOLS then Listing else Content
      | None \<Rightarrow> Content)"

record recorded =
  rc_token :: string
  rc_provenance :: provenance
  rc_result :: nat
  rc_next :: "nat option"

record start =
  st_head :: "nat option"
  st_count :: nat
  st_shortest :: nat
  st_longest :: nat

record tracker =
  tk_tokens :: "recorded list"
  tk_exact :: "u64 \<Rightarrow> nat option"
  tk_starts :: "string \<Rightarrow> start option"
  tk_hash_key :: "string \<Rightarrow> u64"
  tk_cost :: nat
  tk_result_cost :: "(nat, nat) bmap"
  tk_results :: nat
  tk_sample_key :: "string \<Rightarrow> u64"
  tk_declared :: "(string, tool_declaration) bmap"

definition tracker_new :: "(string \<Rightarrow> u64) \<Rightarrow> (string \<Rightarrow> u64) \<Rightarrow> tracker" where
  "tracker_new hash_key sample_key =
     \<lparr>tk_tokens = [], tk_exact = (\<lambda>_. None), tk_starts = (\<lambda>_. None), tk_hash_key = hash_key,
      tk_cost = 0, tk_result_cost = [], tk_results = 0, tk_sample_key = sample_key, tk_declared = []\<rparr>"

definition key_of :: "string \<Rightarrow> string" where
  "key_of bs = take MIN_TOKEN_LEN bs"

definition cost_of :: "string \<Rightarrow> nat" where
  "cost_of token = length token + TOKEN_OVERHEAD"

definition token_at :: "tracker \<Rightarrow> nat \<Rightarrow> string" where
  "token_at t slot = rc_token (tk_tokens t ! slot)"

subsection \<open>The chain of a start\<close>

text \<open>The slots chained from one, newest first. A chain only goes to older slots; the number of
  slots is fuel, and more than any chain takes.\<close>

fun chain_from :: "recorded list \<Rightarrow> nat \<Rightarrow> nat option \<Rightarrow> nat list" where
  "chain_from ts 0 slot = []"
| "chain_from ts (Suc n) None = []"
| "chain_from ts (Suc n) (Some slot) = slot # chain_from ts n (rc_next (ts ! slot))"

lemma chain_from_code [code]:
  "chain_from ts n slot =
     (if n = 0 then [] else case slot of None \<Rightarrow> [] | Some s \<Rightarrow> s # chain_from ts (n - 1) (rc_next (ts ! s)))"
  by (cases n; cases slot) auto

definition chain :: "tracker \<Rightarrow> start \<Rightarrow> nat list" where
  "chain t st = chain_from (tk_tokens t) (length (tk_tokens t)) (st_head st)"

definition find_token :: "tracker \<Rightarrow> string \<Rightarrow> nat option" where
  "find_token t token =
     (case tk_exact t (tk_hash_key t token) of
        None \<Rightarrow> None
      | Some slot \<Rightarrow>
          if token_at t slot = token then Some slot
          else case tk_starts t (key_of token) of
            None \<Rightarrow> None
          | Some st \<Rightarrow> List.find (\<lambda>s. token_at t s = token) (chain t st))"

subsection \<open>Indexing\<close>

definition index_slot :: "nat \<Rightarrow> tracker \<Rightarrow> tracker" where
  "index_slot slot t =
     (let token = token_at t slot;
          hash = tk_hash_key t token;
          len = length token;
          key = key_of token;
          exact = (if tk_exact t hash = None then (tk_exact t)(hash := Some slot) else tk_exact t);
          st = (case tk_starts t key of
                  Some st \<Rightarrow> st
                | None \<Rightarrow> \<lparr>st_head = None, st_count = 0, st_shortest = len, st_longest = len\<rparr>)
      in t\<lparr>tk_exact := exact,
           tk_tokens := (tk_tokens t)[slot := (tk_tokens t ! slot)\<lparr>rc_next := st_head st\<rparr>],
           tk_starts := (tk_starts t)(key := Some
             \<lparr>st_head = Some slot, st_count = st_count st + 1, st_shortest = min (st_shortest st) len,
              st_longest = max (st_longest st) len\<rparr>)\<rparr>)"

definition insert_token :: "string \<Rightarrow> provenance \<Rightarrow> tracker \<Rightarrow> tracker" where
  "insert_token token p t =
     (let cost = cost_of token;
          t' = t\<lparr>tk_cost := tk_cost t + cost,
                 tk_result_cost := bupsert 0 (\<lambda>c. c + cost) (tk_results t) (tk_result_cost t),
                 tk_tokens := tk_tokens t @
                   [\<lparr>rc_token = token, rc_provenance = p, rc_result = tk_results t, rc_next = None\<rparr>]\<rparr>
      in index_slot (length (tk_tokens t)) t')"

definition move_to_newest :: "nat \<Rightarrow> tracker \<Rightarrow> tracker" where
  "move_to_newest slot t =
     (let r = tk_tokens t ! slot;
          cost = cost_of (rc_token r);
          costs = (case bget (tk_result_cost t) (rc_result r) of
              None \<Rightarrow> tk_result_cost t
            | Some held \<Rightarrow>
                if held - cost = 0 then bdel (rc_result r) (tk_result_cost t)
                else bput (rc_result r) (held - cost) (tk_result_cost t))
      in t\<lparr>tk_tokens := (tk_tokens t)[slot := r\<lparr>rc_result := tk_results t\<rparr>],
           tk_result_cost := bupsert 0 (\<lambda>c. c + cost) (tk_results t) costs\<rparr>)"

definition index_and_count :: "nat \<Rightarrow> tracker \<Rightarrow> tracker" where
  "index_and_count slot t =
     (let t' = index_slot slot t;
          r = tk_tokens t' ! slot;
          cost = cost_of (rc_token r)
      in t'\<lparr>tk_cost := tk_cost t' + cost,
            tk_result_cost := bupsert 0 (\<lambda>c. c + cost) (rc_result r) (tk_result_cost t')\<rparr>)"

definition reindex :: "tracker \<Rightarrow> tracker" where
  "reindex t =
     fold index_and_count [0..<length (tk_tokens t)]
       (t\<lparr>tk_exact := (\<lambda>_. None), tk_starts := (\<lambda>_. None), tk_cost := 0, tk_result_cost := []\<rparr>)"

subsection \<open>The search\<close>

text \<open>What a search may still spend is threaded through; running out is \<open>None\<close>.\<close>

definition take_slot ::
  "tracker \<Rightarrow> (recorded \<Rightarrow> bool) \<Rightarrow> string \<Rightarrow> nat \<Rightarrow> nat option \<Rightarrow> nat option" where
  "take_slot t counts here slot best =
     (let r = tk_tokens t ! slot in
      if is_none_or best (\<lambda>f. slot < f) \<and> prefix (rc_token r) here \<and> counts r then Some slot else best)"

definition walk_chain ::
  "tracker \<Rightarrow> (recorded \<Rightarrow> bool) \<Rightarrow> string \<Rightarrow> start \<Rightarrow> nat \<times> nat option \<Rightarrow> (nat \<times> nat option) option" where
  "walk_chain t counts here st s =
     (if fst s < st_count st then None
      else Some (fst s - st_count st, fold (take_slot t counts here) (chain t st) (snd s)))"

fun hash_lengths ::
  "tracker \<Rightarrow> (recorded \<Rightarrow> bool) \<Rightarrow> string \<Rightarrow> start \<Rightarrow> nat list \<Rightarrow> nat \<times> nat option
   \<Rightarrow> (nat \<times> nat option) option" where
  "hash_lengths t counts here st [] s = Some s"
| "hash_lengths t counts here st (len # lens) s =
     (if len < st_shortest st then hash_lengths t counts here st lens s
      else case tk_exact t (tk_hash_key t (take len here)) of
        None \<Rightarrow> hash_lengths t counts here st lens s
      | Some slot \<Rightarrow>
          (let s = (fst s, if length (token_at t slot) = len then take_slot t counts here slot (snd s)
                           else snd s)
           in if prefix (token_at t slot) here then hash_lengths t counts here st lens s
              else (case walk_chain t counts here st s of
                      None \<Rightarrow> None | Some s \<Rightarrow> hash_lengths t counts here st lens s)))"

text \<open>One position whose first twelve bytes start a kept token.\<close>

definition search_here ::
  "tracker \<Rightarrow> (recorded \<Rightarrow> bool) \<Rightarrow> string \<Rightarrow> start \<Rightarrow> nat \<Rightarrow> (nat \<times> nat option) option" where
  "search_here t counts here st steps =
     (if st_count st \<le> CHAIN_WALK_LIMIT then walk_chain t counts here st (steps, None)
      else
        (let longest = min (st_longest st) (length here) in
         if st_shortest st \<le> longest then
           (if steps < 2 * longest - st_shortest st + 1 then None
            else hash_lengths t counts here st [MIN_TOKEN_LEN..<Suc longest]
                   (steps - (2 * longest - st_shortest st + 1), None))
         else Some (steps, None)))"

fun first_recorded_in ::
  "tracker \<Rightarrow> (recorded \<Rightarrow> bool) \<Rightarrow> string \<Rightarrow> nat \<Rightarrow> (nat \<times> nat option) option" where
  "first_recorded_in t counts [] steps = Some (steps, None)"
| "first_recorded_in t counts (c # s) steps =
     (if length (c # s) < MIN_TOKEN_LEN then Some (steps, None)
      else case tk_starts t (key_of (c # s)) of
        None \<Rightarrow> first_recorded_in t counts s steps
      | Some st \<Rightarrow>
          (case search_here t counts (c # s) st steps of
             None \<Rightarrow> None
           | Some (steps, Some slot) \<Rightarrow> Some (steps, Some slot)
           | Some (steps, None) \<Rightarrow> first_recorded_in t counts s steps))"

subsection \<open>What the indexes hold\<close>

text \<open>The slots below a bound whose token has a given start, newest first.\<close>

definition slots :: "tracker \<Rightarrow> string \<Rightarrow> nat \<Rightarrow> nat list" where
  "slots t k m = filter (\<lambda>i. key_of (token_at t i) = k) (List.rev [0..<m])"

fun linked :: "recorded list \<Rightarrow> nat option \<Rightarrow> nat list \<Rightarrow> bool" where
  "linked ts h [] = (h = None)"
| "linked ts h (x # xs) = (h = Some x \<and> linked ts (rc_next (ts ! x)) xs)"

definition start_ok :: "tracker \<Rightarrow> nat \<Rightarrow> string \<Rightarrow> bool" where
  "start_ok t m k \<longleftrightarrow>
     (case tk_starts t k of
        None \<Rightarrow> slots t k m = []
      | Some st \<Rightarrow> slots t k m \<noteq> [] \<and> linked (tk_tokens t) (st_head st) (slots t k m)
          \<and> st_count st = length (slots t k m)
          \<and> (\<forall>i \<in> set (slots t k m). st_shortest st \<le> length (token_at t i)
               \<and> length (token_at t i) \<le> st_longest st)
          \<and> (\<exists>i \<in> set (slots t k m). st_longest st = length (token_at t i)))"

definition indexed :: "nat \<Rightarrow> tracker \<Rightarrow> bool" where
  "indexed m t \<longleftrightarrow> m \<le> length (tk_tokens t)
     \<and> (\<forall>i < m. tk_exact t (tk_hash_key t (token_at t i)) \<noteq> None)
     \<and> (\<forall>h s. tk_exact t h = Some s \<longrightarrow> s < m \<and> tk_hash_key t (token_at t s) = h)
     \<and> (\<forall>k. start_ok t m k)"

lemma set_slots [simp]: "i \<in> set (slots t k m) \<longleftrightarrow> i < m \<and> key_of (token_at t i) = k"
  by (auto simp: slots_def)

lemma slots_Suc: "slots t k (Suc m) = (if key_of (token_at t m) = k then [m] else []) @ slots t k m"
  by (simp add: slots_def)

lemma length_slots: "length (slots t k m) \<le> m"
  unfolding slots_def using length_filter_le[of _ "List.rev [0..<m]"] by simp

lemma slots_cong: "(\<And>i. i < m \<Longrightarrow> token_at t i = token_at u i) \<Longrightarrow> slots t k m = slots u k m"
  unfolding slots_def by (rule filter_cong) auto

lemma linked_update: "x \<notin> set xs \<Longrightarrow> linked (ts[x := r]) h xs = linked ts h xs"
  by (induction xs arbitrary: h) auto

lemma linked_cong: "(\<And>i. i \<in> set xs \<Longrightarrow> rc_next (ts ! i) = rc_next (us ! i)) \<Longrightarrow> linked ts h xs = linked us h xs"
  by (induction xs arbitrary: h) auto

lemma chain_from_linked: "linked ts h xs \<Longrightarrow> length xs \<le> n \<Longrightarrow> chain_from ts n h = xs"
proof (induction xs arbitrary: h n)
  case Nil
  then show ?case by (cases n) auto
next
  case (Cons x xs)
  then show ?case by (cases n) auto
qed

lemma chain_slots:
  assumes "indexed m t" "tk_starts t k = Some st"
  shows "chain t st = slots t k m"
proof -
  have "linked (tk_tokens t) (st_head st) (slots t k m)" "m \<le> length (tk_tokens t)"
    using assms by (auto simp: indexed_def start_ok_def split: option.splits dest: spec[of _ k])
  then show ?thesis
    unfolding chain_def using length_slots[of t k m] by (intro chain_from_linked) auto
qed

lemma indexed_start:
  assumes "indexed m t" "i < m"
  obtains st where "tk_starts t (key_of (token_at t i)) = Some st"
    "st_shortest st \<le> length (token_at t i)" "length (token_at t i) \<le> st_longest st"
    "st_count st = length (slots t (key_of (token_at t i)) m)"
proof -
  let ?k = "key_of (token_at t i)"
  have ok: "start_ok t m ?k" using assms(1) by (simp add: indexed_def)
  have i: "i \<in> set (slots t ?k m)" using assms(2) by simp
  show thesis
  proof (cases "tk_starts t ?k")
    case None
    then have "slots t ?k m = []" using ok by (simp add: start_ok_def)
    then show thesis using i by (metis list.set(1) empty_iff)
  next
    case (Some st)
    then show thesis using ok i assms(2) by (intro that[of st]) (auto simp: start_ok_def)
  qed
qed

lemma indexed_start_key:
  assumes "indexed m t" "tk_starts t k = Some st"
  shows "\<exists>i < m. key_of (token_at t i) = k"
proof -
  have "start_ok t m k" using assms(1) by (simp add: indexed_def)
  then have "slots t k m \<noteq> []" using assms(2) by (simp add: start_ok_def)
  then have "hd (slots t k m) \<in> set (slots t k m)" by (rule hd_in_set)
  then show ?thesis unfolding set_slots by blast
qed

lemma indexed_empty: "tk_exact t = (\<lambda>_. None) \<Longrightarrow> tk_starts t = (\<lambda>_. None) \<Longrightarrow> indexed 0 t"
  by (simp add: indexed_def start_ok_def slots_def)

text \<open>The texts and links of the slots below the bound are all the indexes depend on.\<close>

lemma indexed_cong:
  assumes "indexed m t" "tk_exact u = tk_exact t" "tk_starts u = tk_starts t" "tk_hash_key u = tk_hash_key t"
    and "m \<le> length (tk_tokens u)"
    and same: "\<And>i. i < m \<Longrightarrow> rc_token (tk_tokens u ! i) = rc_token (tk_tokens t ! i)
      \<and> rc_next (tk_tokens u ! i) = rc_next (tk_tokens t ! i)"
  shows "indexed m u"
proof -
  have tok: "i < m \<Longrightarrow> token_at u i = token_at t i" for i using same by (simp add: token_at_def)
  then have sl: "slots u k m = slots t k m" for k by (rule slots_cong)
  have "start_ok u m k" for k
  proof -
    have "linked (tk_tokens u) h (slots t k m) = linked (tk_tokens t) h (slots t k m)" for h
      by (rule linked_cong) (simp add: same)
    moreover have "start_ok t m k" using assms(1) by (simp add: indexed_def)
    ultimately show ?thesis using tok by (auto simp: start_ok_def sl assms(3) split: option.splits)
  qed
  then show ?thesis using assms(1,2,4,5) tok by (auto simp: indexed_def)
qed

definition index_start :: "nat \<Rightarrow> tracker \<Rightarrow> start" where
  "index_start slot t =
     (case tk_starts t (key_of (token_at t slot)) of
        Some st \<Rightarrow> st
      | None \<Rightarrow> \<lparr>st_head = None, st_count = 0, st_shortest = length (token_at t slot),
                 st_longest = length (token_at t slot)\<rparr>)"

lemma index_slot_fields:
  "tk_tokens (index_slot slot t) =
     (tk_tokens t)[slot := (tk_tokens t ! slot)\<lparr>rc_next := st_head (index_start slot t)\<rparr>]"
  "tk_starts (index_slot slot t) = (tk_starts t)(key_of (token_at t slot) := Some
      \<lparr>st_head = Some slot, st_count = st_count (index_start slot t) + 1,
       st_shortest = min (st_shortest (index_start slot t)) (length (token_at t slot)),
       st_longest = max (st_longest (index_start slot t)) (length (token_at t slot))\<rparr>)"
  "tk_exact (index_slot slot t) = (if tk_exact t (tk_hash_key t (token_at t slot)) = None
      then (tk_exact t)(tk_hash_key t (token_at t slot) := Some slot) else tk_exact t)"
  by (simp_all add: index_slot_def Let_def index_start_def)

lemma index_slot_simps [simp]:
  "tk_hash_key (index_slot slot t) = tk_hash_key t" "tk_cost (index_slot slot t) = tk_cost t"
  "tk_result_cost (index_slot slot t) = tk_result_cost t" "tk_results (index_slot slot t) = tk_results t"
  "tk_sample_key (index_slot slot t) = tk_sample_key t" "tk_declared (index_slot slot t) = tk_declared t"
  "length (tk_tokens (index_slot slot t)) = length (tk_tokens t)"
  by (simp_all add: index_slot_def Let_def)

lemma nth_update_field:
  assumes "f r = f (ts ! k)"
  shows "f (ts[k := r] ! i) = f (ts ! i)"
proof (cases "k < length ts \<and> i = k")
  case True
  then show ?thesis using assms by simp
next
  case False
  then have "ts[k := r] ! i = ts ! i"
    by (cases "k < length ts") (auto simp: list_update_beyond)
  then show ?thesis by simp
qed

lemma index_slot_recorded:
  "rc_token (tk_tokens (index_slot slot t) ! i) = rc_token (tk_tokens t ! i)"
  "rc_provenance (tk_tokens (index_slot slot t) ! i) = rc_provenance (tk_tokens t ! i)"
  "rc_result (tk_tokens (index_slot slot t) ! i) = rc_result (tk_tokens t ! i)"
  unfolding index_slot_fields by (rule nth_update_field, simp)+

lemma index_slot_indexed:
  assumes ix: "indexed slot t" and slot: "slot < length (tk_tokens t)"
  shows "indexed (Suc slot) (index_slot slot t)"
proof -
  let ?u = "index_slot slot t" and ?tok = "token_at t slot"
  have tok: "token_at ?u i = token_at t i" for i by (simp add: token_at_def index_slot_recorded)
  have sl: "slots ?u k m = slots t k m" for k m by (rule slots_cong) (rule tok)
  define st where "st = index_start slot t"
  note starts = index_slot_fields(2)[of slot t, folded st_def]
  have nxt: "rc_next (tk_tokens ?u ! slot) = st_head st"
    using slot by (simp add: index_slot_fields st_def)
  have other: "linked (tk_tokens ?u) h (slots t k slot) = linked (tk_tokens t) h (slots t k slot)" for h k
    by (rule linked_cong) (simp add: index_slot_fields)
  have old: "start_ok t slot k" for k using ix by (simp add: indexed_def)
  have "start_ok ?u (Suc slot) k" for k
  proof (cases "k = key_of ?tok")
    case False
    then show ?thesis using old[of k] by (simp add: start_ok_def starts sl slots_Suc tok other split: option.splits)
  next
    case True
    have link: "linked (tk_tokens t) (st_head st) (slots t k slot)" "st_count st = length (slots t k slot)"
      and lens: "\<forall>i \<in> set (slots t k slot). st_shortest st \<le> length (token_at t i) \<and> length (token_at t i) \<le> st_longest st"
      and longest: "st_longest st = length ?tok \<or> (\<exists>i \<in> set (slots t k slot). st_longest st = length (token_at t i))"
      using old[of k] True by (auto simp: start_ok_def st_def index_start_def split: option.splits)
    moreover have "\<exists>i \<in> set (slots t k (Suc slot)). max (st_longest st) (length ?tok) = length (token_at t i)"
      using longest True by (auto simp: max_def less_Suc_eq)
    ultimately show ?thesis using True nxt
      by (auto simp: start_ok_def starts sl slots_Suc tok other)
  qed
  then show ?thesis using ix slot
    by (auto simp: indexed_def tok less_Suc_eq index_slot_fields(3))
qed

subsection \<open>Finding a token\<close>

abbreviation kept_count :: "tracker \<Rightarrow> nat" where
  "kept_count t \<equiv> length (tk_tokens t)"

definition kept_tokens :: "tracker \<Rightarrow> string list" where
  "kept_tokens t = map rc_token (tk_tokens t)"

lemma kept_tokens_nth: "i < kept_count t \<Longrightarrow> kept_tokens t ! i = token_at t i"
  by (simp add: kept_tokens_def token_at_def)

lemma token_at_inject:
  "distinct (kept_tokens t) \<Longrightarrow> i < kept_count t \<Longrightarrow> j < kept_count t \<Longrightarrow> token_at t i = token_at t j \<Longrightarrow> i = j"
  by (metis kept_tokens_def kept_tokens_nth length_map nth_eq_iff_index_eq)

text \<open>The lookup finds a token exactly when it is kept, whatever the hash makes of it.\<close>

lemma find_token_Some:
  assumes "indexed (kept_count t) t" and "find_token t tok = Some i"
  shows "i < kept_count t \<and> token_at t i = tok"
proof -
  obtain s where s: "tk_exact t (tk_hash_key t tok) = Some s"
    using assms(2) by (auto simp: find_token_def split: option.splits)
  then have "s < kept_count t" using assms(1) by (auto simp: indexed_def)
  show ?thesis
  proof (cases "token_at t s = tok")
    case True
    then show ?thesis using assms(2) s \<open>s < kept_count t\<close> by (simp add: find_token_def)
  next
    case False
    then obtain st where st: "tk_starts t (key_of tok) = Some st"
      "List.find (\<lambda>s. token_at t s = tok) (chain t st) = Some i"
      using assms(2) s by (auto simp: find_token_def split: option.splits)
    then have "i \<in> set (slots t (key_of tok) (kept_count t)) \<and> token_at t i = tok"
      unfolding chain_slots[OF assms(1) st(1)] find_Some_iff by (metis nth_mem)
    then show ?thesis by simp
  qed
qed

lemma find_token_kept:
  assumes "indexed (kept_count t) t" and "i < kept_count t"
  shows "find_token t (token_at t i) \<noteq> None"
proof -
  obtain s where s: "tk_exact t (tk_hash_key t (token_at t i)) = Some s"
    using assms by (auto simp: indexed_def)
  obtain st where st: "tk_starts t (key_of (token_at t i)) = Some st"
    using indexed_start[OF assms] by blast
  have "i \<in> set (slots t (key_of (token_at t i)) (kept_count t))" using assms(2) by simp
  then have "List.find (\<lambda>s. token_at t s = token_at t i) (chain t st) \<noteq> None"
    unfolding chain_slots[OF assms(1) st] find_None_iff by blast
  then show ?thesis using s st by (simp add: find_token_def)
qed

lemma find_token_None:
  "indexed (kept_count t) t \<Longrightarrow> find_token t tok = None \<longleftrightarrow> tok \<notin> set (kept_tokens t)"
  using find_token_Some[of t tok] find_token_kept[of t]
  by (metis in_set_conv_nth kept_tokens_def kept_tokens_nth length_map not_None_eq)

subsection \<open>The store\<close>

text \<open>What the results hold between them costs what the tokens cost.\<close>

definition result_sum :: "tracker \<Rightarrow> nat \<Rightarrow> nat" where
  "result_sum t r = (\<Sum>x \<leftarrow> filter (\<lambda>x. rc_result x = r) (tk_tokens t). cost_of (rc_token x))"

definition costs_ok :: "tracker \<Rightarrow> bool" where
  "costs_ok t \<longleftrightarrow> tk_cost t = sum_list (map cost_of (kept_tokens t))
     \<and> bmap_wf (tk_result_cost t)
     \<and> (\<forall>r. bget (tk_result_cost t) r = (if result_sum t r = 0 then None else Some (result_sum t r)))"

definition store_ok :: "tracker \<Rightarrow> bool" where
  "store_ok t \<longleftrightarrow> indexed (kept_count t) t \<and> distinct (kept_tokens t) \<and> costs_ok t
     \<and> (\<forall>x \<in> set (tk_tokens t). MIN_TOKEN_LEN \<le> length (rc_token x)
          \<and> length (rc_token x) \<le> MAX_KEPT_TOKEN_BYTES \<and> rc_result x \<le> tk_results t)"

lemma cost_of_pos [simp]: "0 < cost_of tok" "cost_of tok \<noteq> 0"
  by (simp_all add: cost_of_def TOKEN_OVERHEAD_def)

lemma bget_bupsert: "bmap_wf m \<Longrightarrow> bget (bupsert d f k m) k' =
    (if k' = k then Some (f (case bget m k of Some w \<Rightarrow> w | None \<Rightarrow> d)) else bget m k')"
  by (simp add: bupsert_def bget_bput)

lemma result_sum_le: "x \<in> set (tk_tokens t) \<Longrightarrow> cost_of (rc_token x) \<le> result_sum t (rc_result x)"
  unfolding result_sum_def by (rule member_le_sum_list) auto

lemma store_ok_new: "store_ok (tracker_new h k)"
  by (auto simp: store_ok_def tracker_new_def kept_tokens_def costs_ok_def result_sum_def bmap_wf_def bget_def
      intro: indexed_empty)

lemma kept_tokens_index [simp]: "kept_tokens (index_slot slot t) = kept_tokens t"
  by (rule nth_equalityI) (simp_all add: kept_tokens_def index_slot_recorded)

lemma map_index_slot:
  "(\<And>r x. f (r\<lparr>rc_next := x\<rparr>) = f r) \<Longrightarrow> map f (tk_tokens (index_slot slot t)) = map f (tk_tokens t)"
  unfolding index_slot_fields by (rule nth_equalityI) (simp_all add: nth_update_field)

lemma result_sum_alt:
  "result_sum t r = (\<Sum>x \<leftarrow> tk_tokens t. if rc_result x = r then cost_of (rc_token x) else 0)"
  unfolding result_sum_def by (rule sum_list_map_filter')

lemma result_sum_index [simp]: "result_sum (index_slot slot t) r = result_sum t r"
proof -
  have "map (\<lambda>x. if rc_result x = r then cost_of (rc_token x) else 0) (tk_tokens (index_slot slot t)) =
      map (\<lambda>x. if rc_result x = r then cost_of (rc_token x) else 0) (tk_tokens t)"
    by (rule map_index_slot) simp
  then show ?thesis unfolding result_sum_alt by simp
qed

lemma store_ok_results: "store_ok t \<Longrightarrow> tk_results t \<le> n \<Longrightarrow> store_ok (t\<lparr>tk_results := n\<rparr>)"
proof -
  assume t: "store_ok t" "tk_results t \<le> n"
  then have "indexed (kept_count t) (t\<lparr>tk_results := n\<rparr>)"
    by - (rule indexed_cong[of "kept_count t" t], auto simp: store_ok_def)
  then show ?thesis using t
    by (auto simp: store_ok_def kept_tokens_def costs_ok_def result_sum_def)
qed

text \<open>Keeping a new token.\<close>

lemma insert_token_ok:
  assumes "store_ok t" "tok \<notin> set (kept_tokens t)" "MIN_TOKEN_LEN \<le> length tok" "length tok \<le> MAX_KEPT_TOKEN_BYTES"
  shows "store_ok (insert_token tok p t)"
    and "kept_tokens (insert_token tok p t) = kept_tokens t @ [tok]"
    and "tk_cost (insert_token tok p t) = tk_cost t + cost_of tok"
    and "tk_results (insert_token tok p t) = tk_results t"
proof -
  define u where "u = t\<lparr>tk_cost := tk_cost t + cost_of tok,
      tk_result_cost := bupsert 0 (\<lambda>c. c + cost_of tok) (tk_results t) (tk_result_cost t),
      tk_tokens := tk_tokens t @
        [\<lparr>rc_token = tok, rc_provenance = p, rc_result = tk_results t, rc_next = None\<rparr>]\<rparr>"
  have ins: "insert_token tok p t = index_slot (kept_count t) u"
    by (simp add: insert_token_def Let_def u_def)
  have "indexed (kept_count t) u"
    using assms(1) by - (rule indexed_cong[of "kept_count t" t], auto simp: store_ok_def u_def nth_append)
  then have ix: "indexed (Suc (kept_count t)) (insert_token tok p t)"
    unfolding ins by (rule index_slot_indexed) (simp add: u_def)
  show kt: "kept_tokens (insert_token tok p t) = kept_tokens t @ [tok]"
    unfolding ins kept_tokens_index by (simp add: u_def kept_tokens_def)
  show cost: "tk_cost (insert_token tok p t) = tk_cost t + cost_of tok"
    and res: "tk_results (insert_token tok p t) = tk_results t"
    unfolding ins by (simp_all add: u_def)
  have c: "costs_ok t" using assms(1) by (simp add: store_ok_def)
  have sums: "result_sum (insert_token tok p t) r = result_sum t r + (if r = tk_results t then cost_of tok else 0)" for r
    unfolding ins result_sum_index by (simp add: u_def result_sum_def)
  have "tk_cost (insert_token tok p t) = sum_list (map cost_of (kept_tokens (insert_token tok p t)))"
    using c by (simp add: cost kt costs_ok_def)
  moreover have "tk_result_cost (insert_token tok p t) = bupsert 0 (\<lambda>c. c + cost_of tok) (tk_results t) (tk_result_cost t)"
    unfolding ins by (simp add: u_def)
  ultimately have "costs_ok (insert_token tok p t)"
    using c by (auto simp: costs_ok_def sums bget_bupsert)
  moreover have "\<forall>x \<in> set (tk_tokens (insert_token tok p t)). MIN_TOKEN_LEN \<le> length (rc_token x)
      \<and> length (rc_token x) \<le> MAX_KEPT_TOKEN_BYTES \<and> rc_result x \<le> tk_results t"
  proof
    fix x assume "x \<in> set (tk_tokens (insert_token tok p t))"
    then obtain i where i: "i < kept_count u" "x = tk_tokens (index_slot (kept_count t) u) ! i"
      unfolding ins by (auto simp: in_set_conv_nth)
    have "tk_tokens u ! i \<in> set (tk_tokens u)" using i(1) by simp
    then show "MIN_TOKEN_LEN \<le> length (rc_token x) \<and> length (rc_token x) \<le> MAX_KEPT_TOKEN_BYTES \<and> rc_result x \<le> tk_results t"
      using assms(1,3,4) i(2) by (auto simp: index_slot_recorded store_ok_def u_def)
  qed
  moreover have "kept_count (insert_token tok p t) = Suc (kept_count t)" unfolding ins by (simp add: u_def)
  ultimately show "store_ok (insert_token tok p t)"
    using assms(1,2) ix kt res by (simp add: store_ok_def)
qed

text \<open>A change of a token's provenance or result leaves the indexes alone.\<close>

lemma update_indexed:
  assumes "indexed (kept_count t) t"
    and "\<And>r. rc_token (f r) = rc_token r" "\<And>r. rc_next (f r) = rc_next r"
  shows "indexed (kept_count t) (t\<lparr>tk_tokens := (tk_tokens t)[slot := f (tk_tokens t ! slot)]\<rparr>)"
  using assms(1) by (rule indexed_cong) (simp_all add: nth_update_field assms(2,3))

lemma update_kept_tokens:
  assumes "\<And>r. rc_token (f r) = rc_token r"
  shows "kept_tokens (t\<lparr>tk_tokens := (tk_tokens t)[slot := f (tk_tokens t ! slot)]\<rparr>) = kept_tokens t"
  unfolding kept_tokens_def by (rule nth_equalityI) (simp_all add: nth_update_field assms)

definition set_content :: "nat \<Rightarrow> tracker \<Rightarrow> tracker" where
  "set_content slot t =
     t\<lparr>tk_tokens := (tk_tokens t)[slot := (tk_tokens t ! slot)\<lparr>rc_provenance := Content\<rparr>]\<rparr>"

lemma set_content_ok:
  assumes "store_ok t"
  shows "store_ok (set_content slot t)" "kept_tokens (set_content slot t) = kept_tokens t"
proof -
  have m: "map g (tk_tokens (set_content slot t)) = map g (tk_tokens t)"
    if "\<And>r p. g (r\<lparr>rc_provenance := p\<rparr>) = g r" for g :: "recorded \<Rightarrow> 'b"
    unfolding set_content_def by (rule nth_equalityI) (simp_all add: nth_update_field that)
  show kt: "kept_tokens (set_content slot t) = kept_tokens t"
    unfolding kept_tokens_def by (rule m) simp
  have "result_sum (set_content slot t) r = result_sum t r" for r
    unfolding result_sum_alt using m[of "\<lambda>x. if rc_result x = r then cost_of (rc_token x) else 0"] by simp
  then have "costs_ok (set_content slot t)"
    using assms kt by (simp add: store_ok_def costs_ok_def) (simp add: set_content_def)
  moreover have "indexed (kept_count t) (set_content slot t)"
    using assms unfolding set_content_def by - (rule update_indexed, auto simp: store_ok_def)
  moreover have "\<exists>y \<in> set (tk_tokens t). rc_token x = rc_token y \<and> rc_result x = rc_result y"
    if x: "x \<in> set (tk_tokens (set_content slot t))" for x
  proof -
    obtain i where "i < kept_count t" "x = tk_tokens (set_content slot t) ! i"
      using x unfolding in_set_conv_nth by (auto simp: set_content_def)
    then show ?thesis
      by (intro bexI[of _ "tk_tokens t ! i"]) (simp_all add: set_content_def nth_update_field)
  qed
  moreover have "kept_count (set_content slot t) = kept_count t" "tk_results (set_content slot t) = tk_results t"
    by (simp_all add: set_content_def)
  ultimately show "store_ok (set_content slot t)"
    using assms kt unfolding store_ok_def by simp (metis (no_types, lifting))
qed

text \<open>Handing a token to the newest result.\<close>

lemma result_sum_update:
  assumes "slot < kept_count t" "r = tk_tokens t ! slot" "rc_token r' = rc_token r" "rc_result r' = n"
  shows "result_sum (t\<lparr>tk_tokens := (tk_tokens t)[slot := r']\<rparr>) k
    = result_sum t k - (if rc_result r = k then cost_of (rc_token r) else 0)
      + (if n = k then cost_of (rc_token r) else 0)"
proof -
  let ?g = "\<lambda>x. if rc_result x = k then cost_of (rc_token x) else 0"
  have "(\<Sum>x \<leftarrow> (tk_tokens t)[slot := r']. ?g x) = (\<Sum>x \<leftarrow> tk_tokens t. ?g x) + ?g r' - ?g r"
    unfolding map_update using sum_list_update[of slot "map ?g (tk_tokens t)" "?g r'"] assms(1,2) by simp
  moreover have "?g r \<le> (\<Sum>x \<leftarrow> tk_tokens t. ?g x)"
  proof (rule member_le_sum_list)
    show "?g r \<in> set (map ?g (tk_tokens t))"
      unfolding set_map assms(2) by (rule imageI) (rule nth_mem[OF assms(1)])
  qed simp
  ultimately show ?thesis using assms(3,4) unfolding result_sum_alt by simp
qed

lemma move_to_newest_ok:
  assumes "store_ok t" "slot < kept_count t"
  shows "store_ok (move_to_newest slot t)" "kept_tokens (move_to_newest slot t) = kept_tokens t"
    "tk_cost (move_to_newest slot t) = tk_cost t" "tk_results (move_to_newest slot t) = tk_results t"
proof -
  define r where "r = tk_tokens t ! slot"
  define v where "v = t\<lparr>tk_tokens := (tk_tokens t)[slot := r\<lparr>rc_result := tk_results t\<rparr>]\<rparr>"
  define u where "u = move_to_newest slot t"
  define cost where "cost = cost_of (rc_token r)"
  have r: "r \<in> set (tk_tokens t)" using assms(2) by (simp add: r_def)
  have uv: "tk_tokens u = tk_tokens v" "tk_cost u = tk_cost t" "tk_results u = tk_results t"
    "tk_exact u = tk_exact t" "tk_starts u = tk_starts t" "tk_hash_key u = tk_hash_key t"
    by (simp_all add: u_def v_def move_to_newest_def Let_def r_def)
  have kt: "kept_tokens u = kept_tokens t"
    unfolding kept_tokens_def uv v_def by (rule nth_equalityI) (simp_all add: nth_update_field r_def)
  have costs: "costs_ok t" using assms(1) by (simp add: store_ok_def)
  have le: "cost \<le> result_sum t (rc_result r)" unfolding cost_def by (rule result_sum_le[OF r])
  have pos: "0 < cost" by (simp add: cost_def)
  have held: "bget (tk_result_cost t) (rc_result r) = Some (result_sum t (rc_result r))"
    using costs le pos by (simp add: costs_ok_def)
  define m where "m = (if result_sum t (rc_result r) - cost = 0 then bdel (rc_result r) (tk_result_cost t)
      else bput (rc_result r) (result_sum t (rc_result r) - cost) (tk_result_cost t))"
  have wf: "bmap_wf m" using costs by (simp add: m_def costs_ok_def bmap_wf_bdel bmap_wf_bput)
  have rcost: "tk_result_cost u = bupsert 0 (\<lambda>c. c + cost) (tk_results t) m"
    using held by (simp add: u_def move_to_newest_def Let_def r_def[symmetric] cost_def m_def)
  have get_m: "bget m k = (let s = result_sum t k - (if rc_result r = k then cost else 0)
      in if s = 0 then None else Some s)" for k
    using costs by (auto simp: m_def costs_ok_def bget_bdel bget_bput Let_def)
  have sums: "result_sum u k = result_sum t k - (if rc_result r = k then cost else 0)
      + (if tk_results t = k then cost else 0)" for k
  proof -
    have "result_sum u k = result_sum v k" unfolding result_sum_alt uv ..
    then show ?thesis unfolding v_def cost_def
      using result_sum_update[OF assms(2) r_def, of "r\<lparr>rc_result := tk_results t\<rparr>" "tk_results t" k] by simp
  qed
  have "costs_ok u"
    unfolding costs_ok_def kt uv rcost
  proof (intro conjI allI)
    show "tk_cost t = sum_list (map cost_of (kept_tokens t))" using costs by (simp add: costs_ok_def)
    show "bmap_wf (bupsert 0 (\<lambda>c. c + cost) (tk_results t) m)" using wf by simp
    show "bget (bupsert 0 (\<lambda>c. c + cost) (tk_results t) m) k
        = (if result_sum u k = 0 then None else Some (result_sum u k))" for k
      unfolding sums bget_bupsert[OF wf] get_m using pos by (simp add: Let_def split: option.splits)
  qed
  moreover have "indexed (kept_count t) u"
  proof (rule indexed_cong[of "kept_count t" t])
    show "indexed (kept_count t) t" using assms(1) by (simp add: store_ok_def)
  qed (simp_all add: uv v_def nth_update_field r_def)
  moreover have "\<forall>x \<in> set (tk_tokens u). MIN_TOKEN_LEN \<le> length (rc_token x)
      \<and> length (rc_token x) \<le> MAX_KEPT_TOKEN_BYTES \<and> rc_result x \<le> tk_results t"
    using assms(1) r unfolding uv v_def by (auto simp: store_ok_def dest!: set_update_subset_insert[THEN subsetD])
  moreover have "kept_count u = kept_count t" by (simp add: uv v_def)
  ultimately show "store_ok (move_to_newest slot t)"
    using assms(1) kt unfolding u_def[symmetric] by (simp add: store_ok_def uv)
  show "kept_tokens (move_to_newest slot t) = kept_tokens t" "tk_cost (move_to_newest slot t) = tk_cost t"
    "tk_results (move_to_newest slot t) = tk_results t"
    using kt uv by (simp_all add: u_def)
qed

subsection \<open>Rebuilding the indexes\<close>

lemma index_and_count_simps [simp]:
  "tk_hash_key (index_and_count slot t) = tk_hash_key t" "tk_results (index_and_count slot t) = tk_results t"
  "tk_sample_key (index_and_count slot t) = tk_sample_key t" "tk_declared (index_and_count slot t) = tk_declared t"
  "tk_tokens (index_and_count slot t) = tk_tokens (index_slot slot t)"
  "tk_exact (index_and_count slot t) = tk_exact (index_slot slot t)"
  "tk_starts (index_and_count slot t) = tk_starts (index_slot slot t)"
  by (simp_all add: index_and_count_def Let_def)

lemma index_and_count_indexed:
  "indexed slot t \<Longrightarrow> slot < kept_count t \<Longrightarrow> indexed (Suc slot) (index_and_count slot t)"
  by (rule indexed_cong[OF index_slot_indexed]) simp_all

definition same_tokens :: "tracker \<Rightarrow> tracker \<Rightarrow> bool" where
  "same_tokens t u \<longleftrightarrow> map (\<lambda>x. (rc_token x, rc_provenance x, rc_result x)) (tk_tokens t)
     = map (\<lambda>x. (rc_token x, rc_provenance x, rc_result x)) (tk_tokens u)
     \<and> tk_results t = tk_results u \<and> tk_hash_key t = tk_hash_key u \<and> tk_sample_key t = tk_sample_key u
     \<and> tk_declared t = tk_declared u"

lemma same_tokens_map:
  assumes "same_tokens t u" "\<And>x y. rc_token x = rc_token y \<Longrightarrow> rc_provenance x = rc_provenance y
      \<Longrightarrow> rc_result x = rc_result y \<Longrightarrow> g x = g y"
  shows "map g (tk_tokens t) = map g (tk_tokens u)"
proof (rule nth_equalityI)
  show len: "length (map g (tk_tokens t)) = length (map g (tk_tokens u))"
    using assms(1) by (auto simp: same_tokens_def dest: map_eq_imp_length_eq)
  fix i assume "i < length (map g (tk_tokens t))"
  then have i: "i < length (tk_tokens t)" "i < length (tk_tokens u)" using len by simp_all
  have "map (\<lambda>x. (rc_token x, rc_provenance x, rc_result x)) (tk_tokens t) ! i
      = map (\<lambda>x. (rc_token x, rc_provenance x, rc_result x)) (tk_tokens u) ! i"
    using assms(1) by (simp add: same_tokens_def)
  then have "g (tk_tokens t ! i) = g (tk_tokens u ! i)" using i by (intro assms(2)) simp_all
  then show "map g (tk_tokens t) ! i = map g (tk_tokens u) ! i" using i by simp
qed

lemma same_tokens_step: "same_tokens t u \<Longrightarrow> same_tokens (index_and_count slot t) u"
  using map_index_slot[of "\<lambda>x. (rc_token x, rc_provenance x, rc_result x)" slot t] by (simp add: same_tokens_def)

definition partial_sum :: "tracker \<Rightarrow> nat \<Rightarrow> nat \<Rightarrow> nat" where
  "partial_sum t m r = (\<Sum>x \<leftarrow> take m (tk_tokens t). if rc_result x = r then cost_of (rc_token x) else 0)"

lemma reindex_prefix:
  assumes "m \<le> kept_count t" "u = fold index_and_count [0..<m]
      (t\<lparr>tk_exact := (\<lambda>_. None), tk_starts := (\<lambda>_. None), tk_cost := 0, tk_result_cost := []\<rparr>)"
  shows "indexed m u \<and> same_tokens u t \<and> tk_cost u = sum_list (map cost_of (take m (kept_tokens t)))
    \<and> bmap_wf (tk_result_cost u)
    \<and> (\<forall>r. bget (tk_result_cost u) r = (if partial_sum t m r = 0 then None else Some (partial_sum t m r)))"
  using assms
proof (induction m arbitrary: u)
  case 0
  then show ?case by (auto simp: same_tokens_def partial_sum_def bmap_wf_def bget_def intro: indexed_empty)
next
  case (Suc m)
  define w where "w = fold index_and_count [0..<m]
      (t\<lparr>tk_exact := (\<lambda>_. None), tk_starts := (\<lambda>_. None), tk_cost := 0, tk_result_cost := []\<rparr>)"
  have u: "u = index_and_count m w" using Suc.prems(2) by (simp add: w_def)
  have IH: "indexed m w" "same_tokens w t" "tk_cost w = sum_list (map cost_of (take m (kept_tokens t)))"
    "bmap_wf (tk_result_cost w)"
    "\<And>r. bget (tk_result_cost w) r = (if partial_sum t m r = 0 then None else Some (partial_sum t m r))"
    using Suc.IH[of w] Suc.prems(1) by (simp_all add: w_def)
  have len: "kept_count w = kept_count t" using same_tokens_map[OF IH(2), of "\<lambda>_. ()"] map_eq_imp_length_eq by blast
  define x where "x = tk_tokens t ! m"
  have "map (\<lambda>x. (rc_token x, rc_result x)) (tk_tokens u) = map (\<lambda>x. (rc_token x, rc_result x)) (tk_tokens t)"
    unfolding u by (rule same_tokens_map[OF same_tokens_step[OF IH(2)]]) simp
  moreover have "m < kept_count u" "m < kept_count t" using Suc.prems(1) len by (simp_all add: u)
  ultimately have x: "rc_token (tk_tokens (index_slot m w) ! m) = rc_token x" "rc_result (tk_tokens (index_slot m w) ! m) = rc_result x"
    unfolding u x_def by (auto simp: list_eq_iff_nth_eq)
  have "tk_cost u = tk_cost w + cost_of (rc_token x)" "tk_result_cost u
      = bupsert 0 (\<lambda>c. c + cost_of (rc_token x)) (rc_result x) (tk_result_cost w)"
    unfolding u index_and_count_def Let_def by (simp_all add: x)
  moreover have "partial_sum t (Suc m) r = partial_sum t m r + (if rc_result x = r then cost_of (rc_token x) else 0)" for r
    using Suc.prems(1) by (simp add: partial_sum_def take_Suc_conv_app_nth x_def)
  moreover have "take (Suc m) (kept_tokens t) = take m (kept_tokens t) @ [rc_token x]"
    using Suc.prems(1) by (simp add: kept_tokens_def take_Suc_conv_app_nth x_def)
  moreover have "indexed (Suc m) u" unfolding u by (rule index_and_count_indexed) (use IH(1) Suc.prems(1) len in auto)
  ultimately show ?case
    using IH(3,4,5) same_tokens_step[OF IH(2)] u by (auto simp: bget_bupsert)
qed

lemma reindex_ok:
  assumes "distinct (kept_tokens t)" "\<forall>x \<in> set (tk_tokens t). MIN_TOKEN_LEN \<le> length (rc_token x)
      \<and> length (rc_token x) \<le> MAX_KEPT_TOKEN_BYTES \<and> rc_result x \<le> tk_results t"
  shows "store_ok (reindex t)" "same_tokens (reindex t) t"
proof -
  define u where "u = reindex t"
  have pre: "indexed (kept_count t) u \<and> same_tokens u t \<and> tk_cost u = sum_list (map cost_of (take (kept_count t) (kept_tokens t)))
    \<and> bmap_wf (tk_result_cost u)
    \<and> (\<forall>r. bget (tk_result_cost u) r = (if partial_sum t (kept_count t) r = 0 then None else Some (partial_sum t (kept_count t) r)))"
    by (rule reindex_prefix) (simp_all add: u_def reindex_def)
  then show same: "same_tokens (reindex t) t" by (simp add: u_def)
  have kt: "kept_tokens u = kept_tokens t" "kept_count u = kept_count t"
    unfolding kept_tokens_def using same_tokens_map[of u t rc_token] same_tokens_map[of u t "\<lambda>_. ()"] pre
    by (auto dest: map_eq_imp_length_eq)
  have "result_sum u r = partial_sum t (kept_count t) r" for r
    unfolding result_sum_alt partial_sum_def using pre by (auto intro!: arg_cong[of _ _ sum_list] same_tokens_map)
  moreover have "\<forall>x \<in> set (tk_tokens u). MIN_TOKEN_LEN \<le> length (rc_token x)
      \<and> length (rc_token x) \<le> MAX_KEPT_TOKEN_BYTES \<and> rc_result x \<le> tk_results u"
  proof -
    let ?P = "\<lambda>x. MIN_TOKEN_LEN \<le> length (rc_token x) \<and> length (rc_token x) \<le> MAX_KEPT_TOKEN_BYTES \<and> rc_result x \<le> tk_results t"
    have "map ?P (tk_tokens u) = map ?P (tk_tokens t)" using pre by (intro same_tokens_map) auto
    then have same: "?P ` set (tk_tokens u) = ?P ` set (tk_tokens t)" by (metis list.set_map)
    have "?P x" if "x \<in> set (tk_tokens u)" for x
    proof -
      have "?P x \<in> ?P ` set (tk_tokens t)" unfolding same[symmetric] using that by (rule imageI)
      then show ?thesis using assms(2) by (elim imageE) simp
    qed
    moreover have "tk_results u = tk_results t" using pre by (simp add: same_tokens_def)
    ultimately show ?thesis by simp
  qed
  moreover have "kept_count t = length (kept_tokens t)" by (simp add: kept_tokens_def)
  ultimately show "store_ok (reindex t)"
    using pre assms(1) kt unfolding u_def[symmetric] by (simp add: store_ok_def costs_ok_def)
qed

end
