(* ===== verification/TaintSearch.thy ===== *)
theory TaintSearch
  imports TaintIndex
begin

text \<open>
  What the search of \<^verbatim>\<open>first_recorded_in\<close> (\<^verbatim>\<open>taint.rs\<close>) finds, against a plain search that
  compares every kept token at every position. With a hash that does not collide on the kept
  tokens the two agree. With any hash, a search that accepts every token finds one exactly when
  one occurs. A lemma at the end shows what a collision can hide from a search that does not.
\<close>

text \<open>The plain search: the earliest position where an accepted token occurs, and the oldest
  slot of those that occur there.\<close>

definition good :: "tracker \<Rightarrow> (recorded \<Rightarrow> bool) \<Rightarrow> string \<Rightarrow> nat \<Rightarrow> bool" where
  "good t counts here i \<longleftrightarrow> i < kept_count t \<and> prefix (token_at t i) here \<and> counts (tk_tokens t ! i)"

definition plain_here :: "tracker \<Rightarrow> (recorded \<Rightarrow> bool) \<Rightarrow> string \<Rightarrow> nat option" where
  "plain_here t counts here = List.find (good t counts here) [0..<kept_count t]"

fun plain_search :: "tracker \<Rightarrow> (recorded \<Rightarrow> bool) \<Rightarrow> string \<Rightarrow> nat option" where
  "plain_search t counts [] = None"
| "plain_search t counts (c # s) =
     (case plain_here t counts (c # s) of Some i \<Rightarrow> Some i | None \<Rightarrow> plain_search t counts s)"

text \<open>The least slot of a set.\<close>

definition least :: "nat set \<Rightarrow> nat option" where
  "least A = (if A = {} then None else Some (Min A))"

lemma least_empty [simp]: "least {} = None" "least A = None \<longleftrightarrow> A = {}"
  by (simp_all add: least_def)

lemma least_insert:
  "finite A \<Longrightarrow> least (insert i A) = (if is_none_or (least A) (\<lambda>f. i < f) then Some i else least A)"
proof (cases "A = {}")
  case False
  moreover assume "finite A"
  ultimately have "least (insert i A) = Some (min i (Min A))" "least A = Some (Min A)"
    by (simp_all add: least_def)
  then show ?thesis by (simp add: min_def)
qed (simp add: least_def)

lemma take_slot_least:
  assumes "finite A" "slot < kept_count t"
  shows "take_slot t counts here slot (least A) = least (if good t counts here slot then insert slot A else A)"
proof -
  have "least (insert slot A) = least A" if "\<not> is_none_or (least A) (\<lambda>f. slot < f)"
    using that by (simp add: least_insert[OF assms(1)])
  then show ?thesis using assms by (auto simp: take_slot_def good_def Let_def token_at_def least_insert)
qed

lemma fold_take_least:
  assumes "finite A" "\<forall>i \<in> set xs. i < kept_count t"
  shows "fold (take_slot t counts here) xs (least A) = least (A \<union> {i \<in> set xs. good t counts here i})"
  using assms
proof (induction xs arbitrary: A)
  case (Cons x xs)
  let ?B = "if good t counts here x then insert x A else A"
  have "fold (take_slot t counts here) (x # xs) (least A) = fold (take_slot t counts here) xs (least ?B)"
    using Cons.prems by (simp add: take_slot_least)
  also have "\<dots> = least (?B \<union> {i \<in> set xs. good t counts here i})"
    by (rule Cons.IH) (use Cons.prems in auto)
  also have "?B \<union> {i \<in> set xs. good t counts here i} = A \<union> {i \<in> set (x # xs). good t counts here i}"
    by auto
  finally show ?case .
qed simp

lemma plain_here_least: "plain_here t counts here = least {i. good t counts here i}"
proof (cases "plain_here t counts here")
  case None
  then have "{i. good t counts here i} = {}" by (auto simp: plain_here_def find_None_iff good_def)
  then show ?thesis using None by simp
next
  case (Some i)
  then have i: "good t counts here i" "\<forall>j < i. \<not> good t counts here j"
    unfolding plain_here_def find_Some_iff by auto
  have fin: "finite {i. good t counts here i}" by (rule finite_subset[of _ "{..<kept_count t}"]) (auto simp: good_def)
  have "Min {i. good t counts here i} = i"
    by (rule Min_eqI[OF fin]) (use i in \<open>auto simp: not_less[symmetric]\<close>)
  then show ?thesis using Some i(1) by (auto simp: least_def)
qed

lemma finite_good [simp]: "finite {i. good t counts here i}" "finite {i \<in> A. good t counts here i}"
  by (rule finite_subset[of _ "{..<kept_count t}"], auto simp: good_def)+

lemma key_of_prefix:
  "prefix p here \<Longrightarrow> MIN_TOKEN_LEN \<le> length p \<Longrightarrow> key_of p = key_of here"
  by (auto simp: prefix_def key_of_def)

text \<open>What the walk over the lengths adds at one of them.\<close>

definition found_at :: "tracker \<Rightarrow> (recorded \<Rightarrow> bool) \<Rightarrow> string \<Rightarrow> start \<Rightarrow> nat \<Rightarrow> nat set" where
  "found_at t counts here st len =
     (if len < st_shortest st then {}
      else case tk_exact t (tk_hash_key t (take len here)) of
        None \<Rightarrow> {}
      | Some slot \<Rightarrow> {i. i = slot \<and> length (token_at t slot) = len \<and> good t counts here slot}
          \<union> (if prefix (token_at t slot) here then {} else {i \<in> set (chain t st). good t counts here i}))"

lemma hash_lengths_least:
  assumes ix: "indexed (kept_count t) t" and st: "tk_starts t k = Some st"
  shows "finite A \<Longrightarrow> hash_lengths t counts here st lens (n, least A) = Some (m, b)
    \<Longrightarrow> b = least (A \<union> (\<Union>len \<in> set lens. found_at t counts here st len))"
proof (induction lens arbitrary: A n)
  case (Cons len lens)
  have fin: "finite (A \<union> found_at t counts here st len)"
    using Cons.prems(1) by (auto simp: found_at_def split: option.splits)
  have kept: "\<forall>i \<in> set (chain t st). i < kept_count t" unfolding chain_slots[OF ix st] by simp
  have "\<exists>n. hash_lengths t counts here st lens (n, least (A \<union> found_at t counts here st len)) = Some (m, b)"
  proof (cases "len < st_shortest st")
    case True
    then show ?thesis using Cons.prems(2) by (auto simp: found_at_def)
  next
    case False
    show ?thesis
    proof (cases "tk_exact t (tk_hash_key t (take len here))")
      case None
      then show ?thesis using Cons.prems(2) False by (auto simp: found_at_def)
    next
      case (Some slot)
      then have slot: "slot < kept_count t" using ix by (auto simp: indexed_def)
      define B where "B = A \<union> {i. i = slot \<and> length (token_at t slot) = len \<and> good t counts here slot}"
      have taken: "(if length (token_at t slot) = len then take_slot t counts here slot (least A) else least A) = least B"
        using take_slot_least[OF Cons.prems(1) slot, of counts here] by (auto simp: B_def intro: arg_cong[of _ _ least])
      have "finite B" using Cons.prems(1) by (simp add: B_def)
      have step: "hash_lengths t counts here st (len # lens) (n, least A)
          = (if prefix (token_at t slot) here then hash_lengths t counts here st lens (n, least B)
             else case walk_chain t counts here st (n, least B) of
               None \<Rightarrow> None | Some s \<Rightarrow> hash_lengths t counts here st lens s)"
        unfolding taken[symmetric] using False Some by (simp add: Let_def)
      show ?thesis
      proof (cases "prefix (token_at t slot) here")
        case True
        then have "A \<union> found_at t counts here st len = B" using False Some by (simp add: found_at_def B_def)
        then show ?thesis using Cons.prems(2) True unfolding step by auto
      next
        case noprefix: False
        then have "A \<union> found_at t counts here st len = B \<union> {i \<in> set (chain t st). good t counts here i}"
          using False Some by (auto simp: found_at_def B_def)
        then show ?thesis using Cons.prems(2) noprefix fold_take_least[OF \<open>finite B\<close> kept, of counts here]
          unfolding step by (auto simp: walk_chain_def split: if_splits)
      qed
    qed
  qed
  then obtain n' where "hash_lengths t counts here st lens (n', least (A \<union> found_at t counts here st len)) = Some (m, b)" ..
  from Cons.IH[OF fin this] show ?case by (simp add: Un_assoc)
qed simp

lemma found_at_good: "i \<in> found_at t counts here st len \<Longrightarrow> good t counts here i"
  by (auto simp: found_at_def split: if_splits option.splits)

lemma store_ok_token:
  assumes "store_ok t" "i < kept_count t"
  shows "MIN_TOKEN_LEN \<le> length (token_at t i)" "length (token_at t i) \<le> MAX_KEPT_TOKEN_BYTES"
  using assms by (auto simp: store_ok_def token_at_def)

text \<open>A token that occurs here is looked up at its own length.\<close>

lemma good_looked_up:
  assumes ok: "store_ok t" and st: "tk_starts t (key_of here) = Some st" and i: "i < kept_count t" "prefix (token_at t i) here"
  obtains slot where "length (token_at t i) \<in> {MIN_TOKEN_LEN..<Suc (min (st_longest st) (length here))}"
    "st_shortest st \<le> length (token_at t i)" "take (length (token_at t i)) here = token_at t i"
    "tk_exact t (tk_hash_key t (token_at t i)) = Some slot" "slot < kept_count t"
    "tk_hash_key t (token_at t slot) = tk_hash_key t (token_at t i)" "i \<in> set (chain t st)"
proof -
  have ix: "indexed (kept_count t) t" using ok by (simp add: store_ok_def)
  have key: "key_of (token_at t i) = key_of here"
    by (rule key_of_prefix[OF i(2) store_ok_token(1)[OF ok i(1)]])
  obtain st' where "tk_starts t (key_of (token_at t i)) = Some st'" "st_shortest st' \<le> length (token_at t i)"
    "length (token_at t i) \<le> st_longest st'"
    using indexed_start[OF ix i(1)] by metis
  then have lens: "st_shortest st \<le> length (token_at t i)" "length (token_at t i) \<le> st_longest st"
    using st key by simp_all
  obtain slot where slot: "tk_exact t (tk_hash_key t (token_at t i)) = Some slot"
    using ix i(1) by (auto simp: indexed_def)
  show thesis
  proof (rule that[OF _ lens(1) _ slot])
    show "length (token_at t i) \<in> {MIN_TOKEN_LEN..<Suc (min (st_longest st) (length here))}"
      using lens(2) store_ok_token(1)[OF ok i(1)] i(2) by (auto dest: prefix_length_le)
    show "take (length (token_at t i)) here = token_at t i" using i(2) by (auto simp: prefix_def)
    show "slot < kept_count t" "tk_hash_key t (token_at t slot) = tk_hash_key t (token_at t i)"
      using slot ix by (auto simp: indexed_def)
    show "i \<in> set (chain t st)" unfolding chain_slots[OF ix st] using i(1) key by simp
  qed
qed

abbreviation found_here :: "tracker \<Rightarrow> (recorded \<Rightarrow> bool) \<Rightarrow> string \<Rightarrow> start \<Rightarrow> nat set" where
  "found_here t counts here st \<equiv>
     (\<Union>len \<in> {MIN_TOKEN_LEN..<Suc (min (st_longest st) (length here))}. found_at t counts here st len)"

text \<open>With no collision between kept tokens, the lengths find all that occurs here.\<close>

lemma found_here_exact:
  assumes ok: "store_ok t" and st: "tk_starts t (key_of here) = Some st"
    and inj: "inj_on (tk_hash_key t) (set (kept_tokens t))"
  shows "found_here t counts here st = {i. good t counts here i}"
proof -
  have "i \<in> found_here t counts here st" if "good t counts here i" for i
  proof -
    have i: "i < kept_count t" "prefix (token_at t i) here" using that by (auto simp: good_def)
    obtain slot where s: "length (token_at t i) \<in> {MIN_TOKEN_LEN..<Suc (min (st_longest st) (length here))}"
      "st_shortest st \<le> length (token_at t i)" "take (length (token_at t i)) here = token_at t i"
      "tk_exact t (tk_hash_key t (token_at t i)) = Some slot" "slot < kept_count t"
      "tk_hash_key t (token_at t slot) = tk_hash_key t (token_at t i)"
      using good_looked_up[OF ok st i] by metis
    have "token_at t slot = token_at t i"
      using inj_onD[OF inj s(6)] s(5) i(1) by (metis kept_tokens_def kept_tokens_nth length_map nth_mem)
    then have "slot = i" using ok s(5) i(1) by (intro token_at_inject[of t]) (auto simp: store_ok_def)
    then have "i \<in> found_at t counts here st (length (token_at t i))"
      using s that by (simp add: found_at_def)
    then show ?thesis using s(1) by blast
  qed
  then show ?thesis using found_at_good by blast
qed

text \<open>Whatever the hash, they find one if one occurs, when every token that does is accepted.\<close>

lemma found_here_some:
  assumes ok: "store_ok t" and st: "tk_starts t (key_of here) = Some st"
    and all: "\<And>i. i < kept_count t \<Longrightarrow> prefix (token_at t i) here \<Longrightarrow> counts (tk_tokens t ! i)"
  shows "found_here t counts here st = {} \<longleftrightarrow> {i. good t counts here i} = {}"
proof -
  have "found_here t counts here st \<noteq> {}" if "good t counts here i" for i
  proof -
    have i: "i < kept_count t" "prefix (token_at t i) here" using that by (auto simp: good_def)
    obtain slot where s: "length (token_at t i) \<in> {MIN_TOKEN_LEN..<Suc (min (st_longest st) (length here))}"
      "st_shortest st \<le> length (token_at t i)" "take (length (token_at t i)) here = token_at t i"
      "tk_exact t (tk_hash_key t (token_at t i)) = Some slot" "slot < kept_count t"
      "tk_hash_key t (token_at t slot) = tk_hash_key t (token_at t i)" "i \<in> set (chain t st)"
      using good_looked_up[OF ok st i] by metis
    show ?thesis
    proof (cases "prefix (token_at t slot) here")
      case False
      then have "i \<in> found_at t counts here st (length (token_at t i))"
        using s that by (simp add: found_at_def)
      then show ?thesis using s(1) by blast
    next
      case True
      then have g: "good t counts here slot" using s(5) all by (simp add: good_def)
      obtain slot' where s': "length (token_at t slot) \<in> {MIN_TOKEN_LEN..<Suc (min (st_longest st) (length here))}"
        "st_shortest st \<le> length (token_at t slot)" "take (length (token_at t slot)) here = token_at t slot"
        "tk_exact t (tk_hash_key t (token_at t slot)) = Some slot'"
        using good_looked_up[OF ok st s(5) True] by metis
      then have "slot \<in> found_at t counts here st (length (token_at t slot))"
        using g s(4,6) by (simp add: found_at_def)
      then show ?thesis using s'(1) by blast
    qed
  qed
  then show ?thesis using found_at_good by blast
qed

lemma search_here_least:
  assumes ok: "store_ok t" and st: "tk_starts t (key_of here) = Some st" and len: "MIN_TOKEN_LEN \<le> length here"
    and run: "search_here t counts here st n = Some (m, b)"
  shows "b = least {i. good t counts here i} \<or> b = least (found_here t counts here st)"
proof -
  have ix: "indexed (kept_count t) t" using ok by (simp add: store_ok_def)
  show ?thesis
  proof (cases "st_count st \<le> CHAIN_WALK_LIMIT")
    case True
    have "good t counts here i \<Longrightarrow> i \<in> set (chain t st)" for i
      using good_looked_up[OF ok st] by (metis good_def)
    then have "{i \<in> set (chain t st). good t counts here i} = {i. good t counts here i}" by blast
    moreover have "\<forall>i \<in> set (chain t st). i < kept_count t" unfolding chain_slots[OF ix st] by simp
    ultimately have "fold (take_slot t counts here) (chain t st) (least {}) = least {i. good t counts here i}"
      using fold_take_least[of "{}" "chain t st" t counts here] by simp
    then show ?thesis using run True by (simp add: search_here_def walk_chain_def split: if_splits)
  next
    case False
    show ?thesis
    proof (cases "st_shortest st \<le> min (st_longest st) (length here)")
      case True
      then obtain n' where "hash_lengths t counts here st [MIN_TOKEN_LEN..<Suc (min (st_longest st) (length here))]
          (n', least {}) = Some (m, b)"
        using run False by (auto simp: search_here_def Let_def simp del: hash_lengths.simps split: if_splits)
      from hash_lengths_least[OF ix st _ this] show ?thesis
        by (simp only: set_upt Un_empty_left finite.emptyI simp_thms)
    next
      case short: False
      have "\<not> good t counts here i" for i
      proof
        assume "good t counts here i"
        then have i: "i < kept_count t" "prefix (token_at t i) here" by (auto simp: good_def)
        show False using good_looked_up[OF ok st i] short
          by (metis atLeastLessThan_iff le_trans less_Suc_eq_le)
      qed
      moreover have "b = None" using run False short by (auto simp: search_here_def Let_def split: if_splits)
      ultimately show ?thesis by simp
    qed
  qed
qed

lemma no_start_no_good:
  assumes "store_ok t" "tk_starts t (key_of here) = None"
  shows "{i. good t counts here i} = {}"
proof -
  have "\<not> good t counts here i" for i
  proof
    assume "good t counts here i"
    then have i: "i < kept_count t" "prefix (token_at t i) here" by (auto simp: good_def)
    have "key_of (token_at t i) = key_of here"
      by (rule key_of_prefix[OF i(2) store_ok_token(1)[OF assms(1) i(1)]])
    moreover have "indexed (kept_count t) t" using assms(1) by (simp add: store_ok_def)
    ultimately show False using indexed_start[of "kept_count t" t i] i(1) assms(2) by (metis option.distinct(1))
  qed
  then show ?thesis by simp
qed

lemma short_no_good:
  assumes "store_ok t" "length here < MIN_TOKEN_LEN"
  shows "{i. good t counts here i} = {}"
  using assms store_ok_token(1)[OF assms(1)]
  by (auto simp: good_def) (meson le_less_trans le_trans not_le prefix_length_le)

lemma plain_short: "store_ok t \<Longrightarrow> length s < MIN_TOKEN_LEN \<Longrightarrow> plain_search t counts s = None"
  by (induction s) (simp_all add: plain_here_least short_no_good)


text \<open>The whole search against the plain one.\<close>

lemma first_recorded_in_plain:
  assumes ok: "store_ok t"
    and here: "\<And>here st. tk_starts t (key_of here) = Some st \<Longrightarrow> suffix here s
        \<Longrightarrow> R (least (found_here t counts here st)) (least {i. good t counts here i})"
    and refl: "\<And>x. R x x" and None: "\<And>x y. R x y \<Longrightarrow> x = None \<longleftrightarrow> y = None"
  shows "first_recorded_in t counts s n = Some (m, r) \<Longrightarrow> R r (plain_search t counts s)"
  using here
proof (induction s arbitrary: n)
  case Nil
  then show ?case using refl by simp
next
  case (Cons c s)
  let ?here = "c # s"
  have IH: "first_recorded_in t counts s n = Some (m, r) \<Longrightarrow> R r (plain_search t counts s)" for n
    by (rule Cons.IH) (assumption, rule Cons.prems(2), assumption, rule suffix_ConsI)
  show ?case
  proof (cases "length ?here < MIN_TOKEN_LEN")
    case True
    then show ?thesis using Cons.prems(1) refl plain_short[OF ok True] by simp
  next
    case long: False
    show ?thesis
    proof (cases "tk_starts t (key_of ?here)")
      case None
      then have "plain_here t counts ?here = None"
        using no_start_no_good[OF ok, of ?here counts] by (simp add: plain_here_least)
      then show ?thesis using Cons.prems(1) None long IH by simp
    next
      case (Some st)
      then obtain n' b where run: "search_here t counts ?here st n = Some (n', b)"
        using Cons.prems(1) long by (cases "search_here t counts ?here st n") auto
      have R: "R b (plain_here t counts ?here)"
        using search_here_least[OF ok Some leI[OF long] run]
      proof (elim disjE)
        assume "b = least (found_here t counts ?here st)"
        then show ?thesis unfolding plain_here_least using Cons.prems(2)[OF Some] by simp
      qed (simp_all add: plain_here_least refl)
      show ?thesis
      proof (cases b)
        case b: None
        then have "plain_here t counts ?here = None" using None[OF R] by simp
        moreover have "first_recorded_in t counts s n' = Some (m, r)"
          using Cons.prems(1) long Some run b by simp
        ultimately show ?thesis using IH by simp
      next
        case b: (Some x)
        then have "r = b" using Cons.prems(1) long Some run by simp
        moreover have "plain_here t counts ?here \<noteq> None" using None[OF R] b by simp
        ultimately show ?thesis using R by auto
      qed
    qed
  qed
qed

lemma first_recorded_in_exact:
  assumes "store_ok t" "inj_on (tk_hash_key t) (set (kept_tokens t))"
    and "first_recorded_in t counts s n = Some (m, r)"
  shows "r = plain_search t counts s"
  by (rule first_recorded_in_plain[where R = "(=)", OF assms(1) _ _ _ assms(3)])
    (simp_all add: found_here_exact[OF assms(1) _ assms(2)])

lemma first_recorded_in_some:
  assumes "store_ok t" "\<And>i. i < kept_count t \<Longrightarrow> counts (tk_tokens t ! i)"
    and "first_recorded_in t counts s n = Some (m, r)"
  shows "r = None \<longleftrightarrow> plain_search t counts s = None"
  by (rule first_recorded_in_plain[where R = "\<lambda>x y. x = None \<longleftrightarrow> y = None", OF assms(1) _ _ _ assms(3)])
    (use found_here_some[OF assms(1)] assms(2) in \<open>simp_all\<close>)

text \<open>What the plain search finds.\<close>

lemma plain_search_Some:
  "plain_search t counts s = Some i \<Longrightarrow> i < kept_count t \<and> contains s (token_at t i) \<and> counts (tk_tokens t ! i)"
proof (induction s)
  case (Cons c s)
  then consider "plain_here t counts (c # s) = Some i" | "plain_search t counts s = Some i"
    by (auto split: option.splits)
  then show ?case
  proof cases
    case 1
    then have "good t counts (c # s) i" by (auto simp: plain_here_def find_Some_iff)
    then obtain v where "i < kept_count t" "counts (tk_tokens t ! i)" "c # s = [] @ token_at t i @ v"
      by (auto simp: good_def prefix_def)
    then show ?thesis unfolding contains_iff by blast
  next
    case 2
    then obtain u v where "s = u @ token_at t i @ v" "i < kept_count t" "counts (tk_tokens t ! i)"
      using Cons.IH by (auto simp: contains_iff)
    then have "c # s = (c # u) @ token_at t i @ v" by simp
    then show ?thesis using \<open>i < kept_count t\<close> \<open>counts (tk_tokens t ! i)\<close> unfolding contains_iff by blast
  qed
qed simp

lemma plain_search_None:
  assumes "store_ok t" "plain_search t counts s = None" "i < kept_count t" "counts (tk_tokens t ! i)"
  shows "\<not> contains s (token_at t i)"
  using assms(2)
proof (induction s)
  case Nil
  have "token_at t i \<noteq> []" using store_ok_token(1)[OF assms(1,3)] by (auto simp: MIN_TOKEN_LEN_def)
  then show ?case by (simp add: contains_def)
next
  case (Cons c s)
  then have "plain_here t counts (c # s) = None" "plain_search t counts s = None"
    by (auto split: option.splits)
  then have "\<not> prefix (token_at t i) (c # s)" "\<not> contains s (token_at t i)"
    using Cons.IH assms(3,4) by (auto simp: plain_here_def find_None_iff good_def)
  then show ?case by (simp add: contains_def)
qed

subsection \<open>What a search costs\<close>

definition STEPS_PER_BYTE :: nat where "STEPS_PER_BYTE = 2 * MAX_KEPT_TOKEN_BYTES + 1"

lemma start_longest:
  assumes "store_ok t" "tk_starts t k = Some st"
  shows "st_longest st \<le> MAX_KEPT_TOKEN_BYTES"
proof -
  have "start_ok t (kept_count t) k" using assms(1) by (simp add: store_ok_def indexed_def)
  then obtain i where "i < kept_count t" "st_longest st = length (token_at t i)"
    using assms(2) by (auto simp: start_ok_def)
  then show ?thesis using store_ok_token(2)[OF assms(1)] by simp
qed

text \<open>A text whose pieces do not collide with a kept token.\<close>

definition no_collision :: "tracker \<Rightarrow> string \<Rightarrow> bool" where
  "no_collision t s \<longleftrightarrow> inj_on (tk_hash_key t) (set (kept_tokens t) \<union> {w. contains s w})"

lemma no_collision_piece:
  assumes "no_collision t s" "contains s w" "i < kept_count t" "tk_hash_key t (token_at t i) = tk_hash_key t w"
  shows "token_at t i = w"
proof (rule inj_onD[OF assms(1)[unfolded no_collision_def] assms(4)])
  show "token_at t i \<in> set (kept_tokens t) \<union> {w. contains s w}"
    using assms(3) by (metis UnI1 kept_tokens_def kept_tokens_nth length_map nth_mem)
qed (use assms(2) in simp)

lemma contains_here: "suffix here s \<Longrightarrow> contains s (take n here)"
  unfolding contains_iff suffix_def by (metis append_take_drop_id)

lemma hash_lengths_no_walk:
  assumes "store_ok t" "no_collision t s" "suffix here s"
  shows "\<exists>b. hash_lengths t counts here st lens (n, b0) = Some (n, b)"
proof (induction lens arbitrary: b0)
  case (Cons len lens)
  have "prefix (token_at t slot) here" if "tk_exact t (tk_hash_key t (take len here)) = Some slot" for slot
  proof -
    have "slot < kept_count t" "tk_hash_key t (token_at t slot) = tk_hash_key t (take len here)"
      using that assms(1) by (auto simp: store_ok_def indexed_def)
    then have "token_at t slot = take len here"
      using no_collision_piece[OF assms(2) contains_here[OF assms(3)]] by blast
    then show ?thesis by (simp add: take_is_prefix)
  qed
  then show ?case using Cons.IH by (auto simp: Let_def split: option.splits)
qed simp

lemma search_here_cost:
  assumes ok: "store_ok t" and col: "no_collision t s" and here: "suffix here s"
    and st: "tk_starts t (key_of here) = Some st" and n: "STEPS_PER_BYTE \<le> n"
  shows "\<exists>m b. search_here t counts here st n = Some (m, b) \<and> n \<le> m + STEPS_PER_BYTE"
proof (cases "st_count st \<le> CHAIN_WALK_LIMIT")
  case True
  then have "st_count st \<le> n" "st_count st \<le> STEPS_PER_BYTE"
    using n by (simp_all add: STEPS_PER_BYTE_def CHAIN_WALK_LIMIT_def MAX_KEPT_TOKEN_BYTES_def)
  then show ?thesis using True by (auto simp: search_here_def walk_chain_def)
next
  case False
  define longest where "longest = min (st_longest st) (length here)"
  have "longest \<le> MAX_KEPT_TOKEN_BYTES" using start_longest[OF ok st] by (simp add: longest_def)
  then have le: "2 * longest - st_shortest st + 1 \<le> STEPS_PER_BYTE" by (simp add: STEPS_PER_BYTE_def)
  show ?thesis
  proof (cases "st_shortest st \<le> longest")
    case True
    obtain b where b: "hash_lengths t counts here st [MIN_TOKEN_LEN..<Suc longest]
        (n - (2 * longest - st_shortest st + 1), None) = Some (n - (2 * longest - st_shortest st + 1), b)"
      using hash_lengths_no_walk[OF ok col here] by blast
    have "search_here t counts here st n = Some (n - (2 * longest - st_shortest st + 1), b)"
      using False True le n b by (simp add: search_here_def longest_def[symmetric] Let_def del: upt_Suc)
    then show ?thesis using le by auto
  next
    case short: False
    then have "search_here t counts here st n = Some (n, None)"
      using False by (simp only: search_here_def longest_def[symmetric] Let_def if_False)
    then show ?thesis by auto
  qed
qed

lemma first_recorded_in_cost:
  assumes ok: "store_ok t" and col: "no_collision t s"
  shows "suffix r s \<Longrightarrow> STEPS_PER_BYTE * length r \<le> n
    \<Longrightarrow> \<exists>m b. first_recorded_in t counts r n = Some (m, b) \<and> n \<le> m + STEPS_PER_BYTE * length r"
proof (induction r arbitrary: n)
  case Nil
  then show ?case by simp
next
  case (Cons c r)
  have suf: "suffix r s" using Cons.prems(1) by (rule suffix_ConsD)
  show ?case
  proof (cases "length (c # r) < MIN_TOKEN_LEN")
    case True
    then show ?thesis by simp
  next
    case long: False
    show ?thesis
    proof (cases "tk_starts t (key_of (c # r))")
      case None
      obtain m b where "first_recorded_in t counts r n = Some (m, b)" "n \<le> m + STEPS_PER_BYTE * length r"
        using Cons.IH[OF suf, of n] Cons.prems(2) by auto
      then show ?thesis using None long by simp
    next
      case (Some st)
      obtain m b where mb: "search_here t counts (c # r) st n = Some (m, b)" "n \<le> m + STEPS_PER_BYTE"
        using search_here_cost[OF ok col Cons.prems(1) Some, of n counts] Cons.prems(2) by auto
      show ?thesis
      proof (cases b)
        case None
        have "STEPS_PER_BYTE * length r \<le> m" using mb(2) Cons.prems(2) by simp
        then obtain m' b' where "first_recorded_in t counts r m = Some (m', b')" "m \<le> m' + STEPS_PER_BYTE * length r"
          using Cons.IH[OF suf] by blast
        then show ?thesis using Some long mb None by simp
      next
        case (Some x)
        then show ?thesis using \<open>tk_starts t (key_of (c # r)) = Some st\<close> long mb by simp
      qed
    qed
  qed
qed

subsection \<open>What a collision can hide\<close>

text \<open>Seventeen tokens of one start under a hash that sends all tokens to one value. The text is
  the second of them, and the search accepts it and not the first, which is its start: at its
  length the lookup gives the first, that is found where it stands, and the chain, which holds
  the second, is not walked. The search ends without it.\<close>

definition collided :: tracker where
  "collided = fold (\<lambda>c. insert_token (replicate 12 CHR ''a'' @ [c]) Content) ''bcdefghijklmnopq''
     (insert_token (replicate 12 CHR ''a'') Listing (tracker_new (\<lambda>_. 0) (\<lambda>_. 0)))"

lemma collision_hides_token:
  "first_recorded_in collided (\<lambda>r. rc_provenance r = Content) (replicate 12 CHR ''a'' @ ''b'') 1000
     = Some (985, None)
   \<and> plain_search collided (\<lambda>r. rc_provenance r = Content) (replicate 12 CHR ''a'' @ ''b'') = Some 1"
  by code_simp

end
