(* ===== verification/Taint.thy ===== *)
theory Taint
  imports TaintSearch "HOL-Library.Product_Lexorder"
begin

text \<open>
  The taint tracker of the MCP proxy, \<^verbatim>\<open>src/crates/agent-guard/src/mcp_proxy/taint.rs\<close>: how the
  text of a tool result becomes tokens, how a result is recorded, how room is made when the
  store is over its budget, and the alert on a later call whose arguments carry a kept token.
  Results are numbered by a natural number; the \<^verbatim>\<open>u64\<close> of the code does not run out.
\<close>

subsection \<open>Tokens of a text\<close>

definition is_char_boundary :: "string \<Rightarrow> nat \<Rightarrow> bool" where
  "is_char_boundary s i \<longleftrightarrow> i = 0 \<or> i = length s \<or> (i < length s \<and> \<not> cont_byte (s ! i))"

text \<open>The loop that steps back to a character boundary.\<close>

fun boundary_below :: "string \<Rightarrow> nat \<Rightarrow> nat" where
  "boundary_below s 0 = 0"
| "boundary_below s (Suc n) = (if is_char_boundary s (Suc n) then Suc n else boundary_below s n)"

definition TRAILING :: string where
  "TRAILING = ''.,;:!?)]}'' @ [CHR 0x22, CHR 0x27]"

definition trim_end_matches :: "char set \<Rightarrow> string \<Rightarrow> string" where
  "trim_end_matches cs s = List.rev (dropWhile (\<lambda>c. c \<in> cs) (List.rev s))"

definition tokenize :: "string \<Rightarrow> string list" where
  "tokenize txt =
     (let slice = (if MAX_SCAN_BYTES < length txt then take (boundary_below txt MAX_SCAN_BYTES) txt else txt)
      in filter (\<lambda>tok. MIN_TOKEN_LEN \<le> length tok)
           (map (trim_end_matches (set TRAILING)) (split_whitespace slice)))"

definition is_sep :: "char \<Rightarrow> bool" where
  "is_sep c \<longleftrightarrow> c = CHR ''/'' \<or> c = CHR 0x5C"

text \<open>Where the last character that passes the test stands.\<close>

fun rfind :: "(char \<Rightarrow> bool) \<Rightarrow> string \<Rightarrow> nat option" where
  "rfind P [] = None"
| "rfind P (c # s) =
     (case rfind P s of Some i \<Rightarrow> Some (Suc i) | None \<Rightarrow> if P c then Some 0 else None)"

definition kept_part :: "string \<Rightarrow> provenance \<Rightarrow> string" where
  "kept_part token p =
     (if length token \<le> MAX_KEPT_TOKEN_BYTES then token
      else
        (let start = take (boundary_below token MAX_KEPT_TOKEN_BYTES) token in
         if p = Listing
         then (case rfind is_sep start of
                 Some sep \<Rightarrow> if MIN_TOKEN_LEN \<le> sep then take sep start else start
               | None \<Rightarrow> start)
         else start))"

definition split_once :: "char \<Rightarrow> string \<Rightarrow> (string \<times> string) option" where
  "split_once c s =
     (case find_str s [c] of Some i \<Rightarrow> Some (take i s, drop (Suc i) s) | None \<Rightarrow> None)"

definition rsplit_once :: "char \<Rightarrow> string \<Rightarrow> (string \<times> string) option" where
  "rsplit_once c s =
     (case rfind (\<lambda>d. d = c) s of Some i \<Rightarrow> Some (take i s, drop (Suc i) s) | None \<Rightarrow> None)"

definition is_destination :: "string \<Rightarrow> bool" where
  "is_destination token \<longleftrightarrow>
     contains token ''://''
     \<or> (case split_once CHR 0x40 token of
          Some (user, domain) \<Rightarrow>
            user \<noteq> [] \<and> CHR 0x40 \<notin> set domain \<and> CHR ''.'' \<in> set domain
            \<and> \<not> prefix ''.'' domain \<and> \<not> suffix ''.'' domain
        | None \<Rightarrow> False)
     \<or> (case rsplit_once CHR '':'' token of
          Some (host, port) \<Rightarrow>
            1 \<le> length port \<and> length port \<le> 5 \<and> list_all is_ascii_digit port
            \<and> CHR ''/'' \<notin> set host \<and> (CHR ''.'' \<in> set host \<or> eq_ignore_ascii_case host ''localhost'')
        | None \<Rightarrow> False)"

subsection \<open>Making room\<close>

datatype fate = Whole | Sample | Forget

text \<open>What happens to each result, newest first: what the results kept whole and the older ones
  cost so far, and whether each of the two is still open.\<close>

fun fates :: "(nat \<times> nat) list \<Rightarrow> nat \<Rightarrow> nat \<Rightarrow> bool \<Rightarrow> bool \<Rightarrow> (nat \<times> fate) list" where
  "fates [] recent older recent_open older_open = []"
| "fates ((result, cost) # rs) recent older recent_open older_open =
     (if recent_open \<and> recent + cost \<le> RECENT_COST then
        (result, Whole) # fates rs (recent + cost) older recent_open older_open
      else
        (let share = min cost OLDER_SHARE in
         if older_open \<and> older + share \<le> OLDER_COST then
           (result, if cost \<le> OLDER_SHARE then Whole else Sample)
             # fates rs recent (older + share) False older_open
         else (result, Forget) # fates rs recent older False False))"

definition fate_of :: "tracker \<Rightarrow> nat \<Rightarrow> fate" where
  "fate_of t result =
     (case map_of (fates (List.rev (tk_result_cost t)) 0 0 True True) result of
        Some f \<Rightarrow> f | None \<Rightarrow> Forget)"

text \<open>The tokens of the sampled results in their order: by result, destinations first, then by
  the drawn key.\<close>

definition sampled :: "tracker \<Rightarrow> (nat \<times> bool \<times> u64 \<times> nat) list" where
  "sampled t =
     sort (map (\<lambda>slot. (rc_result (tk_tokens t ! slot), \<not> is_destination (token_at t slot),
                        tk_sample_key t (token_at t slot), slot))
            (filter (\<lambda>slot. fate_of t (rc_result (tk_tokens t ! slot)) = Sample) [0..<kept_count t]))"

text \<open>The slots kept of them; \<open>spent\<close> is the result, what its destinations cost, what it costs.\<close>

fun sample :: "tracker \<Rightarrow> (nat \<times> bool \<times> u64 \<times> nat) list \<Rightarrow> nat \<times> nat \<times> nat \<Rightarrow> nat list" where
  "sample t [] spent = []"
| "sample t ((result, ordinary, rank, slot) # xs) spent =
     (let (held, on_destinations, in_all) = (if fst spent \<noteq> result then (result, 0, 0) else spent);
          cost = cost_of (token_at t slot);
          fits = (in_all + cost \<le> OLDER_SHARE \<and> (ordinary \<or> on_destinations + cost \<le> DESTINATION_SHARE))
      in if fits then
           slot # sample t xs (held, if ordinary then on_destinations else on_destinations + cost, in_all + cost)
         else sample t xs (held, on_destinations, in_all))"

definition make_room :: "tracker \<Rightarrow> tracker" where
  "make_room t =
     (let chosen = sample t (sampled t) (0, 0, 0);
          keep = map (\<lambda>slot. fate_of t (rc_result (tk_tokens t ! slot)) = Whole \<or> slot \<in> set chosen)
                   [0..<kept_count t]
      in reindex (t\<lparr>tk_tokens := map fst (filter snd (zip (tk_tokens t) keep))\<rparr>))"

subsection \<open>Recording\<close>

text \<open>One token of a result, with the slots an earlier result holds and what the result costs.\<close>

definition record_token :: "provenance \<Rightarrow> string \<Rightarrow> tracker \<times> nat list \<times> nat \<Rightarrow> tracker \<times> nat list \<times> nat" where
  "record_token p raw = (\<lambda>(t, seen_again, whole_cost).
     let tok = kept_part raw p in
     case find_token t tok of
       Some slot \<Rightarrow>
         (if p = Content then set_content slot t else t,
          if rc_result (tk_tokens t ! slot) \<noteq> tk_results t then seen_again @ [slot] else seen_again,
          whole_cost)
     | None \<Rightarrow> (insert_token tok p t, seen_again, whole_cost + cost_of tok))"

definition hand_over :: "nat \<Rightarrow> nat \<Rightarrow> tracker \<Rightarrow> tracker" where
  "hand_over whole_cost slot t =
     (let held = (case bget (tk_result_cost t) (rc_result (tk_tokens t ! slot)) of Some c \<Rightarrow> c | None \<Rightarrow> 0);
          holder_keeps_all = (held \<le> OLDER_SHARE)
      in if whole_cost \<le> OLDER_SHARE \<or> \<not> holder_keeps_all then move_to_newest slot t else t)"

text \<open>A result before room is made for it.\<close>

definition record_tokens :: "string \<Rightarrow> provenance \<Rightarrow> tracker \<Rightarrow> tracker" where
  "record_tokens txt p t =
     (let (t, seen_again, whole_cost) =
            fold (record_token p) (tokenize txt) (t\<lparr>tk_results := tk_results t + 1\<rparr>, [], 0);
          seen_again = sort_dedup seen_again;
          whole_cost = whole_cost + sum_list (map (\<lambda>slot. cost_of (token_at t slot)) seen_again)
      in fold (hand_over whole_cost) seen_again t)"

definition record_result :: "string \<Rightarrow> provenance \<Rightarrow> tracker \<Rightarrow> tracker" where
  "record_result txt p t =
     (let t = record_tokens txt p t in
      if RECENT_COST + OLDER_COST < tk_cost t then make_room t else t)"

subsection \<open>What a server declares\<close>

definition record_tool :: "json \<Rightarrow> (string, tool_declaration) bmap \<Rightarrow> (string, tool_declaration) bmap" where
  "record_tool tool declared =
     (case get_str tool ''name'' of
        None \<Rightarrow> declared
      | Some name \<Rightarrow>
          (case declaration_of tool of
             DeclUnknown \<Rightarrow> bdel name declared
           | d \<Rightarrow>
               if bget declared name \<noteq> None then bput name d declared
               else if length name \<le> MAX_DECLARED_NAME_BYTES \<and> length declared < MAX_DECLARED_TOOLS
               then bput name d declared else declared))"

definition record_tools_list :: "json \<Rightarrow> tracker \<Rightarrow> tracker" where
  "record_tools_list result t =
     (case get_array result ''tools'' of
        None \<Rightarrow> t
      | Some tools \<Rightarrow> t\<lparr>tk_declared := fold record_tool tools (tk_declared t)\<rparr>)"

definition declared_as :: "tracker \<Rightarrow> string \<Rightarrow> tool_declaration" where
  "declared_as t tool = (case bget (tk_declared t) tool of Some d \<Rightarrow> d | None \<Rightarrow> DeclUnknown)"

subsection \<open>The arguments of a call\<close>

definition PATH_ARGS :: "string list" where
  "PATH_ARGS = [''path'', ''paths'', ''pattern'', ''excludePatterns'']"

definition SORT_ORDERS :: "string list" where
  "SORT_ORDERS = [''name'', ''size'']"

definition is_local_path :: "string \<Rightarrow> bool" where
  "is_local_path arg \<longleftrightarrow>
     \<not> (case arg of a # b # _ \<Rightarrow> is_sep a \<and> is_sep b | _ \<Rightarrow> False) \<and> \<not> contains arg ''://''"

definition other_args_are_inert :: "json \<Rightarrow> bool" where
  "other_args_are_inert args =
     (case args of
        JObj m \<Rightarrow> list_all (\<lambda>(key, v). key \<in> set PATH_ARGS
            \<or> (case v of JNum _ \<Rightarrow> True | _ \<Rightarrow> False)
            \<or> (key = ''sortBy'' \<and> (case as_str v of Some ord \<Rightarrow> ord \<in> set SORT_ORDERS | None \<Rightarrow> False))) m
      | _ \<Rightarrow> True)"

fun split_where :: "('a \<Rightarrow> bool) \<Rightarrow> 'a list \<Rightarrow> 'a list list" where
  "split_where P [] = [[]]"
| "split_where P (c # cs) =
     (if P c then [] # split_where P cs
      else (case split_where P cs of p # ps \<Rightarrow> (c # p) # ps | [] \<Rightarrow> [[c]]))"

definition names_whole_components :: "string \<Rightarrow> string \<Rightarrow> bool" where
  "names_whole_components arg token =
     (let arg_parts = split_where is_sep arg in
      if ''..'' \<in> set arg_parts then False
      else sublist (split_where is_sep token) arg_parts)"

text \<open>The string leaves in the order they are visited, each with whether it is a path argument.\<close>

fun walk_strings :: "json \<Rightarrow> string list" where
  "walk_strings (JStr s) = [s]"
| "walk_strings (JArr xs) = concat (map walk_strings xs)"
| "walk_strings (JObj m) = concat (map (\<lambda>kv. walk_strings (snd kv)) m)"
| "walk_strings _ = []"

definition nested :: "json \<Rightarrow> (string \<times> bool) list" where
  "nested v = map (\<lambda>s. (s, False)) (walk_strings v)"

definition walk_value :: "string \<times> json \<Rightarrow> (string \<times> bool) list" where
  "walk_value kv =
     (let is_path_arg = (fst kv \<in> set PATH_ARGS) in
      case snd kv of
        JStr s \<Rightarrow> [(s, is_path_arg)]
      | JArr items \<Rightarrow>
          concat (map (\<lambda>item. case item of JStr s \<Rightarrow> [(s, is_path_arg)] | other \<Rightarrow> nested other) items)
      | other \<Rightarrow> nested other)"

definition walk_args :: "json \<Rightarrow> (string \<times> bool) list" where
  "walk_args args = (case args of JObj m \<Rightarrow> concat (map walk_value m) | _ \<Rightarrow> nested args)"

definition reuse_counts :: "bool \<Rightarrow> string \<Rightarrow> bool \<Rightarrow> recorded \<Rightarrow> bool" where
  "reuse_counts read_only s is_path_arg r \<longleftrightarrow>
     \<not> (read_only \<and> is_path_arg \<and> rc_provenance r = Listing \<and> is_local_path s
         \<and> names_whole_components s (rc_token r))"

text \<open>The leaves searched until one has a hit. Running out of steps is \<open>None\<close>.\<close>

fun search_leaves :: "tracker \<Rightarrow> bool \<Rightarrow> (string \<times> bool) list \<Rightarrow> nat \<Rightarrow> nat option option" where
  "search_leaves t read_only [] steps = Some None"
| "search_leaves t read_only ((s, is_path_arg) # leaves) steps =
     (case first_recorded_in t (reuse_counts read_only s is_path_arg) s steps of
        None \<Rightarrow> None
      | Some (steps, Some slot) \<Rightarrow> Some (Some slot)
      | Some (steps, None) \<Rightarrow> search_leaves t read_only leaves steps)"

definition derived_detail :: "string \<Rightarrow> string" where
  "derived_detail shown =
     ''tool-call argument contains data derived from an untrusted tool result (`''
     @ shown @ [CHR 0xE2, CHR 0x80, CHR 0xA6]
     @ ''`), possible confused-deputy / indirect prompt injection''"

definition unchecked_detail :: string where
  "unchecked_detail =
     ''tool-call argument could not be checked in time against what earlier tool results returned, so it is refused rather than passed unchecked''"

definition arg_taint_alert :: "tracker \<Rightarrow> string \<Rightarrow> json \<Rightarrow> verdict_alert option" where
  "arg_taint_alert t tool args =
     (if tk_tokens t = [] then None
      else
        (let read_only = (tool \<in> set READ_ONLY_TOOLS \<and> other_args_are_inert args) in
         case search_leaves t read_only (walk_args args) MAX_SEARCH_STEPS of
           Some None \<Rightarrow> None
         | Some (Some slot) \<Rightarrow>
             Some (builtin_alert ''AG-TAINT'' (derived_detail (take_chars 32 (token_at t slot))) True)
         | None \<Rightarrow> Some (builtin_alert ''AG-TAINT'' unchecked_detail True)))"

subsection \<open>What a text costs\<close>

lemma ws_words_cost:
  "sum_list (map (\<lambda>x. length x + 1) (words_of_chunks cs w)) \<le> length w + length (concat cs) + 1"
  if "[] \<notin> set cs"
  using that
proof (induction cs w rule: words_of_chunks.induct)
  case (2 c cs w)
  have ne: "[] \<notin> set cs" using 2(4) by auto
  show ?case using 2 ne by (cases c) auto
qed auto

lemma words_sublist: "x \<in> set (words_of_chunks cs w) \<Longrightarrow> sublist x (w @ concat cs)"
proof (induction cs w rule: words_of_chunks.induct)
  case (2 c cs w)
  consider "ws_chunk c" "x = w" | "ws_chunk c" "x \<in> set (words_of_chunks cs [])"
    | "\<not> ws_chunk c" "x \<in> set (words_of_chunks cs (w @ c))"
    using 2(4) by (auto split: if_splits)
  then show ?case
  proof cases
    case 1
    then show ?thesis by simp
  next
    case 2
    then have "sublist x (concat cs)" using "2.IH"(1,2) by (cases "w = []") auto
    then show ?thesis by (metis append_assoc concat.simps(2) sublist_appendI sublist_order.order.trans sublist_append_leftI)
  next
    case 3
    then show ?thesis using "2.IH"(3) by simp
  qed
qed (auto split: if_splits)

lemma length_trim_end: "length (trim_end_matches cs s) \<le> length s"
  unfolding trim_end_matches_def using length_dropWhile_le[of _ "List.rev s"] by simp

lemma prefix_trim_end: "prefix (trim_end_matches cs s) s"
proof -
  have "suffix (dropWhile (\<lambda>c. c \<in> cs) (List.rev s)) (List.rev s)" by (rule suffix_dropWhile)
  then show ?thesis unfolding trim_end_matches_def suffix_to_prefix by simp
qed

definition scanned :: "string \<Rightarrow> string" where
  "scanned txt = (if MAX_SCAN_BYTES < length txt then take (boundary_below txt MAX_SCAN_BYTES) txt else txt)"

lemma boundary_below_le: "boundary_below s n \<le> n"
  by (induction n) auto

lemma length_scanned: "length (scanned txt) \<le> MAX_SCAN_BYTES"
  using boundary_below_le[of "txt" MAX_SCAN_BYTES] by (auto simp: scanned_def)

lemma tokenize_scanned:
  "tokenize txt = filter (\<lambda>tok. MIN_TOKEN_LEN \<le> length tok)
     (map (trim_end_matches (set TRAILING)) (split_whitespace (scanned txt)))"
  by (simp add: tokenize_def scanned_def)

lemma tokenize_sublist:
  assumes "tok \<in> set (tokenize txt)"
  shows "sublist tok txt" "MIN_TOKEN_LEN \<le> length tok"
proof -
  obtain w where w: "w \<in> set (split_whitespace (scanned txt))" "tok = trim_end_matches (set TRAILING) w"
    "MIN_TOKEN_LEN \<le> length tok"
    using assms by (auto simp: tokenize_scanned)
  show "MIN_TOKEN_LEN \<le> length tok" by (rule w(3))
  have "sublist w (scanned txt)" using words_sublist[of w "chunks (scanned txt)" "[]"] w(1)
    by (simp add: split_whitespace_def)
  moreover have "sublist (scanned txt) txt"
    by (simp add: scanned_def prefix_imp_sublist take_is_prefix)
  moreover have "sublist tok w" using prefix_trim_end w(2) by (simp add: prefix_imp_sublist)
  ultimately show "sublist tok txt" by (meson sublist_order.order.trans)
qed

lemma filter_length_sum:
  assumes "\<And>x. length (f x) \<le> length x"
  shows "sum_list (map (\<lambda>x. length x + 1) (filter P (map f xs))) \<le> sum_list (map (\<lambda>x. length x + 1) xs)"
proof (induction xs)
  case (Cons x xs)
  then show ?case using assms[of x] by auto
qed simp

lemma sum_length_ge: "\<forall>x \<in> set xs. m \<le> length x \<Longrightarrow> (m + 1) * length xs \<le> sum_list (map (\<lambda>x. length x + 1) xs)"
  by (induction xs) auto

lemma tokens_cost: "sum_list (map cost_of (tokenize txt)) \<le> MAX_RESULT_COST"
proof -
  let ?ts = "tokenize txt" and ?len = "\<lambda>x::string. length x + 1"
  have "sum_list (map ?len ?ts) \<le> sum_list (map ?len (split_whitespace (scanned txt)))"
    unfolding tokenize_scanned by (rule filter_length_sum) (rule length_trim_end)
  also have "\<dots> \<le> length (scanned txt) + 1"
    using ws_words_cost[of "chunks (scanned txt)" "[]"] chunks_ne by (auto simp: split_whitespace_def)
  finally have sum: "sum_list (map ?len ?ts) \<le> MAX_SCAN_BYTES + 1" using length_scanned[of "txt"] by simp
  have "(MIN_TOKEN_LEN + 1) * length ?ts \<le> sum_list (map ?len ?ts)"
    using tokenize_sublist(2) by (intro sum_length_ge) blast
  then have "length ?ts \<le> 5041" using sum by (simp add: MIN_TOKEN_LEN_def MAX_SCAN_BYTES_def)
  moreover have "sum_list (map cost_of ts) = sum_list (map ?len ts) + 95 * length ts" for ts
    by (induction ts) (simp_all add: cost_of_def TOKEN_OVERHEAD_def)
  ultimately show ?thesis using sum
    by (simp add: MAX_RESULT_COST_def MAX_SCAN_BYTES_def MIN_TOKEN_LEN_def TOKEN_OVERHEAD_def)
qed

subsection \<open>The part of a token that is kept\<close>

text \<open>No character has more than three continuation bytes, wherever the text is cut.\<close>

fun runs_ok :: "nat \<Rightarrow> string \<Rightarrow> bool" where
  "runs_ok n [] = True"
| "runs_ok n (c # s) = (if cont_byte c then n < 3 \<and> runs_ok (n + 1) s else runs_ok 0 s)"

lemma runs_ok_less: "runs_ok n s \<Longrightarrow> m \<le> n \<Longrightarrow> runs_ok m s"
  by (induction s arbitrary: m n) (auto split: if_splits)

lemma runs_ok_append: "runs_ok n (u @ v) \<Longrightarrow> runs_ok n u \<and> runs_ok 0 v"
  by (induction u arbitrary: n) (auto split: if_splits intro: runs_ok_less)

lemma runs_ok_sublist: "sublist x s \<Longrightarrow> runs_ok n s \<Longrightarrow> runs_ok 0 x"
  unfolding sublist_def using runs_ok_append by blast

lemma utf8_runs_ok: "is_utf8 s \<Longrightarrow> runs_ok n s"
  by (induction s arbitrary: n rule: is_utf8.induct) (auto split: if_splits list.splits)

lemma runs_ok_boundary:
  assumes "runs_ok 0 s" "n < length s"
  shows "n \<le> boundary_below s n + 3"
proof (cases "n \<le> 3")
  case False
  have "runs_ok 0 (take (n - 3) s @ drop (n - 3) s)" using assms(1) by simp
  then have "runs_ok 0 (drop (n - 3) s)" using runs_ok_append by blast
  moreover have "drop (n - 3) s = s ! (n - 3) # s ! (n - 2) # s ! (n - 1) # s ! n # drop (Suc n) s"
  proof -
    obtain k where "n = k + 3" using False by (metis add.commute le_add_diff_inverse nat_le_linear)
    then show ?thesis using assms(2) by (simp add: Cons_nth_drop_Suc numeral_eq_Suc)
  qed
  ultimately have "\<not> cont_byte (s ! (n - 3)) \<or> \<not> cont_byte (s ! (n - 2)) \<or> \<not> cont_byte (s ! (n - 1)) \<or> \<not> cont_byte (s ! n)"
    by (auto split: if_splits)
  then obtain j where j: "n - 3 \<le> j" "j \<le> n" "\<not> cont_byte (s ! j)"
    by (meson diff_le_mono2 diff_le_self le_refl numeral_le_iff semiring_norm one_le_numeral order_refl)
  have "j \<le> boundary_below s m" if "j \<le> m" for m
    using that
  proof (induction m)
    case (Suc m)
    then show ?case using j(2,3) assms(2) by (cases "j = Suc m") (auto simp: is_char_boundary_def)
  qed simp
  then show ?thesis using j by fastforce
qed simp

lemma rfind_Some: "rfind P s = Some i \<Longrightarrow> i < length s \<and> P (s ! i)"
  by (induction s arbitrary: i) (auto split: option.splits if_splits)

lemma prefix_kept_part: "prefix (kept_part tok p) tok"
  by (auto simp: kept_part_def Let_def take_is_prefix split: option.splits)

lemma kept_part_length:
  assumes "runs_ok 0 tok" "MIN_TOKEN_LEN \<le> length tok"
  shows "MIN_TOKEN_LEN \<le> length (kept_part tok p)" "length (kept_part tok p) \<le> MAX_KEPT_TOKEN_BYTES"
proof -
  let ?b = "boundary_below tok MAX_KEPT_TOKEN_BYTES"
  have b: "?b \<le> MAX_KEPT_TOKEN_BYTES" by (rule boundary_below_le)
  have "MIN_TOKEN_LEN \<le> length (kept_part tok p) \<and> length (kept_part tok p) \<le> MAX_KEPT_TOKEN_BYTES"
  proof (cases "length tok \<le> MAX_KEPT_TOKEN_BYTES")
    case False
    then have "MAX_KEPT_TOKEN_BYTES \<le> ?b + 3" using assms(1) by (intro runs_ok_boundary) simp_all
    then have "MIN_TOKEN_LEN \<le> ?b" by (simp add: MAX_KEPT_TOKEN_BYTES_def MIN_TOKEN_LEN_def)
    then show ?thesis using False b by (auto simp: kept_part_def Let_def dest: rfind_Some split: option.splits)
  qed (use assms(2) in \<open>simp add: kept_part_def\<close>)
  then show "MIN_TOKEN_LEN \<le> length (kept_part tok p)" "length (kept_part tok p) \<le> MAX_KEPT_TOKEN_BYTES"
    by simp_all
qed

lemma kept_part_of_text:
  assumes "is_utf8 txt" "tok \<in> set (tokenize txt)"
  shows "MIN_TOKEN_LEN \<le> length (kept_part tok p) \<and> length (kept_part tok p) \<le> MAX_KEPT_TOKEN_BYTES"
  using kept_part_length[OF runs_ok_sublist[OF tokenize_sublist(1)[OF assms(2)] utf8_runs_ok[OF assms(1)]]
      tokenize_sublist(2)[OF assms(2)]] by simp

subsection \<open>Recording a result\<close>

text \<open>What the newest result holds is among its tokens \<open>T\<close>.\<close>

definition recording :: "string set \<Rightarrow> tracker \<Rightarrow> bool" where
  "recording T t \<longleftrightarrow> store_ok t \<and> (\<forall>x \<in> set (tk_tokens t). rc_result x = tk_results t \<longrightarrow> rc_token x \<in> T)"

text \<open>What no step of recording changes.\<close>

definition same_keys :: "tracker \<Rightarrow> tracker \<Rightarrow> bool" where
  "same_keys t u \<longleftrightarrow> tk_results t = tk_results u \<and> tk_hash_key t = tk_hash_key u
     \<and> tk_sample_key t = tk_sample_key u \<and> tk_declared t = tk_declared u"

lemma insert_token_keys: "same_keys (insert_token tok p t) t"
  by (simp add: same_keys_def insert_token_def Let_def)

lemma move_to_newest_keys: "same_keys (move_to_newest slot t) t"
  by (simp add: same_keys_def move_to_newest_def Let_def)

lemma set_content_keys: "same_keys (set_content slot t) t"
  by (simp add: same_keys_def set_content_def)

lemma insert_token_tokens:
  "map (\<lambda>x. (rc_token x, rc_provenance x, rc_result x)) (tk_tokens (insert_token tok p t))
   = map (\<lambda>x. (rc_token x, rc_provenance x, rc_result x)) (tk_tokens t) @ [(tok, p, tk_results t)]"
  unfolding insert_token_def Let_def by (subst map_index_slot) simp_all

lemma recording_insert:
  assumes "recording T t" "tok \<in> T" "tok \<notin> set (kept_tokens t)"
    and "MIN_TOKEN_LEN \<le> length tok" "length tok \<le> MAX_KEPT_TOKEN_BYTES"
  shows "recording T (insert_token tok p t)"
proof -
  have "\<forall>y \<in> set (map (\<lambda>x. (rc_token x, rc_provenance x, rc_result x)) (tk_tokens (insert_token tok p t))).
      snd (snd y) = tk_results t \<longrightarrow> fst y \<in> T"
    unfolding insert_token_tokens using assms(1,2) by (auto simp: recording_def)
  moreover have "store_ok (insert_token tok p t)" "tk_results (insert_token tok p t) = tk_results t"
    using insert_token_ok[OF _ assms(3-5)] assms(1) by (simp_all add: recording_def)
  ultimately show ?thesis by (auto simp: recording_def)
qed

lemma recording_set_content: "recording T t \<Longrightarrow> recording T (set_content slot t)"
  using set_content_ok(1)[of t slot]
proof -
  assume t: "recording T t"
  have "\<exists>y \<in> set (tk_tokens t). rc_token x = rc_token y \<and> rc_result x = rc_result y"
    if x: "x \<in> set (tk_tokens (set_content slot t))" for x
  proof -
    obtain i where "i < kept_count t" "x = tk_tokens (set_content slot t) ! i"
      using x unfolding in_set_conv_nth by (auto simp: set_content_def)
    then show ?thesis
      by (intro bexI[of _ "tk_tokens t ! i"]) (simp_all add: set_content_def nth_update_field)
  qed
  moreover have "tk_results (set_content slot t) = tk_results t" by (simp add: set_content_def)
  ultimately show ?thesis using t set_content_ok(1)[of t slot] by (fastforce simp: recording_def)
qed

lemma recording_move:
  assumes "recording T t" "slot < kept_count t" "token_at t slot \<in> T"
  shows "recording T (move_to_newest slot t)"
proof -
  have "tk_tokens (move_to_newest slot t)
      = (tk_tokens t)[slot := (tk_tokens t ! slot)\<lparr>rc_result := tk_results t\<rparr>]"
    by (simp add: move_to_newest_def Let_def)
  then show ?thesis using assms move_to_newest_ok[OF _ assms(2)]
    by (auto simp: recording_def token_at_def dest!: set_update_subset_insert[THEN subsetD])
qed

text \<open>One token, and all of them.\<close>

lemma record_token_ok:
  assumes "recording T t" "\<forall>s \<in> set seen. s < kept_count t \<and> token_at t s \<in> T"
    and "kept_part raw p \<in> T" "MIN_TOKEN_LEN \<le> length (kept_part raw p)"
    and "length (kept_part raw p) \<le> MAX_KEPT_TOKEN_BYTES"
    and "record_token p raw (t, seen, whole) = (t', seen', whole')"
  shows "recording T t' \<and> (\<forall>s \<in> set seen'. s < kept_count t' \<and> token_at t' s \<in> T)
    \<and> kept_tokens t' = kept_tokens t @ (if kept_part raw p \<in> set (kept_tokens t) then [] else [kept_part raw p])
    \<and> same_keys t' t"
proof -
  let ?tok = "kept_part raw p"
  have ix: "indexed (kept_count t) t" using assms(1) by (simp add: recording_def store_ok_def)
  have grow: "\<forall>s \<in> set seen. s < kept_count u \<and> token_at u s \<in> T" if "kept_tokens u = kept_tokens t @ x" for u x
  proof
    fix s assume "s \<in> set seen"
    then have s: "s < kept_count t" "token_at t s \<in> T" using assms(2) by auto
    moreover have "kept_count u = kept_count t + length x"
      using arg_cong[OF that, of length] by (simp add: kept_tokens_def)
    ultimately show "s < kept_count u \<and> token_at u s \<in> T"
      using that by (metis kept_tokens_def kept_tokens_nth length_map nth_append trans_less_add1)
  qed
  show ?thesis
  proof (cases "find_token t ?tok")
    case None
    then have new: "?tok \<notin> set (kept_tokens t)" using find_token_None[OF ix] by simp
    have t': "t' = insert_token ?tok p t" "seen' = seen"
      using assms(6) None by (auto simp: record_token_def Let_def)
    have "kept_tokens t' = kept_tokens t @ [?tok]"
      using insert_token_ok(2)[OF _ new assms(4,5)] assms(1) t' by (simp add: recording_def)
    then show ?thesis
      using recording_insert[OF assms(1,3) new assms(4,5)] grow insert_token_keys t' new by simp
  next
    case (Some slot)
    then have slot: "slot < kept_count t" "token_at t slot = ?tok" using find_token_Some[OF ix] by auto
    have t': "t' = (if p = Content then set_content slot t else t)" "set seen' \<subseteq> insert slot (set seen)"
      using assms(6) Some by (auto simp: record_token_def Let_def split: if_splits)
    have rec: "recording T t'" using t'(1) assms(1) recording_set_content by simp
    have kt: "kept_tokens t' = kept_tokens t"
      using t'(1) assms(1) set_content_ok(2)[of t slot] by (simp add: recording_def)
    have "?tok \<in> set (kept_tokens t)"
      using slot by (metis kept_tokens_def kept_tokens_nth length_map nth_mem)
    moreover have "slot < kept_count t' \<and> token_at t' slot \<in> T"
      using slot assms(3) kt by (metis kept_tokens_def kept_tokens_nth length_map)
    moreover have "same_keys t' t" using t'(1) set_content_keys by (simp add: same_keys_def)
    ultimately show ?thesis using rec kt grow[of t' "[]"] t'(2) by auto
  qed
qed

lemma record_tokens_fold:
  assumes "recording T t" "\<forall>s \<in> set seen. s < kept_count t \<and> token_at t s \<in> T"
    and "\<forall>raw \<in> set toks. kept_part raw p \<in> T \<and> MIN_TOKEN_LEN \<le> length (kept_part raw p)
      \<and> length (kept_part raw p) \<le> MAX_KEPT_TOKEN_BYTES"
    and "fold (record_token p) toks (t, seen, whole) = (t', seen', whole')"
  shows "recording T t' \<and> (\<forall>s \<in> set seen'. s < kept_count t' \<and> token_at t' s \<in> T)
    \<and> prefix (kept_tokens t) (kept_tokens t')
    \<and> set (kept_tokens t') = set (kept_tokens t) \<union> (\<lambda>raw. kept_part raw p) ` set toks
    \<and> same_keys t' t"
  using assms
proof (induction toks arbitrary: t seen whole)
  case Nil
  then show ?case by (simp add: same_keys_def)
next
  case (Cons raw toks)
  obtain u s w where u: "record_token p raw (t, seen, whole) = (u, s, w)" by (metis prod_cases3)
  have step: "recording T u \<and> (\<forall>s \<in> set s. s < kept_count u \<and> token_at u s \<in> T)
    \<and> kept_tokens u = kept_tokens t @ (if kept_part raw p \<in> set (kept_tokens t) then [] else [kept_part raw p])
    \<and> same_keys u t"
    by (rule record_token_ok[OF Cons.prems(1,2) _ _ _ u]) (use Cons.prems(3) in simp_all)
  have "recording T t' \<and> (\<forall>s \<in> set seen'. s < kept_count t' \<and> token_at t' s \<in> T)
    \<and> prefix (kept_tokens u) (kept_tokens t')
    \<and> set (kept_tokens t') = set (kept_tokens u) \<union> (\<lambda>raw. kept_part raw p) ` set toks
    \<and> same_keys t' u"
    by (rule Cons.IH[of u s w]) (use step Cons.prems(3,4) u in simp_all)
  moreover have "prefix (kept_tokens t) (kept_tokens u)" using step by simp
  moreover have "set (kept_tokens u) = insert (kept_part raw p) (set (kept_tokens t))" using step by auto
  ultimately have "prefix (kept_tokens t) (kept_tokens t')" "recording T t'"
    "\<forall>s \<in> set seen'. s < kept_count t' \<and> token_at t' s \<in> T"
    "set (kept_tokens t') = set (kept_tokens t) \<union> (\<lambda>raw. kept_part raw p) ` set (raw # toks)" "same_keys t' u"
    using prefix_order.order_trans by auto
  then show ?case using step by (simp add: same_keys_def)
qed

lemma hand_over_fold:
  assumes "recording T t" "\<forall>s \<in> set seen. s < kept_count t \<and> token_at t s \<in> T"
  shows "recording T (fold (hand_over whole) seen t) \<and> kept_tokens (fold (hand_over whole) seen t) = kept_tokens t
    \<and> same_keys (fold (hand_over whole) seen t) t"
  using assms
proof (induction seen arbitrary: t)
  case Nil
  then show ?case by (simp add: same_keys_def)
next
  case (Cons s seen)
  let ?u = "hand_over whole s t"
  have s: "s < kept_count t" "token_at t s \<in> T" using Cons.prems(2) by auto
  have u: "recording T ?u" "kept_tokens ?u = kept_tokens t" "same_keys ?u t"
    using recording_move[OF Cons.prems(1) s] move_to_newest_ok(2)[OF _ s(1)] move_to_newest_keys[of s t] Cons.prems(1)
    by (auto simp: hand_over_def Let_def recording_def same_keys_def)
  have "\<forall>s \<in> set seen. s < kept_count ?u \<and> token_at ?u s \<in> T"
    using Cons.prems(2) u(2) by (metis kept_tokens_def kept_tokens_nth length_map list.set_intros(2))
  from Cons.IH[OF u(1) this] show ?case using u(2,3) by (simp add: same_keys_def)
qed

lemma record_tokens_ok:
  assumes "is_utf8 txt" "store_ok t"
  shows "recording ((\<lambda>raw. kept_part raw p) ` set (tokenize txt)) (record_tokens txt p t)"
    and "set (kept_tokens (record_tokens txt p t)) = set (kept_tokens t) \<union> (\<lambda>raw. kept_part raw p) ` set (tokenize txt)"
    and "same_keys (record_tokens txt p t) (t\<lparr>tk_results := tk_results t + 1\<rparr>)"
proof -
  let ?T = "(\<lambda>raw. kept_part raw p) ` set (tokenize txt)" and ?t = "t\<lparr>tk_results := tk_results t + 1\<rparr>"
  obtain u seen whole where u: "fold (record_token p) (tokenize txt) (?t, [], 0) = (u, seen, whole)"
    by (metis prod_cases3)
  have start: "recording ?T ?t"
    using store_ok_results[OF assms(2), of "tk_results t + 1"] assms(2) by (fastforce simp: recording_def store_ok_def)
  have f: "recording ?T u \<and> (\<forall>s \<in> set seen. s < kept_count u \<and> token_at u s \<in> ?T)
    \<and> prefix (kept_tokens ?t) (kept_tokens u)
    \<and> set (kept_tokens u) = set (kept_tokens ?t) \<union> ?T \<and> same_keys u ?t"
    by (rule record_tokens_fold[OF start _ _ u]) (use kept_part_of_text[OF assms(1)] in simp_all)
  define w where "w = whole + sum_list (map (\<lambda>slot. cost_of (token_at u slot)) (sort_dedup seen))"
  have r: "record_tokens txt p t = fold (hand_over w) (sort_dedup seen) u"
    unfolding record_tokens_def u w_def Let_def by simp
  have h: "recording ?T (fold (hand_over w) (sort_dedup seen) u)
    \<and> kept_tokens (fold (hand_over w) (sort_dedup seen) u) = kept_tokens u
    \<and> same_keys (fold (hand_over w) (sort_dedup seen) u) u"
    by (rule hand_over_fold) (use f in simp_all)
  show "recording ?T (record_tokens txt p t)" unfolding r using h by blast
  show "set (kept_tokens (record_tokens txt p t)) = set (kept_tokens t) \<union> ?T"
    unfolding r using h f by (simp add: kept_tokens_def)
  show "same_keys (record_tokens txt p t) ?t" unfolding r using h f by (simp add: same_keys_def)
qed

subsection \<open>Making room keeps to the budget\<close>

lemma retain_nth:
  "map fst (filter snd (zip xs (map P [0..<length xs]))) = map (\<lambda>i. xs ! i) (filter P [0..<length xs])"
proof (induction xs rule: rev_induct)
  case (snoc x xs)
  have "map (\<lambda>i. (xs @ [x]) ! i) (filter P [0..<length xs]) = map (\<lambda>i. xs ! i) (filter P [0..<length xs])"
    by (rule map_cong) (auto simp: nth_append)
  then show ?case using snoc by (simp add: zip_append1)
qed simp

abbreviation result_at :: "tracker \<Rightarrow> nat \<Rightarrow> nat" where
  "result_at t i \<equiv> rc_result (tk_tokens t ! i)"

abbreviation slot_cost :: "tracker \<Rightarrow> nat \<Rightarrow> nat" where
  "slot_cost t i \<equiv> cost_of (token_at t i)"

definition chosen :: "tracker \<Rightarrow> nat set" where
  "chosen t = set (sample t (sampled t) (0, 0, 0))"

definition retained :: "tracker \<Rightarrow> nat \<Rightarrow> bool" where
  "retained t i \<longleftrightarrow> fate_of t (result_at t i) = Whole \<or> i \<in> chosen t"

lemma make_room_retained:
  "make_room t = reindex (t\<lparr>tk_tokens := map (\<lambda>i. tk_tokens t ! i) (filter (retained t) [0..<kept_count t])\<rparr>)"
  unfolding make_room_def Let_def chosen_def[symmetric] retained_def[symmetric] by (simp only: retain_nth)

text \<open>A sample of a result costs at most its share.\<close>

definition chosen_cost :: "tracker \<Rightarrow> nat \<Rightarrow> nat list \<Rightarrow> nat" where
  "chosen_cost t r ss = (\<Sum>i \<leftarrow> ss. if result_at t i = r then slot_cost t i else 0)"

lemma sample_Cons:
  assumes "(held, d, a) = (if fst spent \<noteq> result then (result, 0, 0) else spent)"
  shows "sample t ((result, ordinary, rank, slot) # xs) spent =
      (if a + slot_cost t slot \<le> OLDER_SHARE \<and> (ordinary \<or> d + slot_cost t slot \<le> DESTINATION_SHARE)
       then slot # sample t xs (held, if ordinary then d else d + slot_cost t slot, a + slot_cost t slot)
       else sample t xs (held, d, a))"
  unfolding sample.simps assms[symmetric] Let_def by simp

lemma sample_subset: "set (sample t xs spent) \<subseteq> (\<lambda>x. snd (snd (snd x))) ` set xs"
proof (induction xs arbitrary: spent)
  case (Cons x xs)
  obtain result ordinary rank slot where x: "x = (result, ordinary, rank, slot)" by (metis prod_cases4)
  obtain held d a where s: "(held, d, a) = (if fst spent \<noteq> result then (result, 0, 0) else spent)"
    by (metis prod_cases3)
  show ?case unfolding x sample_Cons[OF s]
    using Cons.IH[of "(held, d, a)"]
      Cons.IH[of "(held, if ordinary then d else d + slot_cost t slot, a + slot_cost t slot)"] by auto
qed simp

lemma chosen_cost_0:
  assumes "\<forall>x \<in> set xs. fst x = result_at t (snd (snd (snd x)))" "\<forall>x \<in> set xs. r < fst x"
  shows "chosen_cost t r (sample t xs spent) = 0"
  unfolding chosen_cost_def using sample_subset[of t xs spent] assms by (fastforce simp: sum_list_0)

lemma sample_share:
  assumes "sorted (map fst xs)" "\<forall>x \<in> set xs. fst x = result_at t (snd (snd (snd x)))"
    and "\<forall>x \<in> set xs. fst spent \<le> fst x" "snd (snd spent) \<le> OLDER_SHARE"
  shows "chosen_cost t r (sample t xs spent) + (if r = fst spent then snd (snd spent) else 0) \<le> OLDER_SHARE"
  using assms
proof (induction xs arbitrary: spent)
  case Nil
  then show ?case by (simp add: chosen_cost_def)
next
  case (Cons x xs)
  obtain result ordinary rank slot where x: "x = (result, ordinary, rank, slot)" by (metis prod_cases4)
  note prems = Cons.prems[unfolded x]
  obtain held d a where s: "(held, d, a) = (if fst spent \<noteq> result then (result, 0, 0) else spent)"
    by (metis prod_cases3)
  have held: "held = result" using s by (cases "fst spent = result") auto
  have a: "a \<le> OLDER_SHARE" "fst spent \<noteq> result \<Longrightarrow> a = 0" "fst spent = result \<Longrightarrow> a = snd (snd spent)"
    using s prems(4) by (cases "fst spent = result"; auto)+
  define fits where "fits = (a + slot_cost t slot \<le> OLDER_SHARE
      \<and> (ordinary \<or> d + slot_cost t slot \<le> DESTINATION_SHARE))"
  have slot: "result_at t slot = result" using prems(2) by simp
  have srt: "sorted (map fst xs)" "\<forall>x \<in> set xs. fst x = result_at t (snd (snd (snd x)))" "\<forall>x \<in> set xs. result \<le> fst x"
    using prems(1,2) by auto
  have step: "sample t ((result, ordinary, rank, slot) # xs) spent =
      (if fits then slot # sample t xs (held, if ordinary then d else d + slot_cost t slot, a + slot_cost t slot)
       else sample t xs (held, d, a))"
    unfolding fits_def by (rule sample_Cons[OF s])
  have rest: "chosen_cost t r (sample t xs (held, d', a')) + (if r = held then a' else 0) \<le> OLDER_SHARE"
    if "a' \<le> OLDER_SHARE" for a' d'
    using Cons.IH[of "(held, d', a')"] srt that held by (simp split: if_splits)
  have past: "chosen_cost t r (sample t (x # xs) spent) = 0" if "r = fst spent" "fst spent \<noteq> result"
  proof (rule chosen_cost_0)
    show "\<forall>y \<in> set (x # xs). r < fst y" using prems(3) srt(3) that by (auto simp: x)
  qed (use Cons.prems(2) in simp)
  have cost: "chosen_cost t r (slot # ss) = (if r = result then slot_cost t slot else 0) + chosen_cost t r ss" for ss
    using slot by (simp add: chosen_cost_def)
  show ?case
  proof (cases "r = fst spent \<and> fst spent \<noteq> result")
    case True
    then show ?thesis using past prems(4) by simp
  next
    case now: False
    have sum: "chosen_cost t r (sample t xs (held, d', a')) + (if r = result then a' else 0) \<le> OLDER_SHARE"
      if "a' \<le> OLDER_SHARE" for a' d'
      using rest[OF that] held by simp
    have spent: "(if r = fst spent then snd (snd spent) else 0) = (if r = result then a else 0)"
      using now a(2,3) by auto
    show ?thesis
    proof (cases fits)
      case True
      then have "a + slot_cost t slot \<le> OLDER_SHARE" by (simp add: fits_def)
      moreover define d' where "d' = (if ordinary then d else d + slot_cost t slot)"
      ultimately show ?thesis using sum[of "a + slot_cost t slot" d']
        unfolding x step spent if_P[OF True] cost d'_def[symmetric] by (cases "r = result") simp_all
    next
      case False
      then show ?thesis using sum[OF a(1)] unfolding x step spent by simp
    qed
  qed
qed


text \<open>What the fates allow the results to cost between them.\<close>

definition allowance :: "nat \<Rightarrow> fate \<Rightarrow> nat" where
  "allowance cost f = (case f of Whole \<Rightarrow> cost | Sample \<Rightarrow> OLDER_SHARE | Forget \<Rightarrow> 0)"

lemma fates_keys: "map fst (fates rs a b c d) = map fst rs"
  by (induction rs a b c d rule: fates.induct) (simp_all add: Let_def)

lemma fates_budget:
  assumes "a \<le> RECENT_COST" "b \<le> OLDER_COST"
  shows "a + b + (\<Sum>(cost, f) \<leftarrow> zip (map snd rs) (map snd (fates rs a b c d)). allowance cost f)
    \<le> RECENT_COST + OLDER_COST"
  using assms
proof (induction rs a b c d rule: fates.induct)
  case (2 result cost rs recent older ro oo)
  consider "ro \<and> recent + cost \<le> RECENT_COST"
    | "\<not> (ro \<and> recent + cost \<le> RECENT_COST)" "oo \<and> older + min cost OLDER_SHARE \<le> OLDER_COST"
    | "\<not> (ro \<and> recent + cost \<le> RECENT_COST)" "\<not> (oo \<and> older + min cost OLDER_SHARE \<le> OLDER_COST)"
    by blast
  then show ?case
  proof cases
    case 1
    then show ?thesis using "2.IH"(1) "2.prems" by (simp add: allowance_def)
  next
    case 2
    have "allowance cost (if cost \<le> OLDER_SHARE then Whole else Sample) = min cost OLDER_SHARE"
      by (simp add: allowance_def min_def)
    then show ?thesis using "2.IH"(2)[OF 2(1) refl 2(2)] "2.prems" 2(2)
      unfolding fates.simps Let_def if_not_P[OF 2(1)] if_P[OF 2(2)] by simp
  next
    case 3
    then show ?thesis using "2.IH"(3)[OF 3(1) refl 3(2)] "2.prems"
      unfolding fates.simps Let_def if_not_P[OF 3(1)] if_not_P[OF 3(2)] by (simp add: allowance_def)
  qed
qed simp

lemma fates_total:
  assumes "bmap_wf (tk_result_cost t)"
  shows "(\<Sum>(r, c) \<leftarrow> tk_result_cost t. allowance c (fate_of t r)) \<le> RECENT_COST + OLDER_COST"
proof -
  let ?rs = "List.rev (tk_result_cost t)"
  let ?fs = "fates ?rs 0 0 True True"
  have keys: "map fst ?fs = map fst ?rs" by (rule fates_keys)
  have dist: "distinct (map fst ?fs)"
    unfolding keys using bmap_wf_distinct[OF assms] by (simp add: rev_map[symmetric])
  have look: "map_of fs k = Some f" if "distinct (map fst fs)" "(k, f) \<in> set fs" for fs :: "(nat \<times> fate) list" and k f
    using that by simp
  have "map snd ?fs = map (fate_of t) (map fst ?fs)"
    unfolding map_map by (rule map_cong[OF refl]) (use look[OF dist] in \<open>auto simp: fate_of_def\<close>)
  then have "map snd ?fs = map (fate_of t) (map fst ?rs)" unfolding keys .
  then have "zip (map snd ?rs) (map snd ?fs) = map (\<lambda>(r, c). (c, fate_of t r)) ?rs"
    by (induction ?rs) (auto simp: zip_map_map zip_same_conv_map)
  then have "(\<Sum>(cost, f) \<leftarrow> zip (map snd ?rs) (map snd ?fs). allowance cost f)
      = (\<Sum>(r, c) \<leftarrow> ?rs. allowance c (fate_of t r))"
    by (simp add: comp_def case_prod_unfold)
  also have "\<dots> = (\<Sum>(r, c) \<leftarrow> tk_result_cost t. allowance c (fate_of t r))"
    by (metis rev_map sum_list_rev)
  finally show ?thesis using fates_budget[of 0 0 ?rs True True] by simp
qed

lemma sum_set_le_sum_list: "(\<Sum>i \<in> set xs. g i) \<le> sum_list (map g xs)" for g :: "'a \<Rightarrow> nat"
proof (induction xs)
  case (Cons x xs)
  then show ?case by (cases "x \<in> set xs") (auto simp: insert_absorb)
qed simp

lemma result_sum_slots: "result_sum t r = (\<Sum>i | i < kept_count t \<and> result_at t i = r. slot_cost t i)"
proof -
  have "result_sum t r = (\<Sum>i \<leftarrow> [0..<kept_count t]. if result_at t i = r then slot_cost t i else 0)"
    unfolding result_sum_alt token_at_def
    by (subst map_nth[symmetric, of "tk_tokens t"]) (simp only: map_map comp_def)
  also have "\<dots> = (\<Sum>i \<in> {0..<kept_count t}. if result_at t i = r then slot_cost t i else 0)"
    by (simp add: interv_sum_list_conv_sum_set_nat)
  also have "\<dots> = (\<Sum>i | i < kept_count t \<and> result_at t i = r. slot_cost t i)"
    by (subst sum.inter_filter[symmetric]) (auto intro: arg_cong[of _ _ "sum (slot_cost t)"])
  finally show ?thesis .
qed

lemma result_sum_pos: "i < kept_count t \<Longrightarrow> result_sum t (result_at t i) \<noteq> 0"
  using less_le_trans[OF cost_of_pos(1) result_sum_le[OF nth_mem]] by blast

lemma sampled_props:
  "sorted (map fst (sampled t))" "\<forall>x \<in> set (sampled t). fst x = result_at t (snd (snd (snd x)))"
  "i \<in> chosen t \<Longrightarrow> i < kept_count t \<and> fate_of t (result_at t i) = Sample"
proof -
  have "sorted xs \<Longrightarrow> sorted (map fst xs)" for xs :: "(nat \<times> bool \<times> u64 \<times> nat) list"
    by (induction xs) (auto simp: less_eq_prod_def)
  then show "sorted (map fst (sampled t))" by (simp add: sampled_def)
  show "\<forall>x \<in> set (sampled t). fst x = result_at t (snd (snd (snd x)))"
    by (auto simp: sampled_def)
  assume "i \<in> chosen t"
  then have "i \<in> (\<lambda>x. snd (snd (snd x))) ` set (sampled t)"
    using sample_subset[of t "sampled t"] unfolding chosen_def by blast
  then show "i < kept_count t \<and> fate_of t (result_at t i) = Sample" by (auto simp: sampled_def)
qed

text \<open>What is retained of a result keeps to its allowance.\<close>

lemma retained_allowance:
  "(\<Sum>i | i < kept_count t \<and> result_at t i = r \<and> retained t i. slot_cost t i)
   \<le> allowance (result_sum t r) (fate_of t r)"
proof (cases "fate_of t r")
  case Whole
  have "(\<Sum>i | i < kept_count t \<and> result_at t i = r \<and> retained t i. slot_cost t i)
      \<le> (\<Sum>i | i < kept_count t \<and> result_at t i = r. slot_cost t i)"
    by (rule sum_mono2) auto
  then show ?thesis using Whole by (simp add: allowance_def result_sum_slots)
next
  case Sample
  let ?g = "\<lambda>i. if result_at t i = r then slot_cost t i else 0"
  have "{i. i < kept_count t \<and> result_at t i = r \<and> retained t i} = {i \<in> chosen t. result_at t i = r}"
    using Sample sampled_props(3)[of _ t] by (auto simp: retained_def)
  then have "(\<Sum>i | i < kept_count t \<and> result_at t i = r \<and> retained t i. slot_cost t i) = (\<Sum>i \<in> chosen t. ?g i)"
    by (simp add: sum.inter_filter chosen_def)
  also have "\<dots> \<le> chosen_cost t r (sample t (sampled t) (0, 0, 0))"
    unfolding chosen_def chosen_cost_def by (rule sum_set_le_sum_list)
  also have "\<dots> \<le> OLDER_SHARE"
    using sample_share[of "sampled t" t "(0, 0, 0)" r] sampled_props(1,2) by simp
  finally show ?thesis using Sample by (simp add: allowance_def)
next
  case Forget
  then have "{i. i < kept_count t \<and> result_at t i = r \<and> retained t i} = {}"
    using sampled_props(3)[of _ t] by (auto simp: retained_def)
  then show ?thesis by (simp only: sum.empty le0)
qed

lemma taint_room_ok:
  assumes "store_ok t"
  shows "store_ok (make_room t)" and "tk_cost (make_room t) \<le> RECENT_COST + OLDER_COST"
    and "kept_tokens (make_room t) = map (token_at t) (filter (retained t) [0..<kept_count t])"
    and "same_keys (make_room t) t"
proof -
  define u where "u = t\<lparr>tk_tokens := map (\<lambda>i. tk_tokens t ! i) (filter (retained t) [0..<kept_count t])\<rparr>"
  have mr: "make_room t = reindex u" by (simp add: make_room_retained u_def)
  have ku: "kept_tokens u = map (token_at t) (filter (retained t) [0..<kept_count t])"
    by (simp add: kept_tokens_def u_def token_at_def comp_def)
  have "inj_on (token_at t) {i. i < kept_count t}"
    using assms by (intro inj_onI) (auto simp: store_ok_def intro: token_at_inject[of t])
  then have "distinct (kept_tokens u)" unfolding ku by (auto simp: distinct_map intro: inj_on_subset)
  moreover have "\<forall>x \<in> set (tk_tokens u). MIN_TOKEN_LEN \<le> length (rc_token x)
      \<and> length (rc_token x) \<le> MAX_KEPT_TOKEN_BYTES \<and> rc_result x \<le> tk_results u"
    using assms by (auto simp: u_def store_ok_def)
  ultimately have ri: "store_ok (reindex u)" "same_tokens (reindex u) u" by (rule reindex_ok)+
  then show "store_ok (make_room t)" by (simp add: mr)
  show kt: "kept_tokens (make_room t) = map (token_at t) (filter (retained t) [0..<kept_count t])"
    using same_tokens_map[OF ri(2), of rc_token] by (simp add: mr ku[symmetric] kept_tokens_def)
  show "same_keys (make_room t) t" using ri(2) by (simp add: mr same_tokens_def same_keys_def u_def)
  let ?keys = "fst ` set (tk_result_cost t)"
  have costs: "costs_ok t" using assms by (simp add: store_ok_def)
  then have wf: "bmap_wf (tk_result_cost t)" by (simp add: costs_ok_def)
  let ?S = "{i. i < kept_count t \<and> retained t i}"
  have "tk_cost (make_room t) = (\<Sum>i \<leftarrow> filter (retained t) [0..<kept_count t]. slot_cost t i)"
    using ri(1) kt by (simp add: mr store_ok_def costs_ok_def comp_def)
  also have "\<dots> = (\<Sum>i \<in> ?S. slot_cost t i)"
    by (subst sum_list_distinct_conv_sum_set) (auto intro: arg_cong[of _ _ "sum (slot_cost t)"])
  also have "\<dots> = (\<Sum>r \<in> ?keys. \<Sum>i \<in> {i \<in> ?S. result_at t i = r}. slot_cost t i)"
  proof (rule sum.group[symmetric])
    show "(\<lambda>i. result_at t i) ` ?S \<subseteq> ?keys"
    proof safe
      fix i assume "i < kept_count t"
      then have "result_sum t (result_at t i) \<noteq> 0"
        using result_sum_pos by blast
      then have "bget (tk_result_cost t) (result_at t i) = Some (result_sum t (result_at t i))"
        using costs by (simp add: costs_ok_def)
      then show "result_at t i \<in> ?keys" using bget_in by force
    qed
  qed simp_all
  also have "\<dots> \<le> (\<Sum>r \<in> ?keys. allowance (result_sum t r) (fate_of t r))"
    by (rule sum_mono) (use retained_allowance in \<open>auto simp: conj_ac\<close>)
  also have "\<dots> = (\<Sum>(r, c) \<in> set (tk_result_cost t). allowance c (fate_of t r))"
  proof (subst sum.reindex)
    show "inj_on fst (set (tk_result_cost t))" using bmap_wf_distinct[OF wf] by (simp add: distinct_map)
    have "result_sum t r = c" if "(r, c) \<in> set (tk_result_cost t)" for r c
      using in_bget[OF wf that] costs by (auto simp: costs_ok_def split: if_splits)
    then show "sum ((\<lambda>r. allowance (result_sum t r) (fate_of t r)) \<circ> fst) (set (tk_result_cost t))
        = (\<Sum>(r, c) \<in> set (tk_result_cost t). allowance c (fate_of t r))"
      by (intro sum.cong) auto
  qed
  also have "\<dots> = (\<Sum>(r, c) \<leftarrow> tk_result_cost t. allowance c (fate_of t r))"
    using bmap_wf_distinct[OF wf] by (simp add: sum_list_distinct_conv_sum_set distinct_map)
  also have "\<dots> \<le> RECENT_COST + OLDER_COST" by (rule fates_total[OF wf])
  finally show "tk_cost (make_room t) \<le> RECENT_COST + OLDER_COST" .
qed

text \<open>The newest result is kept whole.\<close>

lemma newest_whole:
  assumes "store_ok t" "i < kept_count t" "result_at t i = tk_results t"
    and "result_sum t (tk_results t) \<le> RECENT_COST"
  shows "fate_of t (tk_results t) = Whole"
proof -
  let ?m = "tk_result_cost t" and ?R = "tk_results t"
  have costs: "costs_ok t" using assms(1) by (simp add: store_ok_def)
  then have wf: "bmap_wf ?m" by (simp add: costs_ok_def)
  have sum: "result_sum t r \<noteq> 0 \<and> result_sum t r = c" if "(r, c) \<in> set ?m" for r c
    using in_bget[OF wf that] costs by (auto simp: costs_ok_def split: if_splits)
  have le: "r \<le> ?R" if r: "(r, c) \<in> set ?m" for r c
  proof -
    have "{i. i < kept_count t \<and> result_at t i = r} \<noteq> {}" using sum[OF r] unfolding result_sum_slots by force
    then obtain j where "j < kept_count t" "result_at t j = r" by blast
    then show ?thesis using assms(1) unfolding store_ok_def by (metis nth_mem)
  qed
  have "result_sum t ?R \<noteq> 0"
    using result_sum_pos[OF assms(2)] assms(3) by simp
  then have R: "(?R, result_sum t ?R) \<in> set ?m" by (intro bget_in) (use costs in \<open>simp add: costs_ok_def\<close>)
  then obtain m' x where m: "?m = m' @ [x]" by (cases ?m rule: rev_cases) auto
  have "fst y < fst x" if "y \<in> set m'" for y
    using wf that by (auto simp: m bmap_wf_def sorted_wrt_append)
  then have "x = (?R, result_sum t ?R)" using R le[of "fst x" "snd x"] unfolding m by fastforce
  then show ?thesis using assms(4) by (simp add: fate_of_def m)
qed

subsection \<open>What a recorded result leaves\<close>

lemma record_result_ok:
  assumes "is_utf8 txt" "store_ok t"
  shows "store_ok (record_result txt p t)"
    and "tk_cost (record_result txt p t) \<le> RECENT_COST + OLDER_COST"
    and "set (kept_tokens (record_result txt p t))
      \<subseteq> set (kept_tokens t) \<union> (\<lambda>raw. kept_part raw p) ` set (tokenize txt)"
    and "same_keys (record_result txt p t) (t\<lparr>tk_results := tk_results t + 1\<rparr>)"
proof -
  let ?u = "record_tokens txt p t"
  have u: "store_ok ?u" using record_tokens_ok(1)[OF assms] by (simp add: recording_def)
  have kt: "set (kept_tokens (make_room ?u)) \<subseteq> set (kept_tokens ?u)"
    unfolding taint_room_ok(3)[OF u] by (auto simp: kept_tokens_nth[symmetric] kept_tokens_def)
  show "store_ok (record_result txt p t)" "tk_cost (record_result txt p t) \<le> RECENT_COST + OLDER_COST"
    using u taint_room_ok(1,2)[OF u] by (auto simp: record_result_def Let_def)
  show "set (kept_tokens (record_result txt p t))
      \<subseteq> set (kept_tokens t) \<union> (\<lambda>raw. kept_part raw p) ` set (tokenize txt)"
    using kt record_tokens_ok(2)[OF assms] by (auto simp: record_result_def Let_def)
  show "same_keys (record_result txt p t) (t\<lparr>tk_results := tk_results t + 1\<rparr>)"
    using record_tokens_ok(3)[OF assms] taint_room_ok(4)[OF u] by (simp add: record_result_def Let_def same_keys_def)
qed

lemma sum_list_set_le:
  fixes f :: "'a \<Rightarrow> nat"
  assumes "distinct xs" "set xs \<subseteq> g ` set ys"
  shows "sum_list (map f xs) \<le> sum_list (map (f \<circ> g) ys)"
proof -
  have "sum_list (map f xs) = sum f (set xs)" using assms(1) by (simp add: sum_list_distinct_conv_sum_set)
  also have "\<dots> \<le> sum f (set (map g ys))" by (rule sum_mono2) (use assms(2) in auto)
  also have "\<dots> \<le> sum_list (map f (map g ys))" by (rule sum_set_le_sum_list)
  finally show ?thesis by simp
qed

text \<open>What one result holds costs no more than its text can.\<close>

lemma newest_cost:
  assumes "is_utf8 txt" "store_ok t"
  shows "result_sum (record_tokens txt p t) (tk_results t + 1) \<le> MAX_RESULT_COST"
proof -
  let ?u = "record_tokens txt p t" and ?T = "(\<lambda>raw. kept_part raw p) ` set (tokenize txt)"
  let ?held = "filter (\<lambda>x. rc_result x = tk_results t + 1) (tk_tokens ?u)"
  have u: "recording ?T ?u" "tk_results ?u = tk_results t + 1"
    using record_tokens_ok[OF assms] by (simp_all add: same_keys_def)
  have "distinct (map rc_token ?held)"
    using u(1) by (auto simp: recording_def store_ok_def kept_tokens_def distinct_map_filter)
  moreover have "set (map rc_token ?held) \<subseteq> ?T" using u by (auto simp: recording_def)
  ultimately have "sum_list (map cost_of (map rc_token ?held))
      \<le> sum_list (map (cost_of \<circ> (\<lambda>raw. kept_part raw p)) (tokenize txt))"
    by (rule sum_list_set_le)
  also have "\<dots> \<le> sum_list (map cost_of (tokenize txt))"
    by (rule sum_list_mono) (use prefix_length_le[OF prefix_kept_part] in \<open>simp add: cost_of_def\<close>)
  also have "\<dots> \<le> MAX_RESULT_COST" by (rule tokens_cost)
  finally show ?thesis by (simp add: result_sum_def comp_def)
qed

text \<open>A fact of every kept token that each step of recording keeps.\<close>

lemma recording_start: "store_ok t \<Longrightarrow> recording T (t\<lparr>tk_results := tk_results t + 1\<rparr>)"
  using store_ok_results[of t "tk_results t + 1"] by (fastforce simp: recording_def store_ok_def)

definition all_kept :: "(string \<Rightarrow> provenance \<Rightarrow> nat \<Rightarrow> bool) \<Rightarrow> tracker \<Rightarrow> bool" where
  "all_kept Q t \<longleftrightarrow> (\<forall>x \<in> set (tk_tokens t). Q (rc_token x) (rc_provenance x) (rc_result x))"

lemma all_kept_nth: "all_kept Q t \<Longrightarrow> i < kept_count t
    \<Longrightarrow> Q (rc_token (tk_tokens t ! i)) (rc_provenance (tk_tokens t ! i)) (result_at t i)"
  by (simp add: all_kept_def)

lemma all_kept_insert: "all_kept Q t \<Longrightarrow> Q tok p (tk_results t) \<Longrightarrow> all_kept Q (insert_token tok p t)"
proof -
  assume a: "all_kept Q t" "Q tok p (tk_results t)"
  let ?v = "\<lambda>x. (rc_token x, rc_provenance x, rc_result x)"
  have "\<forall>(a, b, c) \<in> set (map ?v (tk_tokens (insert_token tok p t))). Q a b c"
    unfolding insert_token_tokens using a by (auto simp: all_kept_def)
  then show ?thesis by (auto simp: all_kept_def)
qed

lemma all_kept_update:
  assumes "all_kept Q t" "slot < kept_count t \<Longrightarrow> Q (rc_token r) (rc_provenance r) (rc_result r)"
  shows "all_kept Q (t\<lparr>tk_tokens := (tk_tokens t)[slot := r]\<rparr>)"
  using assms by (cases "slot < kept_count t")
    (auto simp: all_kept_def list_update_beyond dest!: set_update_subset_insert[THEN subsetD])

lemma all_kept_content:
  assumes "all_kept Q t" "\<And>a b c. Q a b c \<Longrightarrow> Q a Content c"
  shows "all_kept Q (set_content slot t)"
  unfolding set_content_def by (rule all_kept_update[OF assms(1)]) (use all_kept_nth[OF assms(1)] assms(2) in auto)

lemma all_kept_move:
  assumes "all_kept Q t" "\<And>a b c. Q a b c \<Longrightarrow> Q a b (tk_results t)"
  shows "all_kept Q (move_to_newest slot t)"
proof -
  have "all_kept Q (t\<lparr>tk_tokens := (tk_tokens t)[slot := (tk_tokens t ! slot)\<lparr>rc_result := tk_results t\<rparr>]\<rparr>)"
    by (rule all_kept_update[OF assms(1)]) (use all_kept_nth[OF assms(1)] assms(2) in auto)
  then show ?thesis by (simp add: all_kept_def move_to_newest_def Let_def)
qed

lemma all_kept_record_token:
  assumes "all_kept Q t" "record_token p raw (t, seen, whole) = (t', seen', whole')" "tk_results t = R"
    and "find_token t (kept_part raw p) = None \<Longrightarrow> Q (kept_part raw p) p R"
    and "\<And>a b c. p = Content \<Longrightarrow> Q a b c \<Longrightarrow> Q a Content c"
  shows "all_kept Q t' \<and> tk_results t' = R"
proof (cases "find_token t (kept_part raw p)")
  case None
  then show ?thesis using assms insert_token_keys[of "kept_part raw p" p t]
    by (auto simp: record_token_def Let_def same_keys_def intro: all_kept_insert)
next
  case (Some slot)
  then show ?thesis using assms all_kept_content[OF assms(1), of slot] set_content_keys[of slot t]
    by (auto simp: record_token_def Let_def same_keys_def split: if_splits)
qed

lemma all_kept_record_fold:
  assumes "all_kept Q t" "recording T t" "\<forall>s \<in> set seen. s < kept_count t \<and> token_at t s \<in> T"
    and "\<forall>raw \<in> set toks. kept_part raw p \<in> T \<and> MIN_TOKEN_LEN \<le> length (kept_part raw p)
      \<and> length (kept_part raw p) \<le> MAX_KEPT_TOKEN_BYTES"
    and "fold (record_token p) toks (t, seen, whole) = (t', seen', whole')" "tk_results t = R"
    and "K \<subseteq> set (kept_tokens t)"
    and "\<And>raw. raw \<in> set toks \<Longrightarrow> kept_part raw p \<notin> K \<Longrightarrow> Q (kept_part raw p) p R"
    and "\<And>a b c. p = Content \<Longrightarrow> Q a b c \<Longrightarrow> Q a Content c"
  shows "all_kept Q t' \<and> tk_results t' = R"
  using assms(1-8)
proof (induction toks arbitrary: t seen whole)
  case (Cons raw toks)
  obtain u s w where u: "record_token p raw (t, seen, whole) = (u, s, w)" by (metis prod_cases3)
  have ok: "recording T u \<and> (\<forall>s \<in> set s. s < kept_count u \<and> token_at u s \<in> T)
    \<and> kept_tokens u = kept_tokens t @ (if kept_part raw p \<in> set (kept_tokens t) then [] else [kept_part raw p])
    \<and> same_keys u t"
    by (rule record_token_ok[OF Cons.prems(2,3) _ _ _ u]) (use Cons.prems(4) in simp_all)
  have "all_kept Q u \<and> tk_results u = R"
  proof (rule all_kept_record_token[OF Cons.prems(1) u Cons.prems(6) _ assms(9)])
    assume "find_token t (kept_part raw p) = None"
    then have "kept_part raw p \<notin> K"
      using find_token_None[of t] Cons.prems(2,7) by (auto simp: recording_def store_ok_def)
    then show "Q (kept_part raw p) p R" using Cons.prems(8) by simp
  qed
  moreover have "K \<subseteq> set (kept_tokens u)" using ok Cons.prems(7) by auto
  moreover have "fold (record_token p) toks (u, s, w) = (t', seen', whole')" using Cons.prems(5) u by simp
  ultimately show ?case using Cons.IH[of u s w] ok Cons.prems(4,8) by simp
qed simp

lemma all_kept_hand_over:
  assumes "all_kept Q t" "tk_results t = R" "\<And>a b c. Q a b c \<Longrightarrow> Q a b R"
  shows "all_kept Q (fold (hand_over w) ss t) \<and> tk_results (fold (hand_over w) ss t) = R"
  using assms(1,2)
proof (induction ss arbitrary: t)
  case (Cons x ss)
  have "all_kept Q (hand_over w x t) \<and> tk_results (hand_over w x t) = R"
    using all_kept_move[OF Cons.prems(1), of x] move_to_newest_keys[of x t] Cons.prems assms(3)
    by (simp add: hand_over_def Let_def same_keys_def)
  then show ?case using Cons.IH by simp
qed simp

lemma all_kept_record_tokens:
  assumes "is_utf8 txt" "store_ok t" "all_kept Q t" "R = tk_results t + 1"
    and "\<And>raw. raw \<in> set (tokenize txt) \<Longrightarrow> kept_part raw p \<notin> set (kept_tokens t) \<Longrightarrow> Q (kept_part raw p) p R"
    and "\<And>a b c. p = Content \<Longrightarrow> Q a b c \<Longrightarrow> Q a Content c" "\<And>a b c. Q a b c \<Longrightarrow> Q a b R"
  shows "all_kept Q (record_tokens txt p t)"
proof -
  let ?t = "t\<lparr>tk_results := tk_results t + 1\<rparr>" and ?T = "(\<lambda>raw. kept_part raw p) ` set (tokenize txt)"
  obtain u seen whole where u: "fold (record_token p) (tokenize txt) (?t, [], 0) = (u, seen, whole)"
    by (metis prod_cases3)
  have "all_kept Q ?t" using assms(3) by (simp add: all_kept_def)
  then have "all_kept Q u \<and> tk_results u = R"
    by (rule all_kept_record_fold[OF _ recording_start[OF assms(2), of ?T] _ _ u, where K = "set (kept_tokens t)"])
      (use assms(4-6) kept_part_of_text[OF assms(1)] in \<open>auto simp: kept_tokens_def\<close>)
  then show ?thesis unfolding record_tokens_def u Let_def using all_kept_hand_over assms(7) by simp
qed

text \<open>A token no earlier result holds is kept.\<close>

lemma new_token_kept:
  assumes "is_utf8 txt" "store_ok t" "raw \<in> set (tokenize txt)" "kept_part raw p \<notin> set (kept_tokens t)"
  shows "kept_part raw p \<in> set (kept_tokens (record_result txt p t))"
proof -
  let ?u = "record_tokens txt p t"
  have u: "store_ok ?u" "tk_results ?u = tk_results t + 1"
    using record_tokens_ok[OF assms(1,2)] by (simp_all add: recording_def same_keys_def)
  have "kept_part raw p \<in> set (kept_tokens ?u)" using record_tokens_ok(2)[OF assms(1,2)] assms(3) by auto
  then obtain i where i: "i < kept_count ?u" "token_at ?u i = kept_part raw p"
    by (metis in_set_conv_nth kept_tokens_def kept_tokens_nth length_map)
  have "all_kept (\<lambda>a b c. a \<in> set (kept_tokens t) \<or> c = tk_results t + 1) ?u"
    by (rule all_kept_record_tokens[OF assms(1,2)]) (auto simp: all_kept_def kept_tokens_def)
  then have "result_at ?u i = tk_results ?u"
    using all_kept_nth[OF _ i(1)] i(2) assms(4) u(2) by (fastforce simp: token_at_def)
  then have "fate_of ?u (result_at ?u i) = Whole"
    using newest_whole[OF u(1) i(1)] newest_cost[OF assms(1,2), of p] u(2)
    by (simp add: MAX_RESULT_COST_def RECENT_COST_def MAX_SCAN_BYTES_def MIN_TOKEN_LEN_def TOKEN_OVERHEAD_def)
  then have "kept_part raw p \<in> set (kept_tokens (make_room ?u))"
    unfolding taint_room_ok(3)[OF u(1)] using i by (force simp: retained_def)
  then show ?thesis using \<open>kept_part raw p \<in> set (kept_tokens ?u)\<close> by (simp add: record_result_def Let_def)
qed

subsection \<open>Where a kept token came from\<close>

text \<open>The tokens kept as listed names.\<close>

definition listed :: "tracker \<Rightarrow> string set" where
  "listed t = {rc_token x | x. x \<in> set (tk_tokens t) \<and> rc_provenance x = Listing}"

lemma all_kept_make_room:
  assumes "store_ok t" "all_kept Q t"
  shows "all_kept Q (make_room t)"
proof -
  define u where "u = t\<lparr>tk_tokens := map (\<lambda>i. tk_tokens t ! i) (filter (retained t) [0..<kept_count t])\<rparr>"
  have "all_kept Q u" using assms(2) by (auto simp: all_kept_def u_def)
  have "distinct (kept_tokens u)"
  proof -
    have "inj_on (token_at t) {i. i < kept_count t}"
      using assms(1) by (intro inj_onI) (auto simp: store_ok_def intro: token_at_inject[of t])
    moreover have "kept_tokens u = map (token_at t) (filter (retained t) [0..<kept_count t])"
      by (simp add: kept_tokens_def u_def token_at_def comp_def)
    ultimately show ?thesis by (auto simp: distinct_map intro: inj_on_subset)
  qed
  moreover have "\<forall>x \<in> set (tk_tokens u). MIN_TOKEN_LEN \<le> length (rc_token x)
      \<and> length (rc_token x) \<le> MAX_KEPT_TOKEN_BYTES \<and> rc_result x \<le> tk_results u"
    using assms(1) by (auto simp: u_def store_ok_def)
  ultimately have same: "same_tokens (reindex u) u" by (rule reindex_ok)
  let ?v = "\<lambda>x. (rc_token x, rc_provenance x, rc_result x)"
  have v: "all_kept Q t' \<longleftrightarrow> (\<forall>y \<in> ?v ` set (tk_tokens t'). Q (fst y) (fst (snd y)) (snd (snd y)))" for t'
    by (simp add: all_kept_def)
  have im: "?v ` set (tk_tokens (reindex u)) = ?v ` set (tk_tokens u)"
    using same unfolding same_tokens_def by (metis (no_types, lifting) list.set_map)
  have "all_kept Q (reindex u)" using \<open>all_kept Q u\<close> unfolding v im .
  then show ?thesis by (simp add: make_room_retained u_def)
qed

lemma all_kept_record_result:
  assumes "is_utf8 txt" "store_ok t" "all_kept Q (record_tokens txt p t)"
  shows "all_kept Q (record_result txt p t)"
  using record_tokens_ok(1)[OF assms(1,2)] assms(3) all_kept_make_room
  by (simp add: record_result_def Let_def recording_def)

lemma record_content_token:
  assumes "recording T t" "record_token Content raw (t, seen, whole) = (t', seen', whole')"
  shows "all_kept (\<lambda>a b c. a = kept_part raw Content \<longrightarrow> b = Content) t'"
proof (cases "find_token t (kept_part raw Content)")
  case None
  then have "kept_part raw Content \<notin> set (kept_tokens t)"
    using find_token_None[of t] assms(1) by (simp add: recording_def store_ok_def)
  then have "all_kept (\<lambda>a b c. a = kept_part raw Content \<longrightarrow> b = Content) t"
    unfolding all_kept_def kept_tokens_def set_map by (metis imageI)
  then show ?thesis using assms(2) None by (auto simp: record_token_def Let_def intro: all_kept_insert)
next
  case (Some slot)
  then have slot: "slot < kept_count t" "token_at t slot = kept_part raw Content"
    using find_token_Some[of t] assms(1) by (auto simp: recording_def store_ok_def)
  have "rc_provenance (tk_tokens (set_content slot t) ! i) = Content"
    if "i < kept_count t" "rc_token (tk_tokens (set_content slot t) ! i) = kept_part raw Content" for i
  proof -
    have "token_at t i = token_at t slot"
      using that slot by (simp add: set_content_def nth_update_field token_at_def)
    then have "i = slot" using that(1) slot(1) assms(1)
      by (intro token_at_inject[of t]) (auto simp: recording_def store_ok_def)
    then show ?thesis using slot(1) by (simp add: set_content_def)
  qed
  moreover have "t' = set_content slot t" using assms(2) Some by (simp add: record_token_def Let_def)
  moreover have "kept_count (set_content slot t) = kept_count t" by (simp add: set_content_def)
  ultimately show ?thesis by (auto simp: all_kept_def in_set_conv_nth)
qed

lemma record_content_tokens:
  assumes "is_utf8 txt" "store_ok t" "raw \<in> set (tokenize txt)"
  shows "all_kept (\<lambda>a b c. a = kept_part raw Content \<longrightarrow> b = Content) (record_tokens txt Content t)"
proof -
  let ?t = "t\<lparr>tk_results := tk_results t + 1\<rparr>" and ?T = "(\<lambda>raw. kept_part raw Content) ` set (tokenize txt)"
  let ?Q = "\<lambda>a b c. a = kept_part raw Content \<longrightarrow> b = Content"
  obtain xs ys where split: "tokenize txt = xs @ raw # ys" using split_list[OF assms(3)] by blast
  obtain u su wu where u: "fold (record_token Content) xs (?t, [], 0) = (u, su, wu)" by (metis prod_cases3)
  obtain v sv wv where v: "record_token Content raw (u, su, wu) = (v, sv, wv)" by (metis prod_cases3)
  obtain w sw ww where w: "fold (record_token Content) ys (v, sv, wv) = (w, sw, ww)" by (metis prod_cases3)
  have ok: "\<forall>raw \<in> set (tokenize txt). kept_part raw Content \<in> ?T \<and> MIN_TOKEN_LEN \<le> length (kept_part raw Content)
      \<and> length (kept_part raw Content) \<le> MAX_KEPT_TOKEN_BYTES"
    using kept_part_of_text[OF assms(1)] by blast
  have ru: "recording ?T u \<and> (\<forall>s \<in> set su. s < kept_count u \<and> token_at u s \<in> ?T)
    \<and> prefix (kept_tokens ?t) (kept_tokens u)
    \<and> set (kept_tokens u) = set (kept_tokens ?t) \<union> (\<lambda>raw. kept_part raw Content) ` set xs \<and> same_keys u ?t"
    by (rule record_tokens_fold[OF recording_start[OF assms(2)] _ _ u]) (use ok split in simp_all)
  have rv: "recording ?T v \<and> (\<forall>s \<in> set sv. s < kept_count v \<and> token_at v s \<in> ?T)
    \<and> kept_tokens v = kept_tokens u @ (if kept_part raw Content \<in> set (kept_tokens u) then [] else [kept_part raw Content])
    \<and> same_keys v u"
    by (rule record_token_ok[OF _ _ _ _ _ v]) (use ok ru assms(3) in simp_all)
  have "all_kept ?Q v" by (rule record_content_token[OF _ v]) (use ru in blast)
  then have "all_kept ?Q w \<and> tk_results w = tk_results v"
    by (rule all_kept_record_fold[OF _ _ _ _ w refl, where K = "{}" and T = ?T]) (use rv ok split in simp_all)
  then have "all_kept ?Q (fold (hand_over k) ss w)" for k ss
    using all_kept_hand_over[of ?Q w "tk_results w"] by simp
  moreover have "fold (record_token Content) (tokenize txt) (?t, [], 0) = (w, sw, ww)"
    using u v w unfolding split by simp
  ultimately show ?thesis unfolding record_tokens_def Let_def by simp
qed

lemma record_result_listed:
  assumes "is_utf8 txt" "store_ok t"
  shows "listed (record_result txt p t) \<subseteq>
     (if p = Listing then listed t \<union> ((\<lambda>raw. kept_part raw p) ` set (tokenize txt) - set (kept_tokens t))
      else listed t - (\<lambda>raw. kept_part raw p) ` set (tokenize txt))"
proof -
  let ?T = "(\<lambda>raw. kept_part raw p) ` set (tokenize txt)"
  have "all_kept (\<lambda>a b c. b = Listing \<longrightarrow> a \<in> listed t \<or> (p = Listing \<and> a \<in> ?T - set (kept_tokens t)))
      (record_result txt p t)"
    by (rule all_kept_record_result[OF assms], rule all_kept_record_tokens[OF assms])
      (auto simp: all_kept_def listed_def)
  moreover have "all_kept (\<lambda>a b c. a = kept_part raw p \<longrightarrow> b = Content) (record_result txt p t)"
    if "p = Content" "raw \<in> set (tokenize txt)" for raw
    using all_kept_record_result[OF assms record_content_tokens[OF assms that(2)]] that(1) by simp
  ultimately show ?thesis unfolding listed_def[of "record_result txt p t"]
    by (cases p) (fastforce simp: all_kept_def)+
qed

subsection \<open>The alert\<close>

lemma search_leaves_None:
  "search_leaves t ro leaves n = Some None \<Longrightarrow> (s, b) \<in> set leaves
   \<Longrightarrow> \<exists>n m. first_recorded_in t (reuse_counts ro s b) s n = Some (m, None)"
proof (induction leaves arbitrary: n)
  case (Cons l leaves)
  obtain s' b' where l: "l = (s', b')" by (cases l)
  obtain m where m: "first_recorded_in t (reuse_counts ro s' b') s' n = Some (m, None)"
    "search_leaves t ro leaves m = Some None"
    using Cons.prems(1) by (auto simp: l split: option.splits)
  show ?case
  proof (cases "(s, b) = (s', b')")
    case True
    then show ?thesis using m(1) by blast
  next
    case False
    then show ?thesis using Cons.IH[OF m(2)] Cons.prems(2) l by auto
  qed
qed simp

lemma search_leaves_Some:
  "search_leaves t ro leaves n = Some (Some slot)
   \<Longrightarrow> \<exists>s b n m. (s, b) \<in> set leaves \<and> first_recorded_in t (reuse_counts ro s b) s n = Some (m, Some slot)"
proof (induction leaves arbitrary: n)
  case (Cons l leaves)
  obtain s b where l: "l = (s, b)" by (cases l)
  consider m where "first_recorded_in t (reuse_counts ro s b) s n = Some (m, Some slot)"
    | m where "search_leaves t ro leaves m = Some (Some slot)"
    using Cons.prems by (auto simp: l split: option.splits)
  then show ?case
  proof cases
    case 1
    then show ?thesis using l by (metis list.set_intros(1))
  next
    case 2
    then show ?thesis using Cons.IH by (meson list.set_intros(2))
  qed
qed simp

text \<open>An argument that can be searched in the steps there are is searched.\<close>

definition leaves_bytes :: "(string \<times> bool) list \<Rightarrow> nat" where
  "leaves_bytes leaves = (\<Sum>(s, b) \<leftarrow> leaves. length s)"

lemma search_leaves_cost:
  assumes "store_ok t" "\<forall>(s, b) \<in> set leaves. no_collision t s"
    and "STEPS_PER_BYTE * leaves_bytes leaves \<le> n"
  shows "search_leaves t ro leaves n \<noteq> None"
  using assms(2,3)
proof (induction leaves arbitrary: n)
  case (Cons l leaves)
  obtain s b where l: "l = (s, b)" by (cases l)
  have n: "STEPS_PER_BYTE * length s + STEPS_PER_BYTE * leaves_bytes leaves \<le> n"
    using Cons.prems(2) by (simp add: l leaves_bytes_def algebra_simps)
  obtain m r where m: "first_recorded_in t (reuse_counts ro s b) s n = Some (m, r)" "n \<le> m + STEPS_PER_BYTE * length s"
  proof -
    have "no_collision t s" "STEPS_PER_BYTE * length s \<le> n" using Cons.prems(1) n by (simp_all add: l)
    then show thesis using first_recorded_in_cost[OF assms(1) _ suffix_order.order_refl] that by blast
  qed
  show ?case
  proof (cases r)
    case None
    have "search_leaves t ro leaves m \<noteq> None" using Cons.IH[of m] Cons.prems(1) n m(2) by simp
    then show ?thesis using m None by (simp add: l)
  next
    case (Some x)
    then show ?thesis using m by (simp add: l)
  qed
qed simp

subsection \<open>Properties\<close>

text \<open>A connection's tracker after the results it has relayed.\<close>

definition record_all :: "(string \<times> provenance) list \<Rightarrow> tracker \<Rightarrow> tracker" where
  "record_all rs t = fold (\<lambda>(s, p). record_result s p) rs t"

lemma record_all_ok:
  assumes "\<forall>(s, p) \<in> set rs. is_utf8 s" "store_ok t" "tk_cost t \<le> RECENT_COST + OLDER_COST"
  shows "store_ok (record_all rs t) \<and> tk_cost (record_all rs t) \<le> RECENT_COST + OLDER_COST
    \<and> tk_results (record_all rs t) = tk_results t + length rs"
  using assms
proof (induction rs arbitrary: t)
  case (Cons r rs)
  obtain s p where r: "r = (s, p)" by (cases r)
  have s: "is_utf8 s" using Cons.prems(1) by (simp add: r)
  have "tk_results (record_result s p t) = tk_results t + 1"
    using record_result_ok(4)[OF s Cons.prems(2), of p] by (simp add: same_keys_def)
  then show ?case
    using Cons.IH[OF _ record_result_ok(1,2)[OF s Cons.prems(2)], of p] Cons.prems(1)
    by (simp add: record_all_def r)
qed (simp add: record_all_def)

lemma record_all_new:
  assumes "\<forall>(s, p) \<in> set rs. is_utf8 s"
  shows "store_ok (record_all rs (tracker_new h k))"
  using record_all_ok[OF assms store_ok_new] by (simp add: tracker_new_def)

text \<open>C39: Whatever results a connection relays, and in whatever order, the store of taint tokens
  stays within its budget of 1152 KiB, the two indexes, the token list and the costs per result
  agree, no token is kept twice, and every kept token has between 12 and 256 bytes.\<close>

theorem taint_store_bounded:
  assumes "\<forall>(s, p) \<in> set rs. is_utf8 s"
  shows "store_ok (record_all rs (tracker_new h k))
    \<and> tk_cost (record_all rs (tracker_new h k)) \<le> 1152 * 1024
    \<and> sum_list (map cost_of (kept_tokens (record_all rs (tracker_new h k)))) \<le> 1152 * 1024
    \<and> (\<forall>tok \<in> set (kept_tokens (record_all rs (tracker_new h k))). 12 \<le> length tok \<and> length tok \<le> 256)"
proof -
  let ?t = "record_all rs (tracker_new h k)"
  have t: "store_ok ?t" "tk_cost ?t \<le> 1152 * 1024"
    using record_all_ok[OF assms store_ok_new, of h k] by (simp_all add: tracker_new_def RECENT_COST_def OLDER_COST_def)
  then have "tk_cost ?t = sum_list (map cost_of (kept_tokens ?t))" by (simp add: store_ok_def costs_ok_def)
  moreover have "\<forall>tok \<in> set (kept_tokens ?t). 12 \<le> length tok \<and> length tok \<le> 256"
    using t(1) by (auto simp: store_ok_def kept_tokens_def MIN_TOKEN_LEN_def MAX_KEPT_TOKEN_BYTES_def)
  ultimately show ?thesis using t by simp
qed

theorem taint_store_bounded_witness:
  "store_ok (record_all [(''see https://evil.example/x now'', Content)] (tracker_new (\<lambda>_. 0) (\<lambda>_. 0)))"
  using taint_store_bounded[of "[(''see https://evil.example/x now'', Content)]" "\<lambda>_. 0" "\<lambda>_. 0"] by simp

lemma arg_taint_alert_cases:
  assumes "store_ok t"
  shows "arg_taint_alert t tool args = None \<longleftrightarrow>
      search_leaves t (tool \<in> set READ_ONLY_TOOLS \<and> other_args_are_inert args) (walk_args args) MAX_SEARCH_STEPS = Some None
      \<or> tk_tokens t = []"
    and "arg_taint_alert t tool args = Some a \<Longrightarrow> va_block a \<and> va_rule a = ''AG-TAINT''"
  by (auto simp: arg_taint_alert_def Let_def split: option.splits if_splits)

text \<open>What no alert means, whatever the hash, for a call that is not exempt, and with a hash that
  does not collide, for every call.\<close>

lemma no_alert_unexempt:
  assumes "store_ok t" "arg_taint_alert t tool args = None" "(s, b) \<in> set (walk_args args)"
    and "\<not> (tool \<in> set READ_ONLY_TOOLS \<and> other_args_are_inert args)" "i < kept_count t"
  shows "\<not> contains s (token_at t i)"
proof -
  let ?c = "reuse_counts False s b"
  have "search_leaves t False (walk_args args) MAX_SEARCH_STEPS = Some None"
    using assms(2,4,5) unfolding arg_taint_alert_cases[OF assms(1)] by auto
  then obtain n m where "first_recorded_in t ?c s n = Some (m, None)"
    using search_leaves_None[OF _ assms(3)] by blast
  moreover have all: "?c r" for r by (simp add: reuse_counts_def)
  ultimately have "plain_search t ?c s = None"
    using first_recorded_in_some[OF assms(1), of ?c] by blast
  then show ?thesis by (rule plain_search_None[OF assms(1) _ assms(5) all])
qed




text \<open>The alert in full, for arguments whose pieces do not collide with a kept token under the
  keyed hash. No alert means that every kept token that occurs in a string of the arguments is
  there as an exempt listed name: a read-only tool with inert other arguments, a path argument
  that is a local path, whole components of it. Conversely a call with no other occurrence raises
  none, when its strings are short enough for the search's steps: 31189 bytes always are.\<close>

theorem arg_taint_alert_spec:
  assumes "store_ok t" "\<forall>(s, b) \<in> set (walk_args args). no_collision t s"
  shows "(arg_taint_alert t tool args = None \<longrightarrow>
      (\<forall>(s, b) \<in> set (walk_args args). \<forall>r \<in> set (tk_tokens t). contains s (rc_token r) \<longrightarrow>
        tool \<in> set READ_ONLY_TOOLS \<and> other_args_are_inert args \<and> b \<and> rc_provenance r = Listing
        \<and> is_local_path s \<and> names_whole_components s (rc_token r)))
   \<and> (leaves_bytes (walk_args args) \<le> 31189 \<longrightarrow>
      (\<forall>(s, b) \<in> set (walk_args args). \<forall>r \<in> set (tk_tokens t). contains s (rc_token r) \<longrightarrow>
        tool \<in> set READ_ONLY_TOOLS \<and> other_args_are_inert args \<and> b \<and> rc_provenance r = Listing
        \<and> is_local_path s \<and> names_whole_components s (rc_token r))
      \<longrightarrow> arg_taint_alert t tool args = None)"
proof -
  let ?ro = "tool \<in> set READ_ONLY_TOOLS \<and> other_args_are_inert args"
  have inj: "inj_on (tk_hash_key t) (set (kept_tokens t))" if "(s, b) \<in> set (walk_args args)" for s b
    using assms(2) that by (auto simp: no_collision_def intro: inj_on_subset)
  have exempt: "\<not> contains s (rc_token r) \<or> \<not> reuse_counts ?ro s b r"
    if none: "arg_taint_alert t tool args = None" and l: "(s, b) \<in> set (walk_args args)" and r: "r \<in> set (tk_tokens t)" for s b r
  proof -
    obtain i where i: "i < kept_count t" "r = tk_tokens t ! i" using r by (auto simp: in_set_conv_nth)
    then have "search_leaves t ?ro (walk_args args) MAX_SEARCH_STEPS = Some None"
      using none unfolding arg_taint_alert_cases[OF assms(1)] by auto
    then obtain n m where "first_recorded_in t (reuse_counts ?ro s b) s n = Some (m, None)"
      using search_leaves_None[OF _ l] by blast
    then have "plain_search t (reuse_counts ?ro s b) s = None"
      using first_recorded_in_exact[OF assms(1) inj[OF l]] by metis
    then show ?thesis using plain_search_None[OF assms(1) _ i(1)] i(2) by (auto simp: token_at_def)
  qed
  have quiet: "arg_taint_alert t tool args = None"
    if short: "leaves_bytes (walk_args args) \<le> 31189" and ex: "\<And>s b r. (s, b) \<in> set (walk_args args)
        \<Longrightarrow> r \<in> set (tk_tokens t) \<Longrightarrow> contains s (rc_token r) \<Longrightarrow> \<not> reuse_counts ?ro s b r"
  proof -
    have "STEPS_PER_BYTE * leaves_bytes (walk_args args) \<le> MAX_SEARCH_STEPS"
      using short by (simp add: STEPS_PER_BYTE_def MAX_KEPT_TOKEN_BYTES_def MAX_SEARCH_STEPS_def)
    then obtain x where x: "search_leaves t ?ro (walk_args args) MAX_SEARCH_STEPS = Some x"
      using search_leaves_cost[OF assms] by blast
    have "x = None"
    proof (rule ccontr)
      assume "x \<noteq> None"
      then obtain slot where slot: "x = Some slot" by blast
      obtain s b n m where l: "(s, b) \<in> set (walk_args args)"
        "first_recorded_in t (reuse_counts ?ro s b) s n = Some (m, Some slot)"
        using search_leaves_Some[OF x[unfolded slot]] by blast
      have "plain_search t (reuse_counts ?ro s b) s = Some slot"
        using first_recorded_in_exact[OF assms(1) inj[OF l(1)] l(2)] by simp
      then show False using plain_search_Some ex[OF l(1)] by (metis nth_mem token_at_def)
    qed
    then show ?thesis using x unfolding arg_taint_alert_cases[OF assms(1)] by simp
  qed
  show ?thesis using exempt quiet unfolding reuse_counts_def by blast
qed

text \<open>A listed name read back by a read-only tool, and the same name sent elsewhere.\<close>

lemma arg_taint_example:
  "arg_taint_alert (record_result ''q3-orders.txt'' Listing (tracker_new (\<lambda>_. 0) (\<lambda>_. 0))) ''read_text_file''
     (JObj [(''path'', JStr ''/data/q3-orders.txt'')]) = None"
  "arg_taint_alert (record_result ''q3-orders.txt'' Listing (tracker_new (\<lambda>_. 0) (\<lambda>_. 0))) ''send''
     (JObj [(''body'', JStr ''/data/q3-orders.txt'')]) \<noteq> None"
  by code_simp+

definition sample_taint :: tracker where
  "sample_taint = record_result (replicate 12 CHR ''a'') Listing (tracker_new (\<lambda>w. of_nat (length w)) (\<lambda>_. 0))"

lemma sample_taint_no_collision: "no_collision sample_taint (replicate 12 CHR ''a'')"
proof -
  have kept: "kept_tokens sample_taint = [replicate 12 CHR ''a'']" by code_simp
  have hash: "tk_hash_key sample_taint = (\<lambda>w. of_nat (length w))"
    unfolding sample_taint_def using record_result_ok(4)[of "replicate 12 CHR ''a''" "tracker_new (\<lambda>w. of_nat (length w)) (\<lambda>_. 0)" Listing]
      store_ok_new by (simp add: same_keys_def tracker_new_def numeral_eq_Suc)
  have piece: "w = replicate (length w) CHR ''a'' \<and> length w \<le> 12" if c: "contains (replicate 12 CHR ''a'') w" for w
  proof -
    obtain u v where uv: "replicate 12 CHR ''a'' = u @ w @ v" using c by (auto simp: contains_iff)
    then have "\<forall>c \<in> set w. c = CHR ''a''" by (metis Un_iff in_set_replicate set_append)
    moreover have "length w \<le> 12" using arg_cong[OF uv, of length] by simp
    ultimately show ?thesis by (metis replicate_eqI)
  qed
  have "contains (replicate 12 CHR ''a'') (replicate 12 CHR ''a'')" unfolding contains_iff by (metis append_Nil append_Nil2)
  then have pieces: "set (kept_tokens sample_taint) \<union> {w. contains (replicate 12 CHR ''a'') w} = {w. contains (replicate 12 CHR ''a'') w}"
    by (auto simp: kept)
  then show ?thesis unfolding no_collision_def hash
  proof (intro inj_onI)
    fix v w :: string
    assume vw: "v \<in> set (kept_tokens sample_taint) \<union> {w. contains (replicate 12 CHR ''a'') w}"
      "w \<in> set (kept_tokens sample_taint) \<union> {w. contains (replicate 12 CHR ''a'') w}"
      "(of_nat (length v) :: u64) = of_nat (length w)"
    then have "v = replicate (length v) CHR ''a''" "w = replicate (length w) CHR ''a''" "length v \<le> 12" "length w \<le> 12"
      using piece unfolding pieces by blast+
    moreover from this have "length v = length w"
      using arg_cong[OF vw(3), of unat] by (simp add: unat_of_nat)
    ultimately show "v = w" by metis
  qed
qed

theorem arg_taint_alert_spec_witness:
  "arg_taint_alert sample_taint ''read_text_file'' (JObj [(''path'', JStr (replicate 12 CHR ''a''))]) = None"
proof -
  let ?args = "JObj [(''path'', JStr (replicate 12 CHR ''a''))]"
  have leaves: "walk_args ?args = [(replicate 12 CHR ''a'', True)]" by (simp add: walk_args_def walk_value_def PATH_ARGS_def)
  have "store_ok sample_taint"
    unfolding sample_taint_def by (rule record_result_ok(1)[OF _ store_ok_new]) (simp add: numeral_eq_Suc)
  moreover have "\<forall>r \<in> set (tk_tokens sample_taint). rc_provenance r = Listing
      \<and> is_local_path (replicate 12 CHR ''a'') \<and> names_whole_components (replicate 12 CHR ''a'') (rc_token r)"
    by code_simp
  moreover have "''read_text_file'' \<in> set READ_ONLY_TOOLS \<and> other_args_are_inert ?args"
    by (simp add: READ_ONLY_TOOLS_def other_args_are_inert_def PATH_ARGS_def)
  ultimately show ?thesis
    using arg_taint_alert_spec[of sample_taint ?args "''read_text_file''"] sample_taint_no_collision
    by (simp add: leaves leaves_bytes_def)
qed

text \<open>A token is exempt only as a listed name, and no result can make it one again. Recording
  content takes every one of its tokens out of the listed names, wherever else it was seen.
  Recording a listing makes a listed name only of a token that was not kept before it.\<close>

theorem provenance_never_upgraded:
  assumes "\<forall>(s, q) \<in> set rs. is_utf8 s" "is_utf8 txt"
  shows "listed (record_result txt p (record_all rs (tracker_new h k))) \<subseteq>
     (if p = Listing then listed (record_all rs (tracker_new h k))
         \<union> ((\<lambda>raw. kept_part raw p) ` set (tokenize txt) - set (kept_tokens (record_all rs (tracker_new h k))))
      else listed (record_all rs (tracker_new h k)) - (\<lambda>raw. kept_part raw p) ` set (tokenize txt))"
  by (rule record_result_listed[OF assms(2) record_all_new[OF assms(1)]])

lemma tokenize_example: "tokenize ''q3-orders.txt'' = [''q3-orders.txt'']"
  by code_simp

theorem provenance_never_upgraded_witness:
  "listed (record_result ''q3-orders.txt'' Content (record_all [(''q3-orders.txt'', Listing)] (tracker_new (\<lambda>_. 0) (\<lambda>_. 0)))) = {}"
proof -
  have "listed (tracker_new (\<lambda>_. 0) (\<lambda>_. 0)) = {}" by (simp add: listed_def tracker_new_def)
  then have "listed (record_all [(''q3-orders.txt'', Listing)] (tracker_new (\<lambda>_. 0) (\<lambda>_. 0))) \<subseteq> {''q3-orders.txt''}"
    using record_result_listed[of "''q3-orders.txt''" "tracker_new (\<lambda>_. 0) (\<lambda>_. 0)" Listing] store_ok_new
    by (auto simp: record_all_def tokenize_example kept_part_def MAX_KEPT_TOKEN_BYTES_def)
  then show ?thesis
    using provenance_never_upgraded[of "[(''q3-orders.txt'', Listing)]" "''q3-orders.txt''" Content "\<lambda>_. 0" "\<lambda>_. 0"]
    by (auto simp: tokenize_example kept_part_def MAX_KEPT_TOKEN_BYTES_def)
qed

text \<open>C40: The indexed search finds what a plain search finds. With a hash that does not collide on
  the kept tokens, it returns the earliest position where an accepted token occurs and the oldest
  of the tokens there, or nothing when none occurs.\<close>

theorem taint_search_is_plain:
  assumes "\<forall>(s, p) \<in> set rs. is_utf8 s" "t = record_all rs (tracker_new h k)"
    and "inj_on h (set (kept_tokens t))"
    and "first_recorded_in t accepts s n = Some (m, found)"
  shows "found = plain_search t accepts s"
proof -
  have "tk_hash_key (record_all rs u) = tk_hash_key u" if "store_ok u" "\<forall>(s, p) \<in> set rs. is_utf8 s" for rs u
    using that
  proof (induction rs arbitrary: u)
    case (Cons r rs)
    obtain s p where r: "r = (s, p)" by (cases r)
    then have "is_utf8 s" using Cons.prems(2) by simp
    from record_result_ok(1,4)[OF this Cons.prems(1), of p] show ?case
      using Cons.IH[of "record_result s p u"] Cons.prems(2) by (simp add: record_all_def r same_keys_def)
  qed (simp add: record_all_def)
  then have "tk_hash_key t = h" using store_ok_new assms(1,2) by (simp add: tracker_new_def)
  then show ?thesis
    using first_recorded_in_exact[OF record_all_new[OF assms(1)], of h k] assms(2,3,4) by simp
qed


theorem taint_search_is_plain_witness:
  "plain_search (record_all [(''q3-orders.txt'', Listing)] (tracker_new (\<lambda>_. 0) (\<lambda>_. 0))) (\<lambda>_. True) ''/data/q3-orders.txt'' = Some 0"
proof -
  let ?t = "record_all [(''q3-orders.txt'', Listing)] (tracker_new (\<lambda>_. 0) (\<lambda>_. 0))"
  have "kept_tokens ?t = [''q3-orders.txt'']" by code_simp
  then have "inj_on (\<lambda>_. 0 :: u64) (set (kept_tokens ?t))" by simp
  moreover have "first_recorded_in ?t (\<lambda>_. True) ''/data/q3-orders.txt'' 100 = Some (99, Some 0)" by code_simp
  ultimately show ?thesis
    using taint_search_is_plain[of "[(''q3-orders.txt'', Listing)]" ?t "\<lambda>_. 0" "\<lambda>_. 0" "\<lambda>_. True" "''/data/q3-orders.txt''" 100 99 "Some 0"]
    by simp
qed

text \<open>A token of the newest result that stays with an earlier result is forgotten with it.\<close>

lemma unmoved_token_forgotten:
  assumes "store_ok (record_tokens txt p t)" "RECENT_COST + OLDER_COST < tk_cost (record_tokens txt p t)"
    and "i < kept_count (record_tokens txt p t)" "fate_of (record_tokens txt p t) (result_at (record_tokens txt p t) i) = Forget"
  shows "token_at (record_tokens txt p t) i \<notin> set (kept_tokens (record_result txt p t))"
proof -
  let ?u = "record_tokens txt p t"
  have "\<not> retained ?u i" using assms(4) sampled_props(3)[of i ?u] by (auto simp: retained_def)
  moreover have "j = i" if "j < kept_count ?u" "token_at ?u j = token_at ?u i" for j
    using that assms(1,3) by (intro token_at_inject[of ?u]) (auto simp: store_ok_def)
  ultimately show ?thesis
    using assms(2) taint_room_ok(3)[OF assms(1)] by (auto simp: record_result_def Let_def)
qed

end
