(* ===== verification/PrivTarget.thy ===== *)
theory PrivTarget
  imports Text
begin

text \<open>
  The files whose change hands over privilege, from \<^verbatim>\<open>src/crates/agent-guard/src/threats.rs\<close>:
  the list \<^verbatim>\<open>PRIVILEGED_WRITE_TARGETS\<close>, how a tool argument is read as the path it names, and
  the lookup. \<^verbatim>\<open>str::to_lowercase\<close> outside ASCII follows the Unicode tables and is an argument
  of the definitions that use it.
\<close>

subsection \<open>Strings\<close>

definition trim_quotes :: "string \<Rightarrow> string" where
  "trim_quotes s =
     (let q = (\<lambda>c. c = CHR 0x22 \<or> c = CHR 0x27)
      in List.rev (dropWhile q (List.rev (dropWhile q s))))"

text \<open>\<^verbatim>\<open>get(..n)\<close>: the first bytes, when there are that many and no character is cut.\<close>

definition get_head :: "nat \<Rightarrow> string \<Rightarrow> string option" where
  "get_head n s =
     (if n = length s \<or> (n < length s \<and> (n = 0 \<or> \<not> cont_byte (s ! n))) then Some (take n s) else None)"

definition REPLACEMENT :: string where
  "REPLACEMENT = [CHR 0xEF, CHR 0xBF, CHR 0xBD]"

text \<open>\<^verbatim>\<open>from_utf8_lossy\<close>: the longest start of a character that is not one becomes U+FFFD.\<close>

definition second3 :: "char \<Rightarrow> char \<Rightarrow> bool" where
  "second3 a b \<longleftrightarrow> cont_byte b \<and> (byte a = 224 \<longrightarrow> 160 \<le> byte b) \<and> (byte a = 237 \<longrightarrow> byte b < 160)"

definition second4 :: "char \<Rightarrow> char \<Rightarrow> bool" where
  "second4 a b \<longleftrightarrow> cont_byte b \<and> (byte a = 240 \<longrightarrow> 144 \<le> byte b) \<and> (byte a = 244 \<longrightarrow> byte b < 144)"

fun utf8_lossy :: "bytes \<Rightarrow> string" where
  "utf8_lossy [] = []"
| "utf8_lossy (a # s) =
     (if byte a < 128 then a # utf8_lossy s
      else if 194 \<le> byte a \<and> byte a \<le> 223 then
        (case s of
           b # r \<Rightarrow> if cont_byte b then a # b # utf8_lossy r else REPLACEMENT @ utf8_lossy (b # r)
         | [] \<Rightarrow> REPLACEMENT)
      else if 224 \<le> byte a \<and> byte a \<le> 239 then
        (case s of
           b # c # r \<Rightarrow>
             if second3 a b then
               if cont_byte c then a # b # c # utf8_lossy r else REPLACEMENT @ utf8_lossy (c # r)
             else REPLACEMENT @ utf8_lossy (b # c # r)
         | [b] \<Rightarrow> if second3 a b then REPLACEMENT else REPLACEMENT @ utf8_lossy [b]
         | [] \<Rightarrow> REPLACEMENT)
      else if 240 \<le> byte a \<and> byte a \<le> 244 then
        (case s of
           b # c # d # r \<Rightarrow>
             if second4 a b then
               if cont_byte c then
                 if cont_byte d then a # b # c # d # utf8_lossy r else REPLACEMENT @ utf8_lossy (d # r)
               else REPLACEMENT @ utf8_lossy (c # d # r)
             else REPLACEMENT @ utf8_lossy (b # c # d # r)
         | [b, c] \<Rightarrow>
             if second4 a b then
               if cont_byte c then REPLACEMENT else REPLACEMENT @ utf8_lossy [c]
             else REPLACEMENT @ utf8_lossy [b, c]
         | [b] \<Rightarrow> if second4 a b then REPLACEMENT else REPLACEMENT @ utf8_lossy [b]
         | [] \<Rightarrow> REPLACEMENT)
      else REPLACEMENT @ utf8_lossy s)"

definition hex_digit_val :: "char \<Rightarrow> nat option" where
  "hex_digit_val c =
     (if is_ascii_digit c then Some (byte c - 48)
      else if 65 \<le> byte c \<and> byte c \<le> 70 then Some (byte c - 55)
      else if 97 \<le> byte c \<and> byte c \<le> 102 then Some (byte c - 87) else None)"

text \<open>The decoded bytes. A percent sign that is not followed by two hex digits stands.\<close>

fun percent_bytes :: "string \<Rightarrow> bytes" where
  "percent_bytes [] = []"
| "percent_bytes (p # s) =
     (case s of
        h # l # r \<Rightarrow>
          if p = CHR ''%'' then
            (case (hex_digit_val h, hex_digit_val l) of
               (Some high, Some low) \<Rightarrow> char_of (high * 16 + low) # percent_bytes r
             | _ \<Rightarrow> p # percent_bytes (h # l # r))
          else p # percent_bytes (h # l # r)
      | [h] \<Rightarrow> p # percent_bytes [h]
      | [] \<Rightarrow> [p])"

definition percent_decode :: "string \<Rightarrow> string" where
  "percent_decode s = utf8_lossy (percent_bytes s)"

subsection \<open>Paths\<close>

definition path_segment :: "string list \<Rightarrow> string \<Rightarrow> string list" where
  "path_segment out seg =
     (if seg = [] \<or> seg = ''.'' then out
      else if seg = ''..'' then butlast out
      else out @ [seg])"

fun join_path :: "string list \<Rightarrow> string" where
  "join_path [] = []"
| "join_path [s] = s"
| "join_path (s # t # ss) = s @ ''/'' @ join_path (t # ss)"

definition collapse_path :: "string \<Rightarrow> string" where
  "collapse_path p =
     (let joined = join_path (foldl path_segment [] (split_on CHR ''/'' p))
      in if prefix ''/'' p then ''/'' @ joined else joined)"

record named_file =
  nf_path :: string
  nf_rooted :: bool

definition MAX_PATH_BYTES :: nat where "MAX_PATH_BYTES = 4096"

definition strip_alias :: "string \<Rightarrow> string \<Rightarrow> string" where
  "strip_alias alias resolved =
     (case strip_prefix alias resolved of
        Some rest \<Rightarrow>
          if rest = [] \<or> prefix ''/'' rest then (if rest = [] then ''/'' else rest) else resolved
      | None \<Rightarrow> resolved)"

definition rooted_file :: "(string \<Rightarrow> string) \<Rightarrow> string \<Rightarrow> named_file" where
  "rooted_file lower path =
     \<lparr>nf_path = strip_alias ''/private'' (strip_alias ''/system/volumes/data'' (lower (collapse_path path))),
      nf_rooted = True\<rparr>"

definition drop_localhost :: "string \<Rightarrow> string" where
  "drop_localhost rest =
     (case get_head 9 rest of
        Some host \<Rightarrow> if eq_ignore_ascii_case host ''localhost'' then drop 9 rest else rest
      | None \<Rightarrow> rest)"

text \<open>\<^verbatim>\<open>~/x\<close> and \<^verbatim>\<open>~user/x\<close>: under a home that is not known here.\<close>

definition named_home :: "(string \<Rightarrow> string) \<Rightarrow> string \<Rightarrow> named_file" where
  "named_home lower trimmed =
     (let rest = drop 1 trimmed;
          (user, rest) = (case find_str rest ''/'' of
             Some i \<Rightarrow> (take i rest, drop (Suc i) rest) | None \<Rightarrow> (rest, []))
      in \<lparr>nf_path = lower (''~'' @ user @ ''/'' @ lower (collapse_path rest)), nf_rooted = False\<rparr>)"

definition named_path :: "(string \<Rightarrow> string) \<Rightarrow> string \<Rightarrow> named_file option" where
  "named_path lower argument =
     (let trimmed = trim_quotes (trim argument) in
      if trimmed = [] \<or> MAX_PATH_BYTES < length trimmed then None
      else if (case get_head 5 trimmed of Some scheme \<Rightarrow> eq_ignore_ascii_case scheme ''file:'' | None \<Rightarrow> False) then
        (let rest = drop 5 trimmed;
             rest = (case strip_prefix ''//'' rest of Some r \<Rightarrow> r | None \<Rightarrow> rest);
             decoded = percent_decode (drop_localhost rest)
         in if prefix ''/'' decoded then Some (rooted_file lower decoded) else None)
      else
        (case strip_prefix ''~root'' trimmed of
           Some rest \<Rightarrow> if rest = [] \<or> prefix ''/'' rest then Some (rooted_file lower (''/root'' @ rest))
                         else Some (named_home lower trimmed)
         | None \<Rightarrow>
             if prefix ''~'' trimmed then Some (named_home lower trimmed)
             else if prefix ''/'' trimmed then Some (rooted_file lower trimmed)
             else Some \<lparr>nf_path = lower (collapse_path trimmed), nf_rooted = False\<rparr>))"

subsection \<open>The list\<close>

datatype place = PlaceFile string | PlaceTree string | PlaceComponents string

text \<open>\<^verbatim>\<open>match_indices\<close>: where a string occurs, from the left and without overlap.\<close>

function match_indices :: "string \<Rightarrow> nat \<Rightarrow> string \<Rightarrow> nat list" where
  "match_indices row at s =
     (if row = [] then []
      else case find_str s row of
        None \<Rightarrow> []
      | Some k \<Rightarrow> (at + k) # match_indices row (at + k + length row) (drop (k + length row) s))"
  by pat_completeness auto
termination
proof (relation "measure (\<lambda>(row, at, s). length s)")
  fix row s :: string and at k :: nat
  assume "row \<noteq> []" "find_str s row = Some k"
  then show "((row, at + k + length row, drop (k + length row) s), row, at, s) \<in> measure (\<lambda>(row, at, s). length s)"
    using find_str_Some[of s row k] by (cases row) auto
qed simp

declare match_indices.simps [simp del]

fun place_holds :: "place \<Rightarrow> named_file \<Rightarrow> bool" where
  "place_holds (PlaceFile f) named \<longleftrightarrow> nf_rooted named \<and> nf_path named = f"
| "place_holds (PlaceTree dir) named \<longleftrightarrow>
     nf_rooted named \<and> (case strip_prefix dir (nf_path named) of
       Some rest \<Rightarrow> rest = [] \<or> prefix ''/'' rest | None \<Rightarrow> False)"
| "place_holds (PlaceComponents row) named \<longleftrightarrow>
     list_ex (\<lambda>at. let rest = drop (at + length row) (nf_path named) in
       (at = 0 \<or> suffix ''/'' (take at (nf_path named))) \<and> (rest = [] \<or> prefix ''/'' rest))
       (match_indices row 0 (nf_path named))"

record privileged_group =
  pg_what :: string
  pg_places :: "place list"
  pg_named_in_passing :: bool

record privileged_target =
  pt_group :: privileged_group
  pt_path :: string

definition PRIVILEGED_WRITE_TARGETS :: "privileged_group list" where
  "PRIVILEGED_WRITE_TARGETS =
   [
    \<lparr>pg_what = ''the sudo rules, which decide who may run commands as root'',
     pg_places =
      [PlaceFile ''/etc/sudoers'', PlaceTree ''/etc/sudoers.d'', PlaceFile ''/etc/sudo.conf'',
       PlaceFile ''/etc/doas.conf''],
     pg_named_in_passing = False\<rparr>,
    \<lparr>pg_what = ''the account and group database'',
     pg_places =
      [PlaceFile ''/etc/passwd'', PlaceFile ''/etc/shadow'', PlaceFile ''/etc/group'',
       PlaceFile ''/etc/gshadow'', PlaceFile ''/etc/master.passwd''],
     pg_named_in_passing = False\<rparr>,
    \<lparr>pg_what = ''the login authentication and security policy'',
     pg_places =
      [PlaceTree ''/etc/pam.d'', PlaceFile ''/etc/pam.conf'', PlaceTree ''/etc/security'',
       PlaceTree ''/etc/polkit-1'', PlaceTree ''/usr/share/polkit-1'',
       PlaceTree ''/library/security/securityagentplugins''],
     pg_named_in_passing = False\<rparr>,
    \<lparr>pg_what = ''the SSH login keys and settings'',
     pg_places =
      [PlaceTree ''/etc/ssh'', PlaceComponents ''.ssh''],
     pg_named_in_passing = False\<rparr>,
    \<lparr>pg_what = ''the stored GnuPG keys and git credentials'',
     pg_places =
      [PlaceComponents ''.gnupg'', PlaceComponents ''.git-credentials''],
     pg_named_in_passing = False\<rparr>,
    \<lparr>pg_what = ''the guard'' @ [CHR 0x27] @ ''s own configuration, or the agent settings that load it'',
     pg_places =
      [PlaceComponents ''.claude/settings.json'',
       PlaceComponents ''.claude/settings.local.json'', PlaceComponents ''.claude.json'',
       PlaceComponents ''.mcp.json'', PlaceComponents ''claude_desktop_config.json'',
       PlaceComponents ''.cursor/mcp.json'', PlaceComponents ''.codex/config.toml'',
       PlaceComponents ''.gemini/settings.json'', PlaceComponents ''openclaw.json'',
       PlaceComponents ''hooks/innerwarden-attempts'',
       PlaceComponents ''extensions/innerwarden-replies'',
       PlaceComponents ''extensions/innerwarden-guard'',
       PlaceComponents ''.openclaw/extensions'', PlaceComponents ''.openclaw/hooks'',
       PlaceComponents ''.config/innerwarden'', PlaceTree ''/etc/innerwarden'',
       PlaceTree ''/var/lib/innerwarden'', PlaceTree ''/sys/fs/bpf/innerwarden''],
     pg_named_in_passing = False\<rparr>,
    \<lparr>pg_what = ''root'' @ [CHR 0x27] @ ''s home directory'',
     pg_places =
      [PlaceTree ''/root'', PlaceTree ''/var/root''],
     pg_named_in_passing = False\<rparr>,
    \<lparr>pg_what = ''the libraries loaded into every program'',
     pg_places =
      [PlaceFile ''/etc/ld.so.preload'', PlaceFile ''/etc/ld.so.conf'',
       PlaceTree ''/etc/ld.so.conf.d''],
     pg_named_in_passing = False\<rparr>,
    \<lparr>pg_what = ''the jobs the system runs on a schedule'',
     pg_places =
      [PlaceFile ''/etc/crontab'', PlaceFile ''/etc/anacrontab'', PlaceTree ''/etc/cron.d'',
       PlaceTree ''/etc/cron.hourly'', PlaceTree ''/etc/cron.daily'',
       PlaceTree ''/etc/cron.weekly'', PlaceTree ''/etc/cron.monthly'',
       PlaceTree ''/var/spool/cron'', PlaceTree ''/var/spool/at'', PlaceTree ''/var/at'',
       PlaceTree ''/etc/periodic'', PlaceFile ''/etc/logrotate.conf'',
       PlaceTree ''/etc/logrotate.d''],
     pg_named_in_passing = False\<rparr>,
    \<lparr>pg_what = ''the services and scripts the system runs at boot or login'',
     pg_places =
      [PlaceTree ''/etc/systemd/system'', PlaceTree ''/etc/systemd/user'',
       PlaceFile ''/etc/systemd/system.conf'', PlaceTree ''/etc/systemd/system.conf.d'',
       PlaceFile ''/etc/systemd/user.conf'', PlaceTree ''/etc/systemd/user.conf.d'',
       PlaceTree ''/etc/systemd/system-generators'',
       PlaceTree ''/etc/systemd/user-generators'', PlaceTree ''/etc/tmpfiles.d'',
       PlaceTree ''/run/systemd/system'', PlaceTree ''/lib/systemd/system'',
       PlaceTree ''/usr/lib/systemd/system'', PlaceTree ''/usr/local/lib/systemd'',
       PlaceTree ''/etc/init.d'', PlaceTree ''/etc/init'', PlaceTree ''/etc/rc.d'',
       PlaceFile ''/etc/rc.local'', PlaceTree ''/etc/update-motd.d'',
       PlaceTree ''/etc/xdg/autostart'', PlaceTree ''/library/launchdaemons'',
       PlaceTree ''/library/launchagents'', PlaceTree ''/library/startupitems''],
     pg_named_in_passing = False\<rparr>,
    \<lparr>pg_what = ''the scripts every account'' @ [CHR 0x27] @ ''s login shell runs'',
     pg_places =
      [PlaceFile ''/etc/profile'', PlaceTree ''/etc/profile.d'',
       PlaceFile ''/etc/environment'', PlaceFile ''/etc/bash.bashrc'',
       PlaceFile ''/etc/bashrc'', PlaceTree ''/etc/bash_completion.d'',
       PlaceFile ''/etc/zshrc'', PlaceFile ''/etc/zprofile'', PlaceFile ''/etc/zshenv'',
       PlaceFile ''/etc/zlogin'', PlaceFile ''/etc/zlogout'', PlaceTree ''/etc/zsh'',
       PlaceFile ''/etc/csh.cshrc'', PlaceFile ''/etc/csh.login''],
     pg_named_in_passing = False\<rparr>,
    \<lparr>pg_what = ''the scripts the system runs as root when the network changes'',
     pg_places =
      [PlaceTree ''/etc/networkmanager/dispatcher.d'', PlaceTree ''/etc/network/if-up.d'',
       PlaceTree ''/etc/network/if-down.d'', PlaceTree ''/etc/network/if-pre-up.d'',
       PlaceTree ''/etc/network/if-post-down.d''],
     pg_named_in_passing = False\<rparr>,
    \<lparr>pg_what = ''the device rules, which run commands as root when hardware appears'',
     pg_places =
      [PlaceTree ''/etc/udev/rules.d'', PlaceTree ''/lib/udev/rules.d'',
       PlaceTree ''/usr/lib/udev/rules.d''],
     pg_named_in_passing = False\<rparr>,
    \<lparr>pg_what = ''the kernel module loading rules'',
     pg_places =
      [PlaceFile ''/etc/modules'', PlaceTree ''/etc/modprobe.d'',
       PlaceTree ''/etc/modules-load.d'', PlaceTree ''/lib/modprobe.d'',
       PlaceTree ''/usr/lib/modprobe.d''],
     pg_named_in_passing = False\<rparr>,
    \<lparr>pg_what = ''the kernel settings applied at boot, which can name a program the kernel runs as root'',
     pg_places =
      [PlaceFile ''/etc/sysctl.conf'', PlaceTree ''/etc/sysctl.d'',
       PlaceTree ''/etc/binfmt.d''],
     pg_named_in_passing = False\<rparr>,
    \<lparr>pg_what = ''the package manager'' @ [CHR 0x27] @ ''s hooks and install scripts, which run as root'',
     pg_places =
      [PlaceFile ''/etc/apt/apt.conf'', PlaceTree ''/etc/apt/apt.conf.d'',
       PlaceFile ''/etc/dpkg/dpkg.cfg'', PlaceTree ''/etc/dpkg/dpkg.cfg.d'',
       PlaceTree ''/var/lib/dpkg/info'', PlaceTree ''/etc/dnf/plugins'',
       PlaceTree ''/etc/yum/pluginconf.d''],
     pg_named_in_passing = False\<rparr>,
    \<lparr>pg_what = ''the guard'' @ [CHR 0x27] @ ''s own program'',
     pg_places =
      [PlaceComponents ''.local/bin/innerwarden'', PlaceComponents ''.local/bin/iw'',
       PlaceComponents ''.local/bin/iw-guard''],
     pg_named_in_passing = True\<rparr>,
    \<lparr>pg_what = ''the system'' @ [CHR 0x27] @ ''s programs and libraries'',
     pg_places =
      [PlaceTree ''/bin'', PlaceTree ''/sbin'', PlaceTree ''/usr/bin'',
       PlaceTree ''/usr/sbin'', PlaceTree ''/usr/local/bin'', PlaceTree ''/usr/local/sbin'',
       PlaceTree ''/usr/local/lib'', PlaceTree ''/lib'', PlaceTree ''/lib32'',
       PlaceTree ''/lib64'', PlaceTree ''/usr/lib'', PlaceTree ''/usr/lib32'',
       PlaceTree ''/usr/lib64'', PlaceTree ''/usr/libexec'', PlaceTree ''/boot''],
     pg_named_in_passing = True\<rparr>
   ]"

definition privileged_write_target :: "(string \<Rightarrow> string) \<Rightarrow> string \<Rightarrow> privileged_target option" where
  "privileged_write_target lower argument =
     (case named_path lower argument of
        None \<Rightarrow> None
      | Some named \<Rightarrow>
          map_option (\<lambda>g. \<lparr>pt_group = g, pt_path = nf_path named\<rparr>)
            (List.find (\<lambda>g. list_ex (\<lambda>p. place_holds p named) (pg_places g)) PRIVILEGED_WRITE_TARGETS))"

subsection \<open>Spelling\<close>

abbreviation ascii :: "string \<Rightarrow> bool" where
  "ascii s \<equiv> list_all (\<lambda>c. byte c < 128) s"

lemma split_on_append: "split_on c (u @ c # v) = split_on c u @ split_on c v"
  by (induction u) (auto split: list.splits)

lemma split_on_map:
  "(\<And>x. f x = c \<longleftrightarrow> x = c) \<Longrightarrow> split_on c (map f s) = map (map f) (split_on c s)"
  by (induction s) (auto split: list.splits)

lemma split_on_name: "c \<notin> set s \<Longrightarrow> split_on c s = [s]"
  by (induction s) auto

abbreviation lower_byte :: "char \<Rightarrow> char" where
  "lower_byte c \<equiv> (if is_ascii_uppercase c then char_of (byte c + 32) else c)"

lemma byte_lower: "byte (lower_byte c) = (if is_ascii_uppercase c then byte c + 32 else byte c)"
  by (simp add: is_ascii_uppercase_def)

lemma lower_byte_eq:
  assumes "\<not> is_ascii_uppercase d" "\<not> is_ascii_lowercase d"
  shows "lower_byte c = d \<longleftrightarrow> c = d"
proof (cases "is_ascii_uppercase c")
  case True
  then have "is_ascii_lowercase (lower_byte c)" using byte_lower[of c]
    by (simp add: is_ascii_lowercase_def is_ascii_uppercase_def)
  then show ?thesis using True assms by auto
qed simp

lemma lowercase_map: "to_ascii_lowercase s = map lower_byte s"
  by (simp add: to_ascii_lowercase_def)

lemma lowercase_eq_special:
  assumes "list_all (\<lambda>d. \<not> is_ascii_uppercase d \<and> \<not> is_ascii_lowercase d) w"
  shows "to_ascii_lowercase s = w \<longleftrightarrow> s = w"
  using assms
proof (induction w arbitrary: s)
  case (Cons d w)
  then show ?case using lower_byte_eq[of d] by (cases s) (auto simp: lowercase_map)
qed (simp add: lowercase_map)

lemma lowercase_append [simp]: "to_ascii_lowercase (u @ v) = to_ascii_lowercase u @ to_ascii_lowercase v"
  by (simp add: lowercase_map)

lemma ascii_lowercase: "ascii (to_ascii_lowercase s) = ascii s"
  by (auto simp: lowercase_map list_all_iff byte_lower is_ascii_uppercase_def)

text \<open>Lower case commutes with resolving a path.\<close>

lemma lowercase_segment:
  "path_segment (map to_ascii_lowercase out) (to_ascii_lowercase seg) = map to_ascii_lowercase (path_segment out seg)"
proof -
  have "to_ascii_lowercase seg = [] \<longleftrightarrow> seg = []" "to_ascii_lowercase seg = ''.'' \<longleftrightarrow> seg = ''.''"
    "to_ascii_lowercase seg = ''..'' \<longleftrightarrow> seg = ''..''"
    by (rule lowercase_eq_special, simp add: is_ascii_uppercase_def is_ascii_lowercase_def)+
  then show ?thesis by (auto simp: path_segment_def map_butlast)
qed

lemma lowercase_segments:
  "foldl path_segment (map to_ascii_lowercase out) (map to_ascii_lowercase segs)
   = map to_ascii_lowercase (foldl path_segment out segs)"
  by (induction segs arbitrary: out) (simp_all add: lowercase_segment)

lemma lowercase_slash [simp]: "to_ascii_lowercase ''/'' = ''/''"
  by (simp add: to_ascii_lowercase_def is_ascii_uppercase_def)

lemma lowercase_slash_Cons [simp]: "to_ascii_lowercase (CHR ''/'' # s) = CHR ''/'' # to_ascii_lowercase s"
  by (simp add: to_ascii_lowercase_def is_ascii_uppercase_def)

lemma lowercase_join: "join_path (map to_ascii_lowercase ss) = to_ascii_lowercase (join_path ss)"
  by (induction ss rule: join_path.induct) (simp_all add: to_ascii_lowercase_def[of "[]"])

lemma lowercase_split: "split_on CHR ''/'' (to_ascii_lowercase p) = map to_ascii_lowercase (split_on CHR ''/'' p)"
proof -
  have "split_on CHR ''/'' (map lower_byte p) = map (map lower_byte) (split_on CHR ''/'' p)"
    by (rule split_on_map, rule lower_byte_eq) (simp_all add: is_ascii_uppercase_def is_ascii_lowercase_def)
  then show ?thesis by (simp add: to_ascii_lowercase_def[abs_def])
qed

lemma lowercase_absolute: "prefix ''/'' (to_ascii_lowercase p) \<longleftrightarrow> prefix ''/'' p"
proof (cases p)
  case (Cons c s)
  then show ?thesis using lower_byte_eq[of "CHR ''/''" c]
    by (auto simp: lowercase_map is_ascii_uppercase_def is_ascii_lowercase_def)
qed (simp add: lowercase_map)

lemma lowercase_collapse: "collapse_path (to_ascii_lowercase p) = to_ascii_lowercase (collapse_path p)"
proof -
  have "foldl path_segment [] (split_on CHR ''/'' (to_ascii_lowercase p))
      = map to_ascii_lowercase (foldl path_segment [] (split_on CHR ''/'' p))"
    using lowercase_segments[of "[]"] by (simp add: lowercase_split)
  then show ?thesis by (simp add: collapse_path_def Let_def lowercase_join lowercase_absolute)
qed

text \<open>What a file can be called: the ways the kernel, macOS and a case-insensitive file system
  read as the same file.\<close>

inductive spells :: "string \<Rightarrow> string \<Rightarrow> bool" for f where
  spell_self: "spells f f"
| spell_private: "spells f (''/private'' @ f)"
| spell_data: "spells f (''/system/volumes/data'' @ f)"
| spell_data_private: "spells f (''/system/volumes/data/private'' @ f)"
| spell_slash: "spells f (u @ ''/'' @ v) \<Longrightarrow> spells f (u @ ''//'' @ v)"
| spell_dot: "spells f (u @ ''/'' @ v) \<Longrightarrow> spells f (u @ ''/./'' @ v)"
| spell_dotdot: "spells f (u @ ''/'' @ v) \<Longrightarrow> CHR ''/'' \<notin> set x \<Longrightarrow> x \<notin> {[], ''.'', ''..''}
    \<Longrightarrow> spells f (u @ ''/'' @ x @ ''/../'' @ v)"
| spell_case: "spells f p \<Longrightarrow> to_ascii_lowercase q = to_ascii_lowercase p \<Longrightarrow> spells f q"

text \<open>What all of them resolve to, up to case.\<close>

definition resolved :: "string \<Rightarrow> string" where
  "resolved p = to_ascii_lowercase (collapse_path p)"

lemma collapse_insert:
  assumes "foldl path_segment (foldl path_segment [] (split_on CHR ''/'' u)) ms
      = foldl path_segment [] (split_on CHR ''/'' u)"
    and "split_on CHR ''/'' w = split_on CHR ''/'' u @ ms @ split_on CHR ''/'' v"
    and "prefix ''/'' w \<longleftrightarrow> prefix ''/'' (u @ ''/'' @ v)"
  shows "collapse_path w = collapse_path (u @ ''/'' @ v)"
  using assms by (simp add: collapse_path_def split_on_append)

lemma absolute_at [simp]: "prefix ''/'' (u @ CHR ''/'' # v) \<longleftrightarrow> u = [] \<or> prefix ''/'' u"
  by (cases u) simp_all

definition plain_file :: "string \<Rightarrow> bool" where
  "plain_file f \<longleftrightarrow> ascii f \<and> prefix ''/'' f \<and> f \<noteq> ''/'' \<and> resolved f = f
     \<and> strip_alias ''/private'' f = f \<and> strip_alias ''/system/volumes/data'' f = f"

text \<open>A name is a component that resolving keeps.\<close>

definition is_name :: "string \<Rightarrow> bool" where
  "is_name x \<longleftrightarrow> CHR ''/'' \<notin> set x \<and> x \<notin> {[], ''.'', ''..''}"

lemma split_on_no_sep: "x \<in> set (split_on c s) \<Longrightarrow> c \<notin> set x"
  by (induction s arbitrary: x) (auto split: list.splits if_splits)

lemma foldl_names: "\<forall>x \<in> set segs. is_name x \<Longrightarrow> foldl path_segment out segs = out @ segs"
  by (induction segs arbitrary: out) (auto simp: path_segment_def is_name_def)

lemma resolved_names:
  "\<forall>x \<in> set out. is_name x \<Longrightarrow> \<forall>x \<in> set segs. CHR ''/'' \<notin> set x
   \<Longrightarrow> \<forall>x \<in> set (foldl path_segment out segs). is_name x"
proof (induction segs arbitrary: out)
  case (Cons s segs)
  have "\<forall>x \<in> set (path_segment out s). is_name x"
    using Cons.prems by (auto simp: path_segment_def is_name_def dest: in_set_butlastD)
  then show ?case using Cons.IH[of "path_segment out s"] Cons.prems(2) by simp
qed simp

lemma split_join: "ss \<noteq> [] \<Longrightarrow> \<forall>x \<in> set ss. CHR ''/'' \<notin> set x \<Longrightarrow> split_on CHR ''/'' (join_path ss) = ss"
  by (induction ss rule: join_path.induct) (simp_all add: split_on_append split_on_name)

lemma collapse_prefixed:
  assumes "is_name x" "collapse_path f = f" "prefix ''/'' f" "f \<noteq> ''/''"
  shows "collapse_path (''/'' @ x @ f) = ''/'' @ x @ f"
proof -
  define S where "S = foldl path_segment [] (split_on CHR ''/'' f)"
  have f: "f = ''/'' @ join_path S" using assms(2,3) by (simp add: collapse_path_def S_def)
  have ne: "S \<noteq> []" using f assms(4) by auto
  have names: "\<forall>y \<in> set S. is_name y"
  proof -
    have "\<forall>y \<in> set (split_on CHR ''/'' f). CHR ''/'' \<notin> set y" by (intro ballI split_on_no_sep)
    then show ?thesis unfolding S_def by (intro resolved_names) simp_all
  qed
  have "split_on CHR ''/'' (join_path S) = S" using ne names by (intro split_join) (auto simp: is_name_def)
  then have "split_on CHR ''/'' (''/'' @ x @ f) = [] # x # S"
    using assms(1) by (simp add: f split_on_append split_on_name is_name_def)
  moreover have "foldl path_segment [] (x # S) = x # S" using foldl_names[of "x # S" "[]"] assms(1) names by simp
  moreover have "join_path (x # S) = x @ ''/'' @ join_path S" using ne by (cases S) simp_all
  ultimately show ?thesis by (simp add: collapse_path_def path_segment_def f)
qed

lemma lowercase_idem [simp]: "to_ascii_lowercase (to_ascii_lowercase s) = to_ascii_lowercase s"
  by (auto simp: lowercase_map byte_lower is_ascii_uppercase_def)

lemma resolved_lowercase: "resolved (to_ascii_lowercase p) = resolved p"
  by (simp add: resolved_def lowercase_collapse)

definition aliases :: "string \<Rightarrow> string set" where
  "aliases f = {f, ''/private'' @ f, ''/system/volumes/data'' @ f, ''/system/volumes/data/private'' @ f}"

lemma spells_resolved:
  assumes "plain_file f" "spells f q"
  shows "resolved q \<in> aliases f \<and> prefix ''/'' q"
  using assms(2)
proof (induction rule: spells.induct)
  have f: "to_ascii_lowercase f = f" "collapse_path f = f" "prefix ''/'' f" "f \<noteq> ''/''"
    using assms(1) lowercase_collapse[of f] by (auto simp: plain_file_def resolved_def) (metis lowercase_idem)+
  have data: "collapse_path (''/system/volumes/data'' @ g) = ''/system/volumes/data'' @ g"
    if "collapse_path g = g" "prefix ''/'' g" "g \<noteq> ''/''" for g
    using collapse_prefixed[of "''system''" "''/'' @ ''volumes'' @ ''/'' @ ''data'' @ g"]
      collapse_prefixed[of "''volumes''" "''/'' @ ''data'' @ g"] collapse_prefixed[of "''data''" g] that
    by (simp add: is_name_def)
  have priv: "collapse_path (''/private'' @ f) = ''/private'' @ f"
    using collapse_prefixed[of "''private''" f] f by (simp add: is_name_def)
  {
    case spell_self
    then show ?case using f by (simp add: resolved_def aliases_def)
  next
    case spell_private
    then show ?case using priv f by (simp add: resolved_def aliases_def to_ascii_lowercase_def is_ascii_uppercase_def)
  next
    case spell_data
    then show ?case using data[of f] f by (simp add: resolved_def aliases_def to_ascii_lowercase_def is_ascii_uppercase_def)
  next
    case spell_data_private
    then show ?case using data[of "''/private'' @ f"] priv f
      by (simp add: resolved_def aliases_def to_ascii_lowercase_def is_ascii_uppercase_def)
  next
    case (spell_slash u v)
    have "collapse_path (u @ ''//'' @ v) = collapse_path (u @ ''/'' @ v)"
      by (rule collapse_insert[where ms = "[[]]"]) (simp_all add: split_on_append path_segment_def)
    then show ?case using spell_slash.IH by (simp add: resolved_def)
  next
    case (spell_dot u v)
    have "collapse_path (u @ ''/./'' @ v) = collapse_path (u @ ''/'' @ v)"
      by (rule collapse_insert[where ms = "[''.'']"]) (simp_all add: split_on_append path_segment_def)
    then show ?case using spell_dot.IH by (simp add: resolved_def)
  next
    case (spell_dotdot u v x)
    have "collapse_path (u @ ''/'' @ x @ ''/../'' @ v) = collapse_path (u @ ''/'' @ v)"
      by (rule collapse_insert[where ms = "[x, ''..'']"])
        (use spell_dotdot.hyps in \<open>simp_all add: split_on_append split_on_name path_segment_def\<close>)
    then show ?case using spell_dotdot.IH by (simp add: resolved_def)
  next
    case (spell_case p q)
    then show ?case using resolved_lowercase lowercase_absolute by metis
  }
qed


lemma alias_stripped:
  assumes "plain_file f" "g \<in> aliases f"
  shows "strip_alias ''/private'' (strip_alias ''/system/volumes/data'' g) = f"
proof -
  have f: "prefix ''/'' f" "f \<noteq> []" "strip_alias ''/private'' f = f" "strip_alias ''/system/volumes/data'' f = f"
    using assms(1) by (auto simp: plain_file_def)
  have strip: "strip_alias a (a @ h) = h" if "prefix ''/'' h" for a h
    using that by (auto simp: strip_alias_def strip_prefix_def)
  have priv: "strip_alias ''/system/volumes/data'' (''/private'' @ f) = ''/private'' @ f"
    by (simp add: strip_alias_def strip_prefix_def)
  consider "g = f" | "g = ''/private'' @ f" | "g = ''/system/volumes/data'' @ f"
    | "g = ''/system/volumes/data'' @ ''/private'' @ f"
    using assms(2) by (auto simp: aliases_def)
  then show ?thesis
  proof cases
    case 1
    then show ?thesis using f by simp
  next
    case 2
    then show ?thesis using priv strip[OF f(1)] by metis
  next
    case 3
    then show ?thesis using f strip[OF f(1)] by metis
  next
    case 4
    have "prefix ''/'' (''/private'' @ f)" by simp
    then show ?thesis using 4 strip f(1) by metis
  qed
qed

text \<open>What an argument has to look like to be read as the path \<open>q\<close>: the path, or a \<^verbatim>\<open>file:\<close> URL of
  it with any bytes escaped, with white space and quotes around it.\<close>

definition reads_as :: "string \<Rightarrow> string \<Rightarrow> bool" where
  "reads_as arg q \<longleftrightarrow>
     (let w = trim_quotes (trim arg) in
      length w \<le> MAX_PATH_BYTES
      \<and> (w = q
         \<or> (\<exists>scheme e. w = scheme @ e \<and> prefix ''/'' e \<and> percent_decode e = q
              \<and> to_ascii_lowercase scheme \<in> {''file://'', ''file://localhost''})))"

definition follows_ascii :: "(string \<Rightarrow> string) \<Rightarrow> bool" where
  "follows_ascii lower \<longleftrightarrow> (\<forall>s. ascii s \<longrightarrow> lower s = to_ascii_lowercase s)"

lemma rooted_file_spells:
  assumes "follows_ascii lower" "plain_file f" "spells f q"
  shows "rooted_file lower q = \<lparr>nf_path = f, nf_rooted = True\<rparr>"
proof -
  have r: "resolved q \<in> aliases f" using spells_resolved[OF assms(2,3)] by simp
  then have "ascii (resolved q)" using assms(2) by (auto simp: aliases_def plain_file_def)
  then have "ascii (collapse_path q)" by (simp add: resolved_def ascii_lowercase)
  then have "lower (collapse_path q) = resolved q" using assms(1) by (simp add: follows_ascii_def resolved_def)
  then show ?thesis using alias_stripped[OF assms(2) r] by (simp add: rooted_file_def)
qed

lemma get_head_append: "ascii v \<Longrightarrow> length u = n \<Longrightarrow> get_head n (u @ v) = Some u"
  by (cases v) (auto simp: get_head_def nth_append)

lemma named_path_absolute:
  assumes "trim_quotes (trim arg) = q" "prefix ''/'' q" "length q \<le> MAX_PATH_BYTES"
  shows "named_path lower arg = Some (rooted_file lower q)"
proof -
  obtain c s where q: "q = CHR ''/'' # s" using assms(2) by (cases q) auto
  have "\<not> eq_ignore_ascii_case (take 5 q) ''file:''"
    using lower_byte_eq[of "CHR ''/''" "CHR ''f''"]
    by (auto simp: q eq_ignore_ascii_case_def to_ascii_lowercase_def is_ascii_uppercase_def)
  then have "\<not> (case get_head 5 q of Some scheme \<Rightarrow> eq_ignore_ascii_case scheme ''file:'' | None \<Rightarrow> False)"
    by (auto simp: get_head_def split: if_splits)
  then show ?thesis using assms(1,3)
    by (simp add: named_path_def Let_def q strip_prefix_def)
qed

lemma named_path_url:
  assumes "trim_quotes (trim arg) = scheme @ e" "prefix ''/'' e" "prefix ''/'' (percent_decode e)"
    and "to_ascii_lowercase scheme \<in> {''file://'', ''file://localhost''}"
    and "length (scheme @ e) \<le> MAX_PATH_BYTES"
  shows "named_path lower arg = Some (rooted_file lower (percent_decode e))"
proof -
  have len: "length scheme = 7 \<or> length scheme = 16"
    using assms(4) arg_cong[of "to_ascii_lowercase scheme" _ length] by (auto simp: to_ascii_lowercase_def)
  have sch: "to_ascii_lowercase (take 5 scheme) = ''file:''" "to_ascii_lowercase (take 2 (drop 5 scheme)) = ''//''"
    "to_ascii_lowercase (drop 7 scheme) \<in> {[], ''localhost''}"
    using assms(4) by (auto simp: lowercase_map take_map[symmetric] drop_map[symmetric])
  have slashes: "take 2 (drop 5 scheme) = ''//''"
    using sch(2) lowercase_eq_special[of "''//''" "take 2 (drop 5 scheme)"]
    by (simp add: is_ascii_uppercase_def is_ascii_lowercase_def)
  define host where "host = drop 7 scheme"
  have "scheme = take 5 scheme @ take 2 (drop 5 scheme) @ drop 7 scheme"
    using append_take_drop_id[of 5 scheme] append_take_drop_id[of 2 "drop 5 scheme"] by simp
  then have w: "scheme @ e = take 5 scheme @ ''//'' @ host @ e" unfolding slashes host_def by simp
  have h5: "get_head 5 (scheme @ e) = Some (take 5 scheme)"
    using len unfolding w by (auto simp: get_head_def nth_append)
  have "drop_localhost (host @ e) = e"
  proof (cases "host = []")
    case True
    obtain s where e: "e = CHR ''/'' # s" using assms(2) by (cases e) auto
    have "\<not> eq_ignore_ascii_case (take 9 e) ''localhost''"
      by (auto simp: e eq_ignore_ascii_case_def to_ascii_lowercase_def is_ascii_uppercase_def)
    then show ?thesis using True by (auto simp: drop_localhost_def get_head_def)
  next
    case False
    then have low: "to_ascii_lowercase host = ''localhost''"
      using sch(3) by (auto simp: host_def lowercase_map)
    have "length (to_ascii_lowercase host) = 9" unfolding low by simp
    then have "length host = 9" by (simp add: to_ascii_lowercase_def)
    moreover obtain s where "e = CHR ''/'' # s" using assms(2) by (cases e) auto
    ultimately have "get_head 9 (host @ e) = Some host" by (simp add: get_head_def nth_append)
    then show ?thesis using low \<open>length host = 9\<close>
      by (simp add: drop_localhost_def eq_ignore_ascii_case_def to_ascii_lowercase_def is_ascii_uppercase_def)
  qed
  moreover have "drop 5 (scheme @ e) = ''//'' @ host @ e" unfolding w using len by auto
  moreover have "scheme @ e \<noteq> []" using len by auto
  moreover have "eq_ignore_ascii_case (take 5 scheme) ''file:''"
    using sch(1) by (simp add: eq_ignore_ascii_case_def to_ascii_lowercase_def is_ascii_uppercase_def)
  ultimately show ?thesis using assms(1,3,5) h5
    by (simp add: named_path_def Let_def strip_prefix_def)
qed

lemma named_path_spells:
  assumes "follows_ascii lower" "plain_file f" "spells f q" "reads_as arg q"
  shows "named_path lower arg = Some \<lparr>nf_path = f, nf_rooted = True\<rparr>"
proof -
  have q: "prefix ''/'' q" using spells_resolved[OF assms(2,3)] by simp
  have "named_path lower arg = Some (rooted_file lower q)"
  proof (cases "trim_quotes (trim arg) = q")
    case True
    then show ?thesis using named_path_absolute[OF True q] assms(4) by (simp add: reads_as_def)
  next
    case False
    then obtain scheme e where "trim_quotes (trim arg) = scheme @ e" "prefix ''/'' e" "percent_decode e = q"
      "to_ascii_lowercase scheme \<in> {''file://'', ''file://localhost''}" "length (scheme @ e) \<le> MAX_PATH_BYTES"
      using assms(4) by (auto simp: reads_as_def Let_def)
    then show ?thesis using named_path_url[of arg scheme e lower] q by simp
  qed
  then show ?thesis using rooted_file_spells[OF assms(1-3)] by simp
qed

subsection \<open>No spelling steps around the list\<close>

lemma privileged_write_target_named:
  assumes "named_path lower arg = Some n" "g \<in> set PRIVILEGED_WRITE_TARGETS" "p \<in> set (pg_places g)" "place_holds p n"
  shows "\<exists>h \<in> set PRIVILEGED_WRITE_TARGETS. privileged_write_target lower arg = Some \<lparr>pt_group = h, pt_path = nf_path n\<rparr>
    \<and> list_ex (\<lambda>p. place_holds p n) (pg_places h)"
proof -
  let ?P = "\<lambda>g. list_ex (\<lambda>p. place_holds p n) (pg_places g)"
  have "?P g" using assms(3,4) by (auto simp: list_ex_iff)
  then obtain h where h: "List.find ?P PRIVILEGED_WRITE_TARGETS = Some h"
    using assms(2) by (cases "List.find ?P PRIVILEGED_WRITE_TARGETS") (auto simp: find_None_iff)
  then have "?P h" "h \<in> set PRIVILEGED_WRITE_TARGETS" by (auto simp: find_Some_iff)
  then show ?thesis using assms(1) h by (auto simp: privileged_write_target_def)
qed

lemma listed_file_found:
  assumes "follows_ascii lower" "plain_file f" "spells f q" "reads_as arg q"
    and "g \<in> set PRIVILEGED_WRITE_TARGETS"
    and "PlaceFile f \<in> set (pg_places g)
      \<or> (\<exists>dir rest. PlaceTree dir \<in> set (pg_places g) \<and> f = dir @ rest \<and> (rest = [] \<or> prefix ''/'' rest))"
  shows "\<exists>h \<in> set PRIVILEGED_WRITE_TARGETS. privileged_write_target lower arg = Some \<lparr>pt_group = h, pt_path = f\<rparr>"
proof -
  let ?n = "\<lparr>nf_path = f, nf_rooted = True\<rparr>"
  have n: "named_path lower arg = Some ?n" by (rule named_path_spells[OF assms(1-4)])
  have "\<exists>p \<in> set (pg_places g). place_holds p ?n"
    using assms(6) by (elim disjE exE conjE) (force simp: strip_prefix_def)+
  then show ?thesis using privileged_write_target_named[OF n assms(5)] by auto
qed

text \<open>No spelling steps around the list of privileged files. Take any file that is a listed file
  or lies in a listed directory, in its plain form. An argument that spells it with doubled
  slashes, with \<open>.\<close> components, with detours through \<open>..\<close>, in any letter case, through macOS's
  names for the same directories, or as a \<^verbatim>\<open>file:\<close> URL with any of its bytes escaped, white space
  and quotes around it, is found, and resolves to that file.\<close>

theorem no_spelling_escapes:
  assumes "follows_ascii lower" "plain_file f" "spells f q" "reads_as arg q"
    and "g \<in> set PRIVILEGED_WRITE_TARGETS"
    and "PlaceFile f \<in> set (pg_places g)
      \<or> (\<exists>dir rest. PlaceTree dir \<in> set (pg_places g) \<and> f = dir @ rest \<and> (rest = [] \<or> prefix ''/'' rest))"
  shows "\<exists>h \<in> set PRIVILEGED_WRITE_TARGETS. privileged_write_target lower arg = Some \<lparr>pt_group = h, pt_path = f\<rparr>"
  by (rule listed_file_found[OF assms])

definition sudoers_spelled :: string where
  "sudoers_spelled = ''file:///tmp/../ETC//sudo%65rs''"

lemma sudoers_spells: "spells ''/etc/sudoers'' ''/tmp/../ETC//sudoers''"
proof -
  have "spells ''/etc/sudoers'' ''/ETC/sudoers''"
    by (rule spell_case[OF spell_self]) code_simp
  then have "spells ''/etc/sudoers'' (''/ETC'' @ ''/'' @ ''sudoers'')" by simp
  then have "spells ''/etc/sudoers'' (''/ETC'' @ ''//'' @ ''sudoers'')" by (rule spell_slash)
  then have "spells ''/etc/sudoers'' ([] @ ''/'' @ ''ETC//sudoers'')" by simp
  then have "spells ''/etc/sudoers'' ([] @ ''/'' @ ''tmp'' @ ''/../'' @ ''ETC//sudoers'')" by (rule spell_dotdot) simp_all
  then show ?thesis by simp
qed

lemma sudoers_reads: "reads_as sudoers_spelled ''/tmp/../ETC//sudoers''"
proof -
  have "trim_quotes (trim sudoers_spelled) = ''file://'' @ ''/tmp/../ETC//sudo%65rs''" by code_simp
  moreover have "percent_decode ''/tmp/../ETC//sudo%65rs'' = ''/tmp/../ETC//sudoers''" by code_simp
  moreover have "to_ascii_lowercase ''file://'' = ''file://''" by code_simp
  ultimately show ?thesis
    unfolding reads_as_def Let_def
    by (intro conjI disjI2 exI[of _ "''file://''"] exI[of _ "''/tmp/../ETC//sudo%65rs''"]) (simp_all add: MAX_PATH_BYTES_def)
qed

lemma sudoers_listed:
  "\<exists>g \<in> set PRIVILEGED_WRITE_TARGETS. PlaceFile ''/etc/sudoers'' \<in> set (pg_places g)"
  by (simp add: PRIVILEGED_WRITE_TARGETS_def)

lemma sudoers_plain: "plain_file ''/etc/sudoers''" "follows_ascii to_ascii_lowercase"
  by (code_simp, simp add: follows_ascii_def)

theorem no_spelling_escapes_witness:
  "\<exists>h \<in> set PRIVILEGED_WRITE_TARGETS.
     privileged_write_target to_ascii_lowercase sudoers_spelled = Some \<lparr>pt_group = h, pt_path = ''/etc/sudoers''\<rparr>"
  using no_spelling_escapes[OF sudoers_plain(2,1) sudoers_spells sudoers_reads] sudoers_listed by blast

end
