(* ===== verification/Rules.thy ===== *)
theory Rules
  imports Prelude "HOL-Library.AList"
begin

text \<open>
  The rule engine (\<^verbatim>\<open>src/crates/agent-guard/src/rules.rs\<close>): rules read from YAML, kept for
  the surface they declare, compiled on first use or at load, overlaid by the operator's
  files, and evaluated against one structured event. The two regular expression crates and
  the YAML reader are arguments (\<open>regex_lib\<close>, \<open>yaml\<close>), as is the directory embedded at build time.
\<close>

subsection \<open>Fields, conditions, rules\<close>

datatype atr_field = FUserInput | FToolArgs | FToolResponse | FToolName | FContent

datatype compiled_regex = RxFast "string \<Rightarrow> bool" | RxFancy "string \<Rightarrow> bool option"

fun rx_is_match :: "compiled_regex \<Rightarrow> string \<Rightarrow> bool" where
  "rx_is_match (RxFast re) content = re content"
| "rx_is_match (RxFancy re) content = (case re content of Some b \<Rightarrow> b | None \<Rightarrow> False)"

record compiled_condition =
  cc_field :: atr_field
  cc_regex :: compiled_regex
  cc_description :: string

datatype condition_logic = LogicAny | LogicAll

record atr_references =
  rf_owasp_llm :: "string list"
  rf_owasp_agentic :: "string list"
  rf_mitre_atlas :: "string list"
  rf_mitre_attack :: "string list"

record pending_condition =
  pc_field :: atr_field
  pc_pattern :: string
  pc_description :: string

text \<open>\<^verbatim>\<open>OnceLock\<close> is an option: set once, read from then on.\<close>

record rule_conditions =
  rc_pending :: "pending_condition list"
  rc_compiled :: "compiled_condition list option"

record compiled_rule =
  cr_id :: string
  cr_title :: string
  cr_severity :: string
  cr_category :: string
  cr_source_type :: string
  cr_conditions :: rule_conditions
  cr_logic :: condition_logic
  cr_references :: atr_references

datatype compile_when = AtLoad | OnFirstUse

text \<open>The constructors of the two regular expression crates: \<open>None\<close> is a pattern they reject.\<close>

record regex_lib =
  rl_fast :: "string \<Rightarrow> (string \<Rightarrow> bool) option"
  rl_fancy :: "string \<Rightarrow> (string \<Rightarrow> bool option) option"

fun compile_conditions :: "regex_lib \<Rightarrow> pending_condition list \<Rightarrow> compiled_condition list" where
  "compile_conditions lib [] = []"
| "compile_conditions lib (c # cs) =
     (let rest = compile_conditions lib cs;
          keep = (\<lambda>rx. \<lparr>cc_field = pc_field c, cc_regex = rx, cc_description = pc_description c\<rparr> # rest)
      in case rl_fast lib (pc_pattern c) of
           Some re \<Rightarrow> keep (RxFast re)
         | None \<Rightarrow>
             (case rl_fancy lib (pc_pattern c) of
                Some re \<Rightarrow> keep (RxFancy re)
              | None \<Rightarrow> rest))"

text \<open>\<^verbatim>\<open>RuleConditions::get\<close>: the compiled conditions, and the conditions as they are afterwards.\<close>

definition conditions_get :: "regex_lib \<Rightarrow> rule_conditions \<Rightarrow> compiled_condition list \<times> rule_conditions" where
  "conditions_get lib rc =
     (case rc_compiled rc of
        Some cs \<Rightarrow> (cs, rc)
      | None \<Rightarrow> (let cs = compile_conditions lib (rc_pending rc) in (cs, rc\<lparr>rc_compiled := Some cs\<rparr>)))"

subsection \<open>One event\<close>

datatype atr_source = SAny | SLlmIo | SToolCall | SMcpExchange | SMultiAgentComm
  | SAgentCommunication | SMemoryAccess | SContextWindow | SShellCommand

fun source_as_str :: "atr_source \<Rightarrow> string" where
  "source_as_str SAny = ''any''"
| "source_as_str SLlmIo = ''llm_io''"
| "source_as_str SToolCall = ''tool_call''"
| "source_as_str SMcpExchange = ''mcp_exchange''"
| "source_as_str SMultiAgentComm = ''multi_agent_comm''"
| "source_as_str SAgentCommunication = ''agent_communication''"
| "source_as_str SMemoryAccess = ''memory_access''"
| "source_as_str SContextWindow = ''context_window''"
| "source_as_str SShellCommand = ''shell_command''"

record atr_context =
  ac_source :: atr_source
  ac_user_input :: "string option"
  ac_tool_args :: "string option"
  ac_tool_response :: "string option"
  ac_tool_name :: "string option"
  ac_content :: "string option"

definition ctx_user_input :: "string \<Rightarrow> atr_context" where
  "ctx_user_input content = \<lparr>ac_source = SLlmIo, ac_user_input = Some content, ac_tool_args = None,
     ac_tool_response = None, ac_tool_name = None, ac_content = Some content\<rparr>"

definition ctx_tool_call :: "string \<Rightarrow> string \<Rightarrow> atr_context" where
  "ctx_tool_call tool_name tool_args = \<lparr>ac_source = SToolCall, ac_user_input = None,
     ac_tool_args = Some tool_args, ac_tool_response = None, ac_tool_name = Some tool_name,
     ac_content = Some tool_args\<rparr>"

definition ctx_tool_description :: "string \<Rightarrow> string \<Rightarrow> atr_context" where
  "ctx_tool_description tool_name description = \<lparr>ac_source = SToolCall,
     ac_user_input = Some description, ac_tool_args = None, ac_tool_response = None,
     ac_tool_name = Some tool_name, ac_content = Some description\<rparr>"

definition ctx_tool_response :: "string \<Rightarrow> atr_context" where
  "ctx_tool_response content = \<lparr>ac_source = SMcpExchange, ac_user_input = None, ac_tool_args = None,
     ac_tool_response = Some content, ac_tool_name = None, ac_content = Some content\<rparr>"

definition ctx_shell_command :: "string \<Rightarrow> atr_context" where
  "ctx_shell_command content = \<lparr>ac_source = SShellCommand, ac_user_input = None,
     ac_tool_args = Some content, ac_tool_response = None, ac_tool_name = None, ac_content = Some content\<rparr>"

record atr_match =
  am_rule_id :: string
  am_title :: string
  am_severity :: string
  am_category :: string
  am_matched_condition :: string
  am_references :: atr_references

definition source_matches :: "string \<Rightarrow> atr_source \<Rightarrow> bool" where
  "source_matches declared actual \<longleftrightarrow>
     actual = SAny \<or> declared = [] \<or> declared = ''any'' \<or> declared = source_as_str actual"

fun context_value :: "atr_context \<Rightarrow> atr_field \<Rightarrow> string option" where
  "context_value context FUserInput = ac_user_input context"
| "context_value context FToolArgs = ac_tool_args context"
| "context_value context FToolResponse = ac_tool_response context"
| "context_value context FToolName = ac_tool_name context"
| "context_value context FContent = ac_content context"

definition make_match :: "compiled_rule \<Rightarrow> string \<Rightarrow> atr_match" where
  "make_match rule description =
     \<lparr>am_rule_id = cr_id rule, am_title = cr_title rule, am_severity = cr_severity rule,
      am_category = cr_category rule, am_matched_condition = description,
      am_references = cr_references rule\<rparr>"

text \<open>The two loops of \<^verbatim>\<open>eval_rule_context\<close>: the first condition that matches, and all of them
  with the first description kept.\<close>

fun any_condition :: "atr_context \<Rightarrow> compiled_condition list \<Rightarrow> string option" where
  "any_condition context [] = None"
| "any_condition context (c # cs) =
     (case context_value context (cc_field c) of
        Some value \<Rightarrow>
          if rx_is_match (cc_regex c) value then Some (cc_description c) else any_condition context cs
      | None \<Rightarrow> any_condition context cs)"

fun all_conditions :: "atr_context \<Rightarrow> string option \<Rightarrow> compiled_condition list \<Rightarrow> string option" where
  "all_conditions context first [] = Some (case first of Some d \<Rightarrow> d | None \<Rightarrow> [])"
| "all_conditions context first (c # cs) =
     (case context_value context (cc_field c) of
        None \<Rightarrow> None
      | Some value \<Rightarrow>
          if \<not> rx_is_match (cc_regex c) value then None
          else all_conditions context (case first of None \<Rightarrow> Some (cc_description c) | Some d \<Rightarrow> Some d) cs)"

definition eval_rule_context ::
  "regex_lib \<Rightarrow> compiled_rule \<Rightarrow> atr_context \<Rightarrow> atr_match option \<times> compiled_rule" where
  "eval_rule_context lib rule context =
     (let (conditions, rc) = conditions_get lib (cr_conditions rule);
          found = (case cr_logic rule of
             LogicAny \<Rightarrow> any_condition context conditions
           | LogicAll \<Rightarrow> all_conditions context None conditions)
      in (map_option (make_match rule) found, rule\<lparr>cr_conditions := rc\<rparr>))"

text \<open>\<^verbatim>\<open>check_context\<close>: rules of another surface are skipped before they are compiled.\<close>

fun check_context ::
  "regex_lib \<Rightarrow> compiled_rule list \<Rightarrow> atr_context \<Rightarrow> atr_match list \<times> compiled_rule list" where
  "check_context lib [] context = ([], [])"
| "check_context lib (rule # rules) context =
     (let (found, rules') = check_context lib rules context in
      if source_matches (cr_source_type rule) (ac_source context) then
        (let (m, rule') = eval_rule_context lib rule context in
         ((case m of Some a \<Rightarrow> a # found | None \<Rightarrow> found), rule' # rules'))
      else (found, rule # rules'))"

subsection \<open>Loading\<close>

datatype raw_tags = TagsMap string | TagsList "string list" | TagsString string | TagsEmpty

fun tags_category :: "raw_tags \<Rightarrow> string" where
  "tags_category (TagsMap category) = category"
| "tags_category (TagsList v) = (case v of [] \<Rightarrow> [] | c # _ \<Rightarrow> c)"
| "tags_category (TagsString s) = s"
| "tags_category TagsEmpty = []"

datatype raw_references = RefsMap atr_references | RefsList "string list" | RefsString string | RefsEmpty

definition no_references :: atr_references where
  "no_references = \<lparr>rf_owasp_llm = [], rf_owasp_agentic = [], rf_mitre_atlas = [], rf_mitre_attack = []\<rparr>"

fun into_atr_references :: "raw_references \<Rightarrow> atr_references" where
  "into_atr_references (RefsMap r) = r"
| "into_atr_references (RefsList v) = no_references\<lparr>rf_mitre_attack := v\<rparr>"
| "into_atr_references (RefsString s) = no_references\<lparr>rf_mitre_attack := [s]\<rparr>"
| "into_atr_references RefsEmpty = no_references"

record raw_condition =
  rw_field :: string
  rw_operator :: string
  rw_value :: string
  rw_description :: "string option"

record raw_rule =
  rr_id :: "string option"
  rr_title :: "string option"
  rr_severity :: string
  rr_detection_tier :: string
  rr_tags :: raw_tags
  rr_references :: raw_references
  rr_source_type :: string
  rr_conditions :: "raw_condition list"
  rr_condition :: "string option"

definition parse_field :: "string \<Rightarrow> atr_field" where
  "parse_field raw =
     (if raw = ''tool_response'' \<or> raw = ''agent_output'' then FToolResponse
      else if raw = ''tool_args'' then FToolArgs
      else if raw = ''tool_name'' \<or> raw = ''tool'' then FToolName
      else if raw = ''content'' then FContent
      else FUserInput)"

definition pending_of :: "string \<Rightarrow> raw_condition list \<Rightarrow> pending_condition list" where
  "pending_of rid conds =
     map (\<lambda>c. \<lparr>pc_field = parse_field (rw_field c), pc_pattern = rw_value c,
               pc_description = (case rw_description c of Some d \<Rightarrow> d | None \<Rightarrow> rid @ '' match'')\<rparr>)
       (filter (\<lambda>c. rw_operator c = ''regex'' \<and> rw_value c \<noteq> []) conds)"

text \<open>\<^verbatim>\<open>load_rule_str_for\<close> on the text read as YAML: \<open>Inl\<close> the reader's error, \<open>Inr None\<close> a rule skipped.\<close>

definition load_rule_str_for ::
  "regex_lib \<Rightarrow> (string \<Rightarrow> string + raw_rule) \<Rightarrow> string \<Rightarrow> atr_source option \<Rightarrow> compile_when
     \<Rightarrow> string + compiled_rule option" where
  "load_rule_str_for lib yaml content only_for when =
     rbind (yaml content) (\<lambda>raw.
       if rr_detection_tier raw \<noteq> ''pattern'' then Inr None
       else if (case only_for of Some source \<Rightarrow> \<not> source_matches (rr_source_type raw) source | None \<Rightarrow> False)
       then Inr None
       else
         (let rid = (case rr_id raw of Some i \<Rightarrow> i | None \<Rightarrow> []);
              title = (case rr_title raw of Some t \<Rightarrow> t | None \<Rightarrow> []);
              pending = pending_of rid (rr_conditions raw)
          in if pending = [] then Inr None
             else
               (let logic = (if rr_condition raw = Some ''all'' then LogicAll else LogicAny);
                    conditions = \<lparr>rc_pending = pending, rc_compiled = None\<rparr>;
                    (compiled, at_load) = conditions_get lib conditions
                in if when = AtLoad \<and> compiled = [] then Inr None
                   else Inr (Some
                     \<lparr>cr_id = rid, cr_title = title, cr_severity = rr_severity raw,
                      cr_category = tags_category (rr_tags raw), cr_source_type = rr_source_type raw,
                      cr_conditions = (if when = AtLoad then at_load else conditions),
                      cr_logic = logic, cr_references = into_atr_references (rr_references raw)\<rparr>))))"

text \<open>The embedded directory: its files by extension and contents (\<open>None\<close> when not UTF-8), and its
  directories.\<close>

datatype embedded_dir = EmbeddedDir "(string option \<times> string option) list" "embedded_dir list"

definition is_yaml :: "string option \<Rightarrow> bool" where
  "is_yaml extension \<longleftrightarrow> extension = Some ''yaml'' \<or> extension = Some ''yml''"

definition load_embedded_file ::
  "regex_lib \<Rightarrow> (string \<Rightarrow> string + raw_rule) \<Rightarrow> atr_source option \<Rightarrow> string option \<times> string option
     \<Rightarrow> compiled_rule list" where
  "load_embedded_file lib yaml only_for file =
     (case file of (extension, contents) \<Rightarrow>
        if \<not> is_yaml extension then []
        else case contents of
          None \<Rightarrow> []
        | Some content \<Rightarrow>
            (case load_rule_str_for lib yaml content only_for OnFirstUse of
               Inr (Some rule) \<Rightarrow> [rule]
             | Inr None \<Rightarrow> []
             | Inl e \<Rightarrow> []))"

fun collect_embedded_rules_for ::
  "regex_lib \<Rightarrow> (string \<Rightarrow> string + raw_rule) \<Rightarrow> atr_source option \<Rightarrow> embedded_dir \<Rightarrow> compiled_rule list" where
  "collect_embedded_rules_for lib yaml only_for (EmbeddedDir files dirs) =
     concat (map (load_embedded_file lib yaml only_for) files)
     @ concat (map (collect_embedded_rules_for lib yaml only_for) dirs)"

definition load_embedded :: "regex_lib \<Rightarrow> (string \<Rightarrow> string + raw_rule) \<Rightarrow> embedded_dir \<Rightarrow> compiled_rule list" where
  "load_embedded lib yaml dir = collect_embedded_rules_for lib yaml None dir"

definition load_embedded_for ::
  "regex_lib \<Rightarrow> (string \<Rightarrow> string + raw_rule) \<Rightarrow> embedded_dir \<Rightarrow> atr_source \<Rightarrow> compiled_rule list" where
  "load_embedded_for lib yaml dir source = collect_embedded_rules_for lib yaml (Some source) dir"

text \<open>A rule file on disk: \<open>Inl\<close> when it cannot be read.\<close>

definition load_rule_file ::
  "regex_lib \<Rightarrow> (string \<Rightarrow> string + raw_rule) \<Rightarrow> string + string \<Rightarrow> string + compiled_rule option" where
  "load_rule_file lib yaml file =
     rbind file (\<lambda>content. load_rule_str_for lib yaml content None AtLoad)"

text \<open>The overlay. The source keeps the rules in a \<^verbatim>\<open>HashMap\<close> by id and hands out its values in
  no particular order; here the map is an association list, and no theorem depends on its order.\<close>

definition overlay_file ::
  "regex_lib \<Rightarrow> (string \<Rightarrow> string + raw_rule) \<Rightarrow> string + string
     \<Rightarrow> (string \<times> compiled_rule) list \<times> string list \<Rightarrow> (string \<times> compiled_rule) list \<times> string list" where
  "overlay_file lib yaml file st =
     (case st of (by_id, shadowed) \<Rightarrow>
        case load_rule_file lib yaml file of
          Inr (Some rule) \<Rightarrow>
            (AList.update (cr_id rule) rule by_id,
             if map_of by_id (cr_id rule) \<noteq> None then shadowed @ [cr_id rule] else shadowed)
        | Inr None \<Rightarrow> (by_id, shadowed)
        | Inl e \<Rightarrow> (by_id, shadowed))"

definition load_with_overlay_reporting ::
  "regex_lib \<Rightarrow> (string \<Rightarrow> string + raw_rule) \<Rightarrow> embedded_dir \<Rightarrow> (string + string) list
     \<Rightarrow> compiled_rule list \<times> string list" where
  "load_with_overlay_reporting lib yaml dir overlay_files =
     (let embedded = load_embedded lib yaml dir;
          by_id = fold (\<lambda>rule m. AList.update (cr_id rule) rule m) embedded [];
          (by_id, shadowed) = fold (overlay_file lib yaml) overlay_files (by_id, [])
      in (map snd by_id, if shadowed = [] then shadowed else sort shadowed))"

definition rule_titles :: "compiled_rule list \<Rightarrow> (string \<times> string) list" where
  "rule_titles rules = map (\<lambda>rule. (cr_id rule, cr_title rule)) rules"

subsection \<open>What an evaluation finds\<close>

definition condition_holds :: "atr_context \<Rightarrow> compiled_condition \<Rightarrow> bool" where
  "condition_holds context c \<longleftrightarrow> is_some_and (context_value context (cc_field c)) (rx_is_match (cc_regex c))"

lemma any_condition_find:
  "any_condition context cs = map_option cc_description (List.find (condition_holds context) cs)"
  by (induction cs) (simp_all add: condition_holds_def split: option.split)

lemma all_conditions_list_all:
  "all_conditions context first cs =
     (if list_all (condition_holds context) cs
      then Some (case first of Some d \<Rightarrow> d | None \<Rightarrow> (case cs of [] \<Rightarrow> [] | c # _ \<Rightarrow> cc_description c)) else None)"
  by (induction cs arbitrary: first) (simp_all add: condition_holds_def split: option.split)

text \<open>The description a rule is reported with, its conditions compiled.\<close>

definition rule_evidence :: "regex_lib \<Rightarrow> atr_context \<Rightarrow> compiled_rule \<Rightarrow> string option" where
  "rule_evidence lib context rule =
     (let cs = compile_conditions lib (rc_pending (cr_conditions rule)) in
      if \<not> source_matches (cr_source_type rule) (ac_source context) then None
      else case cr_logic rule of
        LogicAny \<Rightarrow> map_option cc_description (List.find (condition_holds context) cs)
      | LogicAll \<Rightarrow> if list_all (condition_holds context) cs
                    then Some (case cs of [] \<Rightarrow> [] | c # _ \<Rightarrow> cc_description c) else None)"

text \<open>What a rule's lock holds is what compiling it now would give.\<close>

definition rule_ready :: "regex_lib \<Rightarrow> compiled_rule \<Rightarrow> bool" where
  "rule_ready lib rule \<longleftrightarrow>
     rc_compiled (cr_conditions rule) \<in> {None, Some (compile_conditions lib (rc_pending (cr_conditions rule)))}"

definition compile_now :: "regex_lib \<Rightarrow> compiled_rule \<Rightarrow> compiled_rule" where
  "compile_now lib rule = rule\<lparr>cr_conditions := snd (conditions_get lib (cr_conditions rule))\<rparr>"

lemma conditions_get_ready:
  assumes "rule_ready lib rule"
  shows "conditions_get lib (cr_conditions rule) =
    (compile_conditions lib (rc_pending (cr_conditions rule)),
     (cr_conditions rule)\<lparr>rc_compiled := Some (compile_conditions lib (rc_pending (cr_conditions rule)))\<rparr>)"
  using assms by (auto simp: conditions_get_def rule_ready_def Let_def)

lemma compile_now_simps [simp]:
  assumes "rule_ready lib rule"
  shows "rule_ready lib (compile_now lib rule)" "compile_now lib (compile_now lib rule) = compile_now lib rule"
    "rule_evidence lib context (compile_now lib rule) = rule_evidence lib context rule"
    "make_match (compile_now lib rule) = make_match rule"
    "cr_source_type (compile_now lib rule) = cr_source_type rule"
proof -
  let ?cs = "compile_conditions lib (rc_pending (cr_conditions rule))"
  have now: "compile_now lib rule = rule\<lparr>cr_conditions := (cr_conditions rule)\<lparr>rc_compiled := Some ?cs\<rparr>\<rparr>"
    by (simp add: compile_now_def conditions_get_ready[OF assms])
  then show ready: "rule_ready lib (compile_now lib rule)" by (simp add: rule_ready_def)
  show "compile_now lib (compile_now lib rule) = compile_now lib rule"
    unfolding compile_now_def[of _ "compile_now lib rule"] conditions_get_ready[OF ready] by (simp add: now)
  show "rule_evidence lib context (compile_now lib rule) = rule_evidence lib context rule"
    "cr_source_type (compile_now lib rule) = cr_source_type rule"
    by (simp_all add: now rule_evidence_def Let_def)
  show "make_match (compile_now lib rule) = make_match rule" by (simp add: now make_match_def fun_eq_iff)
qed

lemma eval_rule_ready:
  assumes "rule_ready lib rule" "source_matches (cr_source_type rule) (ac_source context)"
  shows "eval_rule_context lib rule context =
    (map_option (make_match rule) (rule_evidence lib context rule), compile_now lib rule)"
  using assms conditions_get_ready[OF assms(1)]
  by (auto simp: eval_rule_context_def compile_now_def rule_evidence_def any_condition_find
      all_conditions_list_all Let_def split: condition_logic.split)

text \<open>The matches of a ready engine, and the rules it has compiled.\<close>

definition touch :: "regex_lib \<Rightarrow> atr_context \<Rightarrow> compiled_rule \<Rightarrow> compiled_rule" where
  "touch lib context rule =
     (if source_matches (cr_source_type rule) (ac_source context) then compile_now lib rule else rule)"

definition evidence_matches :: "regex_lib \<Rightarrow> atr_context \<Rightarrow> compiled_rule list \<Rightarrow> atr_match list" where
  "evidence_matches lib context rules =
     List.map_filter (\<lambda>rule. map_option (make_match rule) (rule_evidence lib context rule)) rules"

lemma check_context_ready:
  assumes "list_all (rule_ready lib) rules"
  shows "check_context lib rules context = (evidence_matches lib context rules, map (touch lib context) rules)"
  using assms
proof (induction rules)
  case (Cons rule rules)
  then have ready: "rule_ready lib rule" by simp
  show ?case
  proof (cases "source_matches (cr_source_type rule) (ac_source context)")
    case True
    then show ?thesis using Cons eval_rule_ready[OF ready True]
      by (simp add: evidence_matches_def map_filter_simps touch_def split: option.split)
  next
    case False
    then have "rule_evidence lib context rule = None" by (simp add: rule_evidence_def)
    then show ?thesis using Cons False by (simp add: evidence_matches_def map_filter_simps touch_def)
  qed
qed (simp add: evidence_matches_def map_filter_simps)

lemma touch_ready [simp]: "rule_ready lib rule \<Longrightarrow> rule_ready lib (touch lib context rule)"
  by (simp add: touch_def)

lemma evidence_matches_touch [simp]:
  "list_all (rule_ready lib) rules \<Longrightarrow>
     evidence_matches lib c (map (touch lib d) rules) = evidence_matches lib c rules
     \<and> evidence_matches lib c (map (compile_now lib) rules) = evidence_matches lib c rules"
proof -
  have eq: "evidence_matches lib c (map f rules) = evidence_matches lib c rules"
    if "\<forall>r \<in> set rules. rule_evidence lib c (f r) = rule_evidence lib c r \<and> make_match (f r) = make_match r" for f
    using that by (induction rules) (simp_all add: evidence_matches_def map_filter_simps split: option.split)
  assume "list_all (rule_ready lib) rules"
  then show ?thesis by (auto simp: list_all_iff touch_def intro!: eq)
qed

text \<open>A session: one engine, checked event after event, compiling as it goes.\<close>

fun check_session :: "regex_lib \<Rightarrow> compiled_rule list \<Rightarrow> atr_context list \<Rightarrow> atr_match list list" where
  "check_session lib rules [] = []"
| "check_session lib rules (c # cs) =
     (let (found, rules') = check_context lib rules c in found # check_session lib rules' cs)"

lemma check_session_ready:
  "list_all (rule_ready lib) rules \<Longrightarrow>
     check_session lib rules cs = map (\<lambda>c. evidence_matches lib c rules) cs"
proof (induction cs arbitrary: rules)
  case (Cons c cs)
  have "list_all (rule_ready lib) (map (touch lib c) rules)" using Cons.prems by (simp add: list_all_iff)
  then show ?case using Cons by (simp add: check_context_ready)
qed simp

subsection \<open>The embedded engine\<close>

lemma load_rule_ready:
  "load_rule_str_for lib yaml content only_for when = Inr (Some rule) \<Longrightarrow> rule_ready lib rule"
  by (auto simp: load_rule_str_for_def rbind_Inr Let_def conditions_get_def rule_ready_def split: if_splits)

lemma load_rule_for:
  "load_rule_str_for lib yaml content (Some source) when =
     (case load_rule_str_for lib yaml content None when of
        Inr (Some rule) \<Rightarrow> if source_matches (cr_source_type rule) source then Inr (Some rule) else Inr None
      | r \<Rightarrow> r)"
  by (cases "yaml content")
    (auto simp: load_rule_str_for_def Let_def split: prod.split)

lemma load_embedded_file_for:
  "load_embedded_file lib yaml (Some source) file =
     filter (\<lambda>rule. source_matches (cr_source_type rule) source) (load_embedded_file lib yaml None file)"
  by (auto simp: load_embedded_file_def load_rule_for split: prod.split option.split sum.split)

lemma load_embedded_for_filter:
  "load_embedded_for lib yaml dir source =
     filter (\<lambda>rule. source_matches (cr_source_type rule) source) (load_embedded lib yaml dir)"
  unfolding load_embedded_for_def load_embedded_def
proof (induction dir)
  case (EmbeddedDir files dirs)
  have "concat (map (load_embedded_file lib yaml (Some source)) files) =
    filter (\<lambda>rule. source_matches (cr_source_type rule) source) (concat (map (load_embedded_file lib yaml None) files))"
    by (induction files) (simp_all add: load_embedded_file_for)
  moreover have "concat (map (collect_embedded_rules_for lib yaml (Some source)) dirs) =
    filter (\<lambda>rule. source_matches (cr_source_type rule) source) (concat (map (collect_embedded_rules_for lib yaml None) dirs))"
    using EmbeddedDir by (induction dirs) simp_all
  ultimately show ?case by simp
qed

lemma load_embedded_ready: "list_all (rule_ready lib) (load_embedded lib yaml dir)"
  unfolding load_embedded_def
proof (induction dir)
  case (EmbeddedDir files dirs)
  have "list_all (rule_ready lib) (load_embedded_file lib yaml None f)" for f
    by (auto simp: load_embedded_file_def split: prod.split option.split sum.split dest: load_rule_ready)
  then show ?case using EmbeddedDir by (auto simp: list_all_iff)
qed

lemma rule_evidence_other_surface [simp]:
  "\<not> source_matches (cr_source_type rule) (ac_source c) \<Longrightarrow> rule_evidence lib c rule = None"
  by (simp add: rule_evidence_def)

lemma evidence_matches_surface:
  "ac_source c = source \<Longrightarrow>
     evidence_matches lib c (filter (\<lambda>rule. source_matches (cr_source_type rule) source) rules) =
     evidence_matches lib c rules"
  by (induction rules) (auto simp: evidence_matches_def map_filter_simps split: option.split)

text \<open>Compiling on first use and keeping only one surface's rules changes no answer. An engine
  loaded for one surface, whose rules compile when an event first reaches them, gives over any
  session of events of that surface the answers of the whole engine with every rule compiled
  before the first event.\<close>

theorem lazy_surface_engine:
  "check_session lib (load_embedded_for lib yaml dir source) (map (ac_source_update (\<lambda>_. source)) events) =
   map (\<lambda>c. fst (check_context lib (map (compile_now lib) (load_embedded lib yaml dir)) c))
     (map (ac_source_update (\<lambda>_. source)) events)"
proof -
  let ?all = "load_embedded lib yaml dir"
  have ready: "list_all (rule_ready lib) ?all" by (rule load_embedded_ready)
  then have "list_all (rule_ready lib) (load_embedded_for lib yaml dir source)"
    "list_all (rule_ready lib) (map (compile_now lib) ?all)"
    by (auto simp: load_embedded_for_filter list_all_iff)
  then show ?thesis using ready
    by (simp add: check_session_ready check_context_ready load_embedded_for_filter evidence_matches_surface)
qed

text \<open>A rule no event's surface selects is never compiled.\<close>

lemma unselected_rule_untouched:
  "\<not> source_matches (cr_source_type rule) (ac_source c) \<Longrightarrow> touch lib c rule = rule"
  by (simp add: touch_def)

subsection \<open>The overlay\<close>

text \<open>The rules the operator's files load, in the order read.\<close>

definition disk_rules ::
  "regex_lib \<Rightarrow> (string \<Rightarrow> string + raw_rule) \<Rightarrow> (string + string) list \<Rightarrow> compiled_rule list" where
  "disk_rules lib yaml files =
     List.map_filter (\<lambda>f. case load_rule_file lib yaml f of Inr r \<Rightarrow> r | Inl e \<Rightarrow> None) files"

definition last_rule :: "compiled_rule list \<Rightarrow> string \<Rightarrow> compiled_rule option" where
  "last_rule rules rid = List.find (\<lambda>r. cr_id r = rid) (List.rev rules)"

definition put_rule :: "compiled_rule \<Rightarrow> (string \<times> compiled_rule) list \<Rightarrow> (string \<times> compiled_rule) list" where
  "put_rule rule m = AList.update (cr_id rule) rule m"

definition keyed :: "(string \<times> compiled_rule) list \<Rightarrow> bool" where
  "keyed m \<longleftrightarrow> distinct (map fst m) \<and> (\<forall>(k, r) \<in> set m. cr_id r = k)"

lemma keyed_put [simp]: "keyed m \<Longrightarrow> keyed (put_rule rule m)"
proof -
  assume m: "keyed m"
  have *: "(k, r) \<in> set (AList.update (cr_id rule) rule m) \<Longrightarrow> k = cr_id rule \<and> r = rule \<or> (k, r) \<in> set m" for k r
    by (induction m) (auto split: if_splits)
  show ?thesis using m by (auto simp: keyed_def put_rule_def distinct_update dest!: *)
qed

lemma map_of_put [simp]: "map_of (put_rule rule m) = (map_of m)(cr_id rule \<mapsto> rule)"
  by (simp add: put_rule_def update_conv')

lemma find_append: "List.find P (xs @ ys) = (case List.find P xs of Some x \<Rightarrow> Some x | None \<Rightarrow> List.find P ys)"
  by (induction xs) simp_all

lemma last_rule_Cons:
  "last_rule (r # rs) i = (case last_rule rs i of Some x \<Rightarrow> Some x | None \<Rightarrow> if cr_id r = i then Some r else None)"
  by (simp add: last_rule_def find_append split: option.split)

lemma last_rule_None: "last_rule rs i = None \<longleftrightarrow> i \<notin> cr_id ` set rs"
  by (auto simp: last_rule_def find_None_iff)

lemma fold_put:
  "keyed m \<Longrightarrow> keyed (fold put_rule rs m)
     \<and> map_of (fold put_rule rs m) i = (case last_rule rs i of Some r \<Rightarrow> Some r | None \<Rightarrow> map_of m i)"
proof (induction rs arbitrary: m)
  case (Cons r rs)
  then show ?case using Cons.IH[of "put_rule r m"]
    by (auto simp: last_rule_Cons split: option.split)
qed (simp add: last_rule_def)

lemma overlay_fold:
  "fold (overlay_file lib yaml) files (m, sh) =
     fold (\<lambda>r (m, sh). (put_rule r m, if map_of m (cr_id r) \<noteq> None then sh @ [cr_id r] else sh))
       (disk_rules lib yaml files) (m, sh)"
  by (induction files arbitrary: m sh)
    (auto simp: disk_rules_def map_filter_simps overlay_file_def put_rule_def split: sum.split option.split)

text \<open>An id is reported when it was there already, or is loaded twice.\<close>

lemma overlay_fold_spec:
  "fold (\<lambda>r (m, sh). (put_rule r m, if map_of m (cr_id r) \<noteq> None then sh @ [cr_id r] else sh)) rs (m, sh) = (m', sh') \<Longrightarrow>
     m' = fold put_rule rs m
     \<and> set sh' = set sh \<union> {i \<in> cr_id ` set rs. map_of m i \<noteq> None \<or> 2 \<le> count_list (map cr_id rs) i}"
proof (induction rs arbitrary: m sh)
  case (Cons r rs)
  let ?m = "put_rule r m" and ?sh = "if map_of m (cr_id r) \<noteq> None then sh @ [cr_id r] else sh"
  have IH: "m' = fold put_rule rs ?m"
    "set sh' = set ?sh \<union> {i \<in> cr_id ` set rs. map_of ?m i \<noteq> None \<or> 2 \<le> count_list (map cr_id rs) i}"
    using Cons by auto
  have in_rs: "cr_id r \<in> cr_id ` set rs \<longleftrightarrow> 1 \<le> count_list (map cr_id rs) (cr_id r)"
    using count_list_0_iff[of "map cr_id rs" "cr_id r"] by auto
  have "set sh' = set sh \<union> {i \<in> cr_id ` set (r # rs). map_of m i \<noteq> None \<or> 2 \<le> count_list (map cr_id (r # rs)) i}"
    unfolding IH(2) using in_rs by (auto split: if_splits)
  then show ?case using IH(1) by simp
qed simp

lemma load_rule_at_load:
  "load_rule_str_for lib yaml content only_for AtLoad = Inr (Some rule) \<Longrightarrow>
     compile_conditions lib (rc_pending (cr_conditions rule)) \<noteq> []"
  by (auto simp: load_rule_str_for_def rbind_Inr Let_def conditions_get_def split: if_splits)

text \<open>What the overlay leaves. Every id has one rule: the one read last from the operator's
  files if they hold it, and otherwise the last embedded one. No rule read from disk is without a
  condition, so none matches every event. The ids reported as shadowed come sorted, and are
  those of embedded rules a file replaced, and also, against what the documentation says of them,
  those of rules that only the files hold, when two of them hold it.\<close>

theorem overlay_engine:
  "case load_with_overlay_reporting lib yaml dir files of (rules, shadowed) \<Rightarrow>
     distinct (map cr_id rules)
   \<and> set rules = {r. last_rule (load_embedded lib yaml dir @ disk_rules lib yaml files) (cr_id r) = Some r}
   \<and> list_all (\<lambda>r. compile_conditions lib (rc_pending (cr_conditions r)) \<noteq> []) (disk_rules lib yaml files)
   \<and> sorted shadowed
   \<and> set shadowed = {i \<in> cr_id ` set (disk_rules lib yaml files).
        i \<in> cr_id ` set (load_embedded lib yaml dir) \<or> 2 \<le> count_list (map cr_id (disk_rules lib yaml files)) i}"
proof -
  let ?emb = "load_embedded lib yaml dir" and ?disk = "disk_rules lib yaml files"
  let ?m = "fold put_rule ?emb []"
  obtain m sh where fold: "fold (overlay_file lib yaml) files (?m, []) = (m, sh)" by fastforce
  have m: "m = fold put_rule ?disk ?m"
    and sh: "set sh = {i \<in> cr_id ` set ?disk. map_of ?m i \<noteq> None \<or> 2 \<le> count_list (map cr_id ?disk) i}"
    using overlay_fold_spec[OF fold[unfolded overlay_fold]] by simp_all
  have res: "load_with_overlay_reporting lib yaml dir files = (map snd m, if sh = [] then sh else sort sh)"
    using fold by (simp add: load_with_overlay_reporting_def put_rule_def[abs_def])
  have emb: "keyed ?m" "map_of ?m i = last_rule ?emb i" for i
    using fold_put[of "[]" ?emb] by (auto simp: keyed_def split: option.split)
  have keyed: "keyed m" and get: "map_of m i = last_rule (?emb @ ?disk) i" for i
    using fold_put[OF emb(1), of ?disk] m emb(2)
    by (auto simp: last_rule_def find_append split: option.split)
  have ids: "map cr_id (map snd m) = map fst m" using keyed by (auto simp: keyed_def)
  have "r \<in> set (map snd m) \<longleftrightarrow> map_of m (cr_id r) = Some r" for r
    using keyed by (force simp: keyed_def dest: map_of_SomeD)
  then have "set (map snd m) = {r. last_rule (?emb @ ?disk) (cr_id r) = Some r}" by (auto simp: get)
  moreover have "list_all (\<lambda>r. compile_conditions lib (rc_pending (cr_conditions r)) \<noteq> []) ?disk"
    by (auto simp: list_all_iff disk_rules_def map_filter_def load_rule_file_def rbind_Inr load_rule_at_load
        split: sum.splits)
  moreover have "distinct (map cr_id (map snd m))" unfolding ids using keyed by (simp add: keyed_def)
  moreover have "sorted (if sh = [] then sh else sort sh)" by simp
  moreover have "set (if sh = [] then sh else sort sh) = {i \<in> cr_id ` set ?disk.
        i \<in> cr_id ` set ?emb \<or> 2 \<le> count_list (map cr_id ?disk) i}"
    using sh emb(2) last_rule_None[of ?emb] by auto
  ultimately show ?thesis by (simp add: res)
qed

end
