(* ===== verification/Deobf.thy ===== *)
theory Deobf
  imports Text
begin

text \<open>
  Reading untrusted text for injection (\<^verbatim>\<open>src/crates/agent-guard/src/deobfuscate.rs\<close>, the
  pattern list and its check in \<^verbatim>\<open>threats.rs\<close>, \<^verbatim>\<open>scan_injection\<close> in \<^verbatim>\<open>mcp.rs\<close>): invisible characters are dropped,
  text hidden in the Tags block and in base64 is recovered for matching only. NFKC, the four
  base64 decoders and the search for base64 runs are other crates' and are the arguments
  \<open>text_lib\<close>; \<^verbatim>\<open>to_lowercase\<close> beyond ASCII is the argument \<open>lower\<close>.
\<close>

record text_lib =
  tl_nfkc :: "string \<Rightarrow> string"
  tl_b64_runs :: "string \<Rightarrow> string list"
  tl_standard :: "string \<Rightarrow> bytes option"
  tl_standard_no_pad :: "string \<Rightarrow> bytes option"
  tl_url_safe :: "string \<Rightarrow> bytes option"
  tl_url_safe_no_pad :: "string \<Rightarrow> bytes option"

record deobfuscated =
  db_normalized :: string
  db_decoded :: "string list"
  db_stripped_invisible :: bool
  db_nfkc_introduced_ascii :: bool

definition MAX_CHARS :: nat where "MAX_CHARS = 2 ^ 20"
definition MAX_B64_BLOBS :: nat where "MAX_B64_BLOBS = 16"
definition MAX_B64_DECODED :: nat where "MAX_B64_DECODED = 8192"

definition is_invisible :: "uchar \<Rightarrow> bool" where
  "is_invisible c \<longleftrightarrow>
     c = 0x00AD \<or> (0x200B \<le> c \<and> c \<le> 0x200F) \<or> (0x202A \<le> c \<and> c \<le> 0x202E)
     \<or> (0x2060 \<le> c \<and> c \<le> 0x2064) \<or> (0x2066 \<le> c \<and> c \<le> 0x206F) \<or> c = 0xFEFF
     \<or> (0xFE00 \<le> c \<and> c \<le> 0xFE0F) \<or> (0xE0000 \<le> c \<and> c \<le> 0xE007F) \<or> (0xE0100 \<le> c \<and> c \<le> 0xE01EF)"

text \<open>The code point of a chunk of bytes that is one character.\<close>

definition code_point :: "string \<Rightarrow> uchar" where
  "code_point c = (case chars c of n # _ \<Rightarrow> n | [] \<Rightarrow> 0)"

text \<open>The loop over the characters: the text without invisible ones, the ASCII of the Tags block,
  and whether anything was dropped.\<close>

fun strip_chars :: "string list \<Rightarrow> string \<times> string \<times> bool" where
  "strip_chars [] = ([], [], False)"
| "strip_chars (c # cs) =
     (let (stripped, tags_recovered, stripped_invisible) = strip_chars cs; cp = code_point c in
      if 0xE0001 \<le> cp \<and> cp \<le> 0xE007F then (stripped, char_of (cp - 0xE0000) # tags_recovered, True)
      else if is_invisible cp then (stripped, tags_recovered, True)
      else (c @ stripped, tags_recovered, stripped_invisible))"

definition is_ascii_alphabetic :: "char \<Rightarrow> bool" where
  "is_ascii_alphabetic c \<longleftrightarrow> is_ascii_lowercase c \<or> is_ascii_uppercase c"

definition try_b64 :: "text_lib \<Rightarrow> string \<Rightarrow> bytes option" where
  "try_b64 lib s =
     (case tl_standard lib s of Some b \<Rightarrow> Some b
      | None \<Rightarrow> (case tl_standard_no_pad lib s of Some b \<Rightarrow> Some b
      | None \<Rightarrow> (case tl_url_safe lib s of Some b \<Rightarrow> Some b
      | None \<Rightarrow> tl_url_safe_no_pad lib s)))"

definition is_printable :: "string \<Rightarrow> bool" where
  "is_printable text =
     (let total = length (chars text);
          printable = length (filter (\<lambda>c. (33 \<le> c \<and> c \<le> 126) \<or> is_whitespace c) (chars text))
      in 0 < total \<and> total * 3 \<le> printable * 4)"

fun decode_blobs :: "text_lib \<Rightarrow> string list \<Rightarrow> string list \<Rightarrow> string list" where
  "decode_blobs lib [] out = out"
| "decode_blobs lib (blob # blobs) out =
     (if MAX_B64_BLOBS \<le> length out then out
      else case try_b64 lib blob of
        None \<Rightarrow> decode_blobs lib blobs out
      | Some bytes \<Rightarrow>
          if bytes = [] \<or> MAX_B64_DECODED < length bytes then decode_blobs lib blobs out
          else case from_utf8 bytes of
            None \<Rightarrow> decode_blobs lib blobs out
          | Some text \<Rightarrow> decode_blobs lib blobs (if is_printable text then out @ [text] else out))"

definition decode_base64_candidates :: "text_lib \<Rightarrow> string \<Rightarrow> string list" where
  "decode_base64_candidates lib input = decode_blobs lib (tl_b64_runs lib input) []"

definition deobfuscate :: "text_lib \<Rightarrow> string \<Rightarrow> deobfuscated" where
  "deobfuscate lib input =
     (let (stripped, tags_recovered, stripped_invisible) = strip_chars (take MAX_CHARS (chunks input));
          normalized = tl_nfkc lib stripped;
          nfkc_changed = (normalized \<noteq> stripped);
          ascii_before = length (filter is_ascii_alphabetic stripped);
          ascii_after = length (filter is_ascii_alphabetic normalized);
          decoded = decode_base64_candidates lib input
      in \<lparr>db_normalized = normalized,
          db_decoded = (if trim tags_recovered \<noteq> [] then decoded @ [tags_recovered] else decoded),
          db_stripped_invisible = stripped_invisible,
          db_nfkc_introduced_ascii = (nfkc_changed \<and> ascii_before < ascii_after)\<rparr>)"

subsection \<open>The injection patterns\<close>

definition INJECTION_PATTERNS :: "string list" where
  "INJECTION_PATTERNS =
    [''ignore previous instructions'', ''ignore all instructions'', ''you are now'', ''your new role'',
     ''new system prompt'', ''forget everything above'', ''from now on you'', ''override your'',
     ''forward all emails to'', ''send this to'', ''exfiltrate'', ''download and execute'',
     ''execute this command'', ''now execute'', ''next you should'', ''important: run this'',
     ''before continuing you must'', ''skip the verification'', ''no need to verify'',
     ''override safety'', ''system override'', ''disregard your safety'',
     ''olvida tus instrucciones anteriores'', ''the admin says'', ''emergency override'',
     ''do not tell the user'', ''keep this secret'']"

definition check_injection :: "(string \<Rightarrow> string) \<Rightarrow> string \<Rightarrow> string option" where
  "check_injection lower content = List.find (contains (lower content)) INJECTION_PATTERNS"

definition scan_injection :: "(string \<Rightarrow> string) \<Rightarrow> string \<Rightarrow> deobfuscated \<Rightarrow> (string \<times> string) option" where
  "scan_injection lower raw deob =
     (case check_injection lower raw of
        Some p \<Rightarrow> Some (p, ''raw'')
      | None \<Rightarrow>
          (case (if db_normalized deob \<noteq> raw then check_injection lower (db_normalized deob) else None) of
             Some p \<Rightarrow> Some (p, ''de-obfuscated'')
           | None \<Rightarrow>
               (case List.find (\<lambda>blob. check_injection lower blob \<noteq> None) (db_decoded deob) of
                  Some blob \<Rightarrow> map_option (\<lambda>p. (p, ''decoded base64'')) (check_injection lower blob)
                | None \<Rightarrow> None)))"

subsection \<open>What is found\<close>

lemma check_injection_found:
  "p \<in> set INJECTION_PATTERNS \<Longrightarrow> contains (lower s) p \<Longrightarrow> check_injection lower s \<noteq> None"
  by (auto simp: check_injection_def find_None_iff)

text \<open>A scan finds a pattern in the text, in its normalized copy, and in any decoded blob.\<close>

lemma scan_injection_iff:
  "scan_injection lower raw deob \<noteq> None \<longleftrightarrow>
     (\<exists>t \<in> {raw, db_normalized deob} \<union> set (db_decoded deob). check_injection lower t \<noteq> None)"
proof (cases "check_injection lower raw")
  case None
  show ?thesis
  proof (cases "check_injection lower (db_normalized deob)")
    case none: None
    show ?thesis
    proof (cases "List.find (\<lambda>blob. check_injection lower blob \<noteq> None) (db_decoded deob)")
      case nof: None
      then have "\<forall>t \<in> set (db_decoded deob). check_injection lower t = None" by (simp add: find_None_iff)
      then show ?thesis using None none nof by (simp add: scan_injection_def)
    next
      case (Some blob)
      then have "blob \<in> set (db_decoded deob)" "check_injection lower blob \<noteq> None" by (auto simp: find_Some_iff)
      then show ?thesis using None none Some by (auto simp: scan_injection_def)
    qed
  next
    case (Some p)
    then show ?thesis using None by (auto simp: scan_injection_def)
  qed
qed (simp add: scan_injection_def)

text \<open>The decoded blobs are few and short, whatever the text.\<close>

lemma decode_blobs_bound:
  assumes "length out \<le> MAX_B64_BLOBS" "list_all (\<lambda>t. length t \<le> MAX_B64_DECODED) out"
  shows "length (decode_blobs lib blobs out) \<le> MAX_B64_BLOBS
    \<and> list_all (\<lambda>t. length t \<le> MAX_B64_DECODED) (decode_blobs lib blobs out)"
  using assms
  by (induction lib blobs out rule: decode_blobs.induct)
    (auto simp: from_utf8_def split: option.split if_splits)

lemma deobfuscate_decoded_bound: "length (db_decoded (deobfuscate lib input)) \<le> MAX_B64_BLOBS + 1"
  using decode_blobs_bound[of "[]" lib "tl_b64_runs lib input"]
  by (auto simp: deobfuscate_def decode_base64_candidates_def Let_def split: prod.split)

text \<open>The visible text of an input within the cap, and the text hidden in the Tags block.\<close>

definition visible_text :: "string \<Rightarrow> string" where
  "visible_text s = concat (filter (\<lambda>c. \<not> is_invisible (code_point c)) (chunks s))"

definition tags_text :: "string \<Rightarrow> string" where
  "tags_text s = map (\<lambda>c. char_of (code_point c - 0xE0000))
     (filter (\<lambda>c. 0xE0001 \<le> code_point c \<and> code_point c \<le> 0xE007F) (chunks s))"

lemma strip_chars_spec:
  "strip_chars cs =
     (concat (filter (\<lambda>c. \<not> is_invisible (code_point c)) cs),
      map (\<lambda>c. char_of (code_point c - 0xE0000)) (filter (\<lambda>c. 0xE0001 \<le> code_point c \<and> code_point c \<le> 0xE007F) cs),
      list_ex (\<lambda>c. is_invisible (code_point c)) cs)"
  by (induction cs) (auto simp: Let_def is_invisible_def)

lemma deobfuscate_spec:
  assumes "char_count s \<le> MAX_CHARS"
  shows "db_normalized (deobfuscate lib s) = tl_nfkc lib (visible_text s)"
    and "db_stripped_invisible (deobfuscate lib s) \<longleftrightarrow> list_ex (\<lambda>c. is_invisible (code_point c)) (chunks s)"
    and "trim (tags_text s) \<noteq> [] \<Longrightarrow> tags_text s \<in> set (db_decoded (deobfuscate lib s))"
  using assms
  by (simp_all add: deobfuscate_def strip_chars_spec visible_text_def tags_text_def char_count_def Let_def)

end
