(* ===== verification/Inspect.thy ===== *)
theory Inspect
  imports Alert Rules Deobf PrivTarget "HOL-Library.While_Combinator"
begin

text \<open>
  The inspection of MCP messages (\<^verbatim>\<open>src/crates/agent-guard/src/mcp.rs\<close>): a tool call, a tool's
  description, a response, the user's input. The analysis of a shell command, the check of
  sensitive paths, the redaction of secrets, JSON printing and the Unicode tables are the
  fields of \<open>scanners\<close>; the rule engine is \<open>Rules\<close>, whose lock is not visible in an answer.
\<close>

record scanners =
  sc_lower :: "string \<Rightarrow> string"
  sc_char_lower :: "string \<Rightarrow> string"
  sc_is_alphanumeric :: "uchar \<Rightarrow> bool"
  sc_is_uppercase :: "uchar \<Rightarrow> bool"
  sc_is_lowercase :: "uchar \<Rightarrow> bool"
  sc_print :: "json \<Rightarrow> string"
  sc_redact :: "string \<Rightarrow> string"
  sc_analyze_command :: "compiled_rule list option \<Rightarrow> string \<Rightarrow> command_analysis"
  sc_check_sensitive_path :: "string \<Rightarrow> string option"
  sc_regex :: regex_lib
  sc_text :: text_lib

subsection \<open>A command given to a shell tool\<close>

definition shell_exact :: "string list" where
  "shell_exact =
     [''bash'', ''shell'', ''terminal'', ''exec'', ''execute'', ''exec_command'', ''execute_command'',
      ''run_command'', ''run_shell'', ''shell_exec'', ''computer_terminal'']"

definition namespace_safe_suffixes :: "string list" where
  "namespace_safe_suffixes =
     [''bash'', ''shell'', ''terminal'', ''exec_command'', ''execute_command'', ''run_command'',
      ''run_shell'', ''shell_exec'', ''computer_terminal'']"

definition canonical_tool_name :: "string \<Rightarrow> string" where
  "canonical_tool_name tool_name =
     concat (map (\<lambda>c. if length c = 1 \<and> is_ascii_alphanumeric (hd c) then c else ''_'')
       (chunks (to_ascii_lowercase tool_name)))"

text \<open>\<^verbatim>\<open>rsplit_once\<close>: cut at the last occurrence.\<close>

definition rsplit_once :: "string \<Rightarrow> string \<Rightarrow> (string \<times> string) option" where
  "rsplit_once s p =
     (case find_str (List.rev s) (List.rev p) of
        Some i \<Rightarrow> Some (take (length s - i - length p) s, drop (length s - i) s)
      | None \<Rightarrow> None)"

definition is_shell_tool :: "string \<Rightarrow> bool" where
  "is_shell_tool tool_name \<longleftrightarrow>
     (let canonical = canonical_tool_name tool_name in
      canonical \<in> set shell_exact
      \<or> is_some_and (rsplit_once (to_ascii_lowercase tool_name) ''__'')
          (\<lambda>(namespace, last). namespace \<noteq> [] \<and> last = ''exec'')
      \<or> list_ex (\<lambda>candidate. ends_with canonical (''_'' @ candidate)) namespace_safe_suffixes)"

fun find_map :: "('a \<Rightarrow> 'b option) \<Rightarrow> 'a list \<Rightarrow> 'b option" where
  "find_map f [] = None"
| "find_map f (x # xs) = (case f x of Some y \<Rightarrow> Some y | None \<Rightarrow> find_map f xs)"

definition shell_command_argument :: "string \<Rightarrow> json \<Rightarrow> string option" where
  "shell_command_argument tool_name args =
     (if \<not> is_shell_tool tool_name then None
      else case args of
        JObj m \<Rightarrow> find_map (\<lambda>key. Option.bind (bget m key) as_str) [''command'', ''cmd'', ''script'']
      | _ \<Rightarrow> None)"

subsection \<open>What a tool's name and arguments say it writes\<close>

definition WRITE_TOOLS :: "string list" where
  "WRITE_TOOLS = [''write_file'', ''edit_file'', ''move_file'', ''create_directory'']"

definition WRITE_VERBS :: "string list" where
  "WRITE_VERBS =
     [''write'', ''edit'', ''move'', ''rename'', ''create'', ''delete'', ''remove'', ''append'',
      ''replace'', ''save'', ''put'', ''upload'', ''patch'', ''insert'', ''copy'', ''mkdir'', ''chmod'',
      ''chown'', ''unlink'', ''truncate'', ''overwrite'', ''upsert'']"

text \<open>The loop that cuts a name into words: the words so far, the word being read, and whether the
  character before was lower case.\<close>

fun name_words :: "scanners \<Rightarrow> string list \<Rightarrow> string list \<Rightarrow> string \<Rightarrow> bool \<Rightarrow> string list" where
  "name_words sc [] words word previous_lower = (if word \<noteq> [] then words @ [word] else words)"
| "name_words sc (c # cs) words word previous_lower =
     (if \<not> sc_is_alphanumeric sc (code_point c) then
        name_words sc cs (if word \<noteq> [] then words @ [word] else words) [] False
      else
        (let (words, word) =
               (if sc_is_uppercase sc (code_point c) \<and> previous_lower then (words @ [word], []) else (words, word))
         in name_words sc cs words (word @ sc_char_lower sc c)
              (sc_is_lowercase sc (code_point c) \<or> (length c = 1 \<and> is_ascii_digit (hd c)))))"

definition is_write_word :: "string \<Rightarrow> bool" where
  "is_write_word word \<longleftrightarrow>
     list_ex (\<lambda>verb. is_some_and (strip_prefix verb word)
       (\<lambda>rest. rest \<in> {[], ''s'', ''r'', ''or'', ''er''})) WRITE_VERBS"

definition name_says_it_writes :: "scanners \<Rightarrow> string \<Rightarrow> bool" where
  "name_says_it_writes sc tool_name \<longleftrightarrow>
     tool_name \<in> set WRITE_TOOLS \<or> list_ex is_write_word (name_words sc (chunks tool_name) [] [] False)"

definition CONTENT_ARGS :: "string list" where
  "CONTENT_ARGS =
     [''content'', ''text'', ''oldText'', ''newText'', ''old_text'', ''new_text'', ''old_str'',
      ''new_str'', ''old_string'', ''new_string'', ''file_text'']"

definition TARGET_ARGS :: "string list" where
  "TARGET_ARGS =
     [''path'', ''paths'', ''file'', ''files'', ''filename'', ''filenames'', ''filepath'', ''filepaths'',
      ''source'', ''sources'', ''src'', ''sourcepath'', ''destination'', ''destinations'', ''dest'',
      ''dst'', ''destpath'', ''destinationpath'', ''target'', ''targets'', ''targetpath'', ''targetfile'',
      ''to'', ''from'', ''newpath'', ''oldpath'', ''uri'', ''url'', ''location'', ''output'',
      ''outputpath'', ''outputfile'', ''outfile'', ''dir'', ''directory'', ''directories'', ''dirpath'',
      ''folder'', ''folderpath'', ''savepath'']"

definition is_target_arg :: "string \<Rightarrow> bool" where
  "is_target_arg key \<longleftrightarrow> to_ascii_lowercase (filter is_ascii_alphanumeric key) \<in> set TARGET_ARGS"

datatype named = Target | InPassing

definition judged :: "scanners \<Rightarrow> string \<Rightarrow> named \<Rightarrow> privileged_target option" where
  "judged sc text n =
     (case n of
        Target \<Rightarrow> privileged_write_target (sc_lower sc) text
      | InPassing \<Rightarrow>
          (let token = trim_quotes (trim text);
               spelled_as_path = prefix ''/'' token \<or> prefix ''~'' token
                 \<or> is_some_and (get_head 5 token) (\<lambda>scheme. eq_ignore_ascii_case scheme ''file:'')
           in if \<not> spelled_as_path \<or> list_ex is_whitespace (chars token) then None
              else opt_filter (\<lambda>found. \<not> pg_named_in_passing (pt_group found))
                     (privileged_write_target (sc_lower sc) token)))"

text \<open>The loop over \<^verbatim>\<open>pending\<close>, the stack's top first. A state is what is still pending and what the
  step before found, with where it was; the loop goes on while nothing is found.\<close>

type_synonym pending = "(json \<times> named) list"

definition push_field :: "string \<Rightarrow> json \<Rightarrow> pending \<Rightarrow> pending" where
  "push_field key v st =
     (if as_str v \<noteq> None \<and> key \<in> set CONTENT_ARGS then st
      else (v, if is_target_arg key then Target else InPassing) # st)"

fun push_fields ::
  "scanners \<Rightarrow> named \<Rightarrow> (string \<times> json) list \<Rightarrow> pending \<Rightarrow> pending \<times> privileged_target option" where
  "push_fields sc n [] st = (st, None)"
| "push_fields sc n ((key, v) # m) st =
     (case judged sc key n of
        Some found \<Rightarrow> (push_field key v st, Some found)
      | None \<Rightarrow> push_fields sc n m (push_field key v st))"

fun walk_step ::
  "scanners \<Rightarrow> pending \<times> (privileged_target \<times> named) option \<Rightarrow> pending \<times> (privileged_target \<times> named) option"
where
  "walk_step sc ((JStr s, n) # st, _) = (st, map_option (\<lambda>t. (t, n)) (judged sc s n))"
| "walk_step sc ((JArr items, n) # st, _) = (List.rev (map (\<lambda>item. (item, n)) items) @ st, None)"
| "walk_step sc ((JObj m, n) # st, _) =
     (let (st, found) = push_fields sc n m st in (st, map_option (\<lambda>t. (t, n)) found))"
| "walk_step sc ((_, n) # st, _) = (st, None)"
| "walk_step sc ([], found) = ([], found)"

definition walking :: "pending \<times> (privileged_target \<times> named) option \<Rightarrow> bool" where
  "walking s \<longleftrightarrow> fst s \<noteq> [] \<and> snd s = None"

definition walk_pending ::
  "scanners \<Rightarrow> json \<Rightarrow> (pending \<times> (privileged_target \<times> named) option) option" where
  "walk_pending sc args = while_option walking (walk_step sc) ([(args, InPassing)], None)"

definition declared_read_only :: "scanners \<Rightarrow> string \<Rightarrow> tool_declaration \<Rightarrow> bool" where
  "declared_read_only sc tool_name declared =
     (case declared of
        DeclReadOnly \<Rightarrow> \<not> name_says_it_writes sc tool_name
      | DeclWrites \<Rightarrow> False
      | DeclUnknown \<Rightarrow> tool_name \<in> set READ_ONLY_TOOLS)"

definition priv_write_detail ::
  "scanners \<Rightarrow> string \<Rightarrow> tool_declaration \<Rightarrow> privileged_target \<Rightarrow> named \<Rightarrow> string" where
  "priv_write_detail sc tool_name declared found n =
     (let shown = take_chars 160 (sc_redact sc (pt_path found));
          what = pg_what (pt_group found);
          writes = (declared = DeclWrites \<or> tool_name \<in> set WRITE_TOOLS)
      in if writes \<and> n = Target then ''may change `'' @ shown @ ''`, part of '' @ what
         else ''names `'' @ shown @ ''`, part of '' @ what
              @ '', and its server does not say this tool only reads'')"

text \<open>\<open>None\<close> of the walk is a loop that does not end; it does not occur (\<open>walk_ends\<close>).\<close>

definition privileged_write_alert ::
  "scanners \<Rightarrow> string \<Rightarrow> json \<Rightarrow> tool_declaration \<Rightarrow> verdict_alert option" where
  "privileged_write_alert sc tool_name args declared =
     (if declared_read_only sc tool_name declared then None
      else case walk_pending sc args of
        Some (_, Some (found, n)) \<Rightarrow>
          Some (builtin_alert ''AG-PRIV-WRITE'' (priv_write_detail sc tool_name declared found n) True)
      | _ \<Rightarrow> None)"

subsection \<open>Credentials and indicators\<close>

definition API_KEY_PATTERNS :: "(string \<times> string) list" where
  "API_KEY_PATTERNS =
     [(''sk-ant-[a-zA-Z0-9_-]{20,}'', ''Anthropic API key''),
      (''sk-proj-[a-zA-Z0-9_-]{20,}'', ''OpenAI project key''),
      (''sk-[a-zA-Z0-9_-]{40,}'', ''OpenAI API key''),
      (''xoxb-[a-zA-Z0-9_-]{20,}'', ''Slack bot token''),
      (''ghp_[a-zA-Z0-9]{36}'', ''GitHub PAT''),
      (''AKIA[A-Z0-9]{16}'', ''AWS access key''),
      (''glpat-[a-zA-Z0-9_-]{20,}'', ''GitLab PAT'')]"

definition api_key_regexes :: "regex_lib \<Rightarrow> ((string \<Rightarrow> bool) \<times> string) list" where
  "api_key_regexes lib =
     List.map_filter (\<lambda>(pattern, desc). map_option (\<lambda>re. (re, desc)) (rl_fast lib pattern)) API_KEY_PATTERNS"

definition check_credentials :: "regex_lib \<Rightarrow> string \<Rightarrow> string option" where
  "check_credentials lib content =
     map_option snd (List.find (\<lambda>(re, desc). re content) (api_key_regexes lib))"

definition SUPPLY_CHAIN_IOCS :: "string list" where
  "SUPPLY_CHAIN_IOCS =
     [''webhook.site'', ''LD_PRELOAD'', ''DYLD_INSERT'', ''NODE_OPTIONS=--require'', ''reverse.shell'',
      ''reverse_shell'']"

definition is_hard_secret :: "string \<Rightarrow> bool" where
  "is_hard_secret path \<longleftrightarrow>
     path \<in> {''.ssh/'', ''.gnupg/'', ''.git-credentials'', ''/etc/shadow'', ''/etc/gshadow'', ''id_rsa'',
             ''id_ed25519'', ''id_ecdsa'', ''id_dsa'', ''.pem'', ''.key'', ''.pfx''}"

definition from_atr :: "atr_match \<Rightarrow> bool \<Rightarrow> verdict_alert" where
  "from_atr m block =
     (let owasp = rf_owasp_llm (am_references m) @ rf_owasp_agentic (am_references m);
          mitre = rf_mitre_atlas (am_references m) @ rf_mitre_attack (am_references m)
      in \<lparr>va_rule = am_rule_id m, va_detail = am_title m @ '': '' @ am_matched_condition m, va_block = block,
          va_category = Some (am_category m), va_owasp = (if owasp = [] then None else Some owasp),
          va_mitre = (if mitre = [] then None else Some mitre)\<rparr>)"

definition severity_blocks :: "atr_match \<Rightarrow> bool" where
  "severity_blocks m \<longleftrightarrow> am_severity m = ''critical'' \<or> am_severity m = ''high''"

text \<open>\<^verbatim>\<open>engine.check_context\<close>, when there is an engine.\<close>

definition engine_matches :: "scanners \<Rightarrow> compiled_rule list option \<Rightarrow> atr_context \<Rightarrow> atr_match list" where
  "engine_matches sc engine context =
     (case engine of Some rules \<Rightarrow> fst (check_context (sc_regex sc) rules context) | None \<Rightarrow> [])"

definition verdict_of :: "verdict_alert list \<Rightarrow> mcp_verdict" where
  "verdict_of alerts = \<lparr>mv_allowed = (\<not> list_ex va_block alerts), mv_alerts = alerts\<rparr>"

definition opt_alert :: "'a option \<Rightarrow> ('a \<Rightarrow> verdict_alert) \<Rightarrow> verdict_alert list" where
  "opt_alert x f = (case x of Some a \<Rightarrow> [f a] | None \<Rightarrow> [])"

subsection \<open>A tool call\<close>

definition inspect_shell_command :: "scanners \<Rightarrow> compiled_rule list option \<Rightarrow> string \<Rightarrow> mcp_verdict" where
  "inspect_shell_command sc engine command =
     (let analysis = sc_analyze_command sc engine command;
          blocks = blocks_for_agent analysis;
          denied = (ca_recommendation analysis = ''deny'')
      in \<lparr>mv_allowed = (\<not> blocks),
          mv_alerts = map (\<lambda>s. let charged_floor = 0 < as_score s \<and> as_signal s \<in> set AGENT_REVIEW_FLOOR
                               in builtin_alert ''AG-CMD'' (as_detail s) (denied \<or> (blocks \<and> charged_floor)))
                        (ca_signals analysis)\<rparr>)"

definition inspect_declared_tool_call ::
  "scanners \<Rightarrow> string \<Rightarrow> json \<Rightarrow> tool_declaration \<Rightarrow> compiled_rule list option \<Rightarrow> mcp_verdict" where
  "inspect_declared_tool_call sc tool_name args declared engine =
     (case shell_command_argument tool_name args of
        Some command \<Rightarrow> inspect_shell_command sc engine command
      | None \<Rightarrow>
          (let args_str = sc_print sc args;
               credentials = opt_alert (check_credentials (sc_regex sc) args_str)
                 (\<lambda>desc. builtin_alert ''AG-CRED'' (''credential exposure: '' @ desc) True);
               sensitive = opt_alert (sc_check_sensitive_path sc args_str)
                 (\<lambda>path. builtin_alert ''AG-FILE'' (''sensitive file: '' @ path) (is_hard_secret path));
               privileged = opt_alert (privileged_write_alert sc tool_name args declared) (\<lambda>alert. alert);
               args_lower = sc_lower sc args_str;
               ioc = opt_alert (List.find (\<lambda>ioc. contains args_lower (sc_lower sc ioc)) SUPPLY_CHAIN_IOCS)
                 (\<lambda>ioc. builtin_alert ''AG-IOC'' (''supply chain IOC: '' @ ioc) True);
               atr = map (\<lambda>m. from_atr m (severity_blocks m))
                 (engine_matches sc engine (ctx_tool_call tool_name args_str))
           in verdict_of (credentials @ sensitive @ privileged @ ioc @ atr)))"

definition inspect_tool_call :: "scanners \<Rightarrow> string \<Rightarrow> json \<Rightarrow> compiled_rule list option \<Rightarrow> mcp_verdict" where
  "inspect_tool_call sc tool_name args engine = inspect_declared_tool_call sc tool_name args DeclUnknown engine"

subsection \<open>Text: a description, a response, the user's input\<close>

fun add_unseen :: "string set \<Rightarrow> atr_match list \<Rightarrow> atr_match list" where
  "add_unseen seen [] = []"
| "add_unseen seen (m # ms) =
     (if am_rule_id m \<in> seen then add_unseen seen ms
      else m # add_unseen (insert (am_rule_id m) seen) ms)"

definition atr_scan_deob :: "string \<Rightarrow> deobfuscated \<Rightarrow> (string \<Rightarrow> atr_match list) \<Rightarrow> atr_match list" where
  "atr_scan_deob raw deob check =
     (let out = check raw in
      if db_normalized deob \<noteq> raw
      then out @ add_unseen (am_rule_id ` set out) (check (db_normalized deob)) else out)"

definition inspect_user_input :: "scanners \<Rightarrow> string \<Rightarrow> compiled_rule list option \<Rightarrow> mcp_verdict" where
  "inspect_user_input sc content engine =
     (let deob = deobfuscate (sc_text sc) content;
          injection = opt_alert (scan_injection (sc_lower sc) content deob)
            (\<lambda>(pattern, source). builtin_alert ''AG-INJECT''
               (''prompt injection ('' @ source @ ''): '' @ [CHR 0x27] @ pattern @ [CHR 0x27]) True);
          matches = engine_matches sc engine (ctx_user_input content);
          more = (if db_normalized deob \<noteq> content
                  then filter (\<lambda>m. am_rule_id m \<notin> am_rule_id ` set matches)
                         (engine_matches sc engine (ctx_user_input (db_normalized deob)))
                  else [])
      in verdict_of (injection @ map (\<lambda>m. from_atr m (severity_blocks m)) (matches @ more)))"

definition inspect_tool_description ::
  "scanners \<Rightarrow> string \<Rightarrow> string \<Rightarrow> compiled_rule list option \<Rightarrow> mcp_verdict" where
  "inspect_tool_description sc tool_name description engine =
     (let deob = deobfuscate (sc_text sc) description;
          quoted = (\<lambda>s. [CHR 0x27] @ s @ [CHR 0x27]);
          poison = opt_alert (scan_injection (sc_lower sc) description deob)
            (\<lambda>(pattern, src). builtin_alert ''AG-POISON''
               (''tool '' @ quoted tool_name @ '' poisoned ('' @ src @ ''): '' @ quoted pattern) True);
          invisible = (if db_stripped_invisible deob then [builtin_alert ''AG-OBFUSCATION''
               (''tool '' @ quoted tool_name
                @ '' description hides invisible characters (possible smuggling); scanned de-obfuscated'') True] else []);
          folded = (if db_nfkc_introduced_ascii deob then [builtin_alert ''AG-OBFUSCATION''
               (''tool '' @ quoted tool_name
                @ '' description uses compatibility characters that fold into ASCII (possible smuggling); scanned de-obfuscated'') True] else []);
          credentials = opt_alert (check_credentials (sc_regex sc) description)
            (\<lambda>desc. builtin_alert ''AG-CRED-DESC'' (''credential instruction in '' @ quoted tool_name @ '': '' @ desc) True);
          atr = map (\<lambda>m. from_atr m (severity_blocks m))
            (atr_scan_deob description deob (\<lambda>t. engine_matches sc engine (ctx_tool_description tool_name t)))
      in verdict_of (poison @ invisible @ folded @ credentials @ atr))"

definition inspect_response :: "scanners \<Rightarrow> string \<Rightarrow> compiled_rule list option \<Rightarrow> mcp_verdict" where
  "inspect_response sc content engine =
     (let deob = deobfuscate (sc_text sc) content;
          injection = opt_alert (scan_injection (sc_lower sc) content deob)
            (\<lambda>(pattern, src). builtin_alert ''AG-RESP-INJECT''
               (''injection in response ('' @ src @ ''): '' @ [CHR 0x27] @ pattern @ [CHR 0x27]) False);
          invisible = (if db_stripped_invisible deob then [builtin_alert ''AG-RESP-OBFUSCATION''
               ''response hides invisible characters (possible smuggling); scanned de-obfuscated'' False] else []);
          credentials = opt_alert (check_credentials (sc_regex sc) content)
            (\<lambda>desc. builtin_alert ''AG-RESP-CRED'' (''credential in response: '' @ desc) False);
          atr = map (\<lambda>m. from_atr m False)
            (atr_scan_deob content deob (\<lambda>t. engine_matches sc engine (ctx_tool_response t)))
      in \<lparr>mv_allowed = True, mv_alerts = injection @ invisible @ credentials @ atr\<rparr>)"

subsection \<open>The walk ends and leaves no string out\<close>

text \<open>The strings of a call with where they sit: every string and every key, content left out.\<close>

fun named_strings :: "json \<Rightarrow> named \<Rightarrow> (string \<times> named) set" where
  "named_strings (JStr s) n = {(s, n)}"
| "named_strings (JArr items) n = (\<Union>item \<in> set items. named_strings item n)"
| "named_strings (JObj m) n =
     (\<Union>(key, value) \<in> set m. insert (key, n)
        (if as_str value \<noteq> None \<and> key \<in> set CONTENT_ARGS then {}
         else named_strings value (if is_target_arg key then Target else InPassing)))"
| "named_strings _ n = {}"

fun weight :: "json \<Rightarrow> nat" where
  "weight (JArr items) = Suc (sum_list (map weight items))"
| "weight (JObj m) = Suc (sum_list (map (\<lambda>kv. weight (snd kv)) m))"
| "weight _ = 1"

definition pending_strings :: "pending \<Rightarrow> (string \<times> named) set" where
  "pending_strings st = (\<Union>(v, n) \<in> set st. named_strings v n)"

definition pending_weight :: "pending \<Rightarrow> nat" where
  "pending_weight st = sum_list (map (\<lambda>vn. weight (fst vn)) st)"

lemma pending_simps [simp]:
  "pending_strings [] = {}" "pending_strings (vn # st) = named_strings (fst vn) (snd vn) \<union> pending_strings st"
  "pending_strings (st @ st') = pending_strings st \<union> pending_strings st'"
  "pending_strings (List.rev st) = pending_strings st"
  "pending_weight [] = 0" "pending_weight (vn # st) = weight (fst vn) + pending_weight st"
  "pending_weight (st @ st') = pending_weight st + pending_weight st'"
  "pending_weight (List.rev st) = pending_weight st"
  by (auto simp: pending_strings_def pending_weight_def sum_list_rev simp flip: rev_map split: prod.splits)

lemma push_fields_weight:
  "pending_weight (fst (push_fields sc n m st)) \<le> pending_weight st + sum_list (map (\<lambda>kv. weight (snd kv)) m)"
proof (induction sc n m st rule: push_fields.induct)
  case (2 sc n key v m st)
  have "pending_weight (push_field key v st) \<le> pending_weight st + weight v" by (simp add: push_field_def)
  then show ?case using "2.IH" by (cases "judged sc key n") simp_all
qed simp

lemma push_fields_None:
  "push_fields sc n m st = (st', None) \<Longrightarrow>
     named_strings (JObj m) n \<union> pending_strings st = (\<lambda>k. (k, n)) ` fst ` set m \<union> pending_strings st'
     \<and> (\<forall>k \<in> fst ` set m. judged sc k n = None)"
proof (induction sc n m st rule: push_fields.induct)
  case (2 sc n key v m st)
  have push: "pending_strings (push_field key v st) = (if as_str v \<noteq> None \<and> key \<in> set CONTENT_ARGS then {}
         else named_strings v (if is_target_arg key then Target else InPassing)) \<union> pending_strings st"
    by (simp add: push_field_def)
  have j: "judged sc key n = None" and p: "push_fields sc n m (push_field key v st) = (st', None)"
    using "2.prems" by (simp_all split: option.splits)
  show ?case using "2.IH"[OF j p] j push by (auto split del: if_split)
qed simp

lemma push_fields_Some:
  "push_fields sc n m st = (st', Some t) \<Longrightarrow> \<exists>k \<in> fst ` set m. judged sc k n = Some t"
  by (induction sc n m st rule: push_fields.induct) (auto split: option.splits)

lemma walk_step_weight:
  "walking s \<Longrightarrow> pending_weight (fst (walk_step sc s)) < pending_weight (fst s)"
proof (induction sc s rule: walk_step.induct)
  case (2 sc items n st found)
  have "pending_weight (map (\<lambda>item. (item, n)) items) = sum_list (map weight items)"
    by (simp add: pending_weight_def comp_def)
  then show ?case by simp
next
  case (3 sc m n st found)
  then show ?case using push_fields_weight[of sc n m st] by (simp add: split_beta)
qed (simp_all add: walking_def)

text \<open>What a step may have forgotten names nothing, and what it found was there.\<close>

definition walk_inv :: "scanners \<Rightarrow> (string \<times> named) set \<Rightarrow> pending \<times> (privileged_target \<times> named) option \<Rightarrow> bool" where
  "walk_inv sc every s \<longleftrightarrow>
     (case snd s of
        None \<Rightarrow> pending_strings (fst s) \<subseteq> every
                \<and> (\<forall>(t, n) \<in> every - pending_strings (fst s). judged sc t n = None)
      | Some (found, n) \<Rightarrow> \<exists>t. (t, n) \<in> every \<and> judged sc t n = Some found)"

lemma walk_inv_step: "walk_inv sc every s \<Longrightarrow> walking s \<Longrightarrow> walk_inv sc every (walk_step sc s)"
proof (induction sc s rule: walk_step.induct)
  case (1 sc s n st found)
  then show ?case by (cases "judged sc s n") (auto simp: walk_inv_def walking_def)
next
  case (2 sc items n st found)
  have "pending_strings (map (\<lambda>item. (item, n)) items) = named_strings (JArr items) n"
    by (auto simp: pending_strings_def)
  then show ?case using "2.prems" by (simp add: walk_inv_def walking_def)
next
  case (3 sc m n st found)
  obtain st' f where p: "push_fields sc n m st = (st', f)" by fastforce
  have inv: "named_strings (JObj m) n \<union> pending_strings st \<subseteq> every"
    "\<forall>(t, n') \<in> every - (named_strings (JObj m) n \<union> pending_strings st). judged sc t n' = None"
    using "3.prems" by (simp_all only: walk_inv_def walking_def fst_conv snd_conv pending_simps option.case) simp_all
  show ?case
  proof (cases f)
    case None
    then have "named_strings (JObj m) n \<union> pending_strings st = (\<lambda>k. (k, n)) ` fst ` set m \<union> pending_strings st'"
      "\<forall>k \<in> fst ` set m. judged sc k n = None"
      using push_fields_None[of sc n m st st'] p by simp_all
    moreover from this have "judged sc u n' = None"
      if "(u, n') \<in> every - pending_strings st'" for u n'
      using that inv(2) by (cases "(u, n') \<in> (\<lambda>k. (k, n)) ` fst ` set m") auto
    ultimately show ?thesis using p None inv(1) by (auto simp: walk_inv_def)
  next
    case (Some t)
    then obtain k where k: "k \<in> fst ` set m" "judged sc k n = Some t" using push_fields_Some[of sc n m st st' t] p by auto
    then have "(k, n) \<in> named_strings (JObj m) n" by force
    then show ?thesis using p Some inv(1) k(2) by (auto simp: walk_inv_def)
  qed
qed (simp_all add: walk_inv_def walking_def)

lemma walk_result:
  "\<exists>rest found. walk_pending sc args = Some (rest, found)
     \<and> (found = None \<longleftrightarrow> {(s, n) \<in> named_strings args InPassing. judged sc s n \<noteq> None} = {})
     \<and> found \<in> insert None {Some (t, n) | s t n. (s, n) \<in> named_strings args InPassing \<and> judged sc s n = Some t}"
proof -
  let ?all = "named_strings args InPassing"
  obtain s where s: "while_option walking (walk_step sc) ([(args, InPassing)], None) = Some s"
    using measure_while_option_Some[where P = "\<lambda>_. True" and b = walking and c = "walk_step sc"
        and f = "\<lambda>s. pending_weight (fst s)"] walk_step_weight by blast
  have inv: "walk_inv sc ?all s"
    using while_option_rule[where P = "walk_inv sc ?all", OF _ s] walk_inv_step by (simp add: walk_inv_def)
  have stop: "\<not> walking s" using while_option_stop[OF s] .
  show ?thesis
  proof (cases "snd s")
    case None
    then have "fst s = []" using stop by (simp add: walking_def)
    then have "{(s, n) \<in> ?all. judged sc s n \<noteq> None} = {}" using inv None by (auto simp: walk_inv_def)
    then show ?thesis using s None by (cases s) (simp add: walk_pending_def)
  next
    case (Some f)
    then obtain t n u where "f = (t, n)" "(u, n) \<in> ?all" "judged sc u n = Some t"
      using inv by (cases f) (auto simp: walk_inv_def)
    then show ?thesis using s Some by (cases s) (auto simp: walk_pending_def)
  qed
qed

text \<open>C36: The loop over the arguments of a tool call ends on every JSON value, however deep, and leaves
  nothing out: it finds nothing exactly when no string and no key of the call, content left
  out, names a privileged file where it sits, and what it finds is named by one of them.\<close>

theorem walk_ends:
  "\<exists>rest found. walk_pending sc args = Some (rest, found)
     \<and> (found = None \<longleftrightarrow> {(s, n) \<in> named_strings args InPassing. judged sc s n \<noteq> None} = {})
     \<and> found \<in> insert None {Some (t, n) | s t n. (s, n) \<in> named_strings args InPassing \<and> judged sc s n = Some t}"
  by (rule walk_result)

subsection \<open>When a call is refused\<close>

lemma privileged_write_alert_iff:
  "privileged_write_alert sc tool args declared \<noteq> None \<longleftrightarrow>
     \<not> declared_read_only sc tool declared
     \<and> {(s, n) \<in> named_strings args InPassing. judged sc s n \<noteq> None} \<noteq> {}"
proof -
  obtain rest found where w: "walk_pending sc args = Some (rest, found)"
    "found = None \<longleftrightarrow> {(s, n) \<in> named_strings args InPassing. judged sc s n \<noteq> None} = {}"
    using walk_result[of sc args] by blast
  show ?thesis
  proof (cases found)
    case None
    then show ?thesis using w by (simp add: privileged_write_alert_def)
  next
    case (Some f)
    then show ?thesis using w by (cases f) (simp add: privileged_write_alert_def)
  qed
qed

lemma privileged_write_alert_blocks:
  "privileged_write_alert sc tool args declared = Some a \<Longrightarrow> va_rule a = ''AG-PRIV-WRITE'' \<and> va_block a"
  by (auto simp: privileged_write_alert_def split: if_splits option.splits)

lemma from_atr_block [simp]: "va_block (from_atr m b) = b"
  by (simp add: from_atr_def Let_def)

lemma list_ex_opt_alert [simp]:
  "list_ex P (opt_alert x f) \<longleftrightarrow> is_some_and x (\<lambda>a. P (f a))"
  by (simp add: opt_alert_def split: option.split)

lemma verdict_of_simps [simp]:
  "mv_allowed (verdict_of alerts) \<longleftrightarrow> \<not> list_ex va_block alerts" "mv_alerts (verdict_of alerts) = alerts"
  by (simp_all add: verdict_of_def)

lemma find_list_ex: "(\<exists>y. List.find P xs = Some y) \<longleftrightarrow> list_ex P xs"
  using find_None_iff[of P xs] by (auto simp: list_ex_iff)

lemma list_ex_map_from_atr [simp]:
  "list_ex va_block (map (\<lambda>m. from_atr m (b m)) ms) = list_ex b ms"
  by (simp add: list_ex_iff)

lemma inspect_other:
  assumes "shell_command_argument tool args = None"
  shows "mv_allowed (inspect_declared_tool_call sc tool args declared engine) \<longleftrightarrow>
      check_credentials (sc_regex sc) (sc_print sc args) = None
    \<and> is_none_or (sc_check_sensitive_path sc (sc_print sc args)) (\<lambda>path. \<not> is_hard_secret path)
    \<and> privileged_write_alert sc tool args declared = None
    \<and> \<not> list_ex (\<lambda>ioc. contains (sc_lower sc (sc_print sc args)) (sc_lower sc ioc)) SUPPLY_CHAIN_IOCS
    \<and> \<not> list_ex severity_blocks (engine_matches sc engine (ctx_tool_call tool (sc_print sc args)))"
    and "mv_allowed (inspect_declared_tool_call sc tool args declared engine) \<longleftrightarrow>
      \<not> list_ex va_block (mv_alerts (inspect_declared_tool_call sc tool args declared engine))"
    and "privileged_write_alert sc tool args declared = Some a \<Longrightarrow>
      a \<in> set (mv_alerts (inspect_declared_tool_call sc tool args declared engine))"
proof -
  have none: "x = None \<longleftrightarrow> \<not> is_some_and x (\<lambda>_. True)" for x :: "'a option" by (cases x) simp_all
  have nn: "is_none_or x (\<lambda>p. \<not> P p) \<longleftrightarrow> \<not> is_some_and x P" for x :: "'a option" and P by (cases x) simp_all
  have pa: "is_some_and (privileged_write_alert sc tool args declared) va_block \<longleftrightarrow>
      privileged_write_alert sc tool args declared \<noteq> None"
    using privileged_write_alert_blocks by (cases "privileged_write_alert sc tool args declared") auto
  show "mv_allowed (inspect_declared_tool_call sc tool args declared engine) \<longleftrightarrow>
      check_credentials (sc_regex sc) (sc_print sc args) = None
    \<and> is_none_or (sc_check_sensitive_path sc (sc_print sc args)) (\<lambda>path. \<not> is_hard_secret path)
    \<and> privileged_write_alert sc tool args declared = None
    \<and> \<not> list_ex (\<lambda>ioc. contains (sc_lower sc (sc_print sc args)) (sc_lower sc ioc)) SUPPLY_CHAIN_IOCS
    \<and> \<not> list_ex severity_blocks (engine_matches sc engine (ctx_tool_call tool (sc_print sc args)))"
    using assms pa find_list_ex[of "\<lambda>ioc. contains (sc_lower sc (sc_print sc args)) (sc_lower sc ioc)" SUPPLY_CHAIN_IOCS]
    by (simp add: inspect_declared_tool_call_def Let_def nn is_some_and_iff)
  show "mv_allowed (inspect_declared_tool_call sc tool args declared engine) \<longleftrightarrow>
      \<not> list_ex va_block (mv_alerts (inspect_declared_tool_call sc tool args declared engine))"
    using assms by (simp add: inspect_declared_tool_call_def Let_def)
  show "a \<in> set (mv_alerts (inspect_declared_tool_call sc tool args declared engine))"
    if "privileged_write_alert sc tool args declared = Some a"
    using assms that by (simp add: inspect_declared_tool_call_def Let_def opt_alert_def)
qed

text \<open>When a tool call is allowed. A call that runs a command is allowed exactly when the agent's own
  shell would be (\<open>blocks_for_agent\<close>), with one alert per signal. Any other call is allowed exactly when
  no key pattern is in its arguments, no path of the hard list, no indicator, no match of a
  critical or high rule, and the call is taken for read-only or no string of it names a
  privileged file where it sits. It is refused exactly when one of its alerts blocks.\<close>

theorem inspect_declared_tool_call_spec:
  "case shell_command_argument tool args of
     Some command \<Rightarrow>
       mv_allowed (inspect_declared_tool_call sc tool args declared engine) =
         (\<not> blocks_for_agent (sc_analyze_command sc engine command))
     \<and> map va_detail (mv_alerts (inspect_declared_tool_call sc tool args declared engine)) =
         map as_detail (ca_signals (sc_analyze_command sc engine command))
   | None \<Rightarrow>
       mv_allowed (inspect_declared_tool_call sc tool args declared engine) =
         (check_credentials (sc_regex sc) (sc_print sc args) = None
          \<and> is_none_or (sc_check_sensitive_path sc (sc_print sc args)) (\<lambda>path. \<not> is_hard_secret path)
          \<and> (declared_read_only sc tool declared
              \<or> {(s, n) \<in> named_strings args InPassing. judged sc s n \<noteq> None} = {})
          \<and> \<not> list_ex (\<lambda>ioc. contains (sc_lower sc (sc_print sc args)) (sc_lower sc ioc)) SUPPLY_CHAIN_IOCS
          \<and> \<not> list_ex severity_blocks (engine_matches sc engine (ctx_tool_call tool (sc_print sc args))))
     \<and> mv_allowed (inspect_declared_tool_call sc tool args declared engine) =
         (\<not> list_ex va_block (mv_alerts (inspect_declared_tool_call sc tool args declared engine)))"
proof (cases "shell_command_argument tool args")
  case None
  moreover have "privileged_write_alert sc tool args declared = None \<longleftrightarrow>
      declared_read_only sc tool declared \<or> {(s, n) \<in> named_strings args InPassing. judged sc s n \<noteq> None} = {}"
    using privileged_write_alert_iff[of sc tool args declared] by blast
  ultimately show ?thesis
    using inspect_other(1)[where engine = engine and sc = sc and declared = declared, OF None]
      inspect_other(2)[where engine = engine and sc = sc and declared = declared, OF None]
    by (simp only: option.case)
next
  case (Some command)
  then show ?thesis
    by (simp add: inspect_declared_tool_call_def inspect_shell_command_def Let_def comp_def)
qed


text \<open>Scanners with ASCII tables and no patterns, and a call that edits the sudo rules.\<close>

definition plain_scanners :: scanners where
  "plain_scanners =
     \<lparr>sc_lower = to_ascii_lowercase, sc_char_lower = to_ascii_lowercase,
      sc_is_alphanumeric = (\<lambda>n. n < 128 \<and> is_ascii_alphanumeric (char_of n)),
      sc_is_uppercase = (\<lambda>n. n < 128 \<and> is_ascii_uppercase (char_of n)),
      sc_is_lowercase = (\<lambda>n. n < 128 \<and> is_ascii_lowercase (char_of n)),
      sc_print = (\<lambda>_. []), sc_redact = (\<lambda>s. s),
      sc_analyze_command = (\<lambda>_ command. \<lparr>ca_command = command, ca_risk_score = 0, ca_signals = [], ca_recommendation = ''allow''\<rparr>),
      sc_check_sensitive_path = (\<lambda>_. None), sc_regex = \<lparr>rl_fast = (\<lambda>_. None), rl_fancy = (\<lambda>_. None)\<rparr>,
      sc_text = \<lparr>tl_nfkc = (\<lambda>s. s), tl_b64_runs = (\<lambda>_. []), tl_standard = (\<lambda>_. None),
                 tl_standard_no_pad = (\<lambda>_. None), tl_url_safe = (\<lambda>_. None), tl_url_safe_no_pad = (\<lambda>_. None)\<rparr>\<rparr>"

definition edit_sudoers :: json where
  "edit_sudoers = JObj [(''edits'', JArr [JObj [(''File-Path'', JStr sudoers_spelled)]])]"


subsection \<open>Hidden text does not hide an instruction\<close>

lemma contains_letter:
  assumes "contains t p" "list_ex is_ascii_lowercase p"
  shows "list_ex is_ascii_lowercase t"
  using assms by (auto simp: contains_iff)

lemma injection_pattern_letter: "p \<in> set INJECTION_PATTERNS \<Longrightarrow> list_ex is_ascii_lowercase p"
proof -
  have "list_all (list_ex is_ascii_lowercase) INJECTION_PATTERNS" by code_simp
  then show "p \<in> set INJECTION_PATTERNS \<Longrightarrow> list_ex is_ascii_lowercase p" by (simp add: list_all_iff)
qed

lemma trim_empty: "trim s = [] \<Longrightarrow> c \<in> set (chunks s) \<Longrightarrow> ws_chunk c"
proof -
  assume empty: "trim s = []" and c: "c \<in> set (chunks s)"
  let ?rest = "dropWhile ws_chunk (chunks s)"
  have "x \<notin> set (dropWhile ws_chunk (List.rev ?rest))" for x
  proof
    assume x: "x \<in> set (dropWhile ws_chunk (List.rev ?rest))"
    then have "x \<in> set (chunks s)" by (auto dest!: set_dropWhileD)
    then have "x \<noteq> []" by (rule chunks_ne)
    then show False using empty x by (auto simp: trim_def)
  qed
  then have "dropWhile ws_chunk (List.rev ?rest) = []" by (metis last_in_set)
  then have "\<forall>x \<in> set ?rest. ws_chunk x" by (simp add: dropWhile_eq_Nil_conv)
  then have "?rest = []" by (metis hd_dropWhile hd_in_set)
  then show "ws_chunk c" using c by (simp add: dropWhile_eq_Nil_conv)
qed

lemma trim_letter:
  assumes "ascii t" "list_ex is_ascii_lowercase (to_ascii_lowercase t)"
  shows "trim t \<noteq> []"
proof
  assume "trim t = []"
  then have "\<forall>c \<in> set t. ws_chunk [c]" using trim_empty[of t] chunks_ascii[of t] assms(1) by auto
  then show False using assms
    by (auto simp: list_ex_iff to_ascii_lowercase_def ws_chunk_def is_ascii_lowercase_def is_ascii_uppercase_def
        is_whitespace_def list_all_iff split: if_splits)
qed

lemma tags_ascii: "ascii (tags_text s)"
  by (auto simp: tags_text_def list_all_iff)

lemma smuggled_found:
  assumes "follows_ascii lower" "\<forall>t. ascii t \<longrightarrow> tl_nfkc lib t = t"
    and "char_count s \<le> MAX_CHARS" "p \<in> set INJECTION_PATTERNS"
    and "ascii (visible_text s) \<and> contains (to_ascii_lowercase (visible_text s)) p
      \<or> contains (to_ascii_lowercase (tags_text s)) p"
  shows "scan_injection lower s (deobfuscate lib s) \<noteq> None"
proof -
  have found: "check_injection lower t \<noteq> None" if "ascii t" "contains (to_ascii_lowercase t) p" for t
    using that assms(1,4) check_injection_found[of p lower t] by (simp add: follows_ascii_def)
  from assms(5) show ?thesis
  proof
    assume v: "ascii (visible_text s) \<and> contains (to_ascii_lowercase (visible_text s)) p"
    then have "db_normalized (deobfuscate lib s) = visible_text s" using deobfuscate_spec(1)[OF assms(3)] assms(2) by simp
    then show ?thesis unfolding scan_injection_iff using found v by auto
  next
    assume t: "contains (to_ascii_lowercase (tags_text s)) p"
    have "trim (tags_text s) \<noteq> []"
      by (rule trim_letter[OF tags_ascii contains_letter[OF t injection_pattern_letter[OF assms(4)]]])
    then show ?thesis using deobfuscate_spec(3)[OF assms(3)] found[OF tags_ascii t] unfolding scan_injection_iff by auto
  qed
qed

text \<open>C22: Hiding text does not hide an instruction. When the visible part of a text (its invisible characters
  dropped) is ASCII and holds a listed injection pattern in any letter case, however invisible
  characters split it, or the ASCII spelled in the Tags block holds one, then the user's input
  and a tool's description are refused, and a response raises its injection alert. Text within a
  million characters; NFKC is taken to leave ASCII as it is.\<close>

theorem smuggled_injection_found:
  assumes "follows_ascii (sc_lower sc)" "\<forall>t. ascii t \<longrightarrow> tl_nfkc (sc_text sc) t = t"
    and "char_count s \<le> MAX_CHARS" "p \<in> set INJECTION_PATTERNS"
    and "ascii (visible_text s) \<and> contains (to_ascii_lowercase (visible_text s)) p
      \<or> contains (to_ascii_lowercase (tags_text s)) p"
  shows "\<not> mv_allowed (inspect_user_input sc s engine)
    \<and> \<not> mv_allowed (inspect_tool_description sc tool s engine)
    \<and> list_ex (\<lambda>a. va_rule a = ''AG-RESP-INJECT'') (mv_alerts (inspect_response sc s engine))"
proof -
  obtain hit where hit: "scan_injection (sc_lower sc) s (deobfuscate (sc_text sc) s) = Some hit"
    using smuggled_found[OF assms] by auto
  show ?thesis
    by (simp add: inspect_user_input_def inspect_tool_description_def inspect_response_def Let_def hit
        opt_alert_def split: prod.split)
qed

text \<open>A tool's answer is never refused, and none of its alerts blocks.\<close>

lemma inspect_response_never_blocks:
  "mv_allowed (inspect_response sc s engine) \<and> \<not> list_ex va_block (mv_alerts (inspect_response sc s engine))"
  by (auto simp: inspect_response_def Let_def opt_alert_def list_ex_iff split: option.split prod.split)

text \<open>\<open>Exfil\<close>, a soft hyphen, \<open>TRATE\<close>.\<close>

definition split_pattern :: string where
  "split_pattern = ''Exfil'' @ [CHR 0xC2, CHR 0xAD] @ ''TRATE''"

theorem smuggled_injection_found_witness:
  "\<not> mv_allowed (inspect_user_input plain_scanners split_pattern None)
    \<and> \<not> mv_allowed (inspect_tool_description plain_scanners ''t'' split_pattern None)
    \<and> list_ex (\<lambda>a. va_rule a = ''AG-RESP-INJECT'') (mv_alerts (inspect_response plain_scanners split_pattern None))"
proof (rule smuggled_injection_found)
  show "follows_ascii (sc_lower plain_scanners)" "\<forall>t. ascii t \<longrightarrow> tl_nfkc (sc_text plain_scanners) t = t"
    using sudoers_plain(2) by (simp_all add: plain_scanners_def)
  show "char_count split_pattern \<le> MAX_CHARS" by code_simp
  show "''exfiltrate'' \<in> set INJECTION_PATTERNS" by (simp add: INJECTION_PATTERNS_def)
  have "visible_text split_pattern = ''ExfilTRATE''" by code_simp
  moreover have "contains (to_ascii_lowercase ''ExfilTRATE'') ''exfiltrate''" by code_simp
  ultimately show "ascii (visible_text split_pattern) \<and> contains (to_ascii_lowercase (visible_text split_pattern)) ''exfiltrate''
      \<or> contains (to_ascii_lowercase (tags_text split_pattern)) ''exfiltrate''"
    by simp
qed

end
