(* ===== verification/Jsonrpc.thy ===== *)
theory Jsonrpc
  imports Json Text PrivTarget
begin

text \<open>
  Lines of JSON-RPC (\<^verbatim>\<open>src/crates/agent-guard/src/mcp_proxy/jsonrpc.rs\<close>): a line is read
  as the server reading it will, where the last of two equal keys wins, and is sent on as it was read when
  a key repeats. The JSON reader and printer are \<^verbatim>\<open>serde_json\<close>'s and are the fields of \<open>json_lib\<close>;
  what a reader gives keeps every key of an object in order (\<open>raw_json\<close>).
\<close>

datatype raw_json =
    RNull
  | RBool bool
  | RNum jnumber
  | RStr string
  | RArr "raw_json list"
  | RObj "(string \<times> raw_json) list"

text \<open>\<^verbatim>\<open>serde_json::Value\<close> of what was read: the last of equal keys is kept.\<close>

fun value_of :: "raw_json \<Rightarrow> json" where
  "value_of RNull = JNull"
| "value_of (RBool b) = JBool b"
| "value_of (RNum n) = JNum n"
| "value_of (RStr s) = JStr s"
| "value_of (RArr xs) = JArr (map value_of xs)"
| "value_of (RObj kvs) = jobj (map (\<lambda>kv. (fst kv, value_of (snd kv))) kvs)"

text \<open>\<^verbatim>\<open>jl_read\<close> reads a whole line, \<^verbatim>\<open>jl_walk\<close> the first value of one, as the deserializer used
  directly does.\<close>

record json_rpc_envelope =
  en_jsonrpc :: string
  en_id :: "json option"
  en_method :: "string option"
  en_params :: "json option"
  en_result :: "json option"
  en_error :: "json option"

record json_lib =
  jl_read :: "string \<Rightarrow> raw_json option"
  jl_walk :: "string \<Rightarrow> raw_json option"
  jl_print :: "json \<Rightarrow> string"
  jl_print_envelope :: "json_rpc_envelope \<Rightarrow> string option"

definition is_call :: "json_rpc_envelope \<Rightarrow> bool" where
  "is_call env \<longleftrightarrow> en_method env \<noteq> None"

definition is_response :: "json_rpc_envelope \<Rightarrow> bool" where
  "is_response env \<longleftrightarrow> en_method env = None \<and> (en_result env \<noteq> None \<or> en_error env \<noteq> None)"

datatype parsed_line =
    PlEmpty
  | PlMessage json_rpc_envelope
  | PlBatch "json list"
  | PlOpaque string
  | PlNotJson string

subsection \<open>Lone surrogates\<close>

text \<open>Four characters read as hexadecimal, a plus sign in front allowed, as \<^verbatim>\<open>from_str_radix\<close> does.\<close>

definition hex4 :: "string \<Rightarrow> nat option" where
  "hex4 s =
     (let digits = (case s of c # r \<Rightarrow> if c = CHR ''+'' then r else s | [] \<Rightarrow> [])
      in if length s = 4 \<and> list_all (\<lambda>c. hex_digit_val c \<noteq> None) digits
         then Some (foldl (\<lambda>n c. n * 16 + the (hex_digit_val c)) 0 digits) else None)"

definition unit_at :: "bytes \<Rightarrow> nat option" where
  "unit_at bs =
     (case bs of
        a # b # rest \<Rightarrow>
          if a = CHR 0x5C \<and> b = CHR ''u'' \<and> 4 \<le> length rest then hex4 (take 4 rest) else None
      | _ \<Rightarrow> None)"

definition ESCAPED_REPLACEMENT :: bytes where
  "ESCAPED_REPLACEMENT = [CHR 0x5C] @ ''uFFFD''"

definition is_high_surrogate :: "nat \<Rightarrow> bool" where
  "is_high_surrogate n \<longleftrightarrow> 0xD800 \<le> n \<and> n \<le> 0xDBFF"

definition is_low_surrogate :: "nat \<Rightarrow> bool" where
  "is_low_surrogate n \<longleftrightarrow> 0xDC00 \<le> n \<and> n \<le> 0xDFFF"

text \<open>One round of the loop over the bytes: how many are read, and what is written for them when it is
  not what was read.\<close>

definition unit_step :: "bytes \<Rightarrow> nat \<times> bytes option" where
  "unit_step bs =
     (if hd bs \<noteq> CHR 0x5C then (1, None)
      else case unit_at bs of
        Some u \<Rightarrow>
          if is_high_surrogate u \<and> is_some_and (unit_at (drop 6 bs)) is_low_surrogate then (12, None)
          else if 0xD800 \<le> u \<and> u \<le> 0xDFFF then (6, Some ESCAPED_REPLACEMENT)
          else (6, None)
      | None \<Rightarrow> (2, None))"

lemma unit_step_pos: "unit_step bs = (n, r) \<Longrightarrow> 0 < n"
  by (auto simp: unit_step_def split: if_splits option.splits)

function replace_units :: "bytes \<Rightarrow> bytes \<times> bool" where
  "replace_units [] = ([], False)"
| "replace_units (c # cs) =
     (case unit_step (c # cs) of (n, written) \<Rightarrow>
        let (out, changed) = replace_units (drop n (c # cs))
        in case written of
             Some w \<Rightarrow> (w @ out, True)
           | None \<Rightarrow> (take n (c # cs) @ out, changed))"
  by pat_completeness auto
termination
  by (relation "measure length") (auto dest!: unit_step_pos[OF sym])

definition replace_lone_surrogates :: "string \<Rightarrow> string option" where
  "replace_lone_surrogates line =
     (let (out, changed) = replace_units line in if changed then from_utf8 out else None)"

subsection \<open>Reading a line\<close>

text \<open>\<^verbatim>\<open>parse_value\<close>; its error is not read by any caller and is \<open>None\<close>.\<close>

definition parse_raw :: "(string \<Rightarrow> raw_json option) \<Rightarrow> string \<Rightarrow> raw_json option" where
  "parse_raw reader line =
     (case reader line of
        Some v \<Rightarrow> Some v
      | None \<Rightarrow> Option.bind (replace_lone_surrogates line) reader)"

definition parse_value :: "json_lib \<Rightarrow> string \<Rightarrow> json option" where
  "parse_value lib line = map_option value_of (parse_raw (jl_read lib) line)"

definition field :: "(string \<times> json) list \<Rightarrow> string \<Rightarrow> json option" where
  "field m name = opt_filter (\<lambda>v. v \<noteq> JNull) (bget m name)"

definition envelope_of :: "json \<Rightarrow> json_rpc_envelope option" where
  "envelope_of v =
     (case v of
        JObj m \<Rightarrow> Some
          \<lparr>en_jsonrpc = str_or (Option.bind (bget m ''jsonrpc'') as_str),
           en_id = field m ''id'',
           en_method = Option.bind (bget m ''method'') as_str,
           en_params = field m ''params'',
           en_result = field m ''result'',
           en_error = field m ''error''\<rparr>
      | _ \<Rightarrow> None)"

definition parse_line :: "json_lib \<Rightarrow> string \<Rightarrow> parsed_line" where
  "parse_line lib line =
     (if trim line = [] then PlEmpty
      else case parse_value lib line of
        Some (JArr items) \<Rightarrow> PlBatch items
      | Some v \<Rightarrow> (case envelope_of v of Some envelope \<Rightarrow> PlMessage envelope | None \<Rightarrow> PlOpaque line)
      | None \<Rightarrow> PlNotJson line)"

text \<open>The walk of \<^verbatim>\<open>DuplicateKeys\<close>; \<open>seen\<close> is its set of the keys of the object so far.\<close>

fun repeats_key :: "raw_json \<Rightarrow> bool" where
  "repeats_key (RArr xs) = list_ex repeats_key xs"
| "repeats_key (RObj kvs) = (\<not> distinct (map fst kvs) \<or> list_ex (\<lambda>kv. repeats_key (snd kv)) kvs)"
| "repeats_key _ = False"

definition has_duplicate_keys :: "json_lib \<Rightarrow> string \<Rightarrow> bool" where
  "has_duplicate_keys lib line =
     (case parse_raw (jl_walk lib) line of Some v \<Rightarrow> repeats_key v | None \<Rightarrow> True)"

text \<open>\<^verbatim>\<open>as_inspected\<close> (in \<^verbatim>\<open>transport.rs\<close>): the line as it was read.\<close>

definition as_inspected :: "json_lib \<Rightarrow> string \<Rightarrow> string" where
  "as_inspected lib line =
     (if \<not> has_duplicate_keys lib line then line
      else case parse_value lib line of Some v \<Rightarrow> jl_print lib v | None \<Rightarrow> line)"

definition serialize_line :: "json_lib \<Rightarrow> json_rpc_envelope \<Rightarrow> string" where
  "serialize_line lib env =
     (case jl_print_envelope lib env of
        Some s \<Rightarrow> s
      | None \<Rightarrow>
          [CHR ''{'', CHR 0x22] @ ''jsonrpc'' @ [CHR 0x22, CHR '':'', CHR 0x22] @ ''2.0''
          @ [CHR 0x22, CHR '','', CHR 0x22] @ ''error'' @ [CHR 0x22, CHR '':'', CHR ''{'', CHR 0x22] @ ''code''
          @ [CHR 0x22] @ '':-32603,'' @ [CHR 0x22] @ ''message'' @ [CHR 0x22, CHR '':'', CHR 0x22]
          @ ''serialize error'' @ [CHR 0x22] @ ''}}'')
     @ [CHR 0x0A]"

subsection \<open>Repeated keys\<close>

fun raw_of :: "json \<Rightarrow> raw_json" where
  "raw_of JNull = RNull"
| "raw_of (JBool b) = RBool b"
| "raw_of (JNum n) = RNum n"
| "raw_of (JStr s) = RStr s"
| "raw_of (JArr xs) = RArr (map raw_of xs)"
| "raw_of (JObj m) = RObj (map (\<lambda>kv. (fst kv, raw_of (snd kv))) m)"

text \<open>What a reader that keeps the first of equal keys makes of it.\<close>

fun value_first :: "raw_json \<Rightarrow> json" where
  "value_first RNull = JNull"
| "value_first (RBool b) = JBool b"
| "value_first (RNum n) = JNum n"
| "value_first (RStr s) = JStr s"
| "value_first (RArr xs) = JArr (map value_first xs)"
| "value_first (RObj kvs) = jobj (List.rev (map (\<lambda>kv. (fst kv, value_first (snd kv))) kvs))"

lemma bmap_ext:
  fixes m n :: "('k::linorder, 'v) bmap"
  assumes "bmap_wf m" "bmap_wf n" "\<And>k. bget m k = bget n k"
  shows "m = n"
proof -
  have set: "set m = set n"
  proof -
    have "(k, v) \<in> set m \<longleftrightarrow> (k, v) \<in> set n" for k v
      using assms by (metis bget_in in_bget)
    then show ?thesis by auto
  qed
  have sorted: "sorted_wrt (<) (map fst m)" "sorted_wrt (<) (map fst n)" using assms by (simp_all add: bmap_wf_def)
  then have "map fst m = map fst n"
    using set by (intro sorted_distinct_set_unique) (auto simp: strict_sorted_iff)
  moreover have "inj_on fst (set m \<union> set n)"
    using bmap_wf_distinct[OF assms(1)] set by (simp add: distinct_map)
  ultimately show ?thesis by (metis map_inj_on set sup.idem)
qed

lemma map_of_rev: "distinct (map fst kvs) \<Longrightarrow> map_of (List.rev kvs) = map_of kvs"
  by (subst map_of_inject_set) (simp_all flip: rev_map)

lemma bmap_of_rev: "distinct (map fst kvs) \<Longrightarrow> bmap_of (List.rev kvs) = bmap_of kvs"
  by (rule bmap_ext) (simp_all add: bget_bmap_of map_of_rev)

lemma bmap_of_id [simp]: "bmap_wf m \<Longrightarrow> bmap_of m = m"
proof (rule bmap_ext)
  assume m: "bmap_wf m"
  show "bget (bmap_of m) k = bget m k" for k
    unfolding bget_bmap_of map_of_rev[OF bmap_wf_distinct[OF m]] by (simp add: bget_def)
qed simp_all

lemma set_bmap_of: "set (bmap_of kvs) \<subseteq> set kvs"
proof
  fix kv assume "kv \<in> set (bmap_of kvs)"
  then have "bget (bmap_of kvs) (fst kv) = Some (snd kv)" using in_bget[OF bmap_of_wf, of "fst kv" "snd kv" kvs] by simp
  then show "kv \<in> set kvs" using map_of_SomeD[of "List.rev kvs" "fst kv" "snd kv"] by (simp add: bget_bmap_of)
qed

lemma value_of_jwf [simp]: "jwf (value_of r)"
proof (induction r)
  case (RObj kvs)
  have IH: "jwf (value_of (snd kv))" if "kv \<in> set kvs" for kv using RObj[OF that snds.intros] .
  have "jwf (snd kv)" if kv: "kv \<in> set (bmap_of (map (\<lambda>kv. (fst kv, value_of (snd kv))) kvs))" for kv
  proof -
    have "kv \<in> (\<lambda>kv. (fst kv, value_of (snd kv))) ` set kvs" using kv set_bmap_of by fastforce
    then show ?thesis using IH by auto
  qed
  then show ?case by (simp add: jobj_def list_all_iff)
qed (auto simp: list_all_iff)

text \<open>Without a repeated key the two readers agree.\<close>

lemma value_first_same: "\<not> repeats_key r \<Longrightarrow> value_first r = value_of r"
proof (induction r)
  case (RObj kvs)
  have IH: "value_first (snd kv) = value_of (snd kv)" if "kv \<in> set kvs" for kv
    using RObj.IH[OF that snds.intros] RObj.prems that by (simp add: list_ex_iff)
  then have "map (\<lambda>kv. (fst kv, value_first (snd kv))) kvs = map (\<lambda>kv. (fst kv, value_of (snd kv))) kvs" by simp
  then have "value_first (RObj kvs) = jobj (List.rev (map (\<lambda>kv. (fst kv, value_of (snd kv))) kvs))" by (metis value_first.simps(6))
  moreover have "distinct (map fst (map (\<lambda>kv. (fst kv, value_of (snd kv))) kvs))" using RObj.prems by (simp add: comp_def)
  ultimately show ?case using bmap_of_rev[of "map (\<lambda>kv. (fst kv, value_of (snd kv))) kvs"] by (simp add: jobj_def del: value_first.simps)
qed (auto simp: list_ex_iff)

text \<open>A printed value reads back as itself, with no repeated key.\<close>

lemma value_of_raw_of: "jwf v \<Longrightarrow> value_of (raw_of v) = v \<and> \<not> repeats_key (raw_of v)"
proof (induction v)
  case (JArr xs)
  then show ?case by (auto simp: list_all_iff list_ex_iff map_idI)
next
  case (JObj m)
  have each: "value_of (raw_of (snd kv)) = snd kv \<and> \<not> repeats_key (raw_of (snd kv))" if "kv \<in> set m" for kv
    using JObj.IH[OF that snds.intros] JObj.prems that by (simp add: list_all_iff)
  have "map ((\<lambda>kv. (fst kv, value_of (snd kv))) \<circ> (\<lambda>kv. (fst kv, raw_of (snd kv)))) m = m"
    using each by (intro map_idI) auto
  then show ?case using each JObj.prems bmap_wf_distinct[of m] by (auto simp: jobj_def list_ex_iff comp_def)
qed simp_all

text \<open>What is sent on in the place of a line reads as the line was read, to both readers.\<close>

lemma as_inspected_reads:
  assumes "parse_value lib line = Some v" "jl_read lib (jl_print lib v) = Some (raw_of v)"
    and "parse_raw (jl_walk lib) line = parse_raw (jl_read lib) line"
  shows "\<exists>r. parse_raw (jl_read lib) (as_inspected lib line) = Some r \<and> value_of r = v \<and> value_first r = v"
proof (cases "has_duplicate_keys lib line")
  case True
  have "jwf v" using assms(1) by (auto simp: parse_value_def)
  then have "value_of (raw_of v) = v" "value_first (raw_of v) = v"
    using value_of_raw_of[of v] value_first_same[of "raw_of v"] by simp_all
  moreover have "parse_raw (jl_read lib) (as_inspected lib line) = Some (raw_of v)"
    using True assms(1,2) by (simp add: as_inspected_def parse_raw_def)
  ultimately show ?thesis by blast
next
  case False
  obtain r where r: "parse_raw (jl_read lib) line = Some r" "value_of r = v"
    using assms(1) by (auto simp: parse_value_def)
  then have "\<not> repeats_key r" using False assms(3) by (simp add: has_duplicate_keys_def)
  then show ?thesis using r False value_first_same[of r] by (simp add: as_inspected_def)
qed

text \<open>C37: What the proxy sends on reads as what it inspected, whichever of two equal keys the server keeps. The line a
  message or batch is forwarded as reads as the inspected value to a reader that keeps the last
  of equal keys and to one that keeps the first. The printer is taken to print the value so that
  it reads back, and the two ways the reader is used to read the line alike.\<close>

theorem forwarded_reads_as_inspected:
  assumes "parse_value lib line = Some v" "jl_read lib (jl_print lib v) = Some (raw_of v)"
    and "parse_raw (jl_walk lib) line = parse_raw (jl_read lib) line"
  shows "\<exists>r. parse_raw (jl_read lib) (as_inspected lib line) = Some r \<and> value_of r = v \<and> value_first r = v"
  by (rule as_inspected_reads[OF assms])

text \<open>A reader of two lines: one that repeats a key, and what is printed for it.\<close>

definition two_line_reader :: "string \<Rightarrow> raw_json option" where
  "two_line_reader s =
     (if s = ''twice'' then Some (RObj [(''m'', RBool False), (''m'', RBool True)])
      else if s = ''once'' then Some (RObj [(''m'', RBool True)]) else None)"

definition two_line_lib :: json_lib where
  "two_line_lib = \<lparr>jl_read = two_line_reader, jl_walk = two_line_reader, jl_print = (\<lambda>_. ''once''),
     jl_print_envelope = (\<lambda>_. None)\<rparr>"

theorem forwarded_reads_as_inspected_witness:
  "\<exists>r. parse_raw two_line_reader (as_inspected two_line_lib ''twice'') = Some r
     \<and> value_of r = JObj [(''m'', JBool True)] \<and> value_first r = JObj [(''m'', JBool True)]"
proof -
  have "parse_value two_line_lib ''twice'' = Some (JObj [(''m'', JBool True)])"
    by (simp add: parse_value_def parse_raw_def two_line_lib_def two_line_reader_def jobj_def bmap_of_def)
  then show ?thesis
    using forwarded_reads_as_inspected[of two_line_lib "''twice''" "JObj [(''m'', JBool True)]"]
    by (simp add: two_line_lib_def two_line_reader_def)
qed

end
