(* ===== verification/Router.thy ===== *)
theory Router
  imports Inspect Jsonrpc Taint Profiles
begin

text \<open>
  One message of the MCP proxy: inspected by the router
  (\<^verbatim>\<open>src/crates/agent-guard/src/mcp_proxy/router.rs\<close>), then judged under the mode and the
  agent's profile (\<^verbatim>\<open>src/crates/agent-guard/src/mcp_proxy/enforce.rs\<close>). The taint tracker is threaded
  through. What is not modelled of the crate is a field of \<open>proxy_lib\<close>: the scanners of
  \<open>Inspect\<close>, the redaction of JSON, the check for the guard's own key and \<^verbatim>\<open>serde_json\<close>.
\<close>

record proxy_lib =
  pl_scan :: scanners
  pl_json :: json_lib
  pl_redact_json :: "json \<Rightarrow> json"
  pl_names_guard_llm_key :: "string \<Rightarrow> bool"

subsection \<open>The router\<close>

datatype direction = ClientToServer | ServerToClient

fun direction_label :: "direction \<Rightarrow> string" where
  "direction_label ClientToServer = ''client->server''"
| "direction_label ServerToClient = ''server->client''"

record proxy_decision =
  pd_verdict :: mcp_verdict
  pd_direction :: string
  pd_method :: "string option"
  pd_tool_name :: "string option"
  pd_tool_summary :: "string option"
  pd_request_id :: "json option"
  pd_deciding_layer :: "rule_layer option"

definition MAX_TOOL_SUMMARY_CHARS :: nat where "MAX_TOOL_SUMMARY_CHARS = 240"

record pending_request =
  pr_method :: string
  pr_tool :: "string option"

definition ELLIPSIS :: string where "ELLIPSIS = [CHR 0xE2, CHR 0x80, CHR 0xA6]"
definition MIDDLE_DOT :: string where "MIDDLE_DOT = [CHR 0xC2, CHR 0xB7]"

definition tool_call_summary :: "proxy_lib \<Rightarrow> string \<Rightarrow> json \<Rightarrow> string" where
  "tool_call_summary lib tool args =
     (let shown = (if trim tool = [] then ''(unnamed)'' else trim tool);
          printed = jl_print (pl_json lib) (pl_redact_json lib args);
          raw = ''MCP '' @ MIDDLE_DOT @ '' '' @ shown @ '' '' @ MIDDLE_DOT @ '' '' @ printed;
          compact = join '' '' (split_whitespace (sc_redact (pl_scan lib) raw))
      in if char_count compact \<le> MAX_TOOL_SUMMARY_CHARS then compact
         else take_chars (MAX_TOOL_SUMMARY_CHARS - 1) compact @ ELLIPSIS)"

definition safe_tool_name :: "proxy_lib \<Rightarrow> string \<Rightarrow> string" where
  "safe_tool_name lib tool =
     (let compact = join '' '' (split_whitespace (sc_redact (pl_scan lib) (trim tool)))
      in if char_count compact \<le> 100 then compact else take_chars 99 compact @ ELLIPSIS)"

definition extract_tool_call :: "json_rpc_envelope \<Rightarrow> string \<times> json" where
  "extract_tool_call env =
     (let params = en_params env in
      (str_or (Option.bind params (\<lambda>p. get_str p ''name'')),
       case Option.bind params (\<lambda>p. jget p ''arguments'') of Some a \<Rightarrow> a | None \<Rightarrow> JNull))"

fun inspect_tools :: "proxy_lib \<Rightarrow> compiled_rule list option \<Rightarrow> json list \<Rightarrow> bool \<Rightarrow> verdict_alert list \<Rightarrow> mcp_verdict" where
  "inspect_tools lib engine [] allowed alerts = \<lparr>mv_allowed = allowed, mv_alerts = alerts\<rparr>"
| "inspect_tools lib engine (tool # rest) allowed alerts =
     (let v = inspect_tool_description (pl_scan lib) (str_or (get_str tool ''name''))
                (str_or (get_str tool ''description'')) engine
      in inspect_tools lib engine rest (if \<not> mv_allowed v then False else allowed) (alerts @ mv_alerts v))"

definition inspect_tools_list_result :: "proxy_lib \<Rightarrow> json \<Rightarrow> compiled_rule list option \<Rightarrow> mcp_verdict" where
  "inspect_tools_list_result lib result engine =
     inspect_tools lib engine (case get_array result ''tools'' of Some xs \<Rightarrow> xs | None \<Rightarrow> []) True []"

definition MAX_SCANNED_RESULT_BYTES :: nat where "MAX_SCANNED_RESULT_BYTES = 64 * 1024"

text \<open>\<^verbatim>\<open>is_char_boundary\<close>, and the loop down to one.\<close>

definition is_boundary :: "string \<Rightarrow> nat \<Rightarrow> bool" where
  "is_boundary s i \<longleftrightarrow> i = 0 \<or> i = length s \<or> (i < length s \<and> \<not> cont_byte (s ! i))"

fun boundary_at_most :: "string \<Rightarrow> nat \<Rightarrow> nat" where
  "boundary_at_most s 0 = 0"
| "boundary_at_most s (Suc e) = (if is_boundary s (Suc e) then Suc e else boundary_at_most s e)"

definition truncate_on_boundary :: "string \<Rightarrow> nat \<Rightarrow> string" where
  "truncate_on_boundary s max_len =
     (if length s \<le> max_len then s else take (boundary_at_most s max_len) s)"

definition text_block :: "json \<Rightarrow> string option" where
  "text_block block = (if get_str block ''type'' = Some ''text'' then get_str block ''text'' else None)"

definition is_non_empty :: "json \<Rightarrow> bool" where
  "is_non_empty result =
     (case result of JObj m \<Rightarrow> m \<noteq> [] | JArr items \<Rightarrow> items \<noteq> [] | JNull \<Rightarrow> False | _ \<Rightarrow> True)"

definition concat_text_content :: "proxy_lib \<Rightarrow> json \<Rightarrow> string" where
  "concat_text_content lib result =
     (let texts = List.map_filter text_block
                    (case get_array result ''content'' of Some content \<Rightarrow> content | None \<Rightarrow> []);
          structured = (case jget result ''structuredContent'' of
             Some sc \<Rightarrow> if sc = JNull then []
                        else [case as_str sc of Some s \<Rightarrow> s | None \<Rightarrow> jl_print (pl_json lib) sc]
           | None \<Rightarrow> []);
          parts = texts @ structured;
          parts = (if parts = [] \<and> is_non_empty result then [jl_print (pl_json lib) result] else parts)
      in truncate_on_boundary (join [CHR 0x0A] parts) MAX_SCANNED_RESULT_BYTES)"

definition pass_through :: "direction \<Rightarrow> proxy_decision" where
  "pass_through dir =
     \<lparr>pd_verdict = \<lparr>mv_allowed = True, mv_alerts = []\<rparr>, pd_direction = direction_label dir,
      pd_method = None, pd_tool_name = None, pd_tool_summary = None, pd_request_id = None,
      pd_deciding_layer = None\<rparr>"

definition refuse_with :: "verdict_alert \<Rightarrow> mcp_verdict \<Rightarrow> mcp_verdict" where
  "refuse_with a v = \<lparr>mv_allowed = False, mv_alerts = mv_alerts v @ [a]\<rparr>"

definition route_client_to_server ::
  "proxy_lib \<Rightarrow> json_rpc_envelope \<Rightarrow> compiled_rule list option \<Rightarrow> tracker option \<Rightarrow> proxy_decision" where
  "route_client_to_server lib env engine taint =
     (if en_method env = Some ''tools/call'' then
        (let (tool, args) = extract_tool_call env;
             declared = (case taint of Some t \<Rightarrow> declared_as t tool | None \<Rightarrow> DeclUnknown);
             verdict = inspect_declared_tool_call (pl_scan lib) tool args declared engine;
             verdict = (case Option.bind taint (\<lambda>t. arg_taint_alert t tool args) of
                          Some alert \<Rightarrow> refuse_with alert verdict | None \<Rightarrow> verdict)
         in \<lparr>pd_verdict = verdict, pd_direction = direction_label ClientToServer,
             pd_method = Some ''tools/call'', pd_tool_name = Some (safe_tool_name lib tool),
             pd_tool_summary = Some (tool_call_summary lib tool args), pd_request_id = en_id env,
             pd_deciding_layer = None\<rparr>)
      else pass_through ClientToServer)"

definition server_decision :: "mcp_verdict \<Rightarrow> string \<Rightarrow> json_rpc_envelope \<Rightarrow> proxy_decision" where
  "server_decision verdict method env =
     \<lparr>pd_verdict = verdict, pd_direction = direction_label ServerToClient, pd_method = Some method,
      pd_tool_name = None, pd_tool_summary = None, pd_request_id = en_id env, pd_deciding_layer = None\<rparr>"

definition route_server_to_client ::
  "proxy_lib \<Rightarrow> json_rpc_envelope \<Rightarrow> pending_request option \<Rightarrow> compiled_rule list option \<Rightarrow> tracker option
     \<Rightarrow> proxy_decision \<times> tracker option" where
  "route_server_to_client lib env responded engine taint =
     (case (map_option pr_method responded, en_result env) of
        (Some method, Some result) \<Rightarrow>
          if method = ''tools/list'' then
            (server_decision (inspect_tools_list_result lib result engine) ''tools/list'' env,
             map_option (record_tools_list result) taint)
          else if method = ''tools/call'' then
            (let content = sc_redact (pl_scan lib) (concat_text_content lib result);
                 is_error = (Option.bind (jget result ''isError'') as_bool = Some True);
                 tool = Option.bind responded pr_tool
             in (server_decision (inspect_response (pl_scan lib) content engine) ''tools/call'' env,
                 map_option (record_result content (provenance_of_result tool is_error)) taint))
          else (pass_through ServerToClient, taint)
      | _ \<Rightarrow> (pass_through ServerToClient, taint))"

definition route_message ::
  "proxy_lib \<Rightarrow> json_rpc_envelope \<Rightarrow> direction \<Rightarrow> pending_request option \<Rightarrow> compiled_rule list option
     \<Rightarrow> tracker option \<Rightarrow> proxy_decision \<times> tracker option" where
  "route_message lib env dir responded engine taint =
     (case dir of
        ClientToServer \<Rightarrow> (route_client_to_server lib env engine taint, taint)
      | ServerToClient \<Rightarrow> route_server_to_client lib env responded engine taint)"

subsection \<open>The mode\<close>

datatype proxy_mode = Advisory | Warn | Guard | Kill

definition mode_from_label :: "string \<Rightarrow> proxy_mode" where
  "mode_from_label s =
     (let label = to_ascii_lowercase (trim s) in
      if label = ''warn'' then Warn else if label = ''guard'' then Guard
      else if label = ''kill'' then Kill else Advisory)"

fun mode_blocks :: "proxy_mode \<Rightarrow> bool" where
  "mode_blocks Guard = True"
| "mode_blocks Kill = True"
| "mode_blocks _ = False"

datatype proxy_action = AForward | AForwardWithAlert | ABlock string | AKill string

text \<open>The alert as JSON: absent fields are left out.\<close>

definition alert_json :: "verdict_alert \<Rightarrow> json" where
  "alert_json a =
     jobj ([(''rule'', JStr (va_rule a)), (''detail'', JStr (va_detail a)), (''block'', JBool (va_block a))]
       @ (case va_category a of Some c \<Rightarrow> [(''category'', JStr c)] | None \<Rightarrow> [])
       @ (case va_owasp a of Some xs \<Rightarrow> [(''owasp'', JArr (map JStr xs))] | None \<Rightarrow> [])
       @ (case va_mitre a of Some xs \<Rightarrow> [(''mitre'', JArr (map JStr xs))] | None \<Rightarrow> []))"

definition denial_reason :: "proxy_decision \<Rightarrow> string" where
  "denial_reason d =
     (case List.find va_block (mv_alerts (pd_verdict d)) of
        Some a \<Rightarrow> va_rule a @ '': '' @ va_detail a
      | None \<Rightarrow> ''blocked by agent-guard policy'')"

definition denial_envelope :: "proxy_decision \<Rightarrow> bool \<Rightarrow> json_rpc_envelope" where
  "denial_envelope d as_protocol_error =
     (let env = \<lparr>en_jsonrpc = ''2.0'', en_id = pd_request_id d, en_method = None, en_params = None,
                 en_result = None, en_error = None\<rparr>
      in if as_protocol_error then
           env\<lparr>en_error := Some (jobj
             [(''code'', JNum (NegInt (word_of_int (-32602)))),
              (''message'', JStr (''blocked by InnerWarden agent-guard: '' @ denial_reason d)),
              (''data'', jobj [(''agent_guard'', JBool True),
                               (''alerts'', JArr (map alert_json (mv_alerts (pd_verdict d))))])])\<rparr>
         else
           env\<lparr>en_result := Some (jobj
             [(''content'', JArr [jobj [(''type'', JStr ''text''),
                (''text'', JStr (''InnerWarden agent-guard blocked this tool call, '' @ denial_reason d))]]),
              (''isError'', JBool True)])\<rparr>)"

definition synthesize_denial :: "proxy_lib \<Rightarrow> proxy_decision \<Rightarrow> bool \<Rightarrow> string" where
  "synthesize_denial lib d as_protocol_error = serialize_line (pl_json lib) (denial_envelope d as_protocol_error)"

definition can_block :: "proxy_decision \<Rightarrow> bool" where
  "can_block d \<longleftrightarrow>
     pd_direction d = ''client->server'' \<and> \<not> mv_allowed (pd_verdict d) \<and> pd_request_id d \<noteq> None"

definition forward_or_alert :: "proxy_decision \<Rightarrow> proxy_action" where
  "forward_or_alert d = (if mv_alerts (pd_verdict d) \<noteq> [] then AForwardWithAlert else AForward)"

definition apply_mode :: "proxy_lib \<Rightarrow> proxy_decision \<Rightarrow> proxy_mode \<Rightarrow> bool \<Rightarrow> proxy_action" where
  "apply_mode lib d mode as_protocol_error =
     (case mode of
        Advisory \<Rightarrow> forward_or_alert d
      | Warn \<Rightarrow> forward_or_alert d
      | Guard \<Rightarrow> if can_block d then ABlock (synthesize_denial lib d as_protocol_error) else forward_or_alert d
      | Kill \<Rightarrow> if can_block d then AKill (synthesize_denial lib d as_protocol_error) else forward_or_alert d)"

subsection \<open>The agent's profile\<close>

definition HARD_RULES :: "string list" where
  "HARD_RULES = [''AG-PRIV-WRITE'', ''AG-FILE'']"

definition PROFILE_DENY_RULE :: string where "PROFILE_DENY_RULE = ''AG-PROFILE-DENY''"
definition LLM_KEY_RULE :: string where "LLM_KEY_RULE = ''AG-HARD-LLM-KEY''"
definition PROFILES_INVALID_RULE :: string where "PROFILES_INVALID_RULE = ''AG-PROFILES-INVALID''"
definition REVOKED_RULE :: string where "REVOKED_RULE = ''AG-HARD-REVOKED''"

definition facts_of_call ::
  "proxy_lib \<Rightarrow> compiled_rule list option \<Rightarrow> mcp_verdict \<Rightarrow> string \<Rightarrow> json \<Rightarrow> tool_call_facts" where
  "facts_of_call lib engine verdict tool args =
     (let command = shell_command_argument tool args;
          signals = (case map_option (sc_analyze_command (pl_scan lib) engine) command of
                       Some analysis \<Rightarrow> ca_signals analysis | None \<Rightarrow> []);
          text = (case command of Some c \<Rightarrow> c | None \<Rightarrow> jl_print (pl_json lib) args)
      in \<lparr>tc_tool = tool, tc_allowed = mv_allowed verdict, tc_has_alerts = (mv_alerts verdict \<noteq> []),
          tc_charged = map as_signal (filter (\<lambda>s. 0 < as_score s) signals),
          tc_hard_alert = list_ex (\<lambda>a. va_block a \<and> va_rule a \<in> set HARD_RULES) (mv_alerts verdict),
          tc_names_llm_key = pl_names_guard_llm_key lib text\<rparr>)"

definition apply_profile ::
  "proxy_lib \<Rightarrow> proxy_decision \<Rightarrow> json_rpc_envelope \<Rightarrow> proxy_profile \<Rightarrow> compiled_rule list option \<Rightarrow> proxy_decision"
where
  "apply_profile lib d env profile engine =
     (if pd_direction d \<noteq> direction_label ClientToServer \<or> pd_method d \<noteq> Some ''tools/call'' then d
      else case profile of
        ProxyInvalid why \<Rightarrow>
          d\<lparr>pd_verdict := refuse_with (builtin_alert PROFILES_INVALID_RULE
              (''the agent profiles file cannot be used, so no tool call is screened against it: '' @ why) True)
              (pd_verdict d)\<rparr>
      | ProxyActive agent_type prof t revoked \<Rightarrow>
          (let (tool, args) = extract_tool_call env;
               facts = facts_of_call lib engine (pd_verdict d) tool args;
               named = (case (agent_type, prof) of (Some a, Some p) \<Rightarrow> Some (a, p) | _ \<Rightarrow> None);
               (decision, note) = decide_tool_call_in facts named revoked t;
               rule = (if dn_deciding_layer decision = LHard \<and> revoked \<noteq> None then REVOKED_RULE
                       else if dn_deciding_layer decision = LHard then LLM_KEY_RULE
                       else PROFILE_DENY_RULE);
               detail = (case note of Some n \<Rightarrow> n | None \<Rightarrow> ''refused by the agent profile'');
               verdict = (if dn_verdict decision = VDeny \<and> mv_allowed (pd_verdict d)
                          then refuse_with (builtin_alert rule detail True) (pd_verdict d) else pd_verdict d)
           in d\<lparr>pd_verdict := verdict, pd_deciding_layer := Some (dn_deciding_layer decision)\<rparr>))"

definition apply_layers ::
  "proxy_lib \<Rightarrow> proxy_decision \<Rightarrow> json_rpc_envelope \<Rightarrow> proxy_profile option \<Rightarrow> compiled_rule list option
     \<Rightarrow> proxy_mode \<Rightarrow> bool \<Rightarrow> proxy_decision \<times> proxy_action" where
  "apply_layers lib d env profile engine mode as_protocol_error =
     (let d = (case profile of Some p \<Rightarrow> apply_profile lib d env p engine | None \<Rightarrow> d)
      in (d, apply_mode lib d mode as_protocol_error))"

end
