(* ===== verification/Proxy.thy ===== *)
theory Proxy
  imports Router Breaker "HOL-Library.AList"
begin

text \<open>
  The transport of the MCP proxy (\<^verbatim>\<open>src/crates/agent-guard/src/mcp_proxy/transport.rs\<close>): the capped
  reader of lines, the map of requests waiting for an answer, the classification of a line in each
  direction, and the loop that acts on it as a step relation over what happens to the session. The
  writes are taken to succeed (a failed one ends the session, as \<open>EvReadError\<close> does); spawning, signals
  and the deadlines of the shutdown are not modelled.
\<close>

subsection \<open>Lines with a cap\<close>

definition MAX_LINE_BYTES :: nat where "MAX_LINE_BYTES = 4 * 1024 * 1024"

datatype line_read = LineEof | LineTooLong | Line string

definition finish_line :: "nat \<Rightarrow> bytes \<Rightarrow> line_read" where
  "finish_line max_len buf =
     (if max_len < length buf then LineTooLong
      else Line (utf8_lossy (if buf \<noteq> [] \<and> last buf = CHR 0x0D then butlast buf else buf)))"

text \<open>\<open>next_line\<close>: the stream is the buffers it will fill, none of them empty; the result, and the stream
  left.\<close>

fun next_line :: "nat \<Rightarrow> bytes \<Rightarrow> bytes list \<Rightarrow> line_read \<times> bytes list" where
  "next_line max_len buf [] = (if buf = [] then LineEof else finish_line max_len buf, [])"
| "next_line max_len buf (available # stream) =
     (case position (CHR 0x0A) available of
        Some i \<Rightarrow>
          (finish_line max_len (buf @ take i available),
           if drop (i + 1) available = [] then stream else drop (i + 1) available # stream)
      | None \<Rightarrow>
          if max_len < length (buf @ available) then (LineTooLong, stream)
          else next_line max_len (buf @ available) stream)"

subsection \<open>Requests waiting for an answer\<close>

definition MAX_PENDING_REQUESTS :: nat where "MAX_PENDING_REQUESTS = 1024"
definition MAX_ID_KEY_BYTES :: nat where "MAX_ID_KEY_BYTES = 128"
definition MAX_METHOD_BYTES :: nat where "MAX_METHOD_BYTES = 64"
definition MAX_TOOL_NAME_BYTES :: nat where "MAX_TOOL_NAME_BYTES = 128"

text \<open>The \<^verbatim>\<open>HashMap\<close> as an association list without repeated keys, the orders in it distinct, so that
  its order decides nothing. The counter is a natural number: it counts a session's requests and does
  not reach \<open>2 ^ 64\<close>. The keyed digest is a field.\<close>

record id_request_map =
  im_entries :: "(string \<times> (nat \<times> pending_request)) list"
  im_next :: nat
  im_digest :: "string \<Rightarrow> u64"

definition id_map_new :: "(string \<Rightarrow> u64) \<Rightarrow> id_request_map" where
  "id_map_new digest = \<lparr>im_entries = [], im_next = 0, im_digest = digest\<rparr>"

definition hex_digit :: "nat \<Rightarrow> char" where
  "hex_digit n = (if n < 10 then char_of (48 + n) else char_of (87 + n))"

definition hex16 :: "u64 \<Rightarrow> string" where
  "hex16 w = map (\<lambda>i. hex_digit (unat w div 16 ^ (15 - i) mod 16)) [0..<16]"

definition id_key :: "json_lib \<Rightarrow> id_request_map \<Rightarrow> json \<Rightarrow> string" where
  "id_key lib m i =
     (let key = jl_print lib i in
      if length key \<le> MAX_ID_KEY_BYTES then key else ''digest:'' @ hex16 (im_digest m key))"

definition im_get :: "id_request_map \<Rightarrow> string \<Rightarrow> pending_request option" where
  "im_get m key = map_option snd (map_of (im_entries m) key)"

definition oldest_key :: "(string \<times> (nat \<times> pending_request)) list \<Rightarrow> string option" where
  "oldest_key entries =
     (case entries of [] \<Rightarrow> None | e # es \<Rightarrow> Some (fst (min_by_key (\<lambda>(_, (order, _)). order) e es)))"

definition im_insert :: "id_request_map \<Rightarrow> string \<Rightarrow> pending_request \<Rightarrow> id_request_map" where
  "im_insert m key request =
     (let entries = im_entries m;
          entries = (if map_of entries key = None \<and> MAX_PENDING_REQUESTS \<le> length entries then
                       (case oldest_key entries of Some oldest \<Rightarrow> AList.delete oldest entries | None \<Rightarrow> entries)
                     else entries);
          order = im_next m + 1
      in m\<lparr>im_entries := AList.update key (order, request) entries, im_next := order\<rparr>)"

definition im_remove :: "id_request_map \<Rightarrow> string \<Rightarrow> pending_request option \<times> id_request_map" where
  "im_remove m key = (im_get m key, m\<lparr>im_entries := AList.delete key (im_entries m)\<rparr>)"

definition record_pending :: "id_request_map \<Rightarrow> string \<Rightarrow> string \<Rightarrow> json_rpc_envelope \<Rightarrow> id_request_map" where
  "record_pending m key method env =
     (let tool = (if method = ''tools/call'' \<and> im_get m key = None
                  then opt_filter (\<lambda>tool. length tool \<le> MAX_TOOL_NAME_BYTES)
                         (Option.bind (en_params env) (\<lambda>p. get_str p ''name''))
                  else None);
          method = (if length method \<le> MAX_METHOD_BYTES then method else [])
      in im_insert m key \<lparr>pr_method = method, pr_tool = tool\<rparr>)"

definition forget_refused :: "id_request_map \<Rightarrow> string \<Rightarrow> pending_request option \<Rightarrow> id_request_map" where
  "forget_refused m key before =
     (case before of
        Some request \<Rightarrow> im_insert m key request
      | None \<Rightarrow> snd (im_remove m key))"

subsection \<open>A client's line\<close>

record proxy_config =
  cf_mode :: proxy_mode
  cf_as_protocol_error :: bool

datatype client_action =
    CaDrop
  | CaForward string "proxy_decision option"
  | CaDeny string proxy_decision bool
  | CaBatch "string option" "string list" "proxy_decision list" bool

record session_state =
  ss_map :: id_request_map
  ss_taint :: tracker
  ss_breaker :: breaker
  ss_breaker_hash :: "string \<Rightarrow> u64"

definition PARSE_ERROR_REPLY :: string where
  "PARSE_ERROR_REPLY =
     [CHR ''{'', CHR 0x22] @ ''jsonrpc'' @ [CHR 0x22, CHR '':'', CHR 0x22] @ ''2.0''
     @ [CHR 0x22, CHR '','', CHR 0x22] @ ''id'' @ [CHR 0x22] @ '':null,'' @ [CHR 0x22] @ ''error''
     @ [CHR 0x22, CHR '':'', CHR ''{'', CHR 0x22] @ ''code'' @ [CHR 0x22] @ '':-32700,'' @ [CHR 0x22] @ ''message''
     @ [CHR 0x22, CHR '':'', CHR 0x22] @ ''Parse error: InnerWarden refused a line that is not JSON''
     @ [CHR 0x22] @ ''}}''"

definition not_json_decision :: "bool \<Rightarrow> proxy_decision" where
  "not_json_decision was_refused =
     (let detail = (if was_refused
        then ''the client sent a line that is not JSON; it was refused, not forwarded, because what the server would make of it cannot be inspected''
        else ''the client sent a line that is not JSON; it was forwarded uninspected, because this mode never blocks, and what the server makes of it cannot be seen here'')
      in (pass_through ClientToServer)\<lparr>pd_verdict :=
            \<lparr>mv_allowed = False, mv_alerts = [builtin_alert ''AG-MCP-PARSE'' detail True]\<rparr>\<rparr>)"

definition tool_call_signature :: "json_lib \<Rightarrow> json_rpc_envelope \<Rightarrow> string" where
  "tool_call_signature lib env =
     str_or (Option.bind (en_params env) (\<lambda>p. get_str p ''name'')) @ '':''
     @ str_or (map_option (jl_print lib) (Option.bind (en_params env) (\<lambda>p. jget p ''arguments'')))"

definition LOOP_BREAKER_ASI :: "string list" where
  "LOOP_BREAKER_ASI = [''ASI02'', ''ASI08'']"

definition breaker_reason :: "nat \<Rightarrow> u64 \<Rightarrow> u64 \<Rightarrow> string" where
  "breaker_reason limit window accepted_again_in =
     ''identical tool call (same tool, same arguments) already made '' @ show_nat limit
     @ '' times in the last '' @ show_nat (unat window)
     @ '' s, the pattern of a runaway loop; the breaker accepts this same call again in ''
     @ show_nat (unat accepted_again_in) @ '' s, and does not hold back any other call''"

definition breaker_alert :: "string \<Rightarrow> verdict_alert" where
  "breaker_alert reason = (builtin_alert ''AG-ASI09-BREAKER'' reason True)\<lparr>va_owasp := Some LOOP_BREAKER_ASI\<rparr>"

text \<open>The loop breaker, for a \<^verbatim>\<open>tools/call\<close>.\<close>

definition screen_loop ::
  "proxy_lib \<Rightarrow> json_rpc_envelope \<Rightarrow> proxy_decision \<Rightarrow> session_state \<Rightarrow> u64 \<Rightarrow> proxy_decision \<times> session_state" where
  "screen_loop lib env d st now_secs =
     (if en_method env = Some ''tools/call'' then
        (let (b, v) = breaker_record (ss_breaker_hash st) (ss_breaker st) (tool_call_signature (pl_json lib) env) now_secs;
             st = st\<lparr>ss_breaker := b\<rparr>
         in case v of
              BvTripped limit window again \<Rightarrow>
                (d\<lparr>pd_verdict := refuse_with (breaker_alert (breaker_reason limit window again)) (pd_verdict d)\<rparr>, st)
            | BvOk \<Rightarrow> (d, st))
      else (d, st))"

text \<open>What the id named before the request, and the map with the request in it.\<close>

definition track_request ::
  "proxy_lib \<Rightarrow> json_rpc_envelope \<Rightarrow> id_request_map \<Rightarrow> (string \<times> pending_request option) option \<times> id_request_map" where
  "track_request lib env m =
     (case (en_id env, en_method env) of
        (Some i, Some method) \<Rightarrow>
          (let key = id_key (pl_json lib) m i
           in (Some (key, im_get m key), record_pending m key method env))
      | _ \<Rightarrow> (None, m))"

text \<open>The decision a message ends with, and the session after it: routed, screened for a loop, then under the
  profile.\<close>

definition judge_message ::
  "proxy_lib \<Rightarrow> proxy_config \<Rightarrow> proxy_profile option \<Rightarrow> compiled_rule list option \<Rightarrow> json_rpc_envelope
     \<Rightarrow> u64 \<Rightarrow> session_state \<Rightarrow> proxy_decision \<times> proxy_action \<times> session_state" where
  "judge_message lib cfg profile engine env now_secs st =
     (let (decision, taint) = route_message lib env ClientToServer None engine (Some (ss_taint st));
          st = (case taint of Some t \<Rightarrow> st\<lparr>ss_taint := t\<rparr> | None \<Rightarrow> st);
          (decision, st) = screen_loop lib env decision st now_secs;
          (decision, action) = apply_layers lib decision env profile engine (cf_mode cfg) (cf_as_protocol_error cfg)
      in (decision, action, st))"

definition classify_client_message ::
  "proxy_lib \<Rightarrow> proxy_config \<Rightarrow> proxy_profile option \<Rightarrow> compiled_rule list option \<Rightarrow> json_rpc_envelope
     \<Rightarrow> string \<Rightarrow> u64 \<Rightarrow> session_state \<Rightarrow> client_action \<times> session_state" where
  "classify_client_message lib cfg profile engine env raw now_secs st =
     (let (pending, m) = track_request lib env (ss_map st);
          (decision, action, st) = judge_message lib cfg profile engine env now_secs (st\<lparr>ss_map := m\<rparr>);
          is_tool_call = (pd_direction decision = direction_label ClientToServer
                          \<and> pd_method decision = Some ''tools/call'');
          forgotten = (case pending of
             Some (key, before) \<Rightarrow> st\<lparr>ss_map := forget_refused (ss_map st) key before\<rparr>
           | None \<Rightarrow> st)
      in case action of
           AForward \<Rightarrow> (CaForward raw (if is_tool_call then Some decision else None), st)
         | AForwardWithAlert \<Rightarrow> (CaForward raw (Some decision), st)
         | ABlock response_line \<Rightarrow> (CaDeny (trim_end response_line) decision False, forgotten)
         | AKill response_line \<Rightarrow> (CaDeny (trim_end response_line) decision True, forgotten))"

text \<open>The loop over a batch: what is kept, the replies, the decisions, and whether anything was refused or
  ends the session.\<close>

record batch_acc =
  ba_kept :: "json list"
  ba_replies :: "string list"
  ba_events :: "proxy_decision list"
  ba_refused :: bool
  ba_kill :: bool

definition batch_new :: batch_acc where
  "batch_new = \<lparr>ba_kept = [], ba_replies = [], ba_events = [], ba_refused = False, ba_kill = False\<rparr>"

definition batch_item ::
  "proxy_lib \<Rightarrow> proxy_config \<Rightarrow> proxy_profile option \<Rightarrow> compiled_rule list option \<Rightarrow> u64 \<Rightarrow> json
     \<Rightarrow> batch_acc \<times> session_state \<Rightarrow> batch_acc \<times> session_state" where
  "batch_item lib cfg profile engine now_secs item acc_st =
     (case acc_st of (acc, st) \<Rightarrow>
        case envelope_of item of
          None \<Rightarrow> (acc\<lparr>ba_kept := ba_kept acc @ [item]\<rparr>, st)
        | Some env \<Rightarrow>
            (case classify_client_message lib cfg profile engine env [] now_secs st of
               (CaForward _ event, st) \<Rightarrow>
                 (acc\<lparr>ba_kept := ba_kept acc @ [item],
                      ba_events := ba_events acc @ (case event of Some d \<Rightarrow> [d] | None \<Rightarrow> [])\<rparr>, st)
             | (CaDeny denial decision ends, st) \<Rightarrow>
                 (acc\<lparr>ba_replies := ba_replies acc @ [denial], ba_events := ba_events acc @ [decision],
                      ba_refused := True, ba_kill := (ba_kill acc \<or> ends)\<rparr>, st)
             | (_, st) \<Rightarrow> (acc\<lparr>ba_kept := ba_kept acc @ [item]\<rparr>, st)))"

definition classify_client_batch ::
  "proxy_lib \<Rightarrow> proxy_config \<Rightarrow> proxy_profile option \<Rightarrow> compiled_rule list option \<Rightarrow> string \<Rightarrow> json list
     \<Rightarrow> u64 \<Rightarrow> session_state \<Rightarrow> client_action \<times> session_state" where
  "classify_client_batch lib cfg profile engine line items now_secs st =
     (let (acc, st) = fold (batch_item lib cfg profile engine now_secs) items (batch_new, st);
          forward = (if ba_kill acc \<or> ba_kept acc = [] then None
                     else if ba_refused acc then Some (jl_print (pl_json lib) (JArr (ba_kept acc)))
                     else Some (as_inspected (pl_json lib) line))
      in (CaBatch forward (ba_replies acc) (ba_events acc) (ba_kill acc), st))"

definition classify_client_line_in ::
  "proxy_lib \<Rightarrow> proxy_config \<Rightarrow> proxy_profile option \<Rightarrow> compiled_rule list option \<Rightarrow> string \<Rightarrow> u64
     \<Rightarrow> session_state \<Rightarrow> client_action \<times> session_state" where
  "classify_client_line_in lib cfg profile engine line now_secs st =
     (case parse_line (pl_json lib) line of
        PlEmpty \<Rightarrow> (CaDrop, st)
      | PlOpaque raw \<Rightarrow> (CaForward raw None, st)
      | PlNotJson raw \<Rightarrow>
          if mode_blocks (cf_mode cfg) then (CaDeny PARSE_ERROR_REPLY (not_json_decision True) False, st)
          else (CaForward raw (Some (not_json_decision False)), st)
      | PlMessage env \<Rightarrow>
          classify_client_message lib cfg profile engine env (as_inspected (pl_json lib) line) now_secs st
      | PlBatch items \<Rightarrow> classify_client_batch lib cfg profile engine line items now_secs st)"

subsection \<open>A server's line\<close>

datatype server_action =
    SaDrop
  | SaForward string "proxy_decision option"
  | SaForwardBatch string "proxy_decision list"

definition inspect_opaque_server_text ::
  "proxy_lib \<Rightarrow> string \<Rightarrow> compiled_rule list option \<Rightarrow> tracker \<Rightarrow> proxy_decision option \<times> tracker" where
  "inspect_opaque_server_text lib raw engine taint =
     (let content = sc_redact (pl_scan lib) raw;
          verdict = inspect_response (pl_scan lib) content engine
      in (if mv_alerts verdict \<noteq> [] then Some ((pass_through ServerToClient)\<lparr>pd_verdict := verdict\<rparr>) else None,
          record_result content Content taint))"

definition classify_server_message ::
  "proxy_lib \<Rightarrow> json_rpc_envelope \<Rightarrow> compiled_rule list option \<Rightarrow> session_state
     \<Rightarrow> proxy_decision option \<times> session_state" where
  "classify_server_message lib env engine st =
     (let (responded, m) =
            (case (en_method env, en_id env) of
               (None, Some i) \<Rightarrow> im_remove (ss_map st) (id_key (pl_json lib) (ss_map st) i)
             | _ \<Rightarrow> (None, ss_map st));
          (decision, taint) = route_message lib env ServerToClient responded engine (Some (ss_taint st));
          st = st\<lparr>ss_map := m, ss_taint := (case taint of Some t \<Rightarrow> t | None \<Rightarrow> ss_taint st)\<rparr>
      in (if mv_alerts (pd_verdict decision) = [] then None else Some decision, st))"

fun server_batch ::
  "proxy_lib \<Rightarrow> compiled_rule list option \<Rightarrow> json list \<Rightarrow> session_state \<Rightarrow> proxy_decision list \<times> session_state" where
  "server_batch lib engine [] st = ([], st)"
| "server_batch lib engine (item # items) st =
     (case envelope_of item of
        None \<Rightarrow> server_batch lib engine items st
      | Some env \<Rightarrow>
          (let (event, st) = classify_server_message lib env engine st;
               (events, st) = server_batch lib engine items st
           in ((case event of Some d \<Rightarrow> d # events | None \<Rightarrow> events), st)))"

definition classify_server_line ::
  "proxy_lib \<Rightarrow> string \<Rightarrow> compiled_rule list option \<Rightarrow> session_state \<Rightarrow> server_action \<times> session_state" where
  "classify_server_line lib line engine st =
     (let opaque = (\<lambda>raw. let (event, t) = inspect_opaque_server_text lib raw engine (ss_taint st)
                          in (SaForward raw event, st\<lparr>ss_taint := t\<rparr>))
      in case parse_line (pl_json lib) line of
           PlEmpty \<Rightarrow> (SaDrop, st)
         | PlOpaque raw \<Rightarrow> opaque raw
         | PlNotJson raw \<Rightarrow> opaque raw
         | PlMessage env \<Rightarrow>
             (let (event, st) = classify_server_message lib env engine st
              in (SaForward (as_inspected (pl_json lib) line) event, st))
         | PlBatch items \<Rightarrow>
             (let (events, st) = server_batch lib engine items st
              in (SaForwardBatch (as_inspected (pl_json lib) line) events, st)))"

subsection \<open>The loop\<close>

text \<open>Why the loop ended; \<open>Failed\<close> is an error of a read or a write.\<close>

datatype ended = ClientLeft | ServerClosed | Stopped | KillMode | Failed

text \<open>The session, whether the server's input is open and the drain window armed, and what was written
  to each side and reported so far.\<close>

record pump =
  pu_session :: session_state
  pu_stdin_open :: bool
  pu_draining :: bool
  pu_ended :: "ended option"
  pu_to_server :: "string list"
  pu_to_client :: "string list"
  pu_reported :: "proxy_decision list"

definition pump_new :: "(string \<Rightarrow> u64) \<Rightarrow> (string \<Rightarrow> u64) \<Rightarrow> (string \<Rightarrow> u64) \<Rightarrow> (string \<Rightarrow> u64) \<Rightarrow> pump" where
  "pump_new digest hash_key sample_key breaker_hash =
     \<lparr>pu_session = \<lparr>ss_map = id_map_new digest, ss_taint = tracker_new hash_key sample_key,
        ss_breaker = breaker_new breaker_config_default, ss_breaker_hash = breaker_hash\<rparr>,
      pu_stdin_open = True, pu_draining = False, pu_ended = None, pu_to_server = [], pu_to_client = [],
      pu_reported = []\<rparr>"

definition opt_list :: "'a option \<Rightarrow> 'a list" where
  "opt_list x = (case x of Some a \<Rightarrow> [a] | None \<Rightarrow> [])"

fun act_on_client :: "client_action \<Rightarrow> pump \<Rightarrow> pump" where
  "act_on_client CaDrop p = p"
| "act_on_client (CaForward raw event) p =
     p\<lparr>pu_to_server := pu_to_server p @ [raw], pu_reported := pu_reported p @ opt_list event\<rparr>"
| "act_on_client (CaDeny denial decision kill) p =
     p\<lparr>pu_to_client := pu_to_client p @ [denial], pu_reported := pu_reported p @ [decision],
       pu_ended := (if kill then Some KillMode else pu_ended p)\<rparr>"
| "act_on_client (CaBatch forward replies events kill) p =
     p\<lparr>pu_to_server := pu_to_server p @ opt_list forward, pu_to_client := pu_to_client p @ replies,
       pu_reported := pu_reported p @ events, pu_ended := (if kill then Some KillMode else pu_ended p)\<rparr>"

fun act_on_server :: "server_action \<Rightarrow> pump \<Rightarrow> pump" where
  "act_on_server SaDrop p = p"
| "act_on_server (SaForward raw event) p =
     p\<lparr>pu_to_client := pu_to_client p @ [raw], pu_reported := pu_reported p @ opt_list event\<rparr>"
| "act_on_server (SaForwardBatch raw events) p =
     p\<lparr>pu_to_client := pu_to_client p @ [raw], pu_reported := pu_reported p @ events\<rparr>"

inductive pump_step ::
  "proxy_lib \<Rightarrow> proxy_config \<Rightarrow> proxy_profile option \<Rightarrow> compiled_rule list option \<Rightarrow> pump \<Rightarrow> pump \<Rightarrow> bool"
  for lib cfg profile engine where
  client_line: "pu_ended p = None \<Longrightarrow> pu_stdin_open p \<Longrightarrow>
     classify_client_line_in lib cfg profile engine line now_secs (pu_session p) = (action, st) \<Longrightarrow>
     pump_step lib cfg profile engine p (act_on_client action (p\<lparr>pu_session := st\<rparr>))"
| client_eof: "pu_ended p = None \<Longrightarrow> pu_stdin_open p \<Longrightarrow>
     pump_step lib cfg profile engine p (p\<lparr>pu_stdin_open := False, pu_draining := True\<rparr>)"
| server_line: "pu_ended p = None \<Longrightarrow>
     classify_server_line lib line engine (pu_session p) = (saction, st) \<Longrightarrow>
     pump_step lib cfg profile engine p (act_on_server saction (p\<lparr>pu_session := st\<rparr>))"
| server_eof: "pu_ended p = None \<Longrightarrow> pump_step lib cfg profile engine p (p\<lparr>pu_ended := Some ServerClosed\<rparr>)"
| drained: "pu_ended p = None \<Longrightarrow> pu_draining p \<Longrightarrow>
     pump_step lib cfg profile engine p (p\<lparr>pu_ended := Some ClientLeft\<rparr>)"
| stop: "pu_ended p = None \<Longrightarrow> pump_step lib cfg profile engine p (p\<lparr>pu_ended := Some Stopped\<rparr>)"
| failed: "pu_ended p = None \<Longrightarrow> pump_step lib cfg profile engine p (p\<lparr>pu_ended := Some Failed\<rparr>)"

text \<open>A session's states, from its start.\<close>

inductive pump_reach ::
  "proxy_lib \<Rightarrow> proxy_config \<Rightarrow> proxy_profile option \<Rightarrow> compiled_rule list option \<Rightarrow> pump \<Rightarrow> bool"
  for lib cfg profile engine where
  start: "pump_reach lib cfg profile engine (pump_new digest hash_key sample_key breaker_hash)"
| more: "pump_reach lib cfg profile engine p \<Longrightarrow> pump_step lib cfg profile engine p q \<Longrightarrow>
     pump_reach lib cfg profile engine q"

inductive_cases pump_stepE: "pump_step lib cfg profile engine p q"

end
