(* ===== verification/ProxySafe.thy ===== *)
theory ProxySafe
  imports Proxy
begin

text \<open>
  What the proxy keeps: a layer only adds refusals, nothing refused with an id reaches the server in a
  blocking mode over any session, every refused call is answered, the requests waiting are bounded, and
  a refused one is taken back out.
\<close>

subsection \<open>The mode and the profile\<close>

lemma refuse_with_simps [simp]:
  "mv_allowed (refuse_with a v) = False" "mv_alerts (refuse_with a v) = mv_alerts v @ [a]"
  by (simp_all add: refuse_with_def)

lemma refuse_with_inject [simp]: "refuse_with a v = refuse_with b v \<longleftrightarrow> a = b"
  by (simp add: refuse_with_def)

lemma apply_mode_blocks:
  "apply_mode lib d mode e \<in> {ABlock s, AKill s} \<longleftrightarrow> mode_blocks mode \<and> can_block d \<and> s = synthesize_denial lib d e
     \<and> apply_mode lib d mode e = (if mode = Kill then AKill s else ABlock s)"
  by (cases mode) (auto simp: apply_mode_def forward_or_alert_def)

text \<open>The layers only add: what is on the decision stays, and at most one alert, which blocks, is added with a
  refusal.\<close>

definition only_refuses :: "proxy_decision \<Rightarrow> proxy_decision \<Rightarrow> bool" where
  "only_refuses d d' \<longleftrightarrow>
     (pd_verdict d' = pd_verdict d \<or> (\<exists>a. va_block a \<and> pd_verdict d' = refuse_with a (pd_verdict d)))
     \<and> pd_direction d' = pd_direction d \<and> pd_method d' = pd_method d \<and> pd_request_id d' = pd_request_id d"

lemma only_refuses_refl [simp]: "only_refuses d d"
  by (simp add: only_refuses_def)

lemma only_refuses_refuse [simp]:
  "va_block a \<Longrightarrow> only_refuses d (d\<lparr>pd_verdict := refuse_with a (pd_verdict d)\<rparr>)"
  by (auto simp: only_refuses_def)

lemma only_refuses_layer [simp]: "only_refuses d (d'\<lparr>pd_deciding_layer := l\<rparr>) = only_refuses d d'"
  by (simp add: only_refuses_def)

lemma breaker_alert_block [simp]: "va_block (breaker_alert reason)"
  by (simp add: breaker_alert_def)

lemma apply_profile_only_refuses: "only_refuses d (apply_profile lib d env profile engine)"
proof (cases "pd_direction d \<noteq> direction_label ClientToServer \<or> pd_method d \<noteq> Some ''tools/call''")
  case True
  then show ?thesis by (simp add: apply_profile_def)
next
  case False
  show ?thesis
  proof (cases profile)
    case (ProxyInvalid why)
    then show ?thesis using False by (simp add: apply_profile_def)
  next
    case (ProxyActive agent_type prof t revoked)
    then show ?thesis using False by (auto simp: apply_profile_def only_refuses_def Let_def split: prod.split)
  qed
qed

lemma screen_loop_only_refuses: "only_refuses d (fst (screen_loop lib env d st now_secs))"
  by (simp add: screen_loop_def Let_def split: prod.split breaker_verdict.split)

lemma only_refuses_allowed:
  "only_refuses d d' \<Longrightarrow> mv_allowed (pd_verdict d') \<Longrightarrow> mv_allowed (pd_verdict d) \<and> pd_verdict d' = pd_verdict d"
  by (auto simp: only_refuses_def)

lemma judge_message_steps:
  assumes "judge_message lib cfg profile engine env now_secs st = (d, action, st')"
  obtains d1 where "only_refuses (route_client_to_server lib env engine (Some (ss_taint st))) d1" "only_refuses d1 d"
    and "d1 = fst (screen_loop lib env (route_client_to_server lib env engine (Some (ss_taint st))) st now_secs)"
    and "d = (case profile of Some p \<Rightarrow> apply_profile lib d1 env p engine | None \<Rightarrow> d1)"
    and "action = apply_mode lib d (cf_mode cfg) (cf_as_protocol_error cfg)"
    and "st' = snd (screen_loop lib env (route_client_to_server lib env engine (Some (ss_taint st))) st now_secs)"
proof -
  let ?r = "route_client_to_server lib env engine (Some (ss_taint st))"
  obtain d1 s1 where s1: "screen_loop lib env ?r st now_secs = (d1, s1)" by fastforce
  have d: "d = (case profile of Some p \<Rightarrow> apply_profile lib d1 env p engine | None \<Rightarrow> d1)"
    "action = apply_mode lib d (cf_mode cfg) (cf_as_protocol_error cfg)" "st' = s1"
    using assms s1 by (auto simp: judge_message_def route_message_def apply_layers_def Let_def)
  have "only_refuses ?r d1" using screen_loop_only_refuses[where d = ?r and lib = lib and env = env and st = st and now_secs = now_secs] s1 by simp
  moreover have "only_refuses d1 d" using d(1) apply_profile_only_refuses by (cases profile) auto
  ultimately show ?thesis using that d s1 by simp
qed

lemma screen_loop_map [simp]: "ss_map (snd (screen_loop lib env d st now_secs)) = ss_map st"
  "ss_taint (snd (screen_loop lib env d st now_secs)) = ss_taint st"
  by (simp_all add: screen_loop_def Let_def split: prod.split breaker_verdict.split)

lemma route_client_fields:
  "pd_direction (route_client_to_server lib env engine taint) = ''client->server''"
  "pd_method (route_client_to_server lib env engine taint) =
     (if en_method env = Some ''tools/call'' then Some ''tools/call'' else None)"
  "pd_request_id (route_client_to_server lib env engine taint) =
     (if en_method env = Some ''tools/call'' then en_id env else None)"
  "en_method env \<noteq> Some ''tools/call'' \<Longrightarrow> mv_allowed (pd_verdict (route_client_to_server lib env engine taint))"
  by (simp_all add: route_client_to_server_def pass_through_def Let_def split: prod.split)

lemma only_refuses_fields:
  "only_refuses d d' \<Longrightarrow> pd_direction d' = pd_direction d"
  "only_refuses d d' \<Longrightarrow> pd_method d' = pd_method d"
  "only_refuses d d' \<Longrightarrow> pd_request_id d' = pd_request_id d"
  by (simp_all add: only_refuses_def)

lemma judged_fields:
  assumes "judge_message lib cfg profile engine env now_secs st = (d, action, st')"
  shows "pd_direction d = ''client->server''"
    and "pd_method d = (if en_method env = Some ''tools/call'' then Some ''tools/call'' else None)"
    and "pd_request_id d = (if en_method env = Some ''tools/call'' then en_id env else None)"
    and "en_method env \<noteq> Some ''tools/call'' \<Longrightarrow> mv_allowed (pd_verdict d)"
    and "action = apply_mode lib d (cf_mode cfg) (cf_as_protocol_error cfg)"
    and "ss_map st' = ss_map st" "ss_taint st' = ss_taint st"
proof -
  let ?r = "route_client_to_server lib env engine (Some (ss_taint st))"
  obtain d1 where d1: "only_refuses ?r d1" "only_refuses d1 d"
    "d1 = fst (screen_loop lib env ?r st now_secs)"
    "d = (case profile of Some p \<Rightarrow> apply_profile lib d1 env p engine | None \<Rightarrow> d1)"
    "action = apply_mode lib d (cf_mode cfg) (cf_as_protocol_error cfg)"
    "st' = snd (screen_loop lib env ?r st now_secs)"
    by (rule judge_message_steps[OF assms])
  show "pd_direction d = ''client->server''"
    "pd_method d = (if en_method env = Some ''tools/call'' then Some ''tools/call'' else None)"
    "pd_request_id d = (if en_method env = Some ''tools/call'' then en_id env else None)"
    using only_refuses_fields[OF d1(1)] only_refuses_fields[OF d1(2)] route_client_fields[where lib = lib and env = env and engine = engine and taint = "Some (ss_taint st)"]
    by simp_all
  show "action = apply_mode lib d (cf_mode cfg) (cf_as_protocol_error cfg)" "ss_map st' = ss_map st" "ss_taint st' = ss_taint st"
    using d1(5,6) by simp_all
  show "mv_allowed (pd_verdict d)" if other: "en_method env \<noteq> Some ''tools/call''"
  proof -
    have "d1 = ?r" using d1(3) other by (simp add: screen_loop_def)
    moreover have "d = d1"
      using d1(4) other only_refuses_fields(2)[OF d1(1)] route_client_fields(2)[where lib = lib and env = env and engine = engine and taint = "Some (ss_taint st)"]
      by (cases profile) (simp_all add: apply_profile_def)
    ultimately show ?thesis using route_client_fields(4)[OF other] by simp
  qed
qed

subsection \<open>Nothing refused reaches the server\<close>

text \<open>The messages a server reads in a line.\<close>

definition messages_in :: "json_lib \<Rightarrow> string \<Rightarrow> json_rpc_envelope list" where
  "messages_in lib wire =
     (case parse_line lib wire of
        PlMessage env \<Rightarrow> [env]
      | PlBatch items \<Rightarrow> List.map_filter envelope_of items
      | _ \<Rightarrow> [])"

definition messages_of :: "json \<Rightarrow> json_rpc_envelope list" where
  "messages_of v = (case v of JArr items \<Rightarrow> List.map_filter envelope_of items | _ \<Rightarrow> opt_list (envelope_of v))"

lemma messages_in_value:
  "set (messages_in lib wire) \<subseteq> (case parse_value lib wire of Some v \<Rightarrow> set (messages_of v) | None \<Rightarrow> {})"
  by (auto simp: messages_in_def parse_line_def messages_of_def opt_list_def split: option.splits json.splits)

text \<open>What is printed reads back as what was printed, when it reads at all.\<close>

definition prints_back :: "json_lib \<Rightarrow> bool" where
  "prints_back lib \<longleftrightarrow>
     (\<forall>v r. jwf v \<longrightarrow> parse_raw (jl_read lib) (jl_print lib v) = Some r \<longrightarrow> r = raw_of v)"

lemma printed_value:
  "prints_back lib \<Longrightarrow> jwf v \<Longrightarrow> parse_value lib (jl_print lib v) \<in> {None, Some v}"
  using value_of_raw_of[of v]
  by (cases "parse_raw (jl_read lib) (jl_print lib v)") (auto simp: prints_back_def parse_value_def)

lemma as_inspected_value:
  assumes "prints_back lib" "parse_value lib line = Some v"
  shows "parse_value lib (as_inspected lib line) \<in> {None, Some v}"
proof -
  have "jwf v" using assms(2) by (auto simp: parse_value_def)
  then show ?thesis using assms printed_value[of lib v] by (auto simp: as_inspected_def)
qed

lemma sent_messages:
  assumes "parse_value lib wire \<in> {None, Some v}"
  shows "set (messages_in lib wire) \<subseteq> set (messages_of v)"
  using messages_in_value[of lib wire] assms by (auto split: option.splits)

text \<open>A call with an id is covered by the decisions reported when one of them allows it.\<close>

definition call_allowed :: "proxy_decision list \<Rightarrow> json_rpc_envelope \<Rightarrow> bool" where
  "call_allowed events env \<longleftrightarrow>
     (en_method env = Some ''tools/call'' \<and> en_id env \<noteq> None \<longrightarrow>
        list_ex (\<lambda>d. pd_method d = Some ''tools/call'' \<and> pd_request_id d = en_id env
                     \<and> mv_allowed (pd_verdict d)) events)"

lemma call_allowed_append [simp]:
  "call_allowed events env \<Longrightarrow> call_allowed (events @ later) env"
  "call_allowed later env \<Longrightarrow> call_allowed (events @ later) env"
  by (auto simp: call_allowed_def)

text \<open>What a message ends as.\<close>

lemma classify_message_cases:
  assumes "classify_client_message lib cfg profile engine env raw now_secs st = (action, st')"
  obtains (forward) event where "action = CaForward raw event"
      "mode_blocks (cf_mode cfg) \<Longrightarrow> call_allowed (opt_list event) env"
      "ss_map st' = snd (track_request lib env (ss_map st))"
  | (deny) d i where "action = CaDeny (trim_end (synthesize_denial lib d (cf_as_protocol_error cfg))) d (cf_mode cfg = Kill)"
      "mode_blocks (cf_mode cfg)" "en_method env = Some ''tools/call''" "en_id env = Some i"
      "pd_request_id d = Some i" "\<not> mv_allowed (pd_verdict d)"
      "ss_map st' = forget_refused (snd (track_request lib env (ss_map st))) (id_key (pl_json lib) (ss_map st) i)
         (im_get (ss_map st) (id_key (pl_json lib) (ss_map st) i))"
proof -
  obtain pending m where t: "track_request lib env (ss_map st) = (pending, m)" by fastforce
  obtain d act s where j: "judge_message lib cfg profile engine env now_secs (st\<lparr>ss_map := m\<rparr>) = (d, act, s)"
    using prod_cases3 by blast
  note f = judged_fields[OF j]
  have map: "ss_map s = m" using f(6) by simp
  show ?thesis
  proof (cases "mode_blocks (cf_mode cfg) \<and> can_block d")
    case True
    then have i: "en_method env = Some ''tools/call''" "\<exists>i. en_id env = Some i \<and> pd_request_id d = Some i" "\<not> mv_allowed (pd_verdict d)"
      using f(3,4) by (auto simp: can_block_def split: if_splits)
    then obtain i where i': "en_id env = Some i" "pd_request_id d = Some i" by blast
    have pending: "pending = Some (id_key (pl_json lib) (ss_map st) i, im_get (ss_map st) (id_key (pl_json lib) (ss_map st) i))"
      using t i(1) i'(1) by (auto simp: track_request_def Let_def)
    have "act = (if cf_mode cfg = Kill then AKill else ABlock) (synthesize_denial lib d (cf_as_protocol_error cfg))"
      using True f(5) by (cases "cf_mode cfg") (simp_all add: apply_mode_def)
    then show ?thesis
      using assms t j i i' True map pending
      by (intro deny[of d i]) (auto simp: classify_client_message_def Let_def split: if_splits)
  next
    case False
    have act: "act = AForward \<or> act = AForwardWithAlert"
      using False f(5) by (cases "cf_mode cfg") (auto simp: apply_mode_def forward_or_alert_def)
    define event where "event = (if act = AForward \<and> en_method env \<noteq> Some ''tools/call'' then None else Some d)"
    have "action = CaForward raw event" "st' = s"
      using assms t j act f(1,2) by (auto simp: classify_client_message_def event_def Let_def)
    moreover have "call_allowed (opt_list event) env" if "mode_blocks (cf_mode cfg)"
      using False that f(1-4) by (auto simp: call_allowed_def event_def opt_list_def can_block_def)
    ultimately show ?thesis using map t by (intro forward[of event]) simp_all
  qed
qed

text \<open>The loop over a batch: what is kept is covered by what is reported, and while nothing is refused all is kept.\<close>

definition batch_inv :: "json list \<Rightarrow> batch_acc \<Rightarrow> bool" where
  "batch_inv before acc \<longleftrightarrow>
     set (ba_kept acc) \<subseteq> set before
     \<and> (\<not> ba_refused acc \<longrightarrow> ba_kept acc = before)
     \<and> (\<forall>item \<in> set (ba_kept acc). \<forall>env. envelope_of item = Some env \<longrightarrow> call_allowed (ba_events acc) env)"

lemma batch_item_inv:
  assumes "mode_blocks (cf_mode cfg)" "batch_inv before acc"
  shows "batch_inv (before @ [item]) (fst (batch_item lib cfg profile engine now_secs item (acc, st)))"
proof (cases "envelope_of item")
  case None
  then show ?thesis using assms(2) by (auto simp: batch_item_def batch_inv_def)
next
  case (Some env)
  obtain action st' where c: "classify_client_message lib cfg profile engine env [] now_secs st = (action, st')" by fastforce
  from c show ?thesis
  proof (cases rule: classify_message_cases)
    case (forward event)
    then show ?thesis using assms c Some by (auto simp: batch_item_def batch_inv_def opt_list_def)
  next
    case (deny d i)
    then show ?thesis using assms(2) c Some by (auto simp: batch_item_def batch_inv_def)
  qed
qed

lemma batch_fold_inv:
  assumes "mode_blocks (cf_mode cfg)"
  shows "batch_inv before acc \<Longrightarrow>
     batch_inv (before @ items) (fst (fold (batch_item lib cfg profile engine now_secs) items (acc, st)))"
proof (induction items arbitrary: before acc st)
  case (Cons item items)
  obtain acc' st' where step: "batch_item lib cfg profile engine now_secs item (acc, st) = (acc', st')" by fastforce
  have "batch_inv (before @ [item]) acc'" using batch_item_inv[OF assms Cons.prems, of item lib profile engine now_secs st] step by simp
  then show ?case using Cons.IH[of "before @ [item]" acc' st'] step by simp
qed simp

text \<open>What a line's action writes to the server and reports.\<close>

fun action_sends :: "client_action \<Rightarrow> string list" where
  "action_sends (CaForward raw event) = [raw]"
| "action_sends (CaBatch forward replies events kill) = opt_list forward"
| "action_sends _ = []"

fun action_reports :: "client_action \<Rightarrow> proxy_decision list" where
  "action_reports (CaForward raw event) = opt_list event"
| "action_reports (CaDeny denial decision kill) = [decision]"
| "action_reports (CaBatch forward replies events kill) = events"
| "action_reports CaDrop = []"

lemma act_on_client_log [simp]:
  "pu_to_server (act_on_client action p) = pu_to_server p @ action_sends action"
  "pu_reported (act_on_client action p) = pu_reported p @ action_reports action"
  by (cases action; simp)+

lemma act_on_server_log [simp]:
  "pu_to_server (act_on_server action p) = pu_to_server p"
  "prefix (pu_reported p) (pu_reported (act_on_server action p))"
  by (cases action; simp add: prefix_def)+

lemma messages_of_batch: "env \<in> set (messages_of (JArr items)) \<longleftrightarrow> (\<exists>item \<in> set items. envelope_of item = Some env)"
  by (auto simp: messages_of_def map_filter_def) (metis (mono_tags, lifting) image_eqI mem_Collect_eq option.sel)

lemma classify_line_sends:
  assumes pb: "prints_back (pl_json lib)" and mode: "mode_blocks (cf_mode cfg)"
    and c: "classify_client_line_in lib cfg profile engine line now_secs st = (action, st')"
    and wire: "wire \<in> set (action_sends action)" and env: "env \<in> set (messages_in (pl_json lib) wire)"
  shows "call_allowed (action_reports action) env"
proof (cases "parse_line (pl_json lib) line")
  case PlEmpty
  then show ?thesis using c wire by (simp add: classify_client_line_in_def)
next
  case (PlOpaque raw)
  then have "raw = line" by (auto simp: parse_line_def split: if_splits option.splits json.splits)
  then show ?thesis using PlOpaque c wire env by (auto simp: classify_client_line_in_def messages_in_def)
next
  case (PlNotJson raw)
  then show ?thesis using c wire mode by (auto simp: classify_client_line_in_def)
next
  case (PlMessage e)
  then obtain v where v: "parse_value (pl_json lib) line = Some v" "messages_of v = [e]"
    by (auto simp: parse_line_def messages_of_def opt_list_def split: if_splits option.splits json.splits)
  have cm: "classify_client_message lib cfg profile engine e (as_inspected (pl_json lib) line) now_secs st = (action, st')"
    using PlMessage c by (simp add: classify_client_line_in_def)
  from cm show ?thesis
  proof (cases rule: classify_message_cases)
    case (forward event)
    then have "env = e"
      using wire env sent_messages[OF as_inspected_value[OF pb v(1)]] v(2) by auto
    then show ?thesis using forward mode by simp
  next
    case (deny d i)
    then show ?thesis using wire by simp
  qed
next
  case (PlBatch items)
  then have v: "parse_value (pl_json lib) line = Some (JArr items)"
    by (auto simp: parse_line_def envelope_of_def split: if_splits option.splits json.splits)
  obtain acc s where fold: "fold (batch_item lib cfg profile engine now_secs) items (batch_new, st) = (acc, s)" by fastforce
  have inv: "batch_inv items acc"
    using batch_fold_inv[OF mode, of "[]" batch_new items lib profile engine now_secs st] fold
    by (simp add: batch_inv_def batch_new_def)
  have action: "action = CaBatch (if ba_kill acc \<or> ba_kept acc = [] then None
      else if ba_refused acc then Some (jl_print (pl_json lib) (JArr (ba_kept acc)))
      else Some (as_inspected (pl_json lib) line)) (ba_replies acc) (ba_events acc) (ba_kill acc)"
    using c PlBatch fold by (simp add: classify_client_line_in_def classify_client_batch_def)
  have wf: "jwf (JArr items)" using v value_of_jwf by (metis parse_value_def map_option_eq_Some)
  have "parse_value (pl_json lib) wire \<in> {None, Some (JArr (ba_kept acc))}"
  proof (cases "ba_refused acc")
    case True
    have "jwf (JArr (ba_kept acc))" using wf inv by (auto simp: batch_inv_def list_all_iff)
    then show ?thesis using True wire action printed_value[OF pb] by (auto simp: opt_list_def split: if_splits)
  next
    case False
    then have "ba_kept acc = items" using inv by (simp add: batch_inv_def)
    then show ?thesis using False wire action as_inspected_value[OF pb v] by (auto simp: opt_list_def split: if_splits)
  qed
  then have "\<exists>item \<in> set (ba_kept acc). envelope_of item = Some env"
    using sent_messages env messages_of_batch by blast
  then show ?thesis using inv action by (auto simp: batch_inv_def)
qed

lemma session_sends:
  assumes "prints_back (pl_json lib)" "mode_blocks (cf_mode cfg)" "pump_reach lib cfg profile engine p"
  shows "\<forall>wire \<in> set (pu_to_server p). \<forall>env \<in> set (messages_in (pl_json lib) wire). call_allowed (pu_reported p) env"
  using assms(3)
proof (induction rule: pump_reach.induct)
  case start
  then show ?case by (simp add: pump_new_def)
next
  case (more p q)
  from more.hyps(2) show ?case
  proof (cases rule: pump_step.cases)
    case (client_line line now_secs action st)
    then show ?thesis using more.IH classify_line_sends[OF assms(1,2) client_line(4)] by auto
  next
    case (server_line line saction st)
    then show ?thesis using more.IH act_on_server_log(2)[of "p\<lparr>pu_session := st\<rparr>" saction] by (auto simp: prefix_def)
  qed (use more.IH in auto)
qed

text \<open>C18: In \<open>guard\<close> and \<open>kill\<close> mode nothing refused reaches the server. Over any session, whatever lines either side
  sends and in whatever order, every \<^verbatim>\<open>tools/call\<close> with an id that the server reads in what the proxy
  wrote to it, alone or in a batch, is one the proxy reported with a decision that allows it. What the
  proxy prints is taken to read back as what was printed.\<close>

theorem guard_session_safe:
  assumes "prints_back (pl_json lib)" "mode_blocks (cf_mode cfg)" "pump_reach lib cfg profile engine p"
    and "wire \<in> set (pu_to_server p)" "env \<in> set (messages_in (pl_json lib) wire)"
    and "en_method env = Some ''tools/call''" "en_id env = Some i"
  shows "list_ex (\<lambda>d. pd_method d = Some ''tools/call'' \<and> pd_request_id d = Some i \<and> mv_allowed (pd_verdict d))
    (pu_reported p)"
  using session_sends[OF assms(1-3), rule_format, OF assms(4,5)] assms(6,7) by (simp add: call_allowed_def)

subsection \<open>The requests waiting for an answer\<close>

definition entry_ok :: "string \<times> (nat \<times> pending_request) \<Rightarrow> bool" where
  "entry_ok e \<longleftrightarrow> (case e of (key, (order, r)) \<Rightarrow>
     length key \<le> MAX_ID_KEY_BYTES \<and> length (pr_method r) \<le> MAX_METHOD_BYTES
     \<and> is_none_or (pr_tool r) (\<lambda>tool. length tool \<le> MAX_TOOL_NAME_BYTES))"

definition pending_ok :: "id_request_map \<Rightarrow> bool" where
  "pending_ok m \<longleftrightarrow>
     distinct (map fst (im_entries m)) \<and> length (im_entries m) \<le> MAX_PENDING_REQUESTS
     \<and> list_all entry_ok (im_entries m)"

lemma oldest_key_in: "entries \<noteq> [] \<Longrightarrow> \<exists>k. oldest_key entries = Some k \<and> k \<in> fst ` set entries"
proof -
  assume "entries \<noteq> []"
  then obtain e es where e: "entries = e # es" by (cases entries) auto
  show ?thesis unfolding e using min_by_key_in[of "\<lambda>(_, (order, _)). order" e es]
    by (auto simp: oldest_key_def intro: imageI)
qed

text \<open>What the map drops to make room: the oldest entry, when a new key finds it full.\<close>

definition dropped_for :: "id_request_map \<Rightarrow> string \<Rightarrow> string option" where
  "dropped_for m key =
     (if im_get m key = None \<and> MAX_PENDING_REQUESTS \<le> length (im_entries m) then oldest_key (im_entries m) else None)"

lemma im_insert_get:
  "im_get (im_insert m key r) k =
     (if k = key then Some r else if dropped_for m key = Some k then None else im_get m k)"
  by (auto simp: im_get_def im_insert_def dropped_for_def Let_def update_conv' delete_conv' split: option.split)

lemma im_remove_get: "im_get (snd (im_remove m key)) k = (if k = key then None else im_get m k)"
  by (simp add: im_get_def im_remove_def delete_conv')

lemma length_update_le:
  "distinct (map fst es) \<Longrightarrow> length (AList.update k v es) = (if k \<in> fst ` set es then length es else Suc (length es))"
proof -
  assume d: "distinct (map fst es)"
  have "length (AList.update k v es) = card (fst ` set (AList.update k v es))"
    using distinct_update[OF d, of k v] by (metis distinct_card length_map list.set_map)
  also have "fst ` set (AList.update k v es) = insert k (fst ` set es)" by (simp add: dom_update)
  also have "card (fst ` set es) = length es" using d by (metis distinct_card length_map list.set_map)
  ultimately show ?thesis by (auto simp: card_insert_if)
qed

lemma length_delete_in:
  "k \<in> fst ` set es \<Longrightarrow> length (AList.delete k es) < length es"
  by (auto simp: AList.delete_eq intro!: length_filter_less)

lemma entry_ok_update:
  "list_all entry_ok es \<Longrightarrow> entry_ok (k, v) \<Longrightarrow> list_all entry_ok (AList.update k v es)"
  by (induction es) auto

lemma list_all_delete: "list_all P es \<Longrightarrow> list_all P (AList.delete k es)"
  by (auto simp: AList.delete_eq list_all_iff)

lemma pending_ok_insert:
  assumes "pending_ok m" "entry_ok (key, (0, r))"
  shows "pending_ok (im_insert m key r)"
proof -
  define es where "es = (if map_of (im_entries m) key = None \<and> MAX_PENDING_REQUESTS \<le> length (im_entries m) then
                       (case oldest_key (im_entries m) of Some oldest \<Rightarrow> AList.delete oldest (im_entries m) | None \<Rightarrow> im_entries m)
                     else im_entries m)"
  have m: "distinct (map fst (im_entries m))" "length (im_entries m) \<le> MAX_PENDING_REQUESTS" "list_all entry_ok (im_entries m)"
    using assms(1) by (simp_all add: pending_ok_def)
  have es: "distinct (map fst es)" "list_all entry_ok es"
    using m by (auto simp: es_def distinct_delete list_all_delete split: option.split)
  have room: "key \<in> fst ` set es \<or> length es < MAX_PENDING_REQUESTS" "length es \<le> MAX_PENDING_REQUESTS"
  proof -
    show "length es \<le> MAX_PENDING_REQUESTS"
      using m(2) length_delete_le[of _ "im_entries m"] by (auto simp: es_def split: option.split intro: order_trans)
    show "key \<in> fst ` set es \<or> length es < MAX_PENDING_REQUESTS"
    proof (cases "map_of (im_entries m) key = None \<and> MAX_PENDING_REQUESTS \<le> length (im_entries m)")
      case True
      then have "im_entries m \<noteq> []" by (auto simp: MAX_PENDING_REQUESTS_def)
      then obtain k where k: "oldest_key (im_entries m) = Some k" "k \<in> fst ` set (im_entries m)" using oldest_key_in by blast
      then show ?thesis using True m(2) length_delete_in[OF k(2)] by (simp add: es_def)
    next
      case False
      then show ?thesis using m(2) by (auto simp: es_def map_of_eq_None_iff)
    qed
  qed
  have "im_insert m key r = m\<lparr>im_entries := AList.update key (im_next m + 1, r) es, im_next := im_next m + 1\<rparr>"
    by (simp add: im_insert_def es_def Let_def)
  then show ?thesis using es room assms(2)
    by (auto simp: pending_ok_def distinct_update length_update_le entry_ok_update entry_ok_def)
qed

lemma pending_ok_remove [simp]: "pending_ok m \<Longrightarrow> pending_ok (snd (im_remove m key))"
  by (auto simp: pending_ok_def im_remove_def distinct_delete list_all_delete
      intro: order_trans[OF length_delete_le])

lemma id_key_length: "length (id_key lib m i) \<le> MAX_ID_KEY_BYTES"
  by (simp add: id_key_def hex16_def MAX_ID_KEY_BYTES_def Let_def)

lemma im_get_ok: "pending_ok m \<Longrightarrow> im_get m key = Some r \<Longrightarrow> entry_ok (key, (0, r))"
  by (auto simp: im_get_def pending_ok_def list_all_iff entry_ok_def dest!: map_of_SomeD)

lemma pending_ok_track: "pending_ok m \<Longrightarrow> pending_ok (snd (track_request lib env m))"
  using id_key_length[of "pl_json lib" m]
  by (auto simp: track_request_def record_pending_def Let_def entry_ok_def MAX_METHOD_BYTES_def is_none_or_def opt_filter_def
      split: option.split intro!: pending_ok_insert)

lemma pending_ok_forget:
  "pending_ok m \<Longrightarrow> is_none_or before (\<lambda>r. entry_ok (key, (0, r))) \<Longrightarrow> pending_ok (forget_refused m key before)"
  by (cases before) (simp_all add: forget_refused_def pending_ok_insert)

lemma pending_ok_message:
  assumes "pending_ok (ss_map st)" "classify_client_message lib cfg profile engine env raw now_secs st = (action, st')"
  shows "pending_ok (ss_map st')"
  using assms(2)
proof (cases rule: classify_message_cases)
  case (forward event)
  then show ?thesis using pending_ok_track[OF assms(1)] by simp
next
  case (deny d i)
  then show ?thesis using pending_ok_forget[OF pending_ok_track[OF assms(1)]] im_get_ok[OF assms(1)]
    by (simp add: is_none_or_def split: option.split)
qed

lemma pending_ok_batch_item:
  assumes "pending_ok (ss_map st)"
  shows "pending_ok (ss_map (snd (batch_item lib cfg profile engine now_secs item (acc, st))))"
proof (cases "envelope_of item")
  case (Some env)
  obtain action st' where c: "classify_client_message lib cfg profile engine env [] now_secs st = (action, st')" by fastforce
  then show ?thesis using pending_ok_message[OF assms c] Some by (cases action) (simp_all add: batch_item_def)
qed (use assms in \<open>simp add: batch_item_def\<close>)

lemma pending_ok_batch:
  "pending_ok (ss_map st) \<Longrightarrow> pending_ok (ss_map (snd (fold (batch_item lib cfg profile engine now_secs) items (acc, st))))"
proof (induction items arbitrary: acc st)
  case (Cons item items)
  obtain acc' st' where "batch_item lib cfg profile engine now_secs item (acc, st) = (acc', st')" by fastforce
  then show ?case using Cons.IH[of st' acc'] pending_ok_batch_item[OF Cons.prems, of lib cfg profile engine now_secs item acc] by simp
qed simp

lemma pending_ok_client_line:
  assumes "pending_ok (ss_map st)" "classify_client_line_in lib cfg profile engine line now_secs st = (action, st')"
  shows "pending_ok (ss_map st')"
proof (cases "parse_line (pl_json lib) line")
  case (PlBatch items)
  then show ?thesis using assms pending_ok_batch[OF assms(1), of lib cfg profile engine now_secs items batch_new]
    by (auto simp: classify_client_line_in_def classify_client_batch_def split: prod.splits)
qed (use assms pending_ok_message[OF assms(1)] in \<open>auto simp: classify_client_line_in_def split: if_splits\<close>)

lemma server_message_map:
  "ss_map (snd (classify_server_message lib env engine st)) =
     (case (en_method env, en_id env) of
        (None, Some i) \<Rightarrow> snd (im_remove (ss_map st) (id_key (pl_json lib) (ss_map st) i))
      | _ \<Rightarrow> ss_map st)"
  by (auto simp: classify_server_message_def Let_def split: prod.split option.split)

lemma pending_ok_server_message: "pending_ok (ss_map st) \<Longrightarrow> pending_ok (ss_map (snd (classify_server_message lib env engine st)))"
  by (simp add: server_message_map split: option.split)

lemma pending_ok_server_batch: "pending_ok (ss_map st) \<Longrightarrow> pending_ok (ss_map (snd (server_batch lib engine items st)))"
proof (induction items arbitrary: st)
  case (Cons item items)
  show ?case
  proof (cases "envelope_of item")
    case (Some env)
    then show ?thesis using Cons.IH[OF pending_ok_server_message[OF Cons.prems, of lib env engine]]
      by (simp add: split_beta)
  qed (use Cons in simp)
qed simp

lemma pending_ok_server_line:
  "pending_ok (ss_map st) \<Longrightarrow> pending_ok (ss_map (snd (classify_server_line lib line engine st)))"
  using pending_ok_server_message pending_ok_server_batch
  by (auto simp: classify_server_line_def Let_def split: parsed_line.split prod.split) (metis snd_conv)+

lemma session_act [simp]:
  "pu_session (act_on_client action p) = pu_session p" "pu_session (act_on_server saction p) = pu_session p"
  by (cases action; simp) (cases saction; simp)

lemma session_pending: "pump_reach lib cfg profile engine p \<Longrightarrow> pending_ok (ss_map (pu_session p))"
proof (induction rule: pump_reach.induct)
  case start
  then show ?case by (simp add: pump_new_def id_map_new_def pending_ok_def)
next
  case (more p q)
  from more.hyps(2) show ?case
  proof (cases rule: pump_step.cases)
    case (client_line line now_secs action st)
    then show ?thesis using pending_ok_client_line[OF more.IH client_line(4)] by simp
  next
    case (server_line line saction st)
    then show ?thesis using pending_ok_server_line[OF more.IH, of lib line engine] by simp
  qed (use more.IH in auto)
qed

text \<open>C38: The table of requests waiting for an answer is bounded. Whatever the lines of a session, it holds at most
  1024 requests, under distinct keys of at most 128 bytes, each with a method of at most 64 and a tool
  name of at most 128.\<close>

theorem pending_bounded:
  assumes "pump_reach lib cfg profile engine p"
  shows "pending_ok (ss_map (pu_session p))"
  by (rule session_pending[OF assms])

subsection \<open>A refused call is answered and forgotten\<close>

lemma refused_map:
  assumes "en_id env = Some i" "en_method env = Some method"
  shows "im_get (forget_refused (snd (track_request lib env m)) (id_key (pl_json lib) m i) (im_get m (id_key (pl_json lib) m i))) k
    = (if dropped_for m (id_key (pl_json lib) m i) = Some k then None else im_get m k)"
proof -
  let ?key = "id_key (pl_json lib) m i"
  obtain r where track: "snd (track_request lib env m) = im_insert m ?key r"
    using assms by (simp add: track_request_def record_pending_def Let_def)
  have present: "dropped_for (im_insert m ?key r) ?key = None" by (simp add: dropped_for_def im_insert_get)
  show ?thesis
  proof (cases "im_get m ?key")
    case None
    then show ?thesis unfolding track by (simp add: forget_refused_def im_remove_get im_insert_get)
  next
    case (Some before)
    then have "dropped_for m ?key = None" by (simp add: dropped_for_def)
    then show ?thesis unfolding track using Some present by (simp add: forget_refused_def im_insert_get)
  qed
qed

text \<open>C19: In a blocking mode a \<^verbatim>\<open>tools/call\<close> with an id is forwarded only when its decision allows it; otherwise the
  client gets a denial that echoes its id, the session ends after it exactly in \<open>kill\<close> mode, and the table
  of waiting requests is what it was before the call, except that a call that found the table full has
  cost it its oldest entry.\<close>

theorem refused_call_answered:
  assumes "mode_blocks (cf_mode cfg)" "en_method env = Some ''tools/call''" "en_id env = Some i"
    and "classify_client_message lib cfg profile engine env raw now_secs st = (action, st')"
  shows "\<exists>d. pd_request_id d = Some i
    \<and> (if mv_allowed (pd_verdict d) then action = CaForward raw (Some d)
       else action = CaDeny (trim_end (serialize_line (pl_json lib) (denial_envelope d (cf_as_protocol_error cfg)))) d (cf_mode cfg = Kill)
            \<and> en_id (denial_envelope d (cf_as_protocol_error cfg)) = Some i
            \<and> (\<forall>k. im_get (ss_map st') k =
                 (if dropped_for (ss_map st) (id_key (pl_json lib) (ss_map st) i) = Some k then None else im_get (ss_map st) k)))"
  using assms(4)
proof (cases rule: classify_message_cases)
  case (forward event)
  then have "call_allowed (opt_list event) env" using assms(1) by simp
  then obtain d where "event = Some d" "pd_request_id d = Some i" "mv_allowed (pd_verdict d)"
    using assms(2,3) by (cases event) (auto simp: call_allowed_def opt_list_def)
  then show ?thesis using forward(1) by auto
next
  case (deny d j)
  then have "j = i" using assms(3) by simp
  then show ?thesis using deny refused_map[OF assms(3,2), of lib "ss_map st"]
    by (intro exI[of _ d]) (simp add: synthesize_denial_def denial_envelope_def Let_def)
qed

text \<open>A call without an id is never refused in any mode: there is no id a denial could be keyed to.\<close>

lemma call_without_id_forwarded:
  assumes "en_id env = None" "classify_client_message lib cfg profile engine env raw now_secs st = (action, st')"
  shows "\<exists>event. action = CaForward raw event"
  using assms(2) by (cases rule: classify_message_cases) (use assms(1) in auto)

text \<open>The answer to a request that is not in the table is neither inspected nor remembered.\<close>

lemma unknown_answer_passes:
  assumes "en_method env = None" "is_none_or (en_id env) (\<lambda>i. im_get (ss_map st) (id_key (pl_json lib) (ss_map st) i) = None)"
  shows "fst (classify_server_message lib env engine st) = None"
    and "ss_taint (snd (classify_server_message lib env engine st)) = ss_taint st"
  using assms
  by (cases "en_id env"; simp add: classify_server_message_def route_message_def route_server_to_client_def pass_through_def
      im_remove_def Let_def split: option.split)+

subsection \<open>The layers only refuse\<close>

definition refuses_every_call :: "proxy_profile \<Rightarrow> bool" where
  "refuses_every_call p = (case p of ProxyInvalid why \<Rightarrow> True | ProxyActive a pr t revoked \<Rightarrow> revoked \<noteq> None)"

lemma revoked_denied: "dn_verdict (fst (decide_tool_call_in facts named (Some r) t)) = VDeny"
  by (simp add: decide_tool_call_in_def tool_layers_def decide_def Let_def)

lemma apply_profile_refuses:
  assumes "pd_direction d = ''client->server''" "pd_method d = Some ''tools/call''" "refuses_every_call p"
  shows "\<not> mv_allowed (pd_verdict (apply_profile lib d env p engine))"
proof (cases p)
  case (ProxyInvalid why)
  then show ?thesis using assms by (simp add: apply_profile_def)
next
  case (ProxyActive a pr t revoked)
  then obtain r where r: "revoked = Some r" using assms(3) by (auto simp: refuses_every_call_def)
  obtain tool args where call: "extract_tool_call env = (tool, args)" by fastforce
  obtain decision n where dec: "decide_tool_call_in (facts_of_call lib engine (pd_verdict d) tool args)
      (case (a, pr) of (Some a, Some p) \<Rightarrow> Some (a, p) | _ \<Rightarrow> None) (Some r) t = (decision, n)"
    by fastforce
  have "dn_verdict decision = VDeny" using revoked_denied[of _ _ r t] dec by (metis fst_conv)
  then show ?thesis using assms(1,2) call dec
    by (simp only: apply_profile_def ProxyActive r proxy_profile.case Let_def prod.case direction_label.simps) simp
qed

text \<open>C20: The profile and the mode only take away. Applied to any decision, the profile's layers leave it or turn
  it into a refusal with one more alert, which blocks; a call is never refused in \<open>advisory\<close> and \<open>warn\<close>;
  what is refused is a disallowed client message with an id. While the profiles file cannot be used, or
  the agent or its instance is revoked, no client \<^verbatim>\<open>tools/call\<close> is allowed.\<close>

theorem layers_only_refuse:
  assumes "apply_layers lib d env profile engine mode e = (d', action)"
  shows "only_refuses d d'
    \<and> (if mode_blocks mode \<and> can_block d' then action \<in> {ABlock (synthesize_denial lib d' e), AKill (synthesize_denial lib d' e)}
       else action \<in> {AForward, AForwardWithAlert})
    \<and> (pd_direction d = ''client->server'' \<and> pd_method d = Some ''tools/call'' \<and> is_some_and profile refuses_every_call
       \<longrightarrow> \<not> mv_allowed (pd_verdict d'))"
proof (intro conjI impI)
  have d': "d' = (case profile of Some p \<Rightarrow> apply_profile lib d env p engine | None \<Rightarrow> d)"
    and action: "action = apply_mode lib d' mode e"
    using assms by (auto simp: apply_layers_def Let_def)
  show "only_refuses d d'" using d' apply_profile_only_refuses by (cases profile) auto
  show "if mode_blocks mode \<and> can_block d' then action \<in> {ABlock (synthesize_denial lib d' e), AKill (synthesize_denial lib d' e)}
       else action \<in> {AForward, AForwardWithAlert}"
    unfolding action by (cases mode) (auto simp: apply_mode_def forward_or_alert_def)
  assume "pd_direction d = ''client->server'' \<and> pd_method d = Some ''tools/call'' \<and> is_some_and profile refuses_every_call"
  then show "\<not> mv_allowed (pd_verdict d')"
    unfolding d' using apply_profile_refuses by (cases profile) auto
qed

subsection \<open>A session at work\<close>

text \<open>A proxy whose reader knows one line, a call that reads a file, and whose printer prints nothing that reads.\<close>

definition one_call_reader :: "string \<Rightarrow> raw_json option" where
  "one_call_reader s =
     (if s = ''call'' then Some (RObj [(''id'', RNum (PosInt 7)), (''method'', RStr ''tools/call''),
         (''params'', RObj [(''name'', RStr ''read_file'')])]) else None)"

definition one_call_proxy :: proxy_lib where
  "one_call_proxy =
     \<lparr>pl_scan = plain_scanners,
      pl_json = \<lparr>jl_read = one_call_reader, jl_walk = one_call_reader, jl_print = (\<lambda>_. ''?''), jl_print_envelope = (\<lambda>_. Some ''no'')\<rparr>,
      pl_redact_json = (\<lambda>j. j), pl_names_guard_llm_key = (\<lambda>_. False)\<rparr>"

definition guard_config :: proxy_config where
  "guard_config = \<lparr>cf_mode = Guard, cf_as_protocol_error = False\<rparr>"

definition one_call :: json_rpc_envelope where
  "one_call = \<lparr>en_jsonrpc = [], en_id = Some (JNum (PosInt 7)), en_method = Some ''tools/call'',
     en_params = Some (JObj [(''name'', JStr ''read_file'')]), en_result = None, en_error = None\<rparr>"

definition first_pump :: pump where
  "first_pump = pump_new (\<lambda>_. 0) (\<lambda>_. 0) (\<lambda>_. 0) (\<lambda>_. 0)"

definition one_call_result :: "client_action \<times> session_state" where
  "one_call_result = classify_client_line_in one_call_proxy guard_config None None ''call'' 0 (pu_session first_pump)"

lemma one_call_read: "messages_in (pl_json one_call_proxy) ''call'' = [one_call]"
  by code_simp

lemma one_call_forwarded: "(case fst one_call_result of CaForward raw (Some d) \<Rightarrow> raw = ''call'' | _ \<Rightarrow> False) = True"
  by code_simp

lemma prints_back_one_call: "prints_back (pl_json one_call_proxy)"
proof -
  have "replace_lone_surrogates ''?'' = None" by code_simp
  then show ?thesis by (simp add: prints_back_def one_call_proxy_def parse_raw_def one_call_reader_def)
qed

definition second_pump :: pump where
  "second_pump = act_on_client (fst one_call_result) (first_pump\<lparr>pu_session := snd one_call_result\<rparr>)"

lemma second_pump_reach: "pump_reach one_call_proxy guard_config None None second_pump"
proof (rule pump_reach.more)
  show "pump_reach one_call_proxy guard_config None None first_pump"
    unfolding first_pump_def by (rule pump_reach.start)
  show "pump_step one_call_proxy guard_config None None first_pump second_pump"
    unfolding second_pump_def
    by (rule pump_step.client_line[of _ _ _ _ _ "''call''" 0]) (simp_all add: first_pump_def pump_new_def one_call_result_def)
qed

lemma second_pump_sent: "pu_to_server second_pump = [''call'']"
  using one_call_forwarded by (auto simp: second_pump_def first_pump_def pump_new_def split: client_action.splits option.splits)

theorem guard_session_safe_witness:
  "''call'' \<in> set (pu_to_server second_pump)
   \<and> list_ex (\<lambda>d. pd_method d = Some ''tools/call'' \<and> pd_request_id d = Some (JNum (PosInt 7)) \<and> mv_allowed (pd_verdict d))
       (pu_reported second_pump)"
  using guard_session_safe[OF prints_back_one_call _ second_pump_reach, of "''call''" one_call]
  by (simp add: second_pump_sent one_call_read one_call_def guard_config_def)

theorem pending_bounded_witness: "pending_ok (ss_map (pu_session second_pump))"
  by (rule pending_bounded[OF second_pump_reach])

definition invalid_profiles :: "proxy_profile option" where
  "invalid_profiles = Some (ProxyInvalid [])"

theorem refused_call_answered_witness:
  "\<exists>d action. pd_request_id d = Some (JNum (PosInt 7))
    \<and> fst (classify_client_message one_call_proxy guard_config invalid_profiles None one_call [] 0 (pu_session first_pump)) = action
    \<and> action \<in> {CaForward [] (Some d),
        CaDeny (trim_end (serialize_line (pl_json one_call_proxy) (denial_envelope d False))) d False}"
proof -
  obtain action st' where c: "classify_client_message one_call_proxy guard_config invalid_profiles None one_call [] 0
      (pu_session first_pump) = (action, st')" by fastforce
  have g: "mode_blocks (cf_mode guard_config)" "cf_as_protocol_error guard_config = False" "cf_mode guard_config \<noteq> Kill"
    "en_method one_call = Some ''tools/call''" "en_id one_call = Some (JNum (PosInt 7))"
    by (simp_all add: guard_config_def one_call_def)
  show ?thesis using refused_call_answered[OF g(1,4,5) c] g(2,3) c by (auto split: if_splits)
qed

theorem layers_only_refuse_witness:
  "\<not> mv_allowed (pd_verdict (fst (apply_layers one_call_proxy (route_client_to_server one_call_proxy one_call None None) one_call
     invalid_profiles None Advisory False)))"
proof -
  let ?d = "route_client_to_server one_call_proxy one_call None None"
  obtain d' action where l: "apply_layers one_call_proxy ?d one_call invalid_profiles None Advisory False = (d', action)" by fastforce
  have "pd_direction ?d = ''client->server''" "pd_method ?d = Some ''tools/call''" "is_some_and invalid_profiles refuses_every_call"
    by (simp_all add: route_client_fields one_call_def refuses_every_call_def invalid_profiles_def)
  then show ?thesis using layers_only_refuse[OF l] l by simp
qed

subsection \<open>The reader of lines\<close>

lemma position_append:
  "position x (xs @ ys) = (case position x xs of Some i \<Rightarrow> Some i | None \<Rightarrow> map_option (\<lambda>i. i + length xs) (position x ys))"
  by (induction xs) (auto simp: option.map_ident option.map_comp comp_def split: option.split)

lemma position_None: "position x xs = None \<longleftrightarrow> x \<notin> set xs"
  by (induction xs) auto

lemma position_lt: "position x xs = Some i \<Longrightarrow> i < length xs"
  by (induction xs arbitrary: i) (auto split: if_splits)

definition first_line :: "nat \<Rightarrow> bytes \<Rightarrow> line_read" where
  "first_line max_len s =
     (case position (CHR 0x0A) s of
        Some i \<Rightarrow> finish_line max_len (take i s)
      | None \<Rightarrow> if s = [] then LineEof else finish_line max_len s)"

lemma first_line_long:
  "CHR 0x0A \<notin> set buf \<Longrightarrow> max_len < length buf \<Longrightarrow> first_line max_len (buf @ s) = LineTooLong"
  by (cases "position (CHR 0x0A) buf")
    (auto simp: first_line_def position_append finish_line_def position_None[symmetric] split: option.split)

lemma next_line_spec:
  "CHR 0x0A \<notin> set buf \<Longrightarrow>
     fst (next_line max_len buf stream) = first_line max_len (buf @ concat stream)
     \<and> (fst (next_line max_len buf stream) \<noteq> LineTooLong \<longrightarrow>
          concat (snd (next_line max_len buf stream)) =
            (case position (CHR 0x0A) (buf @ concat stream) of Some i \<Rightarrow> drop (i + 1) (buf @ concat stream) | None \<Rightarrow> []))"
proof (induction max_len buf stream rule: next_line.induct)
  case (1 max_len buf)
  then show ?case by (simp add: first_line_def split: option.split) (metis option.distinct(1) position_None)
next
  case (2 max_len buf available stream)
  show ?case
  proof (cases "position (CHR 0x0A) available")
    case (Some i)
    then have "position (CHR 0x0A) (buf @ available @ concat stream) = Some (i + length buf)"
      using 2(2) position_None[of "CHR 0x0A" buf] by (simp add: position_append)
    then show ?thesis using Some position_lt[OF Some] by (auto simp: first_line_def)
  next
    case None
    then have no: "CHR 0x0A \<notin> set (buf @ available)" using 2(2) by (simp add: position_None)
    show ?thesis
    proof (cases "max_len < length (buf @ available)")
      case True
      then show ?thesis using None first_line_long[OF no True, of "concat stream"] by simp
    next
      case False
      have assoc: "(buf @ available) @ concat stream = buf @ concat (available # stream)" by simp
      have step: "next_line max_len buf (available # stream) = next_line max_len (buf @ available) stream"
        using None False by simp
      show ?thesis unfolding step using 2(1)[OF None False no] unfolding assoc .
    qed
  qed
qed

text \<open>A line is what the bytes say, however they arrive. Whatever buffers the stream is cut into, the reader gives
  the bytes before the first newline, or before the end, with one carriage return dropped and what is not
  UTF-8 replaced; and gives up exactly when there are more than the cap of them. The stream goes on after
  that newline.\<close>

theorem line_independent_of_buffers:
  "fst (next_line max_len [] stream) =
     (case position (CHR 0x0A) (concat stream) of
        Some i \<Rightarrow> finish_line max_len (take i (concat stream))
      | None \<Rightarrow> if concat stream = [] then LineEof else finish_line max_len (concat stream))
   \<and> (if fst (next_line max_len [] stream) = LineTooLong then True
      else concat (snd (next_line max_len [] stream)) =
        (case position (CHR 0x0A) (concat stream) of Some i \<Rightarrow> drop (i + 1) (concat stream) | None \<Rightarrow> []))"
  using next_line_spec[of "[]" max_len stream] unfolding first_line_def append_Nil by auto

end
