(* ===== verification/Path.thy ===== *)
theory Path
  imports Text PrivTarget "HOL-Library.Product_Lexorder"
begin

text \<open>
  \<^verbatim>\<open>std::path::Path\<close> on Unix, as \<^verbatim>\<open>src/crates/cli/src/contain.rs\<close> uses it: a path is its bytes, and is
  compared, cut and walked by its components, so repeated separators and \<^verbatim>\<open>.\<close> do not count. What is
  written into an argument list is the bytes, read lossily.
\<close>

type_synonym path = string

abbreviation slash :: char where "slash \<equiv> CHR 0x2F"

datatype comp = RootDir | CurDir | ParentDir | Normal string

subsection \<open>Components\<close>

definition has_root :: "path \<Rightarrow> bool" where
  "has_root p \<longleftrightarrow> p \<noteq> [] \<and> hd p = slash"

abbreviation is_absolute :: "path \<Rightarrow> bool" where "is_absolute \<equiv> has_root"

definition leading_dot :: "path \<Rightarrow> bool" where
  "leading_dot p \<longleftrightarrow> hd (split_on slash p) = ''.''"

definition before_body :: "path \<Rightarrow> nat" where
  "before_body p = (if has_root p \<or> leading_dot p then 1 else 0)"

definition body :: "path \<Rightarrow> string list" where
  "body p = split_on slash (drop (before_body p) p)"

definition empty_step :: "string \<Rightarrow> bool" where
  "empty_step seg \<longleftrightarrow> seg = [] \<or> seg = ''.''"

definition comp_of :: "string \<Rightarrow> comp" where
  "comp_of seg = (if seg = ''..'' then ParentDir else Normal seg)"

definition steps :: "string list \<Rightarrow> comp list" where
  "steps segs = map comp_of (filter (\<lambda>s. \<not> empty_step s) segs)"

definition start :: "path \<Rightarrow> comp list" where
  "start p = (if has_root p then [RootDir] else if leading_dot p then [CurDir] else [])"

definition components :: "path \<Rightarrow> comp list" where
  "components p = start p @ steps (body p)"

definition path_eq :: "path \<Rightarrow> path \<Rightarrow> bool" where
  "path_eq p q \<longleftrightarrow> components p = components q"

text \<open>\<^verbatim>\<open>Path::starts_with\<close>: the components of one start the other's.\<close>

definition under :: "path \<Rightarrow> path \<Rightarrow> bool" where
  "under p q \<longleftrightarrow> prefix (components q) (components p)"

subsection \<open>Joining, cutting, walking up\<close>

definition pjoin :: "path \<Rightarrow> path \<Rightarrow> path" where
  "pjoin p q =
     (if has_root q then q
      else if p \<noteq> [] \<and> last p \<noteq> slash then p @ slash # q
      else p @ q)"

text \<open>\<^verbatim>\<open>Components::as_path\<close> cuts the steps that do not count from both ends of what is left.\<close>

definition drop_empty :: "string list \<Rightarrow> string list" where
  "drop_empty = dropWhile empty_step"

definition drop_empty_end :: "string list \<Rightarrow> string list" where
  "drop_empty_end segs = List.rev (drop_empty (List.rev segs))"

fun skip_steps :: "nat \<Rightarrow> string list \<Rightarrow> string list" where
  "skip_steps n [] = []"
| "skip_steps n (s # segs) =
     (if n = 0 then s # segs
      else if empty_step s then skip_steps n segs
      else skip_steps (n - 1) segs)"

definition path_strip_prefix :: "path \<Rightarrow> path \<Rightarrow> path option" where
  "path_strip_prefix p base =
     (if \<not> under p base then None
      else if components base = [] then
        Some (take (before_body p) p @ join [slash] (drop_empty_end (body p)))
      else
        Some (join [slash]
          (drop_empty (drop_empty_end
            (skip_steps (length (components base) - length (start p)) (body p))))))"

definition parent :: "path \<Rightarrow> path option" where
  "parent p =
     (case drop_empty (List.rev (body p)) of
        [] \<Rightarrow> if leading_dot p then Some [] else None
      | _ # rest \<Rightarrow>
          Some (take (before_body p) p @ join [slash] (List.rev (drop_empty rest))))"

lemma split_on_single: "sep \<notin> set xs \<Longrightarrow> split_on sep xs = [xs]"
  by (induction xs) auto

lemma split_on_join:
  "\<forall>s\<in>set segs. slash \<notin> set s \<Longrightarrow> segs \<noteq> [] \<Longrightarrow> split_on slash (join [slash] segs) = segs"
  by (induction "[slash]" segs rule: join.induct) (auto simp: split_on_append split_on_single)

lemma steps_simps [simp]:
  "steps [] = []"
  "steps (s # ss) = (if empty_step s then steps ss else comp_of s # steps ss)"
  "steps (xs @ ys) = steps xs @ steps ys"
  by (simp_all add: steps_def)

lemma empty_steps [simp]: "empty_step []" "empty_step ''.''" "\<not> empty_step ''..''"
  by (simp_all add: empty_step_def)

lemma steps_drop_empty [simp]: "steps (drop_empty segs) = steps segs"
  by (induction segs) (auto simp: drop_empty_def)

lemma steps_rev: "steps (List.rev segs) = List.rev (steps segs)"
  by (induction segs) auto

lemma steps_drop_empty_end [simp]: "steps (drop_empty_end segs) = steps segs"
  by (simp add: drop_empty_end_def steps_rev)

lemma steps_skip [simp]: "steps (skip_steps n segs) = drop n (steps segs)"
  by (induction n segs rule: skip_steps.induct) (auto simp: drop_Cons')

lemma steps_split_join:
  "\<forall>s\<in>set segs. slash \<notin> set s \<Longrightarrow> steps (split_on slash (join [slash] segs)) = steps segs"
  by (cases "segs = []") (auto simp: split_on_join)

definition relative_steps :: "path \<Rightarrow> comp list" where
  "relative_steps q = steps (split_on slash q)"

lemma components_absolute:
  "has_root p \<Longrightarrow> components p = RootDir # relative_steps p"
  by (cases p) (auto simp: components_def start_def body_def before_body_def has_root_def relative_steps_def)

lemma components_relative:
  "\<not> has_root q \<Longrightarrow> \<not> leading_dot q \<Longrightarrow> components q = relative_steps q"
  by (simp add: components_def start_def body_def before_body_def relative_steps_def)

lemma has_root_pjoin [simp]: "has_root p \<Longrightarrow> has_root (pjoin p q)"
  by (cases p) (auto simp: pjoin_def has_root_def)

lemma relative_steps_slash: "relative_steps (p @ slash # q) = relative_steps p @ relative_steps q"
  by (simp add: relative_steps_def split_on_append)

lemma components_pjoin:
  assumes "has_root p" "\<not> has_root q"
  shows "components (pjoin p q) = components p @ relative_steps q"
proof -
  have "relative_steps (pjoin p q) = relative_steps p @ relative_steps q"
  proof (cases "last p = slash")
    case True
    then obtain r where p: "p = r @ [slash]" using assms(1)
      by (metis append_butlast_last_id has_root_def)
    then have "relative_steps p = relative_steps r"
      using relative_steps_slash[of r "[]"] by (simp add: relative_steps_def)
    then show ?thesis using assms p relative_steps_slash[of r q] by (simp add: pjoin_def)
  next
    case False
    then show ?thesis using assms by (auto simp: pjoin_def has_root_def relative_steps_slash)
  qed
  then show ?thesis using assms by (simp add: components_absolute)
qed

lemma under_refl [simp]: "under p p"
  by (simp add: under_def)

lemma under_trans: "under p q \<Longrightarrow> under q r \<Longrightarrow> under p r"
  by (auto simp: under_def)

lemma under_antisym: "under p q \<Longrightarrow> under q p \<Longrightarrow> path_eq p q"
  by (auto simp: under_def path_eq_def)

lemma under_comparable: "under p q \<Longrightarrow> under p r \<Longrightarrow> under q r \<or> under r q"
  unfolding under_def by (rule prefix_same_cases)

lemma under_pjoin: "has_root p \<Longrightarrow> \<not> has_root q \<Longrightarrow> under (pjoin p q) p"
  by (simp add: under_def components_pjoin)

lemma no_slash_body: "s \<in> set (body p) \<Longrightarrow> slash \<notin> set s"
  by (auto simp: body_def dest: split_on_no_sep)

lemma join_split_on: "join [sep] (split_on sep s) = s"
proof (induction s)
  case (Cons c s)
  then show ?case
    by (cases "split_on sep s"; cases "tl (split_on sep s)") (auto split: list.splits)
qed simp

lemma length_join_less:
  "length (join sep xs) + length y \<le> length (join sep (xs @ y # ys))"
  by (induction sep xs rule: join.induct; cases ys) auto

lemma drop_empty_Cons:
  assumes "drop_empty (List.rev segs) = s # rest"
  shows "\<exists>zs ys. segs = (List.rev (drop_empty rest) @ zs) @ s # ys \<and> steps zs = [] \<and> steps ys = []
    \<and> \<not> empty_step s"
proof -
  have ne: "\<not> empty_step s" using assms by (metis drop_empty_def dropWhile_eq_Cons_conv)
  have "List.rev segs = takeWhile empty_step (List.rev segs) @ s # rest"
    using assms by (metis drop_empty_def takeWhile_dropWhile_id)
  then have "List.rev (List.rev segs) = List.rev (takeWhile empty_step (List.rev segs) @ s # rest)"
    by (rule arg_cong)
  then have 1: "segs = List.rev rest @ s # List.rev (takeWhile empty_step (List.rev segs))" by simp
  have 2: "List.rev rest = List.rev (drop_empty rest) @ List.rev (takeWhile empty_step rest)"
    by (metis drop_empty_def rev_append takeWhile_dropWhile_id)
  have 3: "steps (List.rev (takeWhile empty_step xs)) = []" for xs
    by (auto simp: steps_def filter_empty_conv dest: set_takeWhileD)
  show ?thesis using 1 2 3 ne by (metis append.assoc)
qed

lemma length_parent: "parent p = Some q \<Longrightarrow> length q < length p"
proof (cases "drop_empty (List.rev (body p))")
  case (Cons s rest)
  assume q: "parent p = Some q"
  obtain zs ys where b: "body p = (List.rev (drop_empty rest) @ zs) @ s # ys" and s: "\<not> empty_step s"
    using drop_empty_Cons[OF Cons] by blast
  have 1: "length (join [slash] (List.rev (drop_empty rest))) \<le> length (join [slash] (List.rev (drop_empty rest) @ zs))"
    using length_join_less[of "[slash]" "List.rev (drop_empty rest)"] by (cases zs) (auto intro: add_leD1)
  have 2: "length (join [slash] (List.rev (drop_empty rest) @ zs)) + length s \<le> length (join [slash] (body p))"
    unfolding b by (rule length_join_less)
  have 3: "length (join [slash] (body p)) = length p - before_body p"
    by (simp add: body_def join_split_on)
  from 1 2 3 have "length (join [slash] (List.rev (drop_empty rest))) + length s \<le> length p - before_body p"
    by linarith
  moreover have "0 < length s" using s by (auto simp: empty_step_def)
  moreover have "length q = min (length p) (before_body p) + length (join [slash] (List.rev (drop_empty rest)))"
    using q Cons by (auto simp: parent_def)
  ultimately show ?thesis by linarith
qed (auto simp: parent_def leading_dot_def split: if_splits intro: ccontr)

function ancestors :: "path \<Rightarrow> path list" where
  "ancestors p = p # (case parent p of None \<Rightarrow> [] | Some q \<Rightarrow> ancestors q)"
  by auto
termination by (relation "measure length") (auto dest: length_parent)

declare ancestors.simps [simp del]

lemma parent_components:
  assumes "has_root p"
  shows "case parent p of None \<Rightarrow> components p = [RootDir]
         | Some q \<Rightarrow> has_root q \<and> components p = components q @ [last (components p)]"
proof (cases "drop_empty (List.rev (body p))")
  case Nil
  have "steps (body p) = []"
    using Nil by (metis List.rev_rev_ident rev.simps(1) steps_drop_empty steps_rev steps_simps(1))
  then show ?thesis using assms Nil
    by (cases p) (auto simp: parent_def components_def start_def leading_dot_def has_root_def)
next
  case (Cons s rest)
  obtain zs ys where b: "body p = (List.rev (drop_empty rest) @ zs) @ s # ys"
    and e: "steps zs = []" "steps ys = []" "\<not> empty_step s"
    using drop_empty_Cons[OF Cons] by blast
  let ?q = "slash # join [slash] (List.rev (drop_empty rest))"
  have p: "parent p = Some ?q"
    using assms Cons by (cases p) (auto simp: parent_def before_body_def has_root_def)
  have ns: "\<forall>s\<in>set (List.rev (drop_empty rest)). slash \<notin> set s"
    using no_slash_body[of _ p] unfolding b by auto
  have "steps (body ?q) = steps (List.rev (drop_empty rest))"
    using steps_split_join[OF ns] by (simp add: body_def before_body_def has_root_def)
  then show ?thesis using assms p b e by (simp add: components_def start_def has_root_def)
qed

lemma ancestors_above:
  assumes "has_root p" "f \<in> set (ancestors p)"
  shows "has_root f" "under p f"
proof -
  have "has_root f \<and> under p f"
    using assms
  proof (induction p rule: ancestors.induct)
    case (1 p)
    show ?case
    proof (cases "parent p")
      case None
      then show ?thesis using 1(2,3) by (simp add: ancestors.simps[of p])
    next
      case (Some q)
      have q: "has_root q" "under p q"
        using parent_components[OF 1(2)] Some by (auto simp: under_def) (metis prefixI)
      have "f = p \<or> f \<in> set (ancestors q)" using 1(3) Some by (simp add: ancestors.simps[of p])
      then show ?thesis using 1(1)[OF Some q(1)] 1(2) q(2) under_trans by auto
    qed
  qed
  then show "has_root f" "under p f" by auto
qed

text \<open>The walk up meets every folder above, in one spelling of it.\<close>

lemma ancestors_meet:
  assumes "has_root p" "has_root g" "under p g"
  shows "\<exists>f \<in> set (ancestors p). path_eq f g"
  using assms
proof (induction p rule: ancestors.induct)
  case (1 p)
  show ?case
  proof (cases "path_eq p g")
    case True
    then show ?thesis by (subst ancestors.simps) simp
  next
    case False
    then have ne: "components p \<noteq> components g" by (simp add: path_eq_def)
    show ?thesis
    proof (cases "parent p")
      case None
      then have "components p = [RootDir]" using parent_components[OF 1(2)] by simp
      then show ?thesis using 1(3,4) ne
        by (auto simp: under_def components_absolute[OF 1(3)] prefix_Cons)
    next
      case (Some q)
      then have q: "has_root q" "components p = components q @ [last (components p)]"
        using parent_components[OF 1(2)] by auto
      have "prefix (components g) (components q @ [last (components p)])"
        using 1(4) q(2) by (simp add: under_def)
      then have "components g = components q @ [last (components p)] \<or> prefix (components g) (components q)"
        unfolding prefix_snoc .
      then have "under q g" using ne q(2) unfolding under_def by metis
      then obtain f where "f \<in> set (ancestors q)" "path_eq f g" using 1(1)[OF Some q(1) 1(3)] by blast
      then show ?thesis using Some by (subst ancestors.simps) auto
    qed
  qed
qed

subsection \<open>Order\<close>

text \<open>\<^verbatim>\<open>Component\<close> derives its order: by constructor, then by name.\<close>

fun comp_key :: "comp \<Rightarrow> nat \<times> string" where
  "comp_key RootDir = (0, [])"
| "comp_key CurDir = (1, [])"
| "comp_key ParentDir = (2, [])"
| "comp_key (Normal s) = (3, s)"

lemma comp_key_inj: "comp_key a = comp_key b \<longleftrightarrow> a = b"
  by (cases a; cases b) auto

instantiation comp :: linorder
begin

definition less_eq_comp :: "comp \<Rightarrow> comp \<Rightarrow> bool" where
  "less_eq_comp a b \<longleftrightarrow> comp_key a \<le> comp_key b"

definition less_comp :: "comp \<Rightarrow> comp \<Rightarrow> bool" where
  "less_comp a b \<longleftrightarrow> comp_key a < comp_key b"

instance
proof
  fix a b c :: comp
  show "a < b \<longleftrightarrow> a \<le> b \<and> \<not> b \<le> a" by (auto simp: less_comp_def less_eq_comp_def)
  show "a \<le> a" by (simp add: less_eq_comp_def)
  show "a \<le> b \<Longrightarrow> b \<le> c \<Longrightarrow> a \<le> c" by (auto simp: less_eq_comp_def intro: order_trans)
  show "a \<le> b \<Longrightarrow> b \<le> a \<Longrightarrow> a = b" by (auto simp: less_eq_comp_def comp_key_inj[symmetric])
  show "a \<le> b \<or> b \<le> a" by (auto simp: less_eq_comp_def)
qed

end

text \<open>\<^verbatim>\<open>sort\<close> is stable and \<^verbatim>\<open>dedup\<close> keeps the first of equal neighbours; both compare components.\<close>

fun path_dedup :: "path list \<Rightarrow> path list" where
  "path_dedup (p # q # ps) =
     (if path_eq p q then path_dedup (p # ps) else p # path_dedup (q # ps))"
| "path_dedup ps = ps"

definition path_sort_dedup :: "path list \<Rightarrow> path list" where
  "path_sort_dedup ps = path_dedup (sort_key components ps)"

lemma path_dedup_sub: "set (path_dedup ps) \<subseteq> set ps"
  by (induction ps rule: path_dedup.induct) auto

lemma path_dedup_components: "components ` set (path_dedup ps) = components ` set ps"
  by (induction ps rule: path_dedup.induct) (auto simp: path_eq_def)

lemma path_dedup_keeps: "p \<in> set ps \<Longrightarrow> \<exists>q \<in> set (path_dedup ps). path_eq p q"
  using path_dedup_components[of ps] unfolding path_eq_def by (metis image_iff)

lemma path_sort_dedup_sub: "set (path_sort_dedup ps) \<subseteq> set ps"
  using path_dedup_sub[of "sort_key components ps"] by (simp add: path_sort_dedup_def)

lemma path_sort_dedup_keeps: "p \<in> set ps \<Longrightarrow> \<exists>q \<in> set (path_sort_dedup ps). path_eq p q"
  using path_dedup_keeps[of p "sort_key components ps"] by (simp add: path_sort_dedup_def)

subsection \<open>As text\<close>

lemma utf8_lossy_id: "is_utf8 s \<Longrightarrow> utf8_lossy s = s"
proof (induction s rule: is_utf8.induct)
  case (2 a rest)
  consider "byte a < 128" | "194 \<le> byte a" "byte a \<le> 223" | "224 \<le> byte a" "byte a \<le> 239"
    | "240 \<le> byte a" "byte a \<le> 244"
    using "2.prems" by (simp split: if_splits)
  then show ?case
  proof cases
    case 1
    then show ?thesis using "2.IH" "2.prems" by simp
  next
    case 2
    then obtain b r where "rest = b # r" "cont_byte b" "is_utf8 r"
      using \<open>is_utf8 (a # rest)\<close> by (simp split: list.splits)
    then show ?thesis using 2 "2.IH" by simp
  next
    case 3
    then obtain b c r where "rest = b # c # r" "second3 a b" "cont_byte c" "is_utf8 r"
      using \<open>is_utf8 (a # rest)\<close> by (simp add: second3_def split: list.splits)
    then show ?thesis using 3 "2.IH" by simp
  next
    case 4
    then obtain b c d r where "rest = b # c # d # r" "second4 a b" "cont_byte c" "cont_byte d" "is_utf8 r"
      using \<open>is_utf8 (a # rest)\<close> by (simp add: second4_def split: list.splits)
    then show ?thesis using 4 "2.IH" by simp
  qed
qed simp

definition to_string_lossy :: "path \<Rightarrow> string" where
  "to_string_lossy = utf8_lossy"

lemma lossy_text [simp]: "is_utf8 p \<Longrightarrow> to_string_lossy p = p"
  by (simp add: to_string_lossy_def utf8_lossy_id)

definition paths_overlap :: "path \<Rightarrow> path \<Rightarrow> bool" where
  "paths_overlap l r \<longleftrightarrow> path_eq l r \<or> under l r \<or> under r l"

lemma paths_overlap_iff: "paths_overlap l r \<longleftrightarrow> under l r \<or> under r l"
  by (auto simp: paths_overlap_def path_eq_def under_def)

lemma path_eq_refl [simp]: "path_eq p p"
  by (simp add: path_eq_def)

text \<open>\<^verbatim>\<open>contains\<close> on a list of paths.\<close>

definition path_in :: "path list \<Rightarrow> path \<Rightarrow> bool" where
  "path_in ps p \<longleftrightarrow> (\<exists>q \<in> set ps. path_eq q p)"

lemma path_in_simps [simp]:
  "\<not> path_in [] p" "path_in (q # ps) p \<longleftrightarrow> path_eq q p \<or> path_in ps p"
  by (auto simp: path_in_def)

definition plain_absolute :: "path \<Rightarrow> bool" where
  "plain_absolute p \<longleftrightarrow>
     has_root p \<and> list_all (\<lambda>c. case c of RootDir \<Rightarrow> True | Normal _ \<Rightarrow> True | _ \<Rightarrow> False) (components p)"

lemma plain_absolute_root [simp]: "plain_absolute p \<Longrightarrow> has_root p"
  by (simp add: plain_absolute_def)

subsection \<open>Text paths\<close>

lemma is_utf8_append: "is_utf8 a \<Longrightarrow> is_utf8 b \<Longrightarrow> is_utf8 (a @ b)"
proof (induction a rule: is_utf8.induct)
  case (2 a rest)
  consider "byte a < 128" | "194 \<le> byte a" "byte a \<le> 223" | "224 \<le> byte a" "byte a \<le> 239"
    | "240 \<le> byte a" "byte a \<le> 244"
    using "2.prems"(1) by (simp split: if_splits)
  then show ?case
  proof cases
    case 1
    then show ?thesis using "2.IH" "2.prems" by simp
  next
    case 2
    then obtain x r where "rest = x # r" "cont_byte x" "is_utf8 r"
      using \<open>is_utf8 (a # rest)\<close> by (simp split: list.splits)
    then show ?thesis using 2 "2.IH" "2.prems" by simp
  next
    case 3
    then obtain x y r where "rest = x # y # r" "is_utf8 r"
      using \<open>is_utf8 (a # rest)\<close> by (simp split: list.splits)
    then show ?thesis using 3 "2.IH" "2.prems" by simp
  next
    case 4
    then obtain x y z r where "rest = x # y # z # r" "is_utf8 r"
      using \<open>is_utf8 (a # rest)\<close> by (simp split: list.splits)
    then show ?thesis using 4 "2.IH" "2.prems" by simp
  qed
qed simp

lemma is_utf8_cut_eq: "is_utf8 s \<Longrightarrow> s = a @ slash # b \<Longrightarrow> is_utf8 a"
proof (induction s arbitrary: a rule: is_utf8.induct)
  case (2 c rest)
  consider "byte c < 128" | "194 \<le> byte c" "byte c \<le> 223" | "224 \<le> byte c" "byte c \<le> 239"
    | "240 \<le> byte c" "byte c \<le> 244"
    using "2.prems"(1) by (simp split: if_splits)
  note range = this
  show ?case
  proof (cases a)
    case (Cons d a')
    then have d: "a = c # a'" and rest: "rest = a' @ slash # b" using "2.prems"(2) by auto
    from range show ?thesis
    proof cases
      case 1
      then show ?thesis using "2.IH"(1) "2.prems"(1) d rest by simp
    next
      case 2
      then obtain x r where r: "rest = x # r" "cont_byte x" "is_utf8 r"
        using \<open>is_utf8 (c # rest)\<close> by (simp split: list.splits)
      then obtain a1 where "a' = x # a1" "r = a1 @ slash # b" using rest by (cases a') auto
      then show ?thesis using 2 "2.IH"(2)[OF _ _ r(1) r(3)] r d by simp
    next
      case 3
      then obtain x y r where r: "rest = x # y # r" "cont_byte x" "cont_byte y" "is_utf8 r"
        "byte c = 224 \<longrightarrow> 160 \<le> byte x" "byte c = 237 \<longrightarrow> byte x < 160"
        using \<open>is_utf8 (c # rest)\<close> by (simp split: list.splits)
      then obtain a1 where "a' = x # y # a1" "r = a1 @ slash # b"
        using rest by (cases a'; cases "tl a'") auto
      then show ?thesis using 3 "2.IH"(3) r d by simp
    next
      case 4
      then obtain x y z r where r: "rest = x # y # z # r" "cont_byte x" "cont_byte y" "cont_byte z"
        "is_utf8 r" "byte c = 240 \<longrightarrow> 144 \<le> byte x" "byte c = 244 \<longrightarrow> byte x < 144"
        using \<open>is_utf8 (c # rest)\<close> by (simp split: list.splits)
      then obtain a1 where "a' = x # y # z # a1" "r = a1 @ slash # b"
        using rest by (cases a'; cases "tl a'"; cases "tl (tl a')") auto
      then show ?thesis using 4 "2.IH"(4) r d by simp
    qed
  qed simp
qed simp

lemma is_utf8_cut: "is_utf8 (a @ slash # b) \<Longrightarrow> is_utf8 a"
  by (rule is_utf8_cut_eq) simp_all

lemma join_append:
  "xs \<noteq> [] \<Longrightarrow> ys \<noteq> [] \<Longrightarrow> join sep (xs @ ys) = join sep xs @ sep @ join sep ys"
  by (induction sep xs rule: join.induct) (cases ys; simp)+

text \<open>The parent of a path is cut from it at a separator, or is a first separator or dot of it.\<close>

lemma is_utf8_parent: "parent p = Some q \<Longrightarrow> is_utf8 p \<Longrightarrow> is_utf8 q"
proof (cases "drop_empty (List.rev (body p))")
  case (Cons s rest)
  assume q: "parent p = Some q" and u: "is_utf8 p"
  obtain zs ys where b: "body p = List.rev (drop_empty rest) @ (zs @ s # ys)"
    using drop_empty_Cons[OF Cons] by auto
  have p: "p = take (before_body p) p @ join [slash] (body p)"
    by (simp add: body_def join_split_on)
  have pre: "is_utf8 (take (before_body p) p)"
    by (cases p) (auto simp: before_body_def has_root_def leading_dot_def split: list.splits if_splits)
  show ?thesis
  proof (cases "drop_empty rest")
    case Nil
    then show ?thesis using q Cons pre by (simp add: parent_def)
  next
    case (Cons x xs)
    have "join [slash] (body p) = join [slash] (List.rev (drop_empty rest)) @ slash # join [slash] (zs @ s # ys)"
      unfolding b using Cons by (subst join_append) auto
    then have "p = (take (before_body p) p @ join [slash] (List.rev (drop_empty rest)))
        @ slash # join [slash] (zs @ s # ys)"
      using p by simp
    then have "is_utf8 (take (before_body p) p @ join [slash] (List.rev (drop_empty rest)))"
      using is_utf8_cut u by metis
    then show ?thesis
      using q \<open>drop_empty (List.rev (body p)) = s # rest\<close> by (simp add: parent_def)
  qed
qed (auto simp: parent_def split: if_splits)

lemma is_utf8_ancestors: "is_utf8 p \<Longrightarrow> f \<in> set (ancestors p) \<Longrightarrow> is_utf8 f"
proof (induction p rule: ancestors.induct)
  case (1 p)
  show ?case
  proof (cases "parent p")
    case None
    then show ?thesis using 1(2,3) by (simp add: ancestors.simps[of p])
  next
    case (Some q)
    then have "f = p \<or> f \<in> set (ancestors q)" using 1(3) by (simp add: ancestors.simps[of p])
    then show ?thesis using 1(1)[OF Some] is_utf8_parent[OF Some] 1(2) by auto
  qed
qed

lemma is_utf8_pjoin: "is_utf8 p \<Longrightarrow> is_utf8 q \<Longrightarrow> is_utf8 (pjoin p q)"
  using is_utf8_append[of p "slash # q"] by (simp add: pjoin_def is_utf8_append)

end
