(* ===== verification/Contain.thy ===== *)
theory Contain
  imports Path HostDecide
begin

text \<open>
  What a contained launch is asked for and what of it a jail takes
  (\<^verbatim>\<open>src/crates/cli/src/contain.rs\<close>): the arguments of \<^verbatim>\<open>innerwarden contain\<close>, the jail profile of
  the agent's type, the screening of extra paths, and where the folders a jail shows and the places
  it hides lie. What the launcher finds on the host (links followed, files there) is an argument. A
  line that is said to the person is kept as the sentence it is and the paths it names.
\<close>

subsection \<open>Sentences and errors\<close>

datatype bind_kind = BkProject | BkWorktree | BkWorktreeGit | BkWorktreeCommon | BkReadOnly | BkWritable

datatype refusal =
    NoNetIsV2
  | UnsafeBind bind_kind path
  | UnsafeBindLed bind_kind path path path
  | OverHiddenTarget bind_kind path path path
  | HiddenHolds path bind_kind path
  | HiddenHoldsThe string path path
  | OverSealed bind_kind path path
  | RoNotPlain path
  | RoInHidden path path
  | RoInHiddenTarget path path path
  | RoIsHome path
  | RoHoldsHidden path path
  | RoHoldsHiddenTarget path path path
  | HiddenHomeDangling path
  | HiddenHomeLink path path
  | HiddenHomeOutside path path
  | SteeredLink path path
  | InnerLinkToNothing path path
  | IwFolderLink path path

datatype contain_error =
    UnknownAgent string
  | NoCommand
  | Unsupported refusal
  | UnknownFlag string

datatype said =
    ExtraNotPlain path
  | ExtraLoop path
  | ExtraLinkLeft path path
  | ExtraNotHeld path
  | ExtraLinkKept path path path
  | ExtraWritableLinkLeft path path
  | LeftSteered path path
  | LeftNeeded path path
  | LeftLoop path
  | SaidInProject path path

subsection \<open>Arguments\<close>

datatype jail_mode = JmMonitor | JmEnforce | JmBlockReview

fun hook_flags :: "jail_mode \<Rightarrow> bool \<times> bool" where
  "hook_flags JmMonitor = (False, True)"
| "hook_flags JmEnforce = (False, False)"
| "hook_flags JmBlockReview = (True, False)"

record contain_args =
  ca_agent :: string
  ca_mode :: jail_mode
  ca_allow_net :: bool
  ca_project :: path
  ca_dry_run :: bool
  ca_setup_only :: bool
  ca_child :: "string list"
  ca_extra_rw :: "path list"
  ca_extra_ro :: "path list"
  ca_extra_ro_sources :: "(path \<times> path) list"
  ca_extra_ro_links :: "path list"
  ca_extra_ro_unheld :: "path list"
  ca_deny_read :: "string list"
  ca_identity :: bool
  ca_start :: jail_start
  ca_hide_home :: "path list"

definition DEFAULT_DENY_READ :: "string list" where
  "DEFAULT_DENY_READ = [''.env'', ''.env.*'', ''secrets/**'']"

definition IDENTITY_FLAG :: string where "IDENTITY_FLAG = ''--identity''"

text \<open>The arguments as the loop of \<^verbatim>\<open>parse_contain_args\<close> starts with them.\<close>

definition contain_args_default :: contain_args where
  "contain_args_default = \<lparr>ca_agent = ''claude-code'', ca_mode = JmMonitor, ca_allow_net = True,
     ca_project = ''.'', ca_dry_run = False, ca_setup_only = False, ca_child = [], ca_extra_rw = [],
     ca_extra_ro = [], ca_extra_ro_sources = [], ca_extra_ro_links = [], ca_extra_ro_unheld = [],
     ca_deny_read = DEFAULT_DENY_READ, ca_identity = False, ca_start = Always, ca_hide_home = []\<rparr>"

fun parse_flags :: "string list \<Rightarrow> contain_args \<Rightarrow> contain_error + contain_args" where
  "parse_flags [] a = Inr a"
| "parse_flags (w # ws) a =
     (if w = ''--'' then Inr (a\<lparr>ca_child := ws\<rparr>)
      else if w = ''--agent'' then
        (case ws of
           [] \<Rightarrow> parse_flags [] (a\<lparr>ca_agent := []\<rparr>)
         | v # rest \<Rightarrow> parse_flags rest (a\<lparr>ca_agent := v\<rparr>))
      else if w = ''--project'' then
        (case ws of
           [] \<Rightarrow> parse_flags [] a
         | v # rest \<Rightarrow> parse_flags rest (a\<lparr>ca_project := v\<rparr>))
      else if w = ''--monitor'' then parse_flags ws (a\<lparr>ca_mode := JmMonitor\<rparr>)
      else if w = ''--enforce'' then
        parse_flags ws (if ca_mode a \<noteq> JmBlockReview then a\<lparr>ca_mode := JmEnforce\<rparr> else a)
      else if w = ''--block-review'' then parse_flags ws (a\<lparr>ca_mode := JmBlockReview\<rparr>)
      else if w = ''--allow-net'' then parse_flags ws (a\<lparr>ca_allow_net := True\<rparr>)
      else if w = ''--no-net'' then Inl (Unsupported NoNetIsV2)
      else if w = ''--deny-read'' then
        (case ws of
           [] \<Rightarrow> parse_flags [] a
         | v # rest \<Rightarrow> parse_flags rest (a\<lparr>ca_deny_read := ca_deny_read a @ [v]\<rparr>))
      else if w = ''--dry-run'' then parse_flags ws (a\<lparr>ca_dry_run := True\<rparr>)
      else if w = ''--setup'' then parse_flags ws (a\<lparr>ca_setup_only := True\<rparr>)
      else if w = IDENTITY_FLAG then parse_flags ws (a\<lparr>ca_identity := True\<rparr>)
      else if prefix ''-'' w then Inl (UnknownFlag w)
      else Inr (a\<lparr>ca_child := w # ws\<rparr>))"

definition parse_contain_args :: "string list \<Rightarrow> contain_error + contain_args" where
  "parse_contain_args argv =
     rbind (parse_flags argv contain_args_default) (\<lambda>a.
       if ca_agent a \<noteq> ''claude-code'' then Inl (UnknownAgent (ca_agent a))
       else if ca_child a = [] \<and> \<not> ca_setup_only a then Inl NoCommand
       else Inr a)"

text \<open>\<^verbatim>\<open>JailFlagsGiven\<close> has one field, whether a project was given.\<close>

fun jail_flags_given :: "string list \<Rightarrow> bool" where
  "jail_flags_given [] = False"
| "jail_flags_given (w # ws) =
     (if w = ''--'' then False
      else if w = ''--project'' then True
      else if w = ''--agent'' \<or> w = ''--deny-read'' then
        (case ws of [] \<Rightarrow> False | _ # rest \<Rightarrow> jail_flags_given rest)
      else if \<not> prefix ''-'' w then False
      else jail_flags_given ws)"

subsection \<open>The jail profile of the agent's type\<close>

definition push_new :: "path list \<Rightarrow> path \<Rightarrow> path list" where
  "push_new ps p = (if path_in ps p then ps else ps @ [p])"

definition profile_place :: "path \<Rightarrow> string \<Rightarrow> path" where
  "profile_place home p = (case strip_prefix ''~/'' p of Some rest \<Rightarrow> pjoin home rest | None \<Rightarrow> p)"

definition apply_jail_profile :: "contain_args \<Rightarrow> jail_profile \<Rightarrow> bool \<Rightarrow> path \<Rightarrow> contain_args" where
  "apply_jail_profile a jail given home =
     a\<lparr>ca_project := (case jp_project_rw jail of
            Some project \<Rightarrow> if given then ca_project a else profile_place home project
          | None \<Rightarrow> ca_project a),
       ca_extra_ro := fold (\<lambda>p ps. push_new ps (profile_place home p)) (jp_extra_ro jail) (ca_extra_ro a),
       ca_deny_read := fold (\<lambda>g gs. if g \<in> set gs then gs else gs @ [g]) (jp_deny_read jail) (ca_deny_read a),
       ca_hide_home := fold (\<lambda>p ps. push_new ps (pjoin home p)) (jp_hide_home jail) (ca_hide_home a),
       ca_start := max (ca_start a) (jail_profile_start jail)\<rparr>"

subsection \<open>Where the jail shows a host place\<close>

text \<open>Each \<open>shown\<close> pair is where the jail shows a host folder, and where its host path leads.\<close>

definition jail_views :: "path \<Rightarrow> (path \<times> path) list \<Rightarrow> path list" where
  "jail_views real shown =
     fold (\<lambda>(jail, host) views.
       case path_strip_prefix real host of
         None \<Rightarrow> views
       | Some rest \<Rightarrow> push_new views (pjoin jail rest)) shown []"

definition other_jail_views :: "path \<Rightarrow> path list \<Rightarrow> (path \<times> path) list \<Rightarrow> path list" where
  "other_jail_views real covered shown = filter (\<lambda>v. \<not> path_in covered v) (jail_views real shown)"

definition cover_claude_view ::
  "path list \<Rightarrow> path \<Rightarrow> path list \<times> bool \<Rightarrow> path list \<times> bool" where
  "cover_claude_view needed view st =
     (if list_ex (\<lambda>p. under p view) needed then (fst st, True)
      else (push_new (fst st) view, snd st))"

definition plan_claude_folders ::
  "path list \<Rightarrow> (path \<times> path) list \<Rightarrow> path list \<Rightarrow> path list \<times> bool" where
  "plan_claude_folders real shown needed =
     fold (\<lambda>folder. fold (cover_claude_view needed) (jail_views folder shown)) real ([], False)"

definition in_a_folder_a_jail_writes :: "path \<Rightarrow> path list \<Rightarrow> bool" where
  "in_a_folder_a_jail_writes place writable \<longleftrightarrow>
     list_ex (\<lambda>folder. \<not> path_eq place folder \<and> under place folder) writable"

definition steering_link :: "path list \<Rightarrow> path option \<Rightarrow> path list \<Rightarrow> path option" where
  "steering_link links own_entry writable =
     List.find
       (\<lambda>link. case parent link of None \<Rightarrow> False | Some folder \<Rightarrow> list_ex (under folder) writable)
       (filter (\<lambda>link. \<not> (case own_entry of Some e \<Rightarrow> path_eq link e | None \<Rightarrow> False)) links)"

subsection \<open>Screening the extra paths\<close>

datatype extra_found = EfNotPlain | EfMissing | EfLoop | EfFound path "path list"

record extra_jail =
  ej_shown :: "(path \<times> path) list"
  ej_writable :: "path list"
  ej_macos :: bool
  ej_binds_fds :: bool

record screened =
  sx_dests :: "path list"
  sx_sources :: "(path \<times> path) list"
  sx_links :: "path list"
  sx_unheld :: "path list"
  sx_said :: "said list"

definition lay_at :: "path \<Rightarrow> path \<Rightarrow> screened \<Rightarrow> screened" where
  "lay_at leads_to dest s =
     (if path_in (sx_dests s) dest then s
      else s\<lparr>sx_sources := (if path_eq dest leads_to then sx_sources s
                            else sx_sources s @ [(dest, leads_to)]),
             sx_dests := sx_dests s @ [dest]\<rparr>)"

definition screen_found :: "extra_jail \<Rightarrow> path \<Rightarrow> path \<Rightarrow> path list \<Rightarrow> screened \<Rightarrow> screened" where
  "screen_found jail p leads_to links s =
     (if ej_macos jail then
        s\<lparr>sx_dests := push_new (push_new (sx_dests s) p) leads_to,
          sx_links := fold (\<lambda>l ls. push_new ls l) links (sx_links s)\<rparr>
      else
        let steering = steering_link links None (ej_writable jail);
            views = jail_views leads_to (ej_shown jail);
            say = (\<lambda>x s. s\<lparr>sx_said := sx_said s @ [x]\<rparr>)
        in if views = [] \<and> steering \<noteq> None then say (ExtraLinkLeft p (the steering)) s
           else if (steering \<noteq> None \<or> in_a_folder_a_jail_writes leads_to (ej_writable jail))
                   \<and> \<not> ej_binds_fds jail then
             (say (ExtraNotHeld p) s)\<lparr>sx_unheld := sx_unheld s @ [p]\<rparr>
           else
             let laid = fold (lay_at leads_to) (if views = [] then [leads_to] else views) s
             in case steering of
                  None \<Rightarrow> laid
                | Some link \<Rightarrow> say (ExtraLinkKept p link leads_to) laid)"

definition screen_ro :: "extra_jail \<Rightarrow> (path \<Rightarrow> extra_found) \<Rightarrow> path \<Rightarrow> screened \<Rightarrow> screened" where
  "screen_ro jail found p s =
     (case found p of
        EfNotPlain \<Rightarrow> s\<lparr>sx_said := sx_said s @ [ExtraNotPlain p]\<rparr>
      | EfMissing \<Rightarrow> s
      | EfLoop \<Rightarrow> s\<lparr>sx_said := sx_said s @ [ExtraLoop p]\<rparr>
      | EfFound leads_to links \<Rightarrow> screen_found jail p leads_to links s)"

definition screen_rw :: "(path \<Rightarrow> extra_found) \<Rightarrow> path \<Rightarrow> path list \<times> said list \<Rightarrow> path list \<times> said list" where
  "screen_rw found p st =
     (case found p of
        EfFound leads_to [] \<Rightarrow> (push_new (fst st) leads_to, snd st)
      | EfFound _ (link # _) \<Rightarrow> (fst st, snd st @ [ExtraWritableLinkLeft p link])
      | EfNotPlain \<Rightarrow> (fst st, snd st @ [ExtraNotPlain p])
      | EfLoop \<Rightarrow> (fst st, snd st @ [ExtraLoop p])
      | EfMissing \<Rightarrow> st)"

definition screen_extra_paths ::
  "contain_args \<Rightarrow> (path \<Rightarrow> extra_found) \<Rightarrow> extra_jail \<Rightarrow> contain_args \<times> said list" where
  "screen_extra_paths a found jail =
     (let ro = fold (screen_ro jail found) (ca_extra_ro a)
            \<lparr>sx_dests = [], sx_sources = [], sx_links = [], sx_unheld = [], sx_said = []\<rparr>;
          rw = fold (screen_rw found) (ca_extra_rw a) ([], sx_said ro)
      in (a\<lparr>ca_extra_ro := sx_dests ro, ca_extra_ro_sources := sx_sources ro,
            ca_extra_ro_links := sx_links ro, ca_extra_ro_unheld := sx_unheld ro,
            ca_extra_rw := fst rw\<rparr>, snd rw))"

definition extra_ro_source :: "contain_args \<Rightarrow> path \<Rightarrow> path" where
  "extra_ro_source a dest =
     (case List.find (\<lambda>(at, _). path_eq at dest) (ca_extra_ro_sources a) of
        None \<Rightarrow> dest
      | Some (_, source) \<Rightarrow> source)"

subsection \<open>What a jail shows and hides by name\<close>

definition JAIL_HIDDEN_DOTDIRS :: "string list" where
  "JAIL_HIDDEN_DOTDIRS = [''.ssh'', ''.gnupg'', ''.aws'', ''.mozilla'', ''.thunderbird'']"

definition JAIL_HIDDEN_MACOS_DOTDIRS :: "string list" where
  "JAIL_HIDDEN_MACOS_DOTDIRS = [''.ssh'', ''.aws'', ''.gnupg'']"

definition JAIL_HIDDEN_CONFIG_DIR :: string where
  "JAIL_HIDDEN_CONFIG_DIR = ''.config/innerwarden''"

definition JAIL_HIDDEN_MACOS_HOME :: "string list" where
  "JAIL_HIDDEN_MACOS_HOME = [''Library/Mail'', ''Library/Messages'', ''Library/Safari'']"

definition jail_hides_on :: "path \<Rightarrow> bool \<Rightarrow> path list" where
  "jail_hides_on home macos =
     map (pjoin home)
       ((if macos then JAIL_HIDDEN_MACOS_DOTDIRS else JAIL_HIDDEN_DOTDIRS) @ [JAIL_HIDDEN_CONFIG_DIR]
        @ (if macos then JAIL_HIDDEN_MACOS_HOME else []))"

definition jail_never_shows :: "path \<Rightarrow> path list" where
  "jail_never_shows home =
     map (pjoin home) (JAIL_HIDDEN_DOTDIRS @ [JAIL_HIDDEN_CONFIG_DIR] @ JAIL_HIDDEN_MACOS_HOME)"

definition DOTDIR_RW :: "string list" where
  "DOTDIR_RW = [''.claude'', ''.config'', ''.cache'', ''.cargo'', ''.rustup'', ''.npm'', ''.local'']"

definition DOTFILE_RO :: "string list" where "DOTFILE_RO = [''.gitconfig'']"
definition AGENT_SETTINGS :: "string list" where "AGENT_SETTINGS = [''.claude'', ''.claude.json'']"
definition DOTDIR_DENY :: "string list" where "DOTDIR_DENY = JAIL_HIDDEN_DOTDIRS"

definition LINUX_SYSTEM_SHOWN :: "string list" where
  "LINUX_SYSTEM_SHOWN = [''/usr'', ''/etc'', ''/sys'', ''/bin'', ''/lib'', ''/lib64'', ''/sbin'']"

definition SYSTEM_FOLDERS :: "string list" where
  "SYSTEM_FOLDERS = [''/usr'', ''/etc'', ''/sys'', ''/bin'', ''/lib'', ''/lib64'', ''/sbin'', ''/var'',
     ''/dev'', ''/System'', ''/Library'', ''/Applications'', ''/private/etc'', ''/private/var'']"

definition MACOS_SYSTEM_PLACES :: "string list" where
  "MACOS_SYSTEM_PLACES = [''/System'', ''/Library'', ''/Applications'', ''/usr'', ''/bin'', ''/sbin'',
     ''/etc'', ''/private/etc'', ''/var'', ''/private/var'', ''/tmp'', ''/private/tmp'', ''/dev'',
     ''/cores'', ''/opt/homebrew'', ''/opt/local'']"

definition MACOS_WRITABLE :: "string list" where
  "MACOS_WRITABLE = [''/tmp'', ''/private/tmp'', ''/private/var/tmp'', ''/private/var/folders'']"

definition SYSTEM_PROFILES_PATH :: string where
  "SYSTEM_PROFILES_PATH = ''/etc/innerwarden/agent-profiles.toml''"

record worktree =
  wt_git_dir :: path
  wt_common_dir :: path

definition worktree_folders :: "worktree option \<Rightarrow> path list" where
  "worktree_folders wt = (case wt of None \<Rightarrow> [] | Some w \<Rightarrow> [wt_git_dir w, wt_common_dir w])"

text \<open>The home's folders and files a jail binds that are there.\<close>

definition home_binds :: "string list \<Rightarrow> path \<Rightarrow> path list \<Rightarrow> path list" where
  "home_binds names home existing =
     filter (path_in existing) (map (pjoin home) (filter (\<lambda>n. n \<notin> set DOTDIR_DENY) names))"

definition shown_host_folders ::
  "contain_args \<Rightarrow> path \<Rightarrow> worktree option \<Rightarrow> path list \<Rightarrow> (path \<Rightarrow> path) \<Rightarrow> (path \<times> path) list" where
  "shown_host_folders a home wt existing real =
     map (\<lambda>p. (p, real p)) (home_binds (DOTDIR_RW @ DOTFILE_RO) home existing)
     @ map (\<lambda>p. (p, p)) (ca_project a # worktree_folders wt)
     @ map (\<lambda>dest. (dest, extra_ro_source a dest)) (ca_extra_ro a)"

text \<open>The name of the first step of \<open>p\<close> below the home.\<close>

fun comp_name :: "comp \<Rightarrow> string" where
  "comp_name RootDir = ''/''"
| "comp_name CurDir = ''.''"
| "comp_name ParentDir = ''..''"
| "comp_name (Normal s) = s"

definition first_below :: "path \<Rightarrow> path \<Rightarrow> string option" where
  "first_below home p =
     (case path_strip_prefix p home of
        None \<Rightarrow> None
      | Some rest \<Rightarrow> (case components rest of [] \<Rightarrow> None | c # _ \<Rightarrow> Some (comp_name c)))"

definition writable_folder_target :: "path \<Rightarrow> path \<Rightarrow> (path \<times> path) list \<Rightarrow> path option" where
  "writable_folder_target nominal home shown =
     (case first_below home nominal of
        None \<Rightarrow> None
      | Some name \<Rightarrow>
          if \<not> is_utf8 name \<or> name \<notin> set DOTDIR_RW \<or> name \<in> set DOTDIR_DENY then None
          else map_option snd (List.find (\<lambda>(jail, _). path_eq jail (pjoin home name)) shown))"

subsection \<open>The home paths a profile hides\<close>

record deny_path =
  dp_abs :: path
  dp_is_dir :: bool

record hidden_home_path =
  hh_nominal :: path
  hh_real :: "path option"
  hh_resolved :: path
  hh_is_dir :: bool
  hh_dangling_link :: bool
  hh_steered_by :: "path option"
  hh_links :: "path list"

record hidden_plan =
  hp_masks :: "deny_path list"
  hp_denies :: "path list"
  hp_links :: "path list"

definition push_mask :: "bool \<Rightarrow> deny_path list \<Rightarrow> path \<Rightarrow> deny_path list" where
  "push_mask is_dir masks p =
     (if path_in (map dp_abs masks) p then masks
      else masks @ [\<lparr>dp_abs = p, dp_is_dir = is_dir\<rparr>])"

definition plan_hidden_path ::
  "path \<Rightarrow> (path \<times> path) list \<Rightarrow> hidden_home_path \<Rightarrow> hidden_plan \<Rightarrow> contain_error + hidden_plan" where
  "plan_hidden_path home shown p plan =
     (if hh_dangling_link p then Inl (Unsupported (HiddenHomeDangling (hh_nominal p)))
      else case hh_steered_by p of
        Some link \<Rightarrow> Inl (Unsupported (HiddenHomeLink (hh_nominal p) link))
      | None \<Rightarrow>
          let leads_to = (case hh_real p of Some r \<Rightarrow> r | None \<Rightarrow> hh_resolved p);
              in_its_folder = (case writable_folder_target (hh_nominal p) home shown of
                                 Some folder \<Rightarrow> under leads_to folder | None \<Rightarrow> False)
          in if \<not> under leads_to home \<and> \<not> in_its_folder
             then Inl (Unsupported (HiddenHomeOutside (hh_nominal p) leads_to))
             else Inr
               (plan\<lparr>hp_denies := push_new (push_new (hp_denies plan) (hh_nominal p)) leads_to,
                     hp_links := fold (\<lambda>l ls. push_new ls l) (hh_links p) (hp_links plan),
                     hp_masks := (case hh_real p of
                         None \<Rightarrow> hp_masks plan
                       | Some real \<Rightarrow>
                           fold (\<lambda>v ms. push_mask (hh_is_dir p) ms v) (jail_views real shown) (hp_masks plan))\<rparr>))"

fun plan_hidden_from ::
  "path \<Rightarrow> (path \<times> path) list \<Rightarrow> hidden_home_path list \<Rightarrow> hidden_plan \<Rightarrow> contain_error + hidden_plan" where
  "plan_hidden_from home shown [] plan = Inr plan"
| "plan_hidden_from home shown (p # ps) plan =
     rbind (plan_hidden_path home shown p plan) (plan_hidden_from home shown ps)"

definition plan_hidden_home ::
  "hidden_home_path list \<Rightarrow> path \<Rightarrow> (path \<times> path) list \<Rightarrow> contain_error + hidden_plan" where
  "plan_hidden_home paths home shown =
     plan_hidden_from home shown paths \<lparr>hp_masks = [], hp_denies = [], hp_links = []\<rparr>"

subsection \<open>Hidden places that links lead elsewhere\<close>

record hidden_place =
  hd_nominal :: path
  hd_leads_to :: "path option"
  hd_there :: bool
  hd_is_dir :: bool
  hd_steered_by :: "path option"
  hd_inner :: bool

record linked_plan =
  lp_masks :: "deny_path list"
  lp_denies :: "path list"
  lp_missing :: "(path \<times> path list) list"
  lp_hidden :: "(path \<times> path) list"
  lp_left :: "said list"

definition linked_plan_default :: linked_plan where
  "linked_plan_default = \<lparr>lp_masks = [], lp_denies = [], lp_missing = [], lp_hidden = [], lp_left = []\<rparr>"

record place_facts_rec =
  pf_home :: path
  pf_shown :: "(path \<times> path) list"
  pf_read_only :: "path list"
  pf_own :: "path list"
  pf_own_read_only :: "path list"
  pf_writable :: "path list"
  pf_guard :: "path list"
  pf_work :: "path list"
  pf_read_only_work :: "path list"
  pf_project :: "path list"
  pf_macos :: bool

definition needs :: "place_facts_rec \<Rightarrow> path \<Rightarrow> bool" where
  "needs f place \<longleftrightarrow>
     list_ex (\<lambda>need. paths_overlap need place) (pf_guard f)
     \<or> list_ex (\<lambda>need. under need place) (pf_work f @ pf_read_only_work f)"

definition hiding_first :: "place_facts_rec \<Rightarrow> place_facts_rec" where
  "hiding_first f = f\<lparr>pf_read_only_work := []\<rparr>"

definition own_place :: "place_facts_rec \<Rightarrow> path \<Rightarrow> bool \<Rightarrow> bool" where
  "own_place f place there \<longleftrightarrow>
     list_ex (under place) (pf_own f) \<or> there \<and> list_ex (under place) (pf_own_read_only f)"

definition in_project :: "place_facts_rec \<Rightarrow> path \<Rightarrow> bool" where
  "in_project f place \<longleftrightarrow> list_ex (under place) (pf_project f)"

definition leaves_steered :: "place_facts_rec \<Rightarrow> path \<Rightarrow> bool \<Rightarrow> bool" where
  "leaves_steered f place there \<longleftrightarrow>
     (if pf_macos f then
        \<not> in_project f place \<and> list_ex (\<lambda>system. paths_overlap system place) MACOS_SYSTEM_PLACES
      else \<not> own_place f place there)"

definition said_steered :: "place_facts_rec \<Rightarrow> path \<Rightarrow> path \<Rightarrow> said list" where
  "said_steered f nominal place =
     (if pf_macos f \<or> jail_views place (pf_shown f) \<noteq> [] then [LeftSteered nominal place] else [])"

definition read_only_shown :: "contain_args \<Rightarrow> path \<Rightarrow> path list" where
  "read_only_shown a home = map (pjoin home) DOTFILE_RO @ ca_extra_ro a"

definition named_and_led :: "(path \<Rightarrow> path) \<Rightarrow> path list \<Rightarrow> path list" where
  "named_and_led real ps = fold (\<lambda>p out. push_new out (real p)) ps ps"

definition place_facts ::
  "contain_args \<Rightarrow> path \<Rightarrow> worktree option \<Rightarrow> path list \<Rightarrow> path \<Rightarrow> path option \<Rightarrow> path \<Rightarrow> bool
    \<Rightarrow> (path \<Rightarrow> path) \<Rightarrow> place_facts_rec" where
  "place_facts a home wt existing iw_binary agent_command tmpdir macos real =
     (let host_shown = shown_host_folders a home wt existing real;
          ro = read_only_shown a home;
          wts = worktree_folders wt
      in \<lparr>pf_home = home,
          pf_shown = host_shown @ (if macos then [] else map (\<lambda>s. (s, s)) LINUX_SYSTEM_SHOWN),
          pf_read_only = ro @ (if macos then [] else LINUX_SYSTEM_SHOWN),
          pf_own = home # map snd (filter (\<lambda>(jail, _). \<not> path_in ro jail \<and> \<not> path_in wts jail) host_shown),
          pf_own_read_only = map snd (filter (\<lambda>(jail, _). path_in ro jail) host_shown),
          pf_writable =
            concat (map (\<lambda>(jail, host). [jail, host]) (filter (\<lambda>(jail, _). \<not> path_in ro jail) host_shown))
            @ ca_extra_rw a
            @ (if macos then MACOS_WRITABLE @ [tmpdir, pjoin home ''Library/Caches''] else []),
          pf_guard = named_and_led real
            (iw_binary # (case agent_command of Some c \<Rightarrow> [c] | None \<Rightarrow> [])
             @ map (pjoin home) AGENT_SETTINGS
             @ (case parent SYSTEM_PROFILES_PATH of Some d \<Rightarrow> [d] | None \<Rightarrow> [])),
          pf_work = named_and_led real [ca_project a] @ SYSTEM_FOLDERS,
          pf_read_only_work = named_and_led real (ca_extra_ro a),
          pf_project = [ca_project a],
          pf_macos = macos\<rparr>)"

text \<open>The views of one place on Linux, and whether one of them is what the jail needs.\<close>

definition linked_view ::
  "place_facts_rec \<Rightarrow> path list \<Rightarrow> deny_path list \<Rightarrow> hidden_place \<Rightarrow> path \<Rightarrow> path \<times> path
    \<Rightarrow> bool \<times> path list \<Rightarrow> bool \<times> path list" where
  "linked_view f covered masks place leads_to shown st =
     (case path_strip_prefix leads_to (snd shown) of
        None \<Rightarrow> st
      | Some rest \<Rightarrow>
          let view = pjoin (fst shown) rest
          in if path_eq view (hd_nominal place) \<or> path_in covered view \<or> path_in (snd st) view
                \<or> path_in (map dp_abs masks) view
                \<or> \<not> hd_there place \<and> path_in (pf_read_only f) (fst shown) then st
             else if \<not> path_eq leads_to (hd_nominal place) \<and> needs f view then (True, snd st)
             else (fst st, snd st @ [view]))"

definition linked_views ::
  "place_facts_rec \<Rightarrow> path list \<Rightarrow> deny_path list \<Rightarrow> hidden_place \<Rightarrow> path \<Rightarrow> bool \<times> path list" where
  "linked_views f covered masks place leads_to =
     fold (linked_view f covered masks place leads_to) (pf_shown f) (False, [])"

definition plan_linked_on_linux ::
  "place_facts_rec \<Rightarrow> path list \<Rightarrow> bool \<Rightarrow> hidden_place \<Rightarrow> path \<Rightarrow> linked_plan \<Rightarrow> contain_error + linked_plan" where
  "plan_linked_on_linux f covered from_deny_read place leads_to plan =
     (let (need, views) = linked_views f covered (lp_masks plan) place leads_to;
          linked = \<not> path_eq leads_to (hd_nominal place)
      in if hd_inner place \<and> \<not> hd_there place \<and> views \<noteq> []
         then Inl (Unsupported (InnerLinkToNothing (hd_nominal place) leads_to))
         else Inr
           (plan\<lparr>lp_left := lp_left plan
                   @ (if need then [LeftNeeded (hd_nominal place) leads_to] else [])
                   @ (if linked \<and> \<not> from_deny_read \<and> list_ex (in_project f) views
                      then [SaidInProject (hd_nominal place) leads_to] else []),
                 lp_missing := lp_missing plan
                   @ (if \<not> hd_there place \<and> views \<noteq> [] then [(leads_to, views)] else []),
                 lp_masks := lp_masks plan
                   @ map (\<lambda>p. \<lparr>dp_abs = p, dp_is_dir = hd_is_dir place \<or> \<not> hd_there place\<rparr>) views\<rparr>))"

definition plan_linked_place ::
  "place_facts_rec \<Rightarrow> path list \<Rightarrow> bool \<Rightarrow> hidden_place \<Rightarrow> linked_plan \<Rightarrow> contain_error + linked_plan" where
  "plan_linked_place f covered from_deny_read place plan =
     (if \<not> from_deny_read \<and> hd_steered_by place \<noteq> None
      then Inl (Unsupported (SteeredLink (hd_nominal place) (the (hd_steered_by place))))
      else case hd_leads_to place of
        None \<Rightarrow> Inr (plan\<lparr>lp_left := lp_left plan @ [LeftLoop (hd_nominal place)]\<rparr>)
      | Some leads_to \<Rightarrow>
          let linked = \<not> path_eq leads_to (hd_nominal place)
          in if linked \<and> needs f leads_to
             then Inr (plan\<lparr>lp_left := lp_left plan @ [LeftNeeded (hd_nominal place) leads_to]\<rparr>)
             else
               let hidden = (if linked \<and> \<not> from_deny_read
                             then plan\<lparr>lp_hidden := lp_hidden plan @ [(hd_nominal place, leads_to)]\<rparr>
                             else plan)
               in if pf_macos f then
                    Inr (if linked then
                           hidden\<lparr>lp_denies := push_new (lp_denies plan) leads_to,
                                  lp_left := lp_left plan
                                    @ (if \<not> from_deny_read \<and> in_project f leads_to
                                       then [SaidInProject (hd_nominal place) leads_to] else [])\<rparr>
                         else hidden)
                  else plan_linked_on_linux f covered from_deny_read place leads_to hidden)"

fun plan_linked_from ::
  "place_facts_rec \<Rightarrow> path list \<Rightarrow> bool \<Rightarrow> hidden_place list \<Rightarrow> linked_plan \<Rightarrow> contain_error + linked_plan" where
  "plan_linked_from f covered from_deny_read [] plan = Inr plan"
| "plan_linked_from f covered from_deny_read (p # ps) plan =
     rbind (plan_linked_place f covered from_deny_read p plan) (plan_linked_from f covered from_deny_read ps)"

definition plan_linked_places ::
  "hidden_place list \<Rightarrow> place_facts_rec \<Rightarrow> path list \<Rightarrow> bool \<Rightarrow> contain_error + linked_plan" where
  "plan_linked_places places f covered from_deny_read =
     plan_linked_from f covered from_deny_read places linked_plan_default"

record denied =
  de_masks :: "deny_path list"
  de_kept :: "hidden_place list"
  de_left :: "said list"

definition deny_found :: "place_facts_rec \<Rightarrow> hidden_place \<Rightarrow> denied \<Rightarrow> denied" where
  "deny_found f place d =
     (case hd_leads_to place of
        None \<Rightarrow> d
      | Some leads_to \<Rightarrow>
          let linked = \<not> path_eq leads_to (hd_nominal place)
          in if linked \<and> needs f leads_to
             then d\<lparr>de_left := de_left d @ [LeftNeeded (hd_nominal place) leads_to]\<rparr>
             else if linked \<and> hd_steered_by place \<noteq> None \<and> leaves_steered f leads_to True
             then d\<lparr>de_left := de_left d @ said_steered f (hd_nominal place) leads_to\<rparr>
             else if path_in (map dp_abs (de_masks d)) leads_to then d
             else d\<lparr>de_masks := de_masks d @ [\<lparr>dp_abs = leads_to, dp_is_dir = hd_is_dir place\<rparr>],
                    de_kept := de_kept d @ [place]\<rparr>)"

definition plan_denied_paths :: "hidden_place list \<Rightarrow> place_facts_rec \<Rightarrow> deny_path list \<times> linked_plan" where
  "plan_denied_paths found f =
     (let d = fold (deny_found f) (filter hd_there found) \<lparr>de_masks = [], de_kept = [], de_left = []\<rparr>;
          linked = (case plan_linked_places (de_kept d) f (map dp_abs (de_masks d)) True of
                      Inr l \<Rightarrow> l | Inl _ \<Rightarrow> linked_plan_default)
      in (de_masks d, linked\<lparr>lp_left := de_left d @ lp_left linked\<rparr>))"

definition never_shown_home_paths :: "path \<Rightarrow> bool \<Rightarrow> path list" where
  "never_shown_home_paths home macos =
     map (pjoin home)
       (if macos then JAIL_HIDDEN_MACOS_DOTDIRS @ JAIL_HIDDEN_MACOS_HOME else DOTDIR_DENY)"

end
