(* ===== verification/Jail.thy ===== *)
theory Jail
  imports Contain
begin

text \<open>
  The Linux jail of \<^verbatim>\<open>innerwarden contain\<close> (\<^verbatim>\<open>src/crates/cli/src/contain.rs\<close>): the facts it is built
  from, the rules its binds are held to, the folders pinned in place, and the arguments handed to
  bubblewrap. The arguments are built as a list of \<open>jail_op\<close>, one per option, and written out by
  \<open>op_args\<close>. Later operations are laid over earlier ones.
\<close>

subsection \<open>What a jail is built from\<close>

record resolved_binary =
  rb_link :: path
  rb_target_dir :: path

record claude_state =
  cs_settings_kept :: bool
  cs_own_folders :: "path list"
  cs_shared :: bool

record jail_inputs =
  ji_args :: contain_args
  ji_home :: path
  ji_tmpdir :: path
  ji_iw_binary :: path
  ji_agent_binary :: "resolved_binary option"
  ji_worktree :: "worktree option"
  ji_usr_merged :: bool
  ji_stdin_is_tty :: bool
  ji_existing_paths :: "path list"
  ji_iw_config_real :: path
  ji_iw_config_shown :: "path list"
  ji_iw_config_link :: bool
  ji_iw_config_left :: bool
  ji_linked_masks :: "deny_path list"
  ji_linked_missing :: "(path \<times> path list) list"
  ji_linked_denies :: "path list"
  ji_hidden_targets :: "(path \<times> path) list"
  ji_left :: "said list"
  ji_deny_paths :: "deny_path list"
  ji_info_fd :: "nat option"
  ji_record_fd :: "nat option"
  ji_key_fd :: "nat option"
  ji_profiles_marker_fd :: "nat option"
  ji_records_dirs :: "path list"
  ji_child_env :: "(string \<times> string) list"
  ji_close_userns :: bool
  ji_seccomp_fd :: "nat option"
  ji_hide_paths :: "deny_path list"
  ji_hide_denies :: "path list"
  ji_hide_links :: "path list"
  ji_resolv_conf :: "path option"
  ji_gate_instance :: "string option"
  ji_claude_state :: claude_state
  ji_jail_writes :: "path list"
  ji_bind_fds :: "(path \<times> nat) list"

definition ji_exists :: "jail_inputs \<Rightarrow> path \<Rightarrow> bool" where
  "ji_exists i p = path_in (ji_existing_paths i) p"

definition iw_config_dir :: "jail_inputs \<Rightarrow> path" where
  "iw_config_dir i = pjoin (ji_home i) JAIL_HIDDEN_CONFIG_DIR"

definition JAIL_GRAPH_DIR :: string where "JAIL_GRAPH_DIR = ''.innerwarden''"
definition JAIL_GRAPH_NAME :: string where "JAIL_GRAPH_NAME = ''graph.json''"
definition JAIL_SESSION :: string where "JAIL_SESSION = ''contain''"

definition jail_graph_dir :: "path \<Rightarrow> path" where
  "jail_graph_dir project = pjoin project JAIL_GRAPH_DIR"

definition jail_graph_file :: "jail_inputs \<Rightarrow> path" where
  "jail_graph_file i = pjoin (jail_graph_dir (ca_project (ji_args i))) JAIL_GRAPH_NAME"

definition CLAUDE_SETTINGS :: string where "CLAUDE_SETTINGS = ''.claude.json''"
definition CLAUDE_SETTINGS_KEPT :: string where "CLAUDE_SETTINGS_KEPT = ''.claude/.claude.json''"

subsection \<open>The rules a bind is held to\<close>

definition protected_host_paths :: "jail_inputs \<Rightarrow> path list" where
  "protected_host_paths i =
     path_sort_dedup
       (jail_never_shows (ji_home i) @ [iw_config_dir i, ji_iw_config_real i] @ ji_iw_config_shown i)"

definition places_the_jail_hides :: "jail_inputs \<Rightarrow> bool \<Rightarrow> path list" where
  "places_the_jail_hides i macos =
     (if \<not> macos then protected_host_paths i
      else path_sort_dedup
        (jail_hides_on (ji_home i) True @ [iw_config_dir i]
         @ (if ji_iw_config_left i then [] else [ji_iw_config_real i])))"

definition bind_refusal ::
  "jail_inputs \<Rightarrow> path list \<Rightarrow> bind_kind \<Rightarrow> path \<Rightarrow> bool \<Rightarrow> refusal option" where
  "bind_refusal i protected kind p hidden =
     (let secret = List.find (paths_overlap p) protected
      in if \<not> plain_absolute p \<or> path_eq p (ji_home i) \<or> under (ji_home i) p \<or> secret \<noteq> None
         then Some
           (case opt_filter (\<lambda>s. path_eq s (ji_iw_config_real i) \<and> \<not> path_eq s (iw_config_dir i)) secret of
              Some led \<Rightarrow> UnsafeBindLed kind p led (iw_config_dir i)
            | None \<Rightarrow> UnsafeBind kind p)
         else map_option (\<lambda>(nominal, target). OverHiddenTarget kind p target nominal)
           (List.find (\<lambda>(_, target). hidden \<and> paths_overlap p target) (ji_hidden_targets i)))"

text \<open>The hidden home path over \<open>p\<close>.\<close>

definition hidden_over :: "jail_inputs \<Rightarrow> path \<Rightarrow> path option" where
  "hidden_over i p = List.find (under p) (map dp_abs (ji_hide_paths i) @ ji_hide_denies i)"

definition hidden_cover_refusal :: "jail_inputs \<Rightarrow> bind_kind \<Rightarrow> path \<Rightarrow> refusal option" where
  "hidden_cover_refusal i kind p = map_option (\<lambda>h. HiddenHolds h kind p) (hidden_over i p)"

definition hidden_needed_refusal :: "jail_inputs \<Rightarrow> string \<Rightarrow> path \<Rightarrow> refusal option" where
  "hidden_needed_refusal i what p = map_option (\<lambda>h. HiddenHoldsThe what h p) (hidden_over i p)"

definition IDENTITY_SEALED :: "path list" where "IDENTITY_SEALED = [''/run'', ''/sys'']"

definition sealed_refusal :: "bind_kind \<Rightarrow> path \<Rightarrow> refusal option" where
  "sealed_refusal kind p = map_option (OverSealed kind p) (List.find (paths_overlap p) IDENTITY_SEALED)"

text \<open>\<^verbatim>\<open>Option::or_else\<close>.\<close>

definition or_else :: "'a option \<Rightarrow> 'a option \<Rightarrow> 'a option" where
  "or_else x y = (case x of Some _ \<Rightarrow> x | None \<Rightarrow> y)"

lemma or_else_None [simp]: "or_else x y = None \<longleftrightarrow> x = None \<and> y = None"
  by (cases x) (auto simp: or_else_def)

definition extra_path_refusal :: "jail_inputs \<Rightarrow> path list \<Rightarrow> bind_kind \<Rightarrow> path \<Rightarrow> refusal option" where
  "extra_path_refusal i protected kind p =
     or_else (bind_refusal i protected kind p True)
       (or_else (hidden_cover_refusal i kind p)
         (if ca_identity (ji_args i) then sealed_refusal kind p else None))"

definition shown_by_the_jail :: "jail_inputs \<Rightarrow> path \<Rightarrow> bool" where
  "shown_by_the_jail i p \<longleftrightarrow>
     list_ex (under p)
       (home_binds (DOTDIR_RW @ DOTFILE_RO) (ji_home i) (ji_existing_paths i)
        @ [ca_project (ji_args i)] @ worktree_folders (ji_worktree i) @ LINUX_SYSTEM_SHOWN)"

definition extra_ro_refusal :: "jail_inputs \<Rightarrow> path list \<Rightarrow> path \<Rightarrow> bool \<Rightarrow> refusal option" where
  "extra_ro_refusal i hidden p macos =
     (if \<not> plain_absolute p then Some (RoNotPlain p)
      else case List.find (under p) hidden of
        Some place \<Rightarrow> Some (RoInHidden p place)
      | None \<Rightarrow>
      (case List.find (\<lambda>(_, target). under p target) (ji_hidden_targets i) of
        Some (nominal, target) \<Rightarrow> Some (RoInHiddenTarget p target nominal)
      | None \<Rightarrow>
      (case hidden_cover_refusal i BkReadOnly p of
        Some why \<Rightarrow> Some why
      | None \<Rightarrow>
      (if path_eq p (ji_home i) \<or> under (ji_home i) p then Some (RoIsHome p)
       else case (if ca_identity (ji_args i) then sealed_refusal BkReadOnly p else None) of
        Some why \<Rightarrow> Some why
      | None \<Rightarrow>
      (if macos \<or> shown_by_the_jail i p then None
       else case List.find (\<lambda>place. under place p) hidden of
        Some place \<Rightarrow> Some (RoHoldsHidden p place)
      | None \<Rightarrow>
          map_option (\<lambda>(nominal, target). RoHoldsHiddenTarget p target nominal)
            (List.find (\<lambda>(_, target). under target p) (ji_hidden_targets i)))))))"

text \<open>The writable binds a sealed jail is held to.\<close>

definition validate_sealed :: "jail_inputs \<Rightarrow> refusal option" where
  "validate_sealed i =
     or_else (sealed_refusal BkProject (ca_project (ji_args i)))
       (case ji_worktree i of
          None \<Rightarrow> None
        | Some wt \<Rightarrow> or_else (sealed_refusal BkWorktreeGit (wt_git_dir wt))
                      (sealed_refusal BkWorktreeCommon (wt_common_dir wt)))"

fun first_refusal :: "('a \<Rightarrow> refusal option) \<Rightarrow> 'a list \<Rightarrow> refusal option" where
  "first_refusal f [] = None"
| "first_refusal f (x # xs) = or_else (f x) (first_refusal f xs)"

lemma first_refusal_None [simp]: "first_refusal f xs = None \<longleftrightarrow> (\<forall>x\<in>set xs. f x = None)"
  by (induction xs) auto

definition needed_by_the_jail :: "jail_inputs \<Rightarrow> (string \<times> path) list" where
  "needed_by_the_jail i =
     [(''the project'', ca_project (ji_args i)), (''the guard'', ji_iw_binary i)]
     @ map (\<lambda>name. (''the agent's settings'', pjoin (ji_home i) name)) AGENT_SETTINGS"

definition jail_refusal :: "jail_inputs \<Rightarrow> bool \<Rightarrow> refusal option" where
  "jail_refusal i macos =
     (let protected = protected_host_paths i
      in or_else (bind_refusal i protected BkProject (ca_project (ji_args i)) False)
        (or_else
          (case ji_worktree i of
             None \<Rightarrow> None
           | Some wt \<Rightarrow> or_else (bind_refusal i protected BkWorktreeGit (wt_git_dir wt) True)
                         (bind_refusal i protected BkWorktreeCommon (wt_common_dir wt) True))
        (or_else (first_refusal (\<lambda>(what, p). hidden_needed_refusal i what p) (needed_by_the_jail i))
        (or_else (first_refusal (extra_path_refusal i protected BkWritable) (ca_extra_rw (ji_args i)))
        (or_else (first_refusal (\<lambda>p. extra_ro_refusal i (places_the_jail_hides i macos) p macos)
                   (ca_extra_ro (ji_args i)))
          (if ca_identity (ji_args i) then validate_sealed i else None))))))"

definition validate_jail_inputs_for :: "jail_inputs \<Rightarrow> bool \<Rightarrow> contain_error + unit" where
  "validate_jail_inputs_for i macos =
     (case jail_refusal i macos of None \<Rightarrow> Inr () | Some why \<Rightarrow> Inl (Unsupported why))"

definition validate_jail_inputs :: "jail_inputs \<Rightarrow> contain_error + unit" where
  "validate_jail_inputs i = validate_jail_inputs_for i False"

subsection \<open>Folders pinned in place\<close>

datatype pin_root = PrHome | PrProject | PrWorktree

datatype shown_as = ShWritable pin_root | ShReadOnly | ShOwn

definition read_only_in_the_work :: "jail_inputs \<Rightarrow> path \<Rightarrow> pin_root option" where
  "read_only_in_the_work i p =
     (let below = (\<lambda>folder. \<not> path_eq p folder \<and> under p folder)
      in if list_ex below (worktree_folders (ji_worktree i)) then Some PrWorktree
         else if below (ca_project (ji_args i)) then Some PrProject
         else None)"

definition read_only_at :: "jail_inputs \<Rightarrow> pin_root option \<Rightarrow> path list" where
  "read_only_at i root = filter (\<lambda>p. read_only_in_the_work i p = root) (ca_extra_ro (ji_args i))"

definition agent_binds :: "jail_inputs \<Rightarrow> path list" where
  "agent_binds i = (case ji_agent_binary i of None \<Rightarrow> [] | Some b \<Rightarrow> [rb_link b, rb_target_dir b])"

text \<open>What shows each folder, in the order the jail lays them.\<close>

definition jail_binds :: "jail_inputs \<Rightarrow> (shown_as \<times> path) list" where
  "jail_binds i =
     map (Pair ShReadOnly) LINUX_SYSTEM_SHOWN
     @ [(ShOwn, ''/tmp''), (ShOwn, ''/run''), (ShOwn, ji_home i)]
     @ map (Pair (ShWritable PrHome)) (home_binds DOTDIR_RW (ji_home i) (ji_existing_paths i))
     @ map (Pair ShReadOnly)
         (filter (ji_exists i) (map (pjoin (ji_home i)) DOTFILE_RO)
          @ agent_binds i @ [ji_iw_binary i] @ read_only_at i None)
     @ [(ShWritable PrProject, ca_project (ji_args i))]
     @ map (Pair ShReadOnly) (read_only_at i (Some PrProject))
     @ map (Pair (ShWritable PrWorktree)) (worktree_folders (ji_worktree i))
     @ map (Pair ShReadOnly) (read_only_at i (Some PrWorktree))"

definition shown_by :: "(shown_as \<times> path) list \<Rightarrow> path \<Rightarrow> (shown_as \<times> path) option" where
  "shown_by binds folder = List.find (\<lambda>(_, bind). under folder bind) (List.rev binds)"

definition pinned_places :: "jail_inputs \<Rightarrow> path list" where
  "pinned_places i =
     [ji_iw_config_real i] @ ji_iw_config_shown i
     @ (if ca_identity (ji_args i) then ji_records_dirs i else [])
     @ map dp_abs (ji_hide_paths i) @ map dp_abs (ji_linked_masks i) @ map dp_abs (ji_deny_paths i)
     @ ca_extra_ro (ji_args i)"

definition plain :: "path \<Rightarrow> bool" where
  "plain p \<longleftrightarrow> list_all (\<lambda>c. case c of RootDir \<Rightarrow> True | Normal _ \<Rightarrow> True | _ \<Rightarrow> False) (components p)"

fun pin_walk ::
  "jail_inputs \<Rightarrow> path list \<Rightarrow> (pin_root \<times> path) list \<Rightarrow> (pin_root \<times> path) list" where
  "pin_walk i [] pins = pins"
| "pin_walk i (folder # fs) pins =
     (if under (ji_home i) folder then pins
      else case shown_by (jail_binds i) folder of
        None \<Rightarrow> pins
      | Some (how, bind) \<Rightarrow>
          (case how of
             ShOwn \<Rightarrow> pins
           | ShReadOnly \<Rightarrow> pin_walk i fs pins
           | ShWritable kind \<Rightarrow>
               if path_eq bind folder \<or> path_in (map snd pins) folder then pin_walk i fs pins
               else pin_walk i fs (pins @ [(kind, folder)])))"

definition linux_pins :: "jail_inputs \<Rightarrow> (pin_root \<times> path) list" where
  "linux_pins i =
     sort_key (\<lambda>(_, folder). length (components folder))
       (fold (\<lambda>place. pin_walk i (tl (ancestors place))) (filter plain (pinned_places i)) [])"

definition held_fd :: "jail_inputs \<Rightarrow> path \<Rightarrow> nat option" where
  "held_fd i place = map_option snd (List.find (\<lambda>(at, _). path_eq at place) (ji_bind_fds i))"

definition hold_worktree_dir :: "path \<Rightarrow> (path \<times> path \<times> bool) list \<Rightarrow> (path \<times> path \<times> bool) list" where
  "hold_worktree_dir dir out =
     (if path_in (map fst out) dir then
        (let k = length (takeWhile (\<lambda>(at, _, _). \<not> path_eq at dir) out);
             (at, host, _) = out ! k
         in out[k := (at, host, True)])
      else out @ [(dir, dir, True)])"

definition hold_read_only ::
  "jail_inputs \<Rightarrow> path \<Rightarrow> (path \<times> path \<times> bool) list \<Rightarrow> (path \<times> path \<times> bool) list" where
  "hold_read_only i dest out =
     (if path_in (map fst out) dest then out
      else out @ [(dest, extra_ro_source (ji_args i) dest, True)])"

definition places_bound_from_descriptors :: "jail_inputs \<Rightarrow> (path \<times> path \<times> bool) list" where
  "places_bound_from_descriptors i =
     fold (hold_read_only i) (ca_extra_ro (ji_args i))
       (fold hold_worktree_dir (worktree_folders (ji_worktree i))
         (map (\<lambda>(_, folder). (folder, folder, False)) (linux_pins i)))"

subsection \<open>The arguments of bubblewrap\<close>

datatype jail_op =
    OpSeccomp nat
  | OpRoBind string string
  | OpRoBindTry string string
  | OpRoBindFd nat string
  | OpRoBindData nat string
  | OpBind string string
  | OpBindFd nat string
  | OpTmpfs string
  | OpSymlink string string
  | OpDev string
  | OpProc string
  | OpChdir string
  | OpDieWithParent
  | OpUnshare string
  | OpCapDropAll
  | OpHostname string
  | OpNewSession
  | OpSetenv string string
  | OpInfoFd nat

definition SECCOMP_OPTION :: string where "SECCOMP_OPTION = ''--seccomp''"
definition JAIL_NAMESPACES :: "string list" where
  "JAIL_NAMESPACES = [''--unshare-pid'', ''--unshare-uts'', ''--unshare-ipc'']"
definition CAP_DROP_ALL :: "string list" where "CAP_DROP_ALL = [''--cap-drop'', ''ALL'']"

fun op_args :: "jail_op \<Rightarrow> string list" where
  "op_args (OpSeccomp fd) = [SECCOMP_OPTION, show_nat fd]"
| "op_args (OpRoBind src dest) = [''--ro-bind'', src, dest]"
| "op_args (OpRoBindTry src dest) = [''--ro-bind-try'', src, dest]"
| "op_args (OpRoBindFd fd dest) = [''--ro-bind-fd'', show_nat fd, dest]"
| "op_args (OpRoBindData fd dest) = [''--ro-bind-data'', show_nat fd, dest]"
| "op_args (OpBind src dest) = [''--bind'', src, dest]"
| "op_args (OpBindFd fd dest) = [''--bind-fd'', show_nat fd, dest]"
| "op_args (OpTmpfs dest) = [''--tmpfs'', dest]"
| "op_args (OpSymlink to dest) = [''--symlink'', to, dest]"
| "op_args (OpDev dest) = [''--dev'', dest]"
| "op_args (OpProc dest) = [''--proc'', dest]"
| "op_args (OpChdir dir) = [''--chdir'', dir]"
| "op_args OpDieWithParent = [''--die-with-parent'']"
| "op_args (OpUnshare opt) = [opt]"
| "op_args OpCapDropAll = CAP_DROP_ALL"
| "op_args (OpHostname h) = [''--hostname'', h]"
| "op_args OpNewSession = [''--new-session'']"
| "op_args (OpSetenv n v) = [''--setenv'', n, v]"
| "op_args (OpInfoFd fd) = [''--info-fd'', show_nat fd]"

definition fd_op :: "nat option \<Rightarrow> (nat \<Rightarrow> jail_op) \<Rightarrow> jail_op list" where
  "fd_op fd f = (case fd of None \<Rightarrow> [] | Some n \<Rightarrow> [f n])"

definition bind_op :: "path \<Rightarrow> jail_op" where
  "bind_op p = OpBind (to_string_lossy p) (to_string_lossy p)"

definition ro_bind_op :: "path \<Rightarrow> jail_op" where
  "ro_bind_op p = OpRoBind (to_string_lossy p) (to_string_lossy p)"

definition tmpfs_op :: "path \<Rightarrow> jail_op" where
  "tmpfs_op p = OpTmpfs (to_string_lossy p)"

text \<open>A bind from the descriptor the launcher opened, where it opened one.\<close>

definition held_bind_op :: "jail_inputs \<Rightarrow> path \<Rightarrow> jail_op" where
  "held_bind_op i p =
     (case held_fd i p of Some fd \<Rightarrow> OpBindFd fd (to_string_lossy p) | None \<Rightarrow> bind_op p)"

definition pins_of :: "jail_inputs \<Rightarrow> pin_root \<Rightarrow> jail_op list" where
  "pins_of i kind =
     map (\<lambda>(_, folder). held_bind_op i folder) (filter (\<lambda>(root, _). root = kind) (linux_pins i))"

definition read_only_binds :: "jail_inputs \<Rightarrow> pin_root option \<Rightarrow> jail_op list" where
  "read_only_binds i root =
     map (\<lambda>dest. case held_fd i dest of
            Some fd \<Rightarrow> OpRoBindFd fd (to_string_lossy dest)
          | None \<Rightarrow> OpRoBindTry (to_string_lossy (extra_ro_source (ji_args i) dest)) (to_string_lossy dest))
       (read_only_at i root)"

text \<open>An empty folder over a folder, an empty file over a file.\<close>

definition cover_op :: "deny_path \<Rightarrow> jail_op" where
  "cover_op d =
     (if dp_is_dir d then tmpfs_op (dp_abs d) else OpRoBind ''/dev/null'' (to_string_lossy (dp_abs d)))"

definition system_ops :: "jail_inputs \<Rightarrow> jail_op list" where
  "system_ops i =
     [OpRoBind ''/usr'' ''/usr'', OpRoBind ''/etc'' ''/etc'', OpRoBind ''/sys'' ''/sys'']
     @ (if ji_usr_merged i then
          [OpSymlink ''usr/bin'' ''/bin'', OpSymlink ''usr/lib'' ''/lib'',
           OpSymlink ''usr/lib64'' ''/lib64'', OpSymlink ''usr/sbin'' ''/sbin'']
        else map (\<lambda>d. OpRoBindTry d d) [''/bin'', ''/lib'', ''/lib64'', ''/sbin''])
     @ [OpDev ''/dev'', OpProc ''/proc'', OpTmpfs ''/tmp'', OpTmpfs ''/run'']
     @ (case ji_resolv_conf i of
          None \<Rightarrow> []
        | Some t \<Rightarrow> [OpRoBindTry (to_string_lossy t) (to_string_lossy t)])"

definition iw_folder_ops :: "jail_inputs \<Rightarrow> jail_op list" where
  "iw_folder_ops i =
     [tmpfs_op (iw_config_dir i)]
     @ (if to_string_lossy (ji_iw_config_real i) \<noteq> to_string_lossy (iw_config_dir i)
        then [tmpfs_op (ji_iw_config_real i)] else [])
     @ map tmpfs_op (ji_iw_config_shown i)"

definition shares_claude :: "jail_inputs \<Rightarrow> bool" where
  "shares_claude i \<longleftrightarrow> ca_identity (ji_args i) \<and> ji_exists i (pjoin (ji_home i) ''.claude'')"

definition claude_settings_ops :: "jail_inputs \<Rightarrow> jail_op list" where
  "claude_settings_ops i =
     (let kept = pjoin (ji_home i) CLAUDE_SETTINGS_KEPT;
          link = pjoin (ji_home i) CLAUDE_SETTINGS;
          covered = list_ex (\<lambda>other. under kept other \<or> paths_overlap other link)
            (map dp_abs (ji_hide_paths i @ ji_deny_paths i) @ ca_extra_ro (ji_args i))
      in if shares_claude i \<and> cs_settings_kept (ji_claude_state i) \<and> \<not> covered
         then [OpSymlink (to_string_lossy kept) (to_string_lossy link)] else [])"

definition GATE_VERB :: string where "GATE_VERB = ''contain-gate''"

definition JAIL_RECORD_PATH :: string where "JAIL_RECORD_PATH = ''/run/innerwarden/instance.json''"
definition SYSTEM_PROFILES_MARKER_PATH :: string where
  "SYSTEM_PROFILES_MARKER_PATH = ''/run/innerwarden/system-profiles-root''"


definition gated_child :: "path \<Rightarrow> string \<Rightarrow> string list \<Rightarrow> string list" where
  "gated_child iw_binary instance_id child =
     [to_string_lossy iw_binary, GATE_VERB, ''--instance'', instance_id, ''--''] @ child"

definition jail_child :: "jail_inputs \<Rightarrow> string list" where
  "jail_child i =
     (case ji_gate_instance i of
        Some inst \<Rightarrow> gated_child (ji_iw_binary i) inst (ca_child (ji_args i))
      | None \<Rightarrow> ca_child (ji_args i))"

text \<open>What is mounted first, then the work, then what covers it, then the rest of the options.\<close>

definition home_ops :: "jail_inputs \<Rightarrow> jail_op list" where
  "home_ops i =
     [tmpfs_op (ji_home i)]
     @ map bind_op (home_binds DOTDIR_RW (ji_home i) (ji_existing_paths i))
     @ pins_of i PrHome
     @ iw_folder_ops i
     @ map ro_bind_op (filter (ji_exists i) (map (pjoin (ji_home i)) DOTFILE_RO))
     @ claude_settings_ops i
     @ map ro_bind_op (agent_binds i @ [ji_iw_binary i])
     @ read_only_binds i None"

definition work_ops :: "jail_inputs \<Rightarrow> jail_op list" where
  "work_ops i =
     (let project = ca_project (ji_args i)
      in [bind_op project, OpChdir (to_string_lossy project)]
         @ pins_of i PrProject @ read_only_binds i (Some PrProject)
         @ map (held_bind_op i) (worktree_folders (ji_worktree i))
         @ pins_of i PrWorktree @ read_only_binds i (Some PrWorktree))"

definition cover_ops :: "jail_inputs \<Rightarrow> jail_op list" where
  "cover_ops i =
     (if shares_claude i then map tmpfs_op (cs_own_folders (ji_claude_state i)) else [])
     @ map tmpfs_op (protected_host_paths i)
     @ (if ca_identity (ji_args i) then map tmpfs_op (ji_records_dirs i) else [])
     @ map cover_op (ji_hide_paths i) @ map cover_op (ji_deny_paths i) @ map cover_op (ji_linked_masks i)"

definition data_ops :: "jail_inputs \<Rightarrow> jail_op list" where
  "data_ops i =
     fd_op (ji_profiles_marker_fd i) (\<lambda>fd. OpRoBindData fd SYSTEM_PROFILES_MARKER_PATH)
     @ (if ca_identity (ji_args i) then fd_op (ji_key_fd i) (\<lambda>fd. OpRoBindData fd JAIL_SPKI_PIN_PATH) else [])
     @ fd_op (ji_record_fd i) (\<lambda>fd. OpRoBindData fd JAIL_RECORD_PATH)"

definition life_ops :: "jail_inputs \<Rightarrow> jail_op list" where
  "life_ops i =
     OpDieWithParent # map OpUnshare JAIL_NAMESPACES
     @ (if ca_identity (ji_args i) then [] else fd_op (ji_seccomp_fd i) OpSeccomp)
     @ (if ca_identity (ji_args i) then [OpCapDropAll] else [])
     @ [OpHostname ''ai-sandbox'']
     @ (if ji_stdin_is_tty i then [] else [OpNewSession])
     @ (if ca_identity (ji_args i) then map (\<lambda>(n, v). OpSetenv n v) (ji_child_env i) else [])
     @ fd_op (ji_info_fd i) OpInfoFd"

definition jail_ops :: "jail_inputs \<Rightarrow> jail_op list" where
  "jail_ops i =
     (if ca_identity (ji_args i) then fd_op (ji_seccomp_fd i) OpSeccomp else [])
     @ system_ops i @ home_ops i @ work_ops i @ cover_ops i @ data_ops i @ life_ops i"

definition JAIL_SUPPRESS_CONFIG :: string where "JAIL_SUPPRESS_CONFIG = ''/dev/null''"
definition JAIL_NO_CONFIG :: string where "JAIL_NO_CONFIG = ''/dev/null''"
definition HOOK_AGENT_ENV :: string where "HOOK_AGENT_ENV = ''IW_HOOK_AGENT''"

definition compute_jail_env :: "jail_inputs \<Rightarrow> (string \<times> string) list" where
  "compute_jail_env i =
     [(''IW_GRAPH_FILE'', to_string_lossy (jail_graph_file i)),
      (''IW_LLM_CONFIG'', JAIL_NO_CONFIG), (''IW_NOTIFY_CONFIG'', JAIL_NO_CONFIG),
      (''IW_GUARD_SESSION'', JAIL_SESSION), (''IW_SUPPRESS_CONFIG'', JAIL_SUPPRESS_CONFIG)]
     @ (if ca_identity (ji_args i) then [(HOOK_AGENT_ENV, ca_agent (ji_args i))] else [])"

record linux_jail_plan =
  ljp_bwrap_args :: "string list"
  ljp_env :: "(string \<times> string) list"
  ljp_rlimit_nofile :: nat

definition build_linux_jail :: "jail_inputs \<Rightarrow> contain_error + linux_jail_plan" where
  "build_linux_jail i =
     rbind (validate_jail_inputs i) (\<lambda>_.
       if ji_iw_config_link i
       then Inl (Unsupported (IwFolderLink (iw_config_dir i) (ji_iw_config_real i)))
       else Inr \<lparr>ljp_bwrap_args = concat (map op_args (jail_ops i)) @ [''--''] @ jail_child i,
                 ljp_env = compute_jail_env i, ljp_rlimit_nofile = 65536\<rparr>)"

subsection \<open>What the launcher leaves out first\<close>

definition extra_paths_left_out :: "jail_inputs \<Rightarrow> bool \<Rightarrow> (path \<times> refusal) list" where
  "extra_paths_left_out i macos =
     (let protected = protected_host_paths i; hidden = places_the_jail_hides i macos
      in concat (map (\<lambda>p. case extra_ro_refusal i hidden p macos of None \<Rightarrow> [] | Some why \<Rightarrow> [(p, why)])
                  (ca_extra_ro (ji_args i)))
         @ concat (map (\<lambda>p. case extra_path_refusal i protected BkWritable p of
                                None \<Rightarrow> [] | Some why \<Rightarrow> [(p, why)])
                    (ca_extra_rw (ji_args i))))"

definition leave_out_extra_paths :: "contain_args \<Rightarrow> (path \<times> refusal) list \<Rightarrow> contain_args" where
  "leave_out_extra_paths a left =
     (let out = (\<lambda>p. list_ex (\<lambda>(gone, _). path_eq gone p) left)
      in a\<lparr>ca_extra_ro := filter (\<lambda>p. \<not> out p) (ca_extra_ro a),
           ca_extra_rw := filter (\<lambda>p. \<not> out p) (ca_extra_rw a),
           ca_extra_ro_sources := filter (\<lambda>(dest, _). \<not> out dest) (ca_extra_ro_sources a)\<rparr>)"

subsection \<open>The worktree of the project\<close>

datatype worktree_left =
    WlNotThere path
  | WlNoFolder path
  | WlLink path
  | WlNoBackLink
  | WlOtherProject path
  | WlNotInWorktrees path
  | WlNotGitDir path
  | WlNotYours path
  | WlPlace path
  | WlHidden path path "path option"

datatype worktree_planned = WpKept | WpShownAnyway | WpLeft worktree_left

text \<open>The home folders every jail shows writable, on each OS.\<close>

definition MACOS_HOME_WRITABLE :: "string list" where
  "MACOS_HOME_WRITABLE =
     [''.claude'', ''.cache'', ''.local'', ''.cargo'', ''.npm'', ''.rustup'', ''.config'']"

definition home_folders_every_jail_writes :: "bool \<Rightarrow> string list" where
  "home_folders_every_jail_writes macos = (if macos then MACOS_HOME_WRITABLE else DOTDIR_RW)"

definition every_jail_writes :: "bool \<Rightarrow> string \<Rightarrow> bool" where
  "every_jail_writes macos name \<longleftrightarrow>
     name \<in> set (home_folders_every_jail_writes macos) \<and> name \<notin> set DOTDIR_DENY"

definition home_folder_name :: "path \<Rightarrow> path \<Rightarrow> string option" where
  "home_folder_name home folder = map_option to_string_lossy (first_below home folder)"

definition place_left_among :: "bool \<Rightarrow> path list \<Rightarrow> path \<Rightarrow> (path \<Rightarrow> path list) \<Rightarrow> bool" where
  "place_left_among macos homes folder never_shows \<longleftrightarrow>
     list_ex (\<lambda>home.
       under home folder
       \<or> (case home_folder_name home folder of
            None \<Rightarrow> False | Some name \<Rightarrow> prefix ''.'' name \<and> \<not> every_jail_writes macos name)
       \<or> list_ex (paths_overlap folder) (never_shows home)) homes"

definition worktree_place_left :: "bool \<Rightarrow> path list \<Rightarrow> path \<Rightarrow> bool" where
  "worktree_place_left macos homes folder = place_left_among macos homes folder jail_never_shows"

definition written_anyway :: "bool \<Rightarrow> path \<Rightarrow> path \<Rightarrow> path \<Rightarrow> bool" where
  "written_anyway macos home project folder \<longleftrightarrow>
     under folder project
     \<or> (case home_folder_name home folder of None \<Rightarrow> False | Some name \<Rightarrow> every_jail_writes macos name)"

definition worktree_shown_anyway :: "bool \<Rightarrow> path \<Rightarrow> path \<Rightarrow> path \<Rightarrow> bool" where
  "worktree_shown_anyway macos home project folder \<longleftrightarrow>
     written_anyway macos home project folder
     \<and> \<not> list_ex (paths_overlap folder) (jail_never_shows home)"

definition why_worktree_left :: "jail_inputs \<Rightarrow> path list \<Rightarrow> path \<Rightarrow> worktree_left" where
  "why_worktree_left i protected folder =
     (case List.find (paths_overlap folder) protected of
        Some place \<Rightarrow> WlHidden folder place None
      | None \<Rightarrow>
        (case List.find (\<lambda>(_, target). paths_overlap folder target) (ji_hidden_targets i) of
           Some (nominal, target) \<Rightarrow> WlHidden folder target (Some nominal)
         | None \<Rightarrow> WlPlace folder))"

definition worktree_planned :: "bool \<Rightarrow> jail_inputs \<Rightarrow> worktree_planned" where
  "worktree_planned macos i =
     (case ji_worktree i of
        None \<Rightarrow> WpKept
      | Some wt \<Rightarrow>
          let folders = [wt_git_dir wt, wt_common_dir wt];
              anyway = list_all (written_anyway macos (ji_home i) (ca_project (ji_args i))) folders;
              protected = protected_host_paths i;
              ro = map (extra_ro_source (ji_args i)) (ca_extra_ro (ji_args i)) @ ca_extra_ro (ji_args i)
          in case List.find (\<lambda>f. bind_refusal i protected BkWorktree f True \<noteq> None) folders of
               Some folder \<Rightarrow>
                 if anyway then WpShownAnyway else WpLeft (why_worktree_left i protected folder)
             | None \<Rightarrow>
                 if anyway \<and> \<not> list_ex (\<lambda>p. list_ex (\<lambda>f. paths_overlap f p) folders) ro
                 then WpShownAnyway else WpKept)"

end
