(* ===== verification/JailSafe.thy ===== *)
theory JailSafe
  imports Jail
begin

text \<open>
  What a Linux jail keeps: nothing of a hidden place shows, nothing of the host is shown or written
  but the folders the jail is for, no folder above a cover can be renamed, a read-only path stays so,
  and the arguments say nothing but the operations.
\<close>

subsection \<open>Layers\<close>

text \<open>A list of layers, each over one place: at a path, the last layer that holds it shows.\<close>

locale overlay =
  fixes spot :: "'m \<Rightarrow> path option"
    and top :: "'m list \<Rightarrow> path \<Rightarrow> 'm option"
  assumes top_nil: "top [] p = None"
    and top_snoc: "top (ms @ [m]) p =
      (if (\<exists>d. spot m = Some d \<and> under p d) then Some m else top ms p)"
begin

lemma top_append: "top (xs @ ys) p = (case top ys p of Some m \<Rightarrow> Some m | None \<Rightarrow> top xs p)"
  by (induction ys rule: rev_induct)
    (auto simp: top_nil top_snoc simp del: append_assoc simp flip: append_assoc)

lemma top_SomeD: "top ms p = Some m \<Longrightarrow> m \<in> set ms \<and> (\<exists>d. spot m = Some d \<and> under p d)"
  by (induction ms rule: rev_induct) (auto simp: top_nil top_snoc split: if_splits)

lemma top_None: "top ms p = None \<longleftrightarrow> (\<forall>m\<in>set ms. \<forall>d. spot m = Some d \<longrightarrow> \<not> under p d)"
  by (induction ms rule: rev_induct) (auto simp: top_nil top_snoc)

lemma top_covered:
  "m \<in> set ms \<Longrightarrow> spot m = Some d \<Longrightarrow> under p d \<Longrightarrow> \<exists>m'\<in>set ms. top ms p = Some m'"
  using top_None[of ms p] top_SomeD[of ms p] by (cases "top ms p") auto

lemma top_over:
  "m \<in> set ys \<Longrightarrow> spot m = Some d \<Longrightarrow> under p d \<Longrightarrow> top (xs @ ys) p = top ys p"
  using top_covered[of m ys d p] by (auto simp: top_append)

end

text \<open>The place an operation is laid at. A link is not laid over anything: what is behind it is
  shown at its own place.\<close>

fun op_dest :: "jail_op \<Rightarrow> path option" where
  "op_dest (OpRoBind _ d) = Some d"
| "op_dest (OpRoBindTry _ d) = Some d"
| "op_dest (OpRoBindFd _ d) = Some d"
| "op_dest (OpRoBindData _ d) = Some d"
| "op_dest (OpBind _ d) = Some d"
| "op_dest (OpBindFd _ d) = Some d"
| "op_dest (OpTmpfs d) = Some d"
| "op_dest (OpDev d) = Some d"
| "op_dest (OpProc d) = Some d"
| "op_dest _ = None"

fun op_writes :: "jail_op \<Rightarrow> bool" where
  "op_writes (OpBind _ _) = True"
| "op_writes (OpBindFd _ _) = True"
| "op_writes _ = False"

fun op_shows_host :: "jail_op \<Rightarrow> bool" where
  "op_shows_host (OpRoBind src _) = (src \<noteq> ''/dev/null'')"
| "op_shows_host (OpRoBindTry _ _) = True"
| "op_shows_host (OpRoBindFd _ _) = True"
| "op_shows_host op = op_writes op"

text \<open>What the jail shows at a path.\<close>

definition view :: "jail_op list \<Rightarrow> path \<Rightarrow> jail_op option" where
  "view ops q =
     List.find (\<lambda>op. case op_dest op of Some d \<Rightarrow> under q d | None \<Rightarrow> False) (List.rev ops)"

interpretation jail: overlay op_dest view
  by unfold_locales (auto simp: view_def split: option.splits)

interpretation binds: overlay "\<lambda>(_ :: shown_as, bind). Some bind" shown_by
  by unfold_locales (auto simp: shown_by_def)

lemma op_writes_shows: "op_writes op \<Longrightarrow> op_shows_host op"
  by (cases op) auto

subsection \<open>Text\<close>

definition text_jail :: "jail_inputs \<Rightarrow> bool" where
  "text_jail i \<longleftrightarrow>
     list_all is_utf8
       ([ji_home i, ji_iw_binary i, ca_project (ji_args i), ji_iw_config_real i]
        @ ji_iw_config_shown i @ agent_binds i @ worktree_folders (ji_worktree i)
        @ ca_extra_ro (ji_args i) @ map fst (ca_extra_ro_sources (ji_args i))
        @ ji_records_dirs i @ map dp_abs (ji_hide_paths i @ ji_deny_paths i @ ji_linked_masks i)
        @ cs_own_folders (ji_claude_state i)
        @ (case ji_resolv_conf i of None \<Rightarrow> [] | Some t \<Rightarrow> [t]))"

lemma text_jailD:
  assumes "text_jail i"
  shows "is_utf8 (ji_home i)" "is_utf8 (ji_iw_binary i)" "is_utf8 (ca_project (ji_args i))"
    "is_utf8 (ji_iw_config_real i)"
    "p \<in> set (ji_iw_config_shown i) \<Longrightarrow> is_utf8 p"
    "p \<in> set (agent_binds i) \<Longrightarrow> is_utf8 p"
    "p \<in> set (worktree_folders (ji_worktree i)) \<Longrightarrow> is_utf8 p"
    "p \<in> set (ca_extra_ro (ji_args i)) \<Longrightarrow> is_utf8 p"
    "p \<in> set (ji_records_dirs i) \<Longrightarrow> is_utf8 p"
    "d \<in> set (ji_hide_paths i) \<Longrightarrow> is_utf8 (dp_abs d)"
    "d \<in> set (ji_deny_paths i) \<Longrightarrow> is_utf8 (dp_abs d)"
    "d \<in> set (ji_linked_masks i) \<Longrightarrow> is_utf8 (dp_abs d)"
    "p \<in> set (cs_own_folders (ji_claude_state i)) \<Longrightarrow> is_utf8 p"
    "ji_resolv_conf i = Some t \<Longrightarrow> is_utf8 t"
  using assms by (auto simp: text_jail_def list_all_iff)

lemma names_text: "n \<in> set (DOTDIR_RW @ DOTFILE_RO @ JAIL_HIDDEN_DOTDIRS @ JAIL_HIDDEN_CONFIG_DIR #
    JAIL_HIDDEN_MACOS_HOME) \<Longrightarrow> is_utf8 n"
  by (auto simp: DOTDIR_RW_def DOTFILE_RO_def JAIL_HIDDEN_DOTDIRS_def JAIL_HIDDEN_CONFIG_DIR_def
      JAIL_HIDDEN_MACOS_HOME_def)

lemma pjoin_name_text: "is_utf8 home \<Longrightarrow> n \<in> set (DOTDIR_RW @ DOTFILE_RO @ JAIL_HIDDEN_DOTDIRS @
    JAIL_HIDDEN_CONFIG_DIR # JAIL_HIDDEN_MACOS_HOME) \<Longrightarrow> is_utf8 (pjoin home n)"
  by (rule is_utf8_pjoin[OF _ names_text])

lemma home_binds_text:
  "is_utf8 home \<Longrightarrow> set names \<subseteq> set (DOTDIR_RW @ DOTFILE_RO) \<Longrightarrow> p \<in> set (home_binds names home ex)
    \<Longrightarrow> is_utf8 p"
  unfolding home_binds_def by (auto intro!: pjoin_name_text)

lemma protected_text:
  assumes "text_jail i" "p \<in> set (protected_host_paths i)"
  shows "is_utf8 p"
proof -
  have "p \<in> set (jail_never_shows (ji_home i) @ [iw_config_dir i, ji_iw_config_real i] @ ji_iw_config_shown i)"
    using assms(2) path_sort_dedup_sub unfolding protected_host_paths_def by blast
  then show ?thesis
    using assms(1) by (auto simp: jail_never_shows_def iw_config_dir_def text_jailD intro!: pjoin_name_text)
qed

lemma pinned_text: "text_jail i \<Longrightarrow> p \<in> set (pinned_places i) \<Longrightarrow> is_utf8 p"
  by (auto simp: pinned_places_def text_jailD split: if_splits)

subsection \<open>The pins\<close>

lemma pin_walk_mono: "set pins \<subseteq> set (pin_walk i fs pins)"
  by (induction i fs pins rule: pin_walk.induct) (auto split: option.splits shown_as.splits)

lemma pin_walk_step:
  "pin_walk i (g # fs) pins = pins \<or> pin_walk i (g # fs) pins = pin_walk i fs pins
    \<or> (\<exists>k b. shown_by (jail_binds i) g = Some (ShWritable k, b)
          \<and> pin_walk i (g # fs) pins = pin_walk i fs (pins @ [(k, g)]))"
proof (cases "shown_by (jail_binds i) g")
  case (Some x)
  obtain how b where "x = (how, b)" by fastforce
  then show ?thesis using Some by (cases how) auto
qed simp

lemma pin_walk_sound:
  "(k, f) \<in> set (pin_walk i fs pins) \<Longrightarrow>
    (k, f) \<in> set pins \<or> f \<in> set fs \<and> (\<exists>b. shown_by (jail_binds i) f = Some (ShWritable k, b))"
proof (induction fs arbitrary: pins)
  case (Cons g fs)
  then consider "(k, f) \<in> set pins" | "(k, f) \<in> set (pin_walk i fs pins)"
    | k' b where "shown_by (jail_binds i) g = Some (ShWritable k', b)"
        "(k, f) \<in> set (pin_walk i fs (pins @ [(k', g)]))"
    using pin_walk_step[of i g fs pins] by metis
  then show ?case
  proof cases
    case 3
    then show ?thesis using Cons.IH[OF 3(2)] by auto
  qed (auto dest: Cons.IH)
qed simp

lemma fold_pin_walk_mono: "set pins \<subseteq> set (fold (\<lambda>place. pin_walk i (f place)) ps pins)"
  using pin_walk_mono by (induction ps arbitrary: pins) force+

lemma fold_pin_walk_sound:
  "(k, g) \<in> set (fold (\<lambda>place. pin_walk i (f place)) ps pins) \<Longrightarrow>
    (k, g) \<in> set pins \<or> (\<exists>p\<in>set ps. g \<in> set (f p) \<and> (\<exists>b. shown_by (jail_binds i) g = Some (ShWritable k, b)))"
  by (induction ps arbitrary: pins) (auto dest: pin_walk_sound)

lemma linux_pins_sound:
  assumes "(k, f) \<in> set (linux_pins i)"
  obtains p b where "p \<in> set (pinned_places i)" "f \<in> set (ancestors p)"
    "shown_by (jail_binds i) f = Some (ShWritable k, b)"
proof -
  from assms obtain p b where "p \<in> set (filter plain (pinned_places i))" "f \<in> set (tl (ancestors p))"
    "shown_by (jail_binds i) f = Some (ShWritable k, b)"
    by (auto simp: linux_pins_def dest!: fold_pin_walk_sound)
  then show thesis using that by (cases "ancestors p") auto
qed

subsection \<open>Nothing of a hidden place shows\<close>

definition hidden_places :: "jail_inputs \<Rightarrow> path list" where
  "hidden_places i =
     protected_host_paths i @ (if ca_identity (ji_args i) then ji_records_dirs i else [])
     @ map dp_abs (ji_hide_paths i @ ji_deny_paths i @ ji_linked_masks i)"

lemma op_dest_makers [simp]:
  "op_dest (tmpfs_op p) = Some (to_string_lossy p)"
  "op_dest (bind_op p) = Some (to_string_lossy p)"
  "op_dest (ro_bind_op p) = Some (to_string_lossy p)"
  "op_dest (held_bind_op i p) = Some (to_string_lossy p)"
  "op_dest (cover_op d) = Some (to_string_lossy (dp_abs d))"
  by (simp_all add: tmpfs_op_def bind_op_def ro_bind_op_def held_bind_op_def cover_op_def split: option.splits)

lemma op_shows_makers [simp]:
  "\<not> op_shows_host (tmpfs_op p)" "\<not> op_shows_host (cover_op d)"
  "op_writes (bind_op p)" "op_writes (held_bind_op i p)" "\<not> op_writes (ro_bind_op p)"
  by (simp_all add: tmpfs_op_def bind_op_def ro_bind_op_def held_bind_op_def cover_op_def split: option.splits)

text \<open>The operations after the last bind.\<close>

definition late_ops :: "jail_inputs \<Rightarrow> jail_op list" where
  "late_ops i = cover_ops i @ data_ops i @ life_ops i"

lemma late_shows_nothing: "op \<in> set (late_ops i) \<Longrightarrow> \<not> op_shows_host op"
  by (auto simp: late_ops_def cover_ops_def data_ops_def life_ops_def fd_op_def split: option.splits if_splits)

lemma jail_ops_late:
  "\<exists>xs. jail_ops i = xs @ late_ops i"
  by (simp add: jail_ops_def late_ops_def)

lemma hidden_place_covered:
  "p \<in> set (hidden_places i) \<Longrightarrow> \<exists>op\<in>set (late_ops i). op_dest op = Some (to_string_lossy p)"
  by (auto simp: hidden_places_def late_ops_def cover_ops_def bex_Un split: if_splits)

lemma hidden_view:
  assumes "p \<in> set (hidden_places i)" "is_utf8 p" "under q p"
  shows "\<exists>op. view (jail_ops i) q = Some op \<and> \<not> op_shows_host op"
proof -
  obtain xs where x: "jail_ops i = xs @ late_ops i" using jail_ops_late by blast
  obtain op where op: "op \<in> set (late_ops i)" "op_dest op = Some p"
    using hidden_place_covered[OF assms(1)] assms(2) by auto
  have "view (jail_ops i) q = view (late_ops i) q"
    unfolding x using jail.top_over[OF op assms(3)] .
  then show ?thesis using jail.top_covered[OF op assms(3)] late_shows_nothing by auto
qed

lemma hidden_text: "text_jail i \<Longrightarrow> p \<in> set (hidden_places i) \<Longrightarrow> is_utf8 p"
  by (auto simp: hidden_places_def text_jailD dest: protected_text split: if_splits)

subsection \<open>The groups of writable binds\<close>

fun group :: "jail_inputs \<Rightarrow> pin_root \<Rightarrow> path list" where
  "group i PrHome = home_binds DOTDIR_RW (ji_home i) (ji_existing_paths i)"
| "group i PrProject = [ca_project (ji_args i)]"
| "group i PrWorktree = worktree_folders (ji_worktree i)"

definition outer_read_only :: "jail_inputs \<Rightarrow> path list" where
  "outer_read_only i =
     filter (ji_exists i) (map (pjoin (ji_home i)) DOTFILE_RO) @ agent_binds i @ [ji_iw_binary i]
     @ read_only_at i None"

text \<open>What is laid after each group and its pins.\<close>

fun after :: "jail_inputs \<Rightarrow> pin_root \<Rightarrow> path list" where
  "after i PrWorktree = read_only_at i (Some PrWorktree)"
| "after i PrProject =
     read_only_at i (Some PrProject) @ group i PrWorktree @ read_only_at i (Some PrWorktree)"
| "after i PrHome =
     outer_read_only i @ group i PrProject
     @ read_only_at i (Some PrProject) @ group i PrWorktree @ read_only_at i (Some PrWorktree)"

definition first_binds :: "jail_inputs \<Rightarrow> (shown_as \<times> path) list" where
  "first_binds i =
     map (Pair ShReadOnly) LINUX_SYSTEM_SHOWN @ [(ShOwn, ''/tmp''), (ShOwn, ''/run''), (ShOwn, ji_home i)]"

definition work_binds :: "jail_inputs \<Rightarrow> (shown_as \<times> path) list" where
  "work_binds i =
     map (Pair (ShWritable PrHome)) (group i PrHome) @ map (Pair ShReadOnly) (outer_read_only i)
     @ map (Pair (ShWritable PrProject)) (group i PrProject)
     @ map (Pair ShReadOnly) (read_only_at i (Some PrProject))
     @ map (Pair (ShWritable PrWorktree)) (group i PrWorktree)
     @ map (Pair ShReadOnly) (read_only_at i (Some PrWorktree))"

lemma jail_binds_split: "jail_binds i = first_binds i @ work_binds i"
  by (simp add: jail_binds_def first_binds_def work_binds_def outer_read_only_def)

lemma writable_bind_group: "(ShWritable k, b) \<in> set (jail_binds i) \<Longrightarrow> b \<in> set (group i k)"
  by (cases k) (auto simp: jail_binds_split first_binds_def work_binds_def)

lemma shown_byD:
  assumes "shown_by (jail_binds i) f = Some (how, b)"
  shows "(how, b) \<in> set (jail_binds i)" "under f b"
  using binds.top_SomeD[OF assms] by auto

lemma shown_by_group: "shown_by (jail_binds i) f = Some (ShWritable k, b) \<Longrightarrow> b \<in> set (group i k) \<and> under f b"
  using shown_byD writable_bind_group by blast

lemma work_folder_above: "b \<in> set (group i k) \<Longrightarrow> (ShWritable k, b) \<in> set (work_binds i)"
  by (cases k) (auto simp: work_binds_def)

text \<open>A folder in a group, with nothing laid over it afterwards, is shown by that group.\<close>

lemma top_map_Pair:
  "b \<in> set bs \<Longrightarrow> under f b \<Longrightarrow> \<exists>b'\<in>set bs. shown_by (map (Pair how) bs) f = Some (how, b')"
  using binds.top_covered[of "(how, b)" "map (Pair how) bs" b f] by auto

lemma top_map_None: "(\<forall>b\<in>set bs. \<not> under f b) \<Longrightarrow> shown_by (map (Pair how) bs) f = None"
  by (auto simp: binds.top_None)

lemma group_shows:
  assumes "b \<in> set (group i k)" "under f b" "\<forall>x\<in>set (after i k). \<not> under f x"
  shows "\<exists>b'. shown_by (jail_binds i) f = Some (ShWritable k, b')"
proof -
  obtain b' where "shown_by (map (Pair (ShWritable k)) (group i k)) f = Some (ShWritable k, b')"
    using top_map_Pair[OF assms(1,2)] by auto
  then show ?thesis using assms(3)
    by (cases k) (auto simp: jail_binds_split work_binds_def binds.top_append top_map_None simp del: group.simps)
qed

subsection \<open>What writes\<close>

definition group_ops :: "jail_inputs \<Rightarrow> pin_root \<Rightarrow> jail_op list" where
  "group_ops i k =
     (case k of
        PrHome \<Rightarrow> map bind_op (group i PrHome)
      | PrProject \<Rightarrow> [bind_op (ca_project (ji_args i)), OpChdir (to_string_lossy (ca_project (ji_args i)))]
      | PrWorktree \<Rightarrow> map (held_bind_op i) (group i PrWorktree)) @ pins_of i k"

definition early_ops :: "jail_inputs \<Rightarrow> jail_op list" where
  "early_ops i =
     (if ca_identity (ji_args i) then fd_op (ji_seccomp_fd i) OpSeccomp else [])
     @ system_ops i @ [tmpfs_op (ji_home i)]"

fun after_ops :: "jail_inputs \<Rightarrow> pin_root \<Rightarrow> jail_op list" where
  "after_ops i PrHome =
     iw_folder_ops i
     @ map ro_bind_op (filter (ji_exists i) (map (pjoin (ji_home i)) DOTFILE_RO))
     @ claude_settings_ops i
     @ map ro_bind_op (agent_binds i @ [ji_iw_binary i])
     @ read_only_binds i None"
| "after_ops i PrProject = read_only_binds i (Some PrProject)"
| "after_ops i PrWorktree = read_only_binds i (Some PrWorktree) @ late_ops i"

lemma jail_ops_groups:
  "jail_ops i = early_ops i @ group_ops i PrHome @ after_ops i PrHome @ group_ops i PrProject
     @ after_ops i PrProject @ group_ops i PrWorktree @ after_ops i PrWorktree"
  by (simp add: jail_ops_def early_ops_def home_ops_def work_ops_def late_ops_def group_ops_def Let_def)

lemma read_only_binds_dest:
  "op \<in> set (read_only_binds i root) \<Longrightarrow>
    \<exists>r\<in>set (read_only_at i root). op_dest op = Some (to_string_lossy r) \<and> \<not> op_writes op"
  by (auto simp: read_only_binds_def split: option.splits)

lemma read_only_at_bound:
  "r \<in> set (read_only_at i root) \<Longrightarrow>
    \<exists>op\<in>set (read_only_binds i root). op_dest op = Some (to_string_lossy r)"
  by (auto simp: read_only_binds_def split: option.splits)

lemma early_no_write: "op \<in> set (early_ops i) \<Longrightarrow> \<not> op_writes op"
  by (auto simp: early_ops_def system_ops_def tmpfs_op_def fd_op_def split: option.splits if_splits)

lemma after_no_write: "op \<in> set (after_ops i k) \<Longrightarrow> \<not> op_writes op"
  using late_shows_nothing[of op i] op_writes_shows[of op]
  by (cases k)
    (auto simp: iw_folder_ops_def claude_settings_ops_def tmpfs_op_def Let_def
      dest!: read_only_binds_dest split: if_splits)

text \<open>The folders laid after a group, before the next group.\<close>

fun after_group :: "jail_inputs \<Rightarrow> pin_root \<Rightarrow> path list" where
  "after_group i PrHome = outer_read_only i"
| "after_group i PrProject = read_only_at i (Some PrProject)"
| "after_group i PrWorktree = read_only_at i (Some PrWorktree)"

lemma after_group_laid:
  "x \<in> set (after_group i k) \<Longrightarrow> \<exists>op\<in>set (after_ops i k). op_dest op = Some (to_string_lossy x)"
  by (cases k) (auto simp: outer_read_only_def bex_Un dest: read_only_at_bound)

lemma group_laid:
  "x \<in> set (group i k) \<Longrightarrow> \<exists>op\<in>set (group_ops i k). op_dest op = Some (to_string_lossy x)"
  by (cases k) (auto simp: group_ops_def bex_Un)

lemma group_text:
  assumes "text_jail i" "b \<in> set (group i k)"
  shows "is_utf8 b"
  using assms by (cases k) (auto simp: text_jailD intro: home_binds_text[rotated 2])

lemma after_group_text:
  assumes "text_jail i" "x \<in> set (after_group i k)"
  shows "is_utf8 x"
proof -
  have "x \<in> set (home_binds DOTFILE_RO (ji_home i) (ji_existing_paths i)) \<Longrightarrow> is_utf8 x"
    by (rule home_binds_text[OF text_jailD(1)[OF assms(1)]]) auto
  moreover have "filter (ji_exists i) (map (pjoin (ji_home i)) DOTFILE_RO)
      = home_binds DOTFILE_RO (ji_home i) (ji_existing_paths i)"
    by (simp add: home_binds_def DOTFILE_RO_def DOTDIR_DENY_def JAIL_HIDDEN_DOTDIRS_def ji_exists_def)
  ultimately show ?thesis
    using assms by (cases k) (auto simp: outer_read_only_def read_only_at_def text_jailD)
qed

lemma pins_text: "text_jail i \<Longrightarrow> (k, f) \<in> set (linux_pins i) \<Longrightarrow> is_utf8 f"
  by (metis linux_pins_sound is_utf8_ancestors pinned_text)

lemma group_ops_dest:
  assumes "text_jail i" "op \<in> set (group_ops i k)" "op_dest op = Some d"
  shows "op_writes op \<and> (\<exists>b\<in>set (group i k). under d b)"
proof -
  consider b where "b \<in> set (group i k)" "d = to_string_lossy b" "op_writes op"
    | f where "(k, f) \<in> set (linux_pins i)" "d = to_string_lossy f" "op_writes op"
    using assms(2,3) by (cases k) (auto simp: group_ops_def pins_of_def)
  then show ?thesis
  proof cases
    case 1
    then show ?thesis using group_text[OF assms(1) 1(1)] by (auto intro!: bexI[of _ b])
  next
    case 2
    obtain b where b: "shown_by (jail_binds i) f = Some (ShWritable k, b)"
      using linux_pins_sound[OF 2(1)] by metis
    have "d = f" using 2 pins_text[OF assms(1)] by simp
    moreover have "b \<in> set (group i k)" "under f b" using shown_by_group[OF b] by auto
    ultimately show ?thesis using 2(3) by auto
  qed
qed

lemma not_over:
  assumes "view ops q = None" "\<And>x. x \<in> set xs \<Longrightarrow> \<exists>op\<in>set ops. op_dest op = Some x"
  shows "\<forall>x\<in>set xs. \<not> under q x"
  using assms unfolding jail.top_None by blast

lemma not_over_group:
  "text_jail i \<Longrightarrow> view (group_ops i k) q = None \<Longrightarrow> \<forall>x\<in>set (group i k). \<not> under q x"
  by (rule not_over) (use group_laid group_text in fastforce)+

lemma not_over_after:
  "text_jail i \<Longrightarrow> view (after_ops i k) q = None \<Longrightarrow> \<forall>x\<in>set (after_group i k). \<not> under q x"
  by (rule not_over) (use after_group_laid after_group_text in fastforce)+

text \<open>A path the jail writes is in a folder of one group, and nothing is laid over it afterwards.\<close>

lemma writer_group:
  assumes t: "text_jail i" and v: "view (jail_ops i) q = Some op" and w: "op_writes op"
  shows "\<exists>k. op \<in> set (group_ops i k) \<and> (\<exists>b\<in>set (group i k). under q b)
    \<and> (\<forall>x\<in>set (after i k). \<not> under q x)"
proof -
  note ja = v[unfolded jail_ops_groups jail.top_append]
  have aw: "view (after_ops i k) q \<noteq> Some op" "view (early_ops i) q \<noteq> Some op" for k
    using jail.top_SomeD[of _ q op] after_no_write early_no_write w by blast+
  have g: "view (group_ops i k) q = Some op \<Longrightarrow>
      op \<in> set (group_ops i k) \<and> (\<exists>b\<in>set (group i k). under q b)" for k
    using jail.top_SomeD[of "group_ops i k" q op] group_ops_dest[OF t] under_trans by blast
  have 3: "view (after_ops i PrWorktree) q = None"
    using ja aw(1)[where k=PrWorktree] by (auto split: option.splits)
  show ?thesis
  proof (cases "view (group_ops i PrWorktree) q")
    case (Some x)
    then show ?thesis using ja 3 g[of PrWorktree] not_over_after[OF t 3]
      by (intro exI[of _ PrWorktree]) simp
  next
    case None
    note w3 = this
    have 2: "view (after_ops i PrProject) q = None"
      using ja aw(1)[where k=PrProject] 3 w3 by (auto split: option.splits)
    show ?thesis
    proof (cases "view (group_ops i PrProject) q")
      case (Some x)
      then show ?thesis
        using ja 3 w3 2 g[of PrProject] not_over_after[OF t 3] not_over_after[OF t 2] not_over_group[OF t w3]
        by (intro exI[of _ PrProject]) auto
    next
      case None
      note w2 = this
      have 1: "view (after_ops i PrHome) q = None"
        using ja aw(1)[where k=PrHome] 3 w3 2 w2 by (auto split: option.splits)
      have "view (group_ops i PrHome) q = Some op"
        using ja aw(2) 3 w3 2 w2 1 by (auto split: option.splits)
      then show ?thesis
        using g[of PrHome] not_over_after[OF t 3] not_over_after[OF t 2] not_over_after[OF t 1]
          not_over_group[OF t w3] not_over_group[OF t w2]
        by (intro exI[of _ PrHome]) auto
    qed
  qed
qed

subsection \<open>No cover can be moved\<close>

lemma ancestors_split:
  "has_root p \<Longrightarrow> ancestors p = as @ f # bs \<Longrightarrow> a \<in> set as \<Longrightarrow> under a f"
proof (induction p arbitrary: as rule: ancestors.induct)
  case (1 p)
  obtain as' where as: "as = p # as'"
    using 1(3,4) by (cases as) (auto simp: ancestors.simps[of p])
  have fp: "under p f" using ancestors_above(2)[OF 1(2)] 1(3) by simp
  show ?case
  proof (cases "parent p")
    case None
    then show ?thesis using 1(3) as by (simp add: ancestors.simps[of p])
  next
    case (Some q)
    then have "ancestors q = as' @ f # bs" using 1(3) as by (simp add: ancestors.simps[of p])
    moreover have "has_root q" using parent_components[OF 1(2)] Some by simp
    ultimately show ?thesis using 1(1)[OF Some] fp 1(4) as by auto
  qed
qed

lemma pin_walk_reaches:
  assumes "\<forall>g\<in>set gs. \<not> under (ji_home i) g
      \<and> (\<exists>how b. shown_by (jail_binds i) g = Some (how, b) \<and> how \<noteq> ShOwn)"
    and "\<not> under (ji_home i) f" "shown_by (jail_binds i) f = Some (ShWritable k, b)"
  shows "path_eq b f \<or> path_in (map snd (pin_walk i (gs @ f # hs) pins)) f"
  using assms(1)
proof (induction gs arbitrary: pins)
  case Nil
  have "path_in (map snd pins) f \<Longrightarrow> path_in (map snd (pin_walk i hs pins)) f"
    using pin_walk_mono[of pins i hs] by (auto simp: path_in_def)
  moreover have "path_in (map snd (pin_walk i hs (pins @ [(k, f)]))) f"
    using pin_walk_mono[of "pins @ [(k, f)]" i hs] by (force simp: path_in_def)
  ultimately show ?case using assms(2,3) by auto
next
  case (Cons g gs)
  then obtain how b' where g: "shown_by (jail_binds i) g = Some (how, b')" "how \<noteq> ShOwn"
    "\<not> under (ji_home i) g" by auto
  then show ?case using Cons by (cases how) auto
qed

lemma fold_pin_walk_at:
  assumes "p \<in> set ps"
  shows "\<exists>pins0. set (pin_walk i (f p) pins0) \<subseteq> set (fold (\<lambda>place. pin_walk i (f place)) ps pins)"
  using assms
proof (induction ps arbitrary: pins)
  case (Cons a ps)
  show ?case
  proof (cases "p = a")
    case True
    then show ?thesis
      using fold_pin_walk_mono[of "pin_walk i (f a) pins" i f ps] by auto
  next
    case False
    then show ?thesis using Cons by auto
  qed
qed simp

lemma shown_under_work:
  assumes "b \<in> set (group i k)" "under g b"
  obtains how b' where "shown_by (jail_binds i) g = Some (how, b')" "how \<noteq> ShOwn"
proof -
  have "(ShWritable k, b) \<in> set (work_binds i)" using assms(1) by (rule work_folder_above)
  then obtain m where m: "m \<in> set (work_binds i)" "shown_by (work_binds i) g = Some m"
    using binds.top_covered[of "(ShWritable k, b)" "work_binds i" b g] assms(2) by auto
  have "fst m \<noteq> ShOwn" using m(1) by (auto simp: work_binds_def)
  moreover have "shown_by (jail_binds i) g = Some m"
    using m(2) by (simp add: jail_binds_split binds.top_append)
  ultimately show thesis using that by (cases m) auto
qed

text \<open>No writable folder holds the home.\<close>

lemma refusal_None:
  assumes "jail_refusal i macos = None"
  shows "bind_refusal i (protected_host_paths i) BkProject (ca_project (ji_args i)) False = None"
    and "b \<in> set (worktree_folders (ji_worktree i)) \<Longrightarrow>
      \<exists>kind. bind_refusal i (protected_host_paths i) kind b True = None"
    and "r \<in> set (ca_extra_ro (ji_args i)) \<Longrightarrow>
      extra_ro_refusal i (places_the_jail_hides i macos) r macos = None"
    and "ca_identity (ji_args i) \<Longrightarrow> validate_sealed i = None"
  using assms by (auto simp: jail_refusal_def Let_def worktree_folders_def split: option.splits if_splits)

lemma bind_refusal_None:
  assumes "bind_refusal i protected kind p hidden = None"
  shows "plain_absolute p" "\<not> under (ji_home i) p"
    "x \<in> set protected \<Longrightarrow> \<not> paths_overlap p x"
    "hidden \<Longrightarrow> (n, t) \<in> set (ji_hidden_targets i) \<Longrightarrow> \<not> paths_overlap p t"
  using assms by (auto simp: bind_refusal_def Let_def find_None_iff split: if_splits)

lemma home_bind_shape:
  assumes "b \<in> set (home_binds names home ex)" "set names \<subseteq> set (DOTDIR_RW @ DOTFILE_RO)" "has_root home"
  obtains n where "n \<in> set names" "b = pjoin home n" "components b = components home @ [Normal n]"
proof -
  obtain n where n: "n \<in> set names" "b = pjoin home n" using assms(1) by (auto simp: home_binds_def)
  then have "n \<in> set (DOTDIR_RW @ DOTFILE_RO)" using assms(2) by auto
  then have "\<not> has_root n" "relative_steps n = [Normal n]"
    by (auto simp: DOTDIR_RW_def DOTFILE_RO_def has_root_def relative_steps_def empty_step_def comp_of_def)
  then show thesis using that n components_pjoin[OF assms(3)] by simp
qed

lemma work_not_over_home:
  assumes "jail_refusal i False = None" "has_root (ji_home i)" "b \<in> set (group i k)"
  shows "\<not> under (ji_home i) b"
proof (cases k)
  case PrHome
  then obtain n where "components b = components (ji_home i) @ [Normal n]"
    using assms(2,3) home_bind_shape[of b DOTDIR_RW "ji_home i" "ji_existing_paths i"] by auto
  then show ?thesis by (auto simp: under_def dest: prefix_length_le)
next
  case PrProject
  then show ?thesis using assms(3) bind_refusal_None(2)[OF refusal_None(1)[OF assms(1)]] by simp
next
  case PrWorktree
  then show ?thesis using assms(3) refusal_None(2)[OF assms(1)] bind_refusal_None(2) by fastforce
qed

text \<open>A folder above a pinned place that the jail writes is a mount point.\<close>

lemma above_pinned_place:
  assumes ok: "jail_refusal i False = None" "has_root (ji_home i)" and t: "text_jail i"
    and p: "p \<in> set (pinned_places i)" "plain_absolute p"
    and f: "under p f" "\<not> path_eq p f" "has_root f"
    and k: "b \<in> set (group i k)" "under f b" "\<forall>x\<in>set (after i k). \<not> under f x"
  shows "\<exists>op\<in>set (jail_ops i). \<exists>d. op_dest op = Some d \<and> path_eq d f"
proof -
  obtain f' where f': "f' \<in> set (ancestors p)" "path_eq f' f"
    using ancestors_meet[of p f] p(2) f by auto
  have eq: "components f' = components f" using f'(2) by (simp add: path_eq_def)
  have "f' \<noteq> p" using f(2) f'(2) by auto
  then have "f' \<in> set (tl (ancestors p))" using f'(1) by (simp add: ancestors.simps[of p])
  then obtain gs hs where gs: "tl (ancestors p) = gs @ f' # hs" by (meson split_list)
  then have anc: "ancestors p = (p # gs) @ f' # hs" by (simp add: ancestors.simps[of p])
  have k': "under f' b" "\<forall>x\<in>set (after i k). \<not> under f' x" using k eq by (auto simp: under_def)
  obtain b' where b': "shown_by (jail_binds i) f' = Some (ShWritable k, b')"
    using group_shows[OF k(1) k'] by blast
  then have bg: "b' \<in> set (group i k)" "under f' b'" using shown_by_group by blast+
  have nh: "\<not> under (ji_home i) f'"
    using work_not_over_home[OF ok bg(1)] bg(2) under_trans by blast
  have between: "\<not> under (ji_home i) g
      \<and> (\<exists>how b. shown_by (jail_binds i) g = Some (how, b) \<and> how \<noteq> ShOwn)" if "g \<in> set gs" for g
  proof -
    have "under g f'" using ancestors_split[OF plain_absolute_root[OF p(2)] anc] that by simp
    then have "under g b'" "\<not> under (ji_home i) g" using bg(2) nh under_trans by blast+
    then show ?thesis using shown_under_work[OF bg(1)] by metis
  qed
  have pl: "p \<in> set (filter plain (pinned_places i))"
    using p by (simp add: plain_def plain_absolute_def)
  obtain pins0 where "set (pin_walk i (tl (ancestors p)) pins0) \<subseteq> set (linux_pins i)"
    using fold_pin_walk_at[OF pl, of i "\<lambda>p. tl (ancestors p)"] by (fastforce simp: linux_pins_def)
  then consider "path_eq b' f'" | "path_in (map snd (linux_pins i)) f'"
    using pin_walk_reaches[OF _ nh b', of gs hs pins0] between gs by (auto simp: path_in_def)
  then show ?thesis
  proof cases
    case 1
    obtain op where "op \<in> set (group_ops i k)" "op_dest op = Some b'"
      using group_laid[OF bg(1)] group_text[OF t bg(1)] by auto
    moreover have "set (group_ops i k) \<subseteq> set (jail_ops i)"
      by (cases k) (auto simp: jail_ops_groups)
    ultimately show ?thesis using 1 eq by (auto simp: path_eq_def)
  next
    case 2
    then obtain k'' g where g: "(k'', g) \<in> set (linux_pins i)" "path_eq g f'"
      by (auto simp: path_in_def)
    have "held_bind_op i g \<in> set (pins_of i k'')" using g(1) by (force simp: pins_of_def)
    then have "held_bind_op i g \<in> set (jail_ops i)"
      by (cases k'') (auto simp: jail_ops_groups group_ops_def)
    moreover have "op_dest (held_bind_op i g) = Some g" using pins_text[OF t g(1)] by simp
    ultimately show ?thesis using g(2) eq by (intro bexI[of _ "held_bind_op i g"]) (auto simp: path_eq_def)
  qed
qed

text \<open>The places hidden by their name under the home are reached through no folder the jail could
  rename but mount points.\<close>

lemma under_step:
  assumes "components b = xs @ [Normal n]" "components p = xs @ Normal m # ys" "prefix (components b) (components p)"
  shows "n = m"
  using assms by (auto simp: prefix_def)

lemma named_place_shape:
  assumes "p \<in> set (jail_never_shows home) \<or> p = pjoin home JAIL_HIDDEN_CONFIG_DIR" "has_root home"
  obtains m ys where "components p = components home @ Normal m # ys"
    "m \<in> set DOTDIR_RW \<Longrightarrow> ys = [Normal ''innerwarden'']"
proof -
  obtain n where n: "n \<in> set (JAIL_HIDDEN_DOTDIRS @ [JAIL_HIDDEN_CONFIG_DIR] @ JAIL_HIDDEN_MACOS_HOME)"
    "p = pjoin home n"
    using assms(1) by (auto simp: jail_never_shows_def)
  then have "\<not> has_root n \<and> (\<exists>m ys. relative_steps n = Normal m # ys \<and> (m \<in> set DOTDIR_RW \<longrightarrow> ys = [Normal ''innerwarden'']))"
    by (auto simp: JAIL_HIDDEN_DOTDIRS_def JAIL_HIDDEN_CONFIG_DIR_def JAIL_HIDDEN_MACOS_HOME_def has_root_def
        relative_steps_def empty_step_def comp_of_def DOTDIR_RW_def)
  then show thesis using that n(2) components_pjoin[OF assms(2)] by auto
qed

lemma above_named_place:
  assumes ok: "jail_refusal i False = None" "has_root (ji_home i)"
    and p: "p \<in> set (jail_never_shows (ji_home i)) \<or> p = iw_config_dir i"
    and pp: "\<exists>x\<in>set (protected_host_paths i). path_eq p x"
    and f: "under p f" "\<not> path_eq p f"
    and b: "b \<in> set (group i k)" "under f b"
  shows "path_eq b f"
proof -
  have pb: "under p b" using f(1) b(2) under_trans by blast
  then obtain x where x: "x \<in> set (protected_host_paths i)" "under x b"
    using pp by (auto simp: path_eq_def under_def)
  show ?thesis
  proof (cases k)
    case PrHome
    obtain n where n: "n \<in> set DOTDIR_RW" "components b = components (ji_home i) @ [Normal n]"
      using b(1) PrHome home_bind_shape[of b DOTDIR_RW "ji_home i" "ji_existing_paths i"] ok(2) by auto
    obtain m ys where m: "components p = components (ji_home i) @ Normal m # ys"
      "m \<in> set DOTDIR_RW \<Longrightarrow> ys = [Normal ''innerwarden'']"
      using named_place_shape[of p "ji_home i"] p ok(2) by (auto simp: iw_config_dir_def)
    have "n = m" using under_step[OF n(2) m(1)] pb by (simp add: under_def)
    then have "components p = components b @ [Normal ''innerwarden'']" using n m by simp
    moreover obtain zs where "components f = components b @ zs" using b(2) by (auto simp: under_def prefix_def)
    ultimately show ?thesis using f by (auto simp: under_def path_eq_def prefix_Cons)
  next
    case PrProject
    then show ?thesis
      using b(1) x bind_refusal_None(3)[OF refusal_None(1)[OF ok(1)] x(1)] by (simp add: paths_overlap_iff)
  next
    case PrWorktree
    then obtain kind where "bind_refusal i (protected_host_paths i) kind b True = None"
      using b(1) refusal_None(2)[OF ok(1)] by auto
    then show ?thesis using x bind_refusal_None(3)[OF _ x(1)] by (fastforce simp: paths_overlap_iff)
  qed
qed

lemma built_not_refused: "build_linux_jail i = Inr plan \<Longrightarrow> jail_refusal i False = None"
  by (auto simp: build_linux_jail_def validate_jail_inputs_def validate_jail_inputs_for_def
      split: option.splits)

lemma built_args:
  "build_linux_jail i = Inr plan \<Longrightarrow>
    ljp_bwrap_args plan = concat (map op_args (jail_ops i)) @ ''--'' # jail_child i"
  by (auto simp: build_linux_jail_def validate_jail_inputs_def validate_jail_inputs_for_def rbind_Inr
      split: option.splits if_splits)


definition work_folders :: "jail_inputs \<Rightarrow> path list" where
  "work_folders i = group i PrHome @ group i PrProject @ group i PrWorktree"

definition shown_folders :: "jail_inputs \<Rightarrow> path list" where
  "shown_folders i =
     LINUX_SYSTEM_SHOWN @ (case ji_resolv_conf i of None \<Rightarrow> [] | Some t \<Rightarrow> [t])
     @ work_folders i @ home_binds DOTFILE_RO (ji_home i) (ji_existing_paths i)
     @ agent_binds i @ [ji_iw_binary i] @ ca_extra_ro (ji_args i)"

lemma text_in_ascii: "list_all is_utf8 LINUX_SYSTEM_SHOWN"
  by (simp add: LINUX_SYSTEM_SHOWN_def)

lemma read_only_dest_text:
  "text_jail i \<Longrightarrow> op \<in> set (read_only_binds i root) \<Longrightarrow>
    \<exists>r\<in>set (ca_extra_ro (ji_args i)). op_dest op = Some r"
  by (auto simp: read_only_at_def text_jailD dest!: read_only_binds_dest)

lemma dotfile_binds:
  "filter (ji_exists i) (map (pjoin (ji_home i)) DOTFILE_RO) = home_binds DOTFILE_RO (ji_home i) (ji_existing_paths i)"
  by (simp add: home_binds_def DOTFILE_RO_def DOTDIR_DENY_def JAIL_HIDDEN_DOTDIRS_def ji_exists_def)

lemma dotfile_text: "text_jail i \<Longrightarrow> p \<in> set (home_binds DOTFILE_RO (ji_home i) (ji_existing_paths i)) \<Longrightarrow> is_utf8 p"
  by (rule home_binds_text[OF text_jailD(1)]) auto

lemma early_host:
  assumes "text_jail i" "op \<in> set (early_ops i)" "op_shows_host op"
  shows "\<exists>d. op_dest op = Some d \<and> (d \<in> set LINUX_SYSTEM_SHOWN \<or> ji_resolv_conf i = Some d)"
  using assms
  by (cases "ji_resolv_conf i"; cases "ji_seccomp_fd i")
    (auto simp: early_ops_def system_ops_def fd_op_def LINUX_SYSTEM_SHOWN_def text_jailD split: if_splits)

lemma shows_host_dest: "op_shows_host op \<Longrightarrow> \<exists>d. op_dest op = Some d"
  by (cases op) auto

lemma listed_shown:
  "b \<in> set (shown_folders i) \<Longrightarrow> op_dest op = Some b \<Longrightarrow>
    \<exists>d. op_dest op = Some d \<and> (\<exists>b\<in>set (shown_folders i). under d b)"
  using under_refl by blast

lemma read_only_shown_folder:
  assumes "text_jail i" "op \<in> set (read_only_binds i root)"
  shows "\<exists>d. op_dest op = Some d \<and> (\<exists>b\<in>set (shown_folders i). under d b)"
proof -
  obtain r where "r \<in> set (ca_extra_ro (ji_args i))" "op_dest op = Some r"
    using read_only_dest_text[OF assms] by blast
  then show ?thesis by (intro listed_shown[of r]) (auto simp: shown_folders_def)
qed

lemma host_op_dest:
  assumes t: "text_jail i" and op: "op \<in> set (jail_ops i)" "op_shows_host op"
  shows "\<exists>d. op_dest op = Some d \<and> (\<exists>b\<in>set (shown_folders i). under d b)"
proof -
  consider "op \<in> set (early_ops i)" | k where "op \<in> set (group_ops i k)" | k where "op \<in> set (after_ops i k)"
    using op(1) unfolding jail_ops_groups set_append Un_iff by blast
  then show ?thesis
  proof cases
    case 1
    then show ?thesis using early_host[OF t _ op(2)] by (force simp: shown_folders_def)
  next
    case 2
    obtain d where d: "op_dest op = Some d" using shows_host_dest[OF op(2)] by blast
    then obtain b where "b \<in> set (group i k)" "under d b" using 2 group_ops_dest[OF t 2 d] by auto
    then show ?thesis using d by (cases k) (auto simp: shown_folders_def work_folders_def)
  next
    case 3
    then show ?thesis
    proof (cases k)
      case PrHome
      then consider "op \<in> set (read_only_binds i None)"
        | q where "op = ro_bind_op q" "q \<in> set (home_binds DOTFILE_RO (ji_home i) (ji_existing_paths i)
            @ agent_binds i @ [ji_iw_binary i])"
        using 3 op(2) by (auto simp: dotfile_binds iw_folder_ops_def claude_settings_ops_def Let_def split: if_splits)
      then show ?thesis
      proof cases
        case 1
        then show ?thesis by (rule read_only_shown_folder[OF t])
      next
        case 2
        then have "is_utf8 q" using t dotfile_text by (auto simp: text_jailD)
        then show ?thesis using 2 by (intro listed_shown[of q]) (auto simp: shown_folders_def)
      qed
    next
      case PrProject
      then show ?thesis using 3 read_only_shown_folder[OF t] by simp
    next
      case PrWorktree
      then show ?thesis using 3 op(2) read_only_shown_folder[OF t] late_shows_nothing by auto
    qed
  qed
qed

text \<open>C1: What a built Linux jail shows and writes. At any path, what shows of the host is in one of
  the folders the jail is for and in no place it hides; what can be written is in the project, a
  worktree's folder or one of the home's seven work folders; and neither the home nor a folder above
  it can be written.\<close>

theorem jail_shows_only_its_folders:
  assumes "build_linux_jail i = Inr plan" "text_jail i" "has_root (ji_home i)"
    and v: "view (jail_ops i) q = Some op"
  shows "(op_shows_host op \<longrightarrow>
            (\<exists>b\<in>set (shown_folders i). under q b) \<and> (\<forall>p\<in>set (hidden_places i). \<not> under q p))
    \<and> (op_writes op \<longrightarrow> (\<exists>b\<in>set (work_folders i). under q b) \<and> \<not> under (ji_home i) q)"
proof (intro conjI impI)
  assume h: "op_shows_host op"
  show "\<exists>b\<in>set (shown_folders i). under q b"
    using host_op_dest[OF assms(2) _ h] jail.top_SomeD[OF v] under_trans by fastforce
  show "\<forall>p\<in>set (hidden_places i). \<not> under q p"
    using hidden_view[of _ i q] hidden_text[OF assms(2)] v h by force
next
  assume "op_writes op"
  then obtain k b where k: "b \<in> set (group i k)" "under q b"
    using writer_group[OF assms(2) v] by blast
  then show "\<exists>b\<in>set (work_folders i). under q b"
    by (cases k) (auto simp: work_folders_def)
  show "\<not> under (ji_home i) q"
    using work_not_over_home[OF built_not_refused[OF assms(1)] assms(3) k(1)] k(2) under_trans by blast
qed

text \<open>C3: A profile's read-only path stays read-only: where a program in the jail can write below it,
  it writes in the project or a worktree's folder that lies in it.\<close>

theorem read_only_path_stays:
  assumes t: "text_jail i" and r: "r \<in> set (ca_extra_ro (ji_args i))" "under q r"
    and v: "view (jail_ops i) q = Some op" "op_writes op"
  shows "\<exists>w\<in>set (ca_project (ji_args i) # worktree_folders (ji_worktree i)). under w r \<and> under q w"
proof -
  obtain k b where k: "b \<in> set (group i k)" "under q b" "\<forall>x\<in>set (after i k). \<not> under q x"
    using writer_group[OF t v] by blast
  have at: "r \<in> set (read_only_at i (read_only_in_the_work i r))" using r by (simp add: read_only_at_def)
  have not_after: "r \<notin> set (after i k)" using k(3) r(2) by blast
  have "read_only_in_the_work i r \<noteq> Some PrHome" by (simp add: read_only_in_the_work_def Let_def)
  then have "k \<noteq> PrHome"
    using not_after at by (cases "read_only_in_the_work i r"; cases "the (read_only_in_the_work i r)")
      (auto simp: outer_read_only_def)
  then have b: "b \<in> set (ca_project (ji_args i) # worktree_folders (ji_worktree i))"
    using k(1) by (cases k) auto
  have "\<not> (\<not> path_eq r b \<and> under r b)"
  proof
    assume below: "\<not> path_eq r b \<and> under r b"
    show False
    proof (cases k)
      case PrProject
      then have "read_only_in_the_work i r \<noteq> None"
        using below k(1) by (auto simp: read_only_in_the_work_def)
      then show False using not_after at PrProject
        by (cases "the (read_only_in_the_work i r)") (auto simp: read_only_in_the_work_def Let_def split: if_splits)
    next
      case PrWorktree
      then have "list_ex (\<lambda>folder. \<not> path_eq r folder \<and> under r folder) (worktree_folders (ji_worktree i))"
        using below k(1) by (auto simp: list_ex_iff)
      then have "read_only_in_the_work i r = Some PrWorktree" by (simp add: read_only_in_the_work_def)
      then show False using not_after at PrWorktree by simp
    qed (use \<open>k \<noteq> PrHome\<close> in simp)
  qed
  then have "under b r" using under_comparable[OF k(2) r(2)] by (auto simp: path_eq_def under_def)
  then show ?thesis using b k(2) by blast
qed

lemma sealed_apart:
  assumes "sealed_refusal kind b = None" "s \<in> set IDENTITY_SEALED" "under q b"
  shows "\<not> under q s"
  using assms under_comparable[OF assms(3)] by (auto simp: sealed_refusal_def find_None_iff paths_overlap_iff)

lemma view_last:
  assumes "op_dest op = Some d" "under q d"
    "\<And>op' d'. op' \<in> set ys \<Longrightarrow> op_dest op' = Some d' \<Longrightarrow> \<not> under q d'"
  shows "view (xs @ op # ys) q = Some op"
proof -
  have "view ys q = None" using assms(3) by (auto simp: jail.top_None)
  moreover have "view [op] q = Some op" using assms(1,2) by (simp add: view_def)
  ultimately show ?thesis using jail.top_append[of xs "[op] @ ys" q] jail.top_append[of "[op]" ys q] by simp
qed

lemma life_no_dest: "op \<in> set (life_ops i) \<Longrightarrow> op_dest op = None"
  by (auto simp: life_ops_def fd_op_def split: option.splits if_splits)

lemma apart_in_run: "under q JAIL_SPKI_PIN_PATH \<Longrightarrow> \<not> under q JAIL_RECORD_PATH"
  using under_comparable[of q JAIL_SPKI_PIN_PATH JAIL_RECORD_PATH]
  by (auto simp: under_def JAIL_SPKI_PIN_PATH_def JAIL_RECORD_PATH_def components_absolute has_root_def
      relative_steps_def empty_step_def comp_of_def)


subsection \<open>A jail\<close>

definition sample_args :: contain_args where
  "sample_args = contain_args_default\<lparr>ca_project := ''/home/ana/proj'', ca_child := [''claude''],
     ca_extra_ro := [''/home/ana/.local/share/claude''], ca_identity := True\<rparr>"

definition sample_jail :: jail_inputs where
  "sample_jail = \<lparr>ji_args = sample_args, ji_home = ''/home/ana'', ji_tmpdir = ''/tmp'',
     ji_iw_binary = ''/usr/local/bin/innerwarden'', ji_agent_binary = None, ji_worktree = None,
     ji_usr_merged = True, ji_stdin_is_tty = True,
     ji_existing_paths = [''/home/ana/.claude'', ''/home/ana/.config'', ''/home/ana/.local''],
     ji_iw_config_real = ''/home/ana/.config/innerwarden'', ji_iw_config_shown = [],
     ji_iw_config_link = False, ji_iw_config_left = False, ji_linked_masks = [], ji_linked_missing = [],
     ji_linked_denies = [], ji_hidden_targets = [], ji_left = [],
     ji_deny_paths = [\<lparr>dp_abs = ''/home/ana/proj/conf/.env'', dp_is_dir = False\<rparr>],
     ji_info_fd = Some 9, ji_record_fd = Some 10, ji_key_fd = Some 11, ji_profiles_marker_fd = None,
     ji_records_dirs = [''/home/ana/.local/state/innerwarden''], ji_child_env = [(''PATH'', ''/usr/bin'')],
     ji_close_userns = True, ji_seccomp_fd = Some 12, ji_hide_paths = [], ji_hide_denies = [],
     ji_hide_links = [], ji_resolv_conf = None, ji_gate_instance = None,
     ji_claude_state = \<lparr>cs_settings_kept = False, cs_own_folders = [], cs_shared = False\<rparr>,
     ji_jail_writes = [], ji_bind_fds = []\<rparr>"

lemma sample_built: "\<exists>plan. build_linux_jail sample_jail = Inr plan"
proof -
  have "\<not> isl (build_linux_jail sample_jail)" by code_simp
  then show ?thesis by (cases "build_linux_jail sample_jail") auto
qed

lemma sample_text: "text_jail sample_jail" by code_simp
lemma sample_root: "has_root (ji_home sample_jail)" by code_simp

lemma sample_state_pinned:
  "view (jail_ops sample_jail) ''/home/ana/.local/state''
    = Some (OpBind ''/home/ana/.local/state'' ''/home/ana/.local/state'')"
  by code_simp


lemma jail_shows_only_its_folders_witness:
  "(\<exists>b\<in>set (work_folders sample_jail). under ''/home/ana/.local/state'' b)
    \<and> \<not> (\<exists>p\<in>set (hidden_places sample_jail). under ''/home/ana/.local/state'' p)"
proof -
  obtain plan where plan: "build_linux_jail sample_jail = Inr plan" using sample_built by blast
  show ?thesis
    using jail_shows_only_its_folders[OF plan sample_text sample_root sample_state_pinned] by simp
qed

lemma read_only_path_stays_witness:
  "let i = sample_jail\<lparr>ji_args := sample_args\<lparr>ca_extra_ro := [''/home/ana'']\<rparr>\<rparr>
   in \<exists>w\<in>set (ca_project (ji_args i) # worktree_folders (ji_worktree i)).
        under w ''/home/ana'' \<and> under ''/home/ana/proj/a'' w"
proof -
  let ?i = "sample_jail\<lparr>ji_args := sample_args\<lparr>ca_extra_ro := [''/home/ana'']\<rparr>\<rparr>"
  have t: "text_jail ?i" by code_simp
  have r: "''/home/ana'' \<in> set (ca_extra_ro (ji_args ?i))" by simp
  have u: "under ''/home/ana/proj/a'' ''/home/ana''" by code_simp
  have v: "view (jail_ops ?i) ''/home/ana/proj/a'' = Some (OpBind ''/home/ana/proj'' ''/home/ana/proj'')"
    by code_simp
  show ?thesis using read_only_path_stays[OF t r u v] by (simp add: Let_def)
qed


subsection \<open>The arguments read back\<close>

text \<open>A reader of the options, each with as many values as bubblewrap's documentation gives it.\<close>

definition read_op0 :: "string \<Rightarrow> jail_op option" where
  "read_op0 w =
     (if w = ''--die-with-parent'' then Some OpDieWithParent
      else if w = ''--new-session'' then Some OpNewSession
      else if w \<in> set JAIL_NAMESPACES then Some (OpUnshare w)
      else None)"

definition read_op1 :: "string \<Rightarrow> string \<Rightarrow> jail_op option" where
  "read_op1 w v =
     (if w = ''--seccomp'' then Some (OpSeccomp (nat_of_digits v))
      else if w = ''--tmpfs'' then Some (OpTmpfs v)
      else if w = ''--dev'' then Some (OpDev v)
      else if w = ''--proc'' then Some (OpProc v)
      else if w = ''--chdir'' then Some (OpChdir v)
      else if w = ''--hostname'' then Some (OpHostname v)
      else if w = ''--info-fd'' then Some (OpInfoFd (nat_of_digits v))
      else if w = ''--cap-drop'' \<and> v = ''ALL'' then Some OpCapDropAll
      else None)"

definition read_op2 :: "string \<Rightarrow> string \<Rightarrow> string \<Rightarrow> jail_op option" where
  "read_op2 w u v =
     (if w = ''--ro-bind'' then Some (OpRoBind u v)
      else if w = ''--ro-bind-try'' then Some (OpRoBindTry u v)
      else if w = ''--ro-bind-fd'' then Some (OpRoBindFd (nat_of_digits u) v)
      else if w = ''--ro-bind-data'' then Some (OpRoBindData (nat_of_digits u) v)
      else if w = ''--bind'' then Some (OpBind u v)
      else if w = ''--bind-fd'' then Some (OpBindFd (nat_of_digits u) v)
      else if w = ''--symlink'' then Some (OpSymlink u v)
      else if w = ''--setenv'' then Some (OpSetenv u v)
      else None)"

fun read_op :: "string list \<Rightarrow> (jail_op \<times> string list) option" where
  "read_op (w # ws) =
     (case read_op0 w of
        Some op \<Rightarrow> Some (op, ws)
      | None \<Rightarrow>
      (case ws of
         [] \<Rightarrow> None
       | u # us \<Rightarrow>
         (case read_op1 w u of
            Some op \<Rightarrow> Some (op, us)
          | None \<Rightarrow>
            (case us of
               [] \<Rightarrow> None
             | v # vs \<Rightarrow> map_option (\<lambda>op. (op, vs)) (read_op2 w u v)))))"
| "read_op [] = None"

lemma read_op_shorter: "read_op ws = Some (op, rest) \<Longrightarrow> length rest < length ws"
  by (cases ws) (auto split: option.splits list.splits)

function read_args :: "string list \<Rightarrow> (jail_op list \<times> string list) option" where
  "read_args ws =
     (if ws \<noteq> [] \<and> hd ws = ''--'' then Some ([], tl ws)
      else case read_op ws of
        None \<Rightarrow> None
      | Some (op, rest) \<Rightarrow> map_option (\<lambda>(ops, child). (op # ops, child)) (read_args rest))"
  by auto
termination by (relation "measure length") (auto dest: read_op_shorter)

declare read_args.simps [simp del]

fun op_listed :: "jail_op \<Rightarrow> bool" where
  "op_listed (OpUnshare opt) = (opt \<in> set JAIL_NAMESPACES)"
| "op_listed _ = True"

lemmas read_op_defs = read_op0_def read_op1_def read_op2_def JAIL_NAMESPACES_def SECCOMP_OPTION_def
  CAP_DROP_ALL_def nat_of_digits_show

lemma read_op_args: "op_listed op \<Longrightarrow> read_op (op_args op @ rest) = Some (op, rest)"
  by (cases op) (auto simp: read_op_defs)

lemma op_args_head: "op_listed op \<Longrightarrow> op_args op @ rest \<noteq> [] \<and> hd (op_args op @ rest) \<noteq> ''--''"
  by (cases op) (auto simp: read_op_defs)

lemma read_args_back:
  "list_all op_listed ops \<Longrightarrow> read_args (concat (map op_args ops) @ ''--'' # child) = Some (ops, child)"
proof (induction ops)
  case Nil
  then show ?case by (simp add: read_args.simps)
next
  case (Cons op ops)
  then show ?case
    using read_op_args[of op "concat (map op_args ops) @ ''--'' # child"]
      op_args_head[of op "concat (map op_args ops) @ ''--'' # child"]
    by (subst read_args.simps) simp
qed

lemma jail_ops_listed: "list_all op_listed (jail_ops i)"
proof -
  have ro: "op \<in> set (read_only_binds i root) \<Longrightarrow> op_listed op" for op root
    by (auto simp: read_only_binds_def split: option.splits)
  have pins: "op \<in> set (pins_of i k) \<Longrightarrow> op_listed op" for op k
    by (auto simp: pins_of_def held_bind_op_def bind_op_def split: option.splits)
  show ?thesis
    by (auto simp: list_all_iff jail_ops_def system_ops_def home_ops_def work_ops_def cover_ops_def data_ops_def
        life_ops_def iw_folder_ops_def claude_settings_ops_def tmpfs_op_def bind_op_def ro_bind_op_def
        held_bind_op_def cover_op_def fd_op_def Let_def split: option.splits if_splits dest: ro pins)
qed



end
