(* ===== verification/JailPlan.thy ===== *)
theory JailPlan
  imports JailSafe
begin

text \<open>
  What the launcher settles before a jail is built (\<^verbatim>\<open>src/crates/cli/src/contain_io.rs\<close>: \<^verbatim>\<open>resolve_inputs\<close>,
  \<^verbatim>\<open>resolve_screened\<close>): the worktree is taken out where the plan leaves it out, extra paths are left
  out until none is refused, and then nothing but the project itself stops the start. What the host
  holds is the argument \<open>planned\<close>.
\<close>

subsection \<open>The two loops\<close>

definition resolve_inputs ::
  "bool \<Rightarrow> (contain_args \<Rightarrow> worktree option \<Rightarrow> contain_error + jail_inputs)
    \<Rightarrow> (contain_args \<Rightarrow> worktree option) \<Rightarrow> contain_args \<Rightarrow> contain_error + jail_inputs" where
  "resolve_inputs macos planned found a =
     rbind (planned a (found a)) (\<lambda>i.
       case worktree_planned macos i of
         WpKept \<Rightarrow> Inr i
       | _ \<Rightarrow> planned a None)"

definition push_line :: "refusal \<Rightarrow> refusal list \<Rightarrow> refusal list" where
  "push_line why said = (if why \<in> set said then said else said @ [why])"

partial_function (option) resolve_screened ::
  "bool \<Rightarrow> (contain_args \<Rightarrow> contain_error + jail_inputs) \<Rightarrow> contain_args \<Rightarrow> refusal list
    \<Rightarrow> ((contain_error + jail_inputs) \<times> refusal list) option" where
  "resolve_screened macos inputs_of a said =
     (case inputs_of a of
        Inl e \<Rightarrow> Some (Inl e, said)
      | Inr i \<Rightarrow>
          if extra_paths_left_out i macos = [] then Some (Inr i, said)
          else resolve_screened macos inputs_of
                 (leave_out_extra_paths a (extra_paths_left_out i macos))
                 (fold push_line (map snd (extra_paths_left_out i macos)) said))"

subsection \<open>Each round takes a path out\<close>

definition extras :: "contain_args \<Rightarrow> nat" where
  "extras a = length (ca_extra_ro a) + length (ca_extra_rw a)"

lemma left_out_from:
  "(p, why) \<in> set (extra_paths_left_out i macos) \<Longrightarrow>
    p \<in> set (ca_extra_ro (ji_args i)) \<union> set (ca_extra_rw (ji_args i))"
  by (auto simp: extra_paths_left_out_def Let_def split: option.splits)

lemma leave_out_shrinks:
  assumes "(p, why) \<in> set left" "p \<in> set (ca_extra_ro a) \<union> set (ca_extra_rw a)"
  shows "extras (leave_out_extra_paths a left) < extras a"
proof -
  let ?out = "\<lambda>p. list_ex (\<lambda>(gone, _). path_eq gone p) left"
  have o: "?out p" using assms(1) by (force simp: list_ex_iff intro!: bexI[of _ "(p, why)"])
  have "length (filter (\<lambda>p. \<not> ?out p) (ca_extra_ro a)) < length (ca_extra_ro a)
      \<or> length (filter (\<lambda>p. \<not> ?out p) (ca_extra_rw a)) < length (ca_extra_rw a)"
    using assms(2) o by (auto intro: length_filter_less)
  moreover have "length (filter P xs) \<le> length xs" for P and xs :: "path list" by simp
  ultimately show ?thesis
    unfolding extras_def leave_out_extra_paths_def Let_def
    by (simp add: add_less_le_mono add_le_less_mono) (meson add_le_less_mono add_less_le_mono length_filter_le)
qed

lemma leave_out_subset:
  "set (ca_extra_ro (leave_out_extra_paths a left)) \<subseteq> set (ca_extra_ro a)"
  "set (ca_extra_rw (leave_out_extra_paths a left)) \<subseteq> set (ca_extra_rw a)"
  by (auto simp: leave_out_extra_paths_def Let_def)

lemma none_left_out:
  "extra_paths_left_out i macos = [] \<longleftrightarrow>
    (\<forall>p\<in>set (ca_extra_ro (ji_args i)). extra_ro_refusal i (places_the_jail_hides i macos) p macos = None)
    \<and> (\<forall>p\<in>set (ca_extra_rw (ji_args i)). extra_path_refusal i (protected_host_paths i) BkWritable p = None)"
  by (auto simp: extra_paths_left_out_def Let_def split: option.splits)

lemma resolve_screened_ends:
  assumes "\<And>a i. inputs_of a = Inr i \<Longrightarrow> ji_args i = a"
  shows "\<exists>r said'. resolve_screened macos inputs_of a said = Some (r, said')
    \<and> (\<forall>i. r = Inr i \<longrightarrow> extra_paths_left_out i macos = [] \<and> inputs_of (ji_args i) = Inr i
          \<and> set (ca_extra_ro (ji_args i)) \<subseteq> set (ca_extra_ro a)
          \<and> set (ca_extra_rw (ji_args i)) \<subseteq> set (ca_extra_rw a))"
proof (induction "extras a" arbitrary: a said rule: less_induct)
  case less
  show ?case
  proof (cases "inputs_of a")
    case (Inl e)
    then show ?thesis by (subst resolve_screened.simps) simp
  next
    case (Inr i)
    have i: "ji_args i = a" using assms Inr by blast
    show ?thesis
    proof (cases "extra_paths_left_out i macos")
      case Nil
      then show ?thesis using Inr i by (subst resolve_screened.simps) simp
    next
      case (Cons x xs)
      let ?left = "extra_paths_left_out i macos"
      have "x \<in> set ?left" using Cons by simp
      then have "extras (leave_out_extra_paths a ?left) < extras a"
        using leave_out_shrinks[of "fst x" "snd x" ?left a] left_out_from[of "fst x" "snd x" i macos] i by simp
      from less[OF this, of "fold push_line (map snd ?left) said"] show ?thesis
        using Inr Cons leave_out_subset[of a ?left]
        by (subst resolve_screened.simps) (simp, blast)
    qed
  qed
qed

subsection \<open>The worktree\<close>

lemma bind_refusal_kind: "bind_refusal i ps k p h = None \<longleftrightarrow> bind_refusal i ps k' p h = None"
  by (auto simp: bind_refusal_def Let_def)

lemma kept_worktree:
  assumes "worktree_planned macos i = WpKept" "ji_worktree i = Some wt"
  shows "bind_refusal i (protected_host_paths i) k (wt_git_dir wt) True = None"
    "bind_refusal i (protected_host_paths i) k (wt_common_dir wt) True = None"
proof -
  have "List.find (\<lambda>f. bind_refusal i (protected_host_paths i) BkWorktree f True \<noteq> None)
      [wt_git_dir wt, wt_common_dir wt] = None"
    using assms by (auto simp: worktree_planned_def Let_def split: option.splits if_splits)
  then have "bind_refusal i (protected_host_paths i) BkWorktree (wt_git_dir wt) True = None"
    "bind_refusal i (protected_host_paths i) BkWorktree (wt_common_dir wt) True = None"
    by (auto split: if_splits)
  then show "bind_refusal i (protected_host_paths i) k (wt_git_dir wt) True = None"
    "bind_refusal i (protected_host_paths i) k (wt_common_dir wt) True = None"
    using bind_refusal_kind by blast+
qed

lemma resolve_inputs_settled:
  assumes "\<And>a w i. planned a w = Inr i \<Longrightarrow> ji_args i = a \<and> ji_worktree i = w"
    and "resolve_inputs macos planned found a = Inr i"
  shows "ji_args i = a" "worktree_planned macos i = WpKept"
proof -
  obtain j where j: "planned a (found a) = Inr j"
    "(case worktree_planned macos j of WpKept \<Rightarrow> Inr j | _ \<Rightarrow> planned a None) = Inr i"
    using assms(2) by (auto simp: resolve_inputs_def rbind_Inr)
  have "(i = j \<and> worktree_planned macos j = WpKept) \<or> planned a None = Inr i"
    using j(2) by (cases "worktree_planned macos j") auto
  then show "ji_args i = a" "worktree_planned macos i = WpKept"
    using assms(1) j(1) by (auto simp: worktree_planned_def)
qed


definition sample_planned :: "contain_args \<Rightarrow> worktree option \<Rightarrow> contain_error + jail_inputs" where
  "sample_planned a w = Inr (sample_jail\<lparr>ji_args := a, ji_worktree := w\<rparr>)"

definition sample_asked :: contain_args where
  "sample_asked = sample_args\<lparr>ca_extra_ro := [''/home/ana/.ssh/id'', ''/home/ana/.local/share/claude'']\<rparr>"


subsection \<open>Every view of a hidden place is covered\<close>

lemma path_in_append [simp]: "path_in (xs @ ys) p \<longleftrightarrow> path_in xs p \<or> path_in ys p"
  by (auto simp: path_in_def)

text \<open>A view of the place \<open>leads_to\<close> is dealt with: covered as it is, masked, where nothing can be
  made, or what the jail needs, which is said.\<close>

definition view_settled ::
  "place_facts_rec \<Rightarrow> path list \<Rightarrow> hidden_place \<Rightarrow> path \<Rightarrow> deny_path list \<Rightarrow> said list \<Rightarrow> path \<Rightarrow> path \<Rightarrow> bool" where
  "view_settled f covered place leads_to masks left jail rest \<longleftrightarrow>
     (let v = pjoin jail rest
      in path_eq v (hd_nominal place) \<or> path_in covered v \<or> path_in (map dp_abs masks) v
         \<or> \<not> hd_there place \<and> path_in (pf_read_only f) jail
         \<or> needs f v \<and> \<not> path_eq leads_to (hd_nominal place)
             \<and> LeftNeeded (hd_nominal place) leads_to \<in> set left)"

lemma linked_view_mono:
  "fst st \<Longrightarrow> fst (linked_view f covered masks place l sh st)"
  "path_in (snd st) v \<Longrightarrow> path_in (snd (linked_view f covered masks place l sh st)) v"
  by (auto simp: linked_view_def Let_def split: option.splits)

lemma fold_linked_view_need:
  "fst st \<Longrightarrow> fst (fold (linked_view f covered masks place l) shown st)"
  by (induction shown arbitrary: st) (simp_all add: linked_view_mono)

lemma fold_linked_view_views:
  "path_in (snd st) v \<Longrightarrow> path_in (snd (fold (linked_view f covered masks place l) shown st)) v"
  by (induction shown arbitrary: st) (simp_all add: linked_view_mono)

lemma linked_view_here:
  assumes "path_strip_prefix l host = Some rest"
  shows "let v = pjoin jail rest; st' = linked_view f covered masks place l (jail, host) st
    in path_eq v (hd_nominal place) \<or> path_in covered v \<or> path_in (snd st') v \<or> path_in (map dp_abs masks) v
       \<or> \<not> hd_there place \<and> path_in (pf_read_only f) jail
       \<or> needs f v \<and> \<not> path_eq l (hd_nominal place) \<and> fst st'"
  using assms by (auto simp: linked_view_def Let_def)

lemma linked_views_settle:
  assumes "(jail, host) \<in> set shown" "path_strip_prefix l host = Some rest"
  shows "let v = pjoin jail rest; st' = fold (linked_view f covered masks place l) shown st
    in path_eq v (hd_nominal place) \<or> path_in covered v \<or> path_in (snd st') v \<or> path_in (map dp_abs masks) v
       \<or> \<not> hd_there place \<and> path_in (pf_read_only f) jail
       \<or> needs f v \<and> \<not> path_eq l (hd_nominal place) \<and> fst st'"
  using assms(1)
proof (induction shown arbitrary: st)
  case (Cons sh shown)
  show ?case
  proof (cases "sh = (jail, host)")
    case True
    then show ?thesis
      using linked_view_here[OF assms(2), of jail f covered masks place st]
        fold_linked_view_need[of "linked_view f covered masks place l sh st" f covered masks place l shown]
        fold_linked_view_views[of "linked_view f covered masks place l sh st" "pjoin jail rest" f covered masks place l shown]
      unfolding Let_def by simp blast
  next
    case False
    then show ?thesis using Cons by simp
  qed
qed simp

lemma plan_linked_place_mono:
  assumes "plan_linked_place f covered fd place plan = Inr plan'"
  shows "set (lp_masks plan) \<subseteq> set (lp_masks plan')" "set (lp_left plan) \<subseteq> set (lp_left plan')"
  using assms
  by (auto simp: plan_linked_place_def plan_linked_on_linux_def Let_def split: option.splits if_splits prod.splits)

lemma view_settled_mono:
  assumes "view_settled f covered place l masks left jail rest" "set masks \<subseteq> set masks'" "set left \<subseteq> set left'"
  shows "view_settled f covered place l masks' left' jail rest"
proof -
  have "path_in (map dp_abs masks) v \<Longrightarrow> path_in (map dp_abs masks') v" for v
    using assms(2) by (auto simp: path_in_def)
  then show ?thesis using assms(1,3) unfolding view_settled_def Let_def by blast
qed

lemma plan_linked_place_settles:
  assumes "plan_linked_place f covered fd place plan = Inr plan'" "\<not> pf_macos f"
    and "hd_leads_to place = Some l" "path_eq l (hd_nominal place) \<or> \<not> needs f l"
    and "(jail, host) \<in> set (pf_shown f)" "path_strip_prefix l host = Some rest"
  shows "view_settled f covered place l (lp_masks plan') (lp_left plan') jail rest"
proof -
  obtain need views where nv: "linked_views f covered (lp_masks plan) place l = (need, views)" by fastforce
  have settle: "let v = pjoin jail rest
    in path_eq v (hd_nominal place) \<or> path_in covered v \<or> path_in views v \<or> path_in (map dp_abs (lp_masks plan)) v
       \<or> \<not> hd_there place \<and> path_in (pf_read_only f) jail
       \<or> needs f v \<and> \<not> path_eq l (hd_nominal place) \<and> need"
    using linked_views_settle[OF assms(5,6), of f covered "lp_masks plan" place "(False, [])"] nv
    by (simp add: linked_views_def Let_def)
  have "lp_masks plan' = lp_masks plan
          @ map (\<lambda>p. \<lparr>dp_abs = p, dp_is_dir = hd_is_dir place \<or> \<not> hd_there place\<rparr>) views"
    and "need \<longrightarrow> LeftNeeded (hd_nominal place) l \<in> set (lp_left plan')"
    using assms(1-4) nv
    by (auto simp: plan_linked_place_def plan_linked_on_linux_def Let_def split: if_splits)
  then show ?thesis using settle by (auto simp: view_settled_def Let_def comp_def)
qed

lemma plan_linked_from_mono:
  "plan_linked_from f covered fd qs a = Inr b \<Longrightarrow>
    set (lp_masks a) \<subseteq> set (lp_masks b) \<and> set (lp_left a) \<subseteq> set (lp_left b)"
proof (induction qs arbitrary: a)
  case (Cons q qs)
  then obtain mid where mid: "plan_linked_place f covered fd q a = Inr mid"
    "plan_linked_from f covered fd qs mid = Inr b"
    by (auto simp: rbind_Inr)
  then show ?case using Cons.IH[OF mid(2)] plan_linked_place_mono[OF mid(1)] by blast
qed simp

lemma plan_linked_from_settles:
  assumes "plan_linked_from f covered fd places plan = Inr plan'" "\<not> pf_macos f"
    and "place \<in> set places" "hd_leads_to place = Some l" "path_eq l (hd_nominal place) \<or> \<not> needs f l"
    and "(jail, host) \<in> set (pf_shown f)" "path_strip_prefix l host = Some rest"
  shows "view_settled f covered place l (lp_masks plan') (lp_left plan') jail rest"
  using assms(1,3)
proof (induction places arbitrary: plan)
  case (Cons p ps)
  then obtain mid where mid: "plan_linked_place f covered fd p plan = Inr mid"
    "plan_linked_from f covered fd ps mid = Inr plan'"
    by (auto simp: rbind_Inr)
  show ?case
  proof (cases "place = p")
    case True
    then show ?thesis
      using view_settled_mono[OF plan_linked_place_settles[OF mid(1) assms(2) _ _ assms(6,7)]] assms(4,5)
        plan_linked_from_mono[OF mid(2)] by simp
  next
    case False
    then show ?thesis using Cons.IH[OF mid(2)] Cons.prems(2) by simp
  qed
qed simp

text \<open>C7: A hidden place is hidden wherever a Linux jail shows it. However a link leads a place the
  jail hides, each place where one of the folders the jail shows holds it is the place as named, is
  covered already, is masked by the plan, cannot be made from the jail, or is
  what the jail needs, and then the person is told.\<close>

theorem linked_places_hidden:
  assumes "plan_linked_places places f covered from_deny_read = Inr plan" "\<not> pf_macos f"
    and "place \<in> set places" "hd_leads_to place = Some l" "path_eq l (hd_nominal place) \<or> \<not> needs f l"
    and "(jail, host) \<in> set (pf_shown f)" "path_strip_prefix l host = Some rest"
  shows "view_settled f covered place l (lp_masks plan) (lp_left plan) jail rest"
  using assms unfolding plan_linked_places_def by (rule plan_linked_from_settles)

definition sample_facts :: place_facts_rec where
  "sample_facts = place_facts sample_args ''/home/ana'' None [''/home/ana/.config'']
     ''/usr/local/bin/innerwarden'' None ''/tmp'' False (\<lambda>p. p)"

definition sample_place :: hidden_place where
  "sample_place = \<lparr>hd_nominal = ''/home/ana/.ssh'', hd_leads_to = Some ''/home/ana/.config/ssh'', hd_there = True,
     hd_is_dir = True, hd_steered_by = None, hd_inner = False\<rparr>"

lemma linked_places_hidden_witness:
  "\<exists>plan. plan_linked_places [sample_place] sample_facts [] False = Inr plan
    \<and> view_settled sample_facts [] sample_place ''/home/ana/.config/ssh'' (lp_masks plan) (lp_left plan)
        ''/home/ana/.config'' ''ssh''
    \<and> lp_masks plan = [\<lparr>dp_abs = ''/home/ana/.config/ssh'', dp_is_dir = True\<rparr>]"
proof -
  obtain plan where plan: "plan_linked_places [sample_place] sample_facts [] False = Inr plan"
    "lp_masks plan = [\<lparr>dp_abs = ''/home/ana/.config/ssh'', dp_is_dir = True\<rparr>]"
  proof -
    have "map_sum (\<lambda>_. ()) lp_masks (plan_linked_places [sample_place] sample_facts [] False)
      = Inr [\<lparr>dp_abs = ''/home/ana/.config/ssh'', dp_is_dir = True\<rparr>]" by code_simp
    then show thesis using that by (cases "plan_linked_places [sample_place] sample_facts [] False") auto
  qed
  have "\<not> pf_macos sample_facts" "\<not> needs sample_facts ''/home/ana/.config/ssh''"
    "path_strip_prefix ''/home/ana/.config/ssh'' ''/home/ana/.config'' = Some ''ssh''"
    by code_simp+
  moreover have "(''/home/ana/.config'', ''/home/ana/.config'') \<in> set (pf_shown sample_facts)" by code_simp
  moreover have "hd_leads_to sample_place = Some ''/home/ana/.config/ssh''" by (simp add: sample_place_def)
  ultimately show ?thesis
    using linked_places_hidden[OF plan(1), of sample_place "''/home/ana/.config/ssh''"] plan by auto
qed

end
