(* ===== verification/Graph.thy ===== *)
theory Graph
  imports Jail
begin
text \<open>
  The record of decisions: \<^verbatim>\<open>src/crates/graph/src/lib.rs\<close>, with the origin of a decision from
  \<^verbatim>\<open>src/crates/graph/src/decisions.rs\<close>. A graph is a list of nodes in the order they came and a list
  of edges; the operations that write it are here (upsert, edges, merge, ingestion, pruning), the
  views are in \<open>Views\<close> and \<open>Decisions\<close>. A \<^verbatim>\<open>usize\<close> that counts nodes is a natural number; one that is
  read from text is below \<open>2 ^ 64\<close>. \<open>to_string\<close> and \<open>from_str\<close> stand for
  \<^verbatim>\<open>serde_json\<close>, which writes and reads the file.
\<close>

subsection \<open>Nodes and edges\<close>

record node =
  nd_id :: string
  nd_kind :: string
  nd_label :: string
  nd_attrs :: "(string, string) bmap"

record edge =
  ed_from :: string
  ed_to :: string
  ed_kind :: string

record graph =
  gr_nodes :: "node list"
  gr_edges :: "edge list"

definition graph_default :: graph where
  "graph_default = \<lparr>gr_nodes = [], gr_edges = []\<rparr>"

definition graph_from_json :: "(string \<Rightarrow> 'e + graph) \<Rightarrow> string \<Rightarrow> 'e + graph" where
  "graph_from_json from_str s = (if trim s = [] then Inr graph_default else from_str s)"

definition graph_to_json :: "(graph \<Rightarrow> string option) \<Rightarrow> graph \<Rightarrow> string" where
  "graph_to_json to_string g = (case to_string g of Some s \<Rightarrow> s | None \<Rightarrow> ''{}'')"

definition graph_is_empty :: "graph \<Rightarrow> bool" where
  "graph_is_empty g \<longleftrightarrow> gr_nodes g = [] \<and> gr_edges g = []"

text \<open>The update of an existing node: its label unless the new one is empty, its kind only when it has
  none, and the attributes added, the new values winning.\<close>

definition merge_node :: "node \<Rightarrow> node \<Rightarrow> node" where
  "merge_node new old = old\<lparr>
     nd_label := (if nd_label new \<noteq> [] then nd_label new else nd_label old),
     nd_kind := (if nd_kind old = [] then nd_kind new else nd_kind old),
     nd_attrs := fold (\<lambda>(k, v). bput k v) (nd_attrs new) (nd_attrs old)\<rparr>"

fun upsert_in :: "node \<Rightarrow> node list \<Rightarrow> node list" where
  "upsert_in n [] = [n]"
| "upsert_in n (m # ms) = (if nd_id m = nd_id n then merge_node n m # ms else m # upsert_in n ms)"

definition upsert_node :: "node \<Rightarrow> graph \<Rightarrow> graph" where
  "upsert_node n g = g\<lparr>gr_nodes := upsert_in n (gr_nodes g)\<rparr>"

definition add_edge :: "string \<Rightarrow> string \<Rightarrow> string \<Rightarrow> graph \<Rightarrow> graph" where
  "add_edge from to kind g =
     (let e = \<lparr>ed_from = from, ed_to = to, ed_kind = kind\<rparr> in
      if e \<in> set (gr_edges g) then g else g\<lparr>gr_edges := gr_edges g @ [e]\<rparr>)"

definition add_edge_of :: "edge \<Rightarrow> graph \<Rightarrow> graph" where
  "add_edge_of e = add_edge (ed_from e) (ed_to e) (ed_kind e)"

definition merge_graph :: "graph \<Rightarrow> graph \<Rightarrow> graph" where
  "merge_graph other g = fold add_edge_of (gr_edges other) (fold upsert_node (gr_nodes other) g)"

subsection \<open>Pruning\<close>

definition MAX_NODES :: nat where "MAX_NODES = 20000"
definition MAX_BYTES :: nat where "MAX_BYTES = 12 * 1024 * 1024"

definition is_session :: "node \<Rightarrow> bool" where
  "is_session n \<longleftrightarrow> nd_kind n = ''session''"

definition is_command :: "node \<Rightarrow> bool" where
  "is_command n \<longleftrightarrow> nd_kind n = ''command''"

definition commands_of :: "graph \<Rightarrow> node list" where
  "commands_of g = filter is_command (gr_nodes g)"

text \<open>The oldest nodes are the first ones. Session nodes among them go back to the front.\<close>

definition drop_oldest :: "nat \<Rightarrow> graph \<Rightarrow> graph \<times> nat" where
  "drop_oldest count g =
     (let front = take count (gr_nodes g);
          dropped = map nd_id (filter (\<lambda>n. \<not> is_session n) front)
      in if count = 0 then (g, 0)
         else (\<lparr>gr_nodes = filter is_session front @ drop count (gr_nodes g),
                gr_edges = filter (\<lambda>e. ed_from e \<notin> set dropped \<and> ed_to e \<notin> set dropped) (gr_edges g)\<rparr>,
               length (remdups dropped)))"

definition over_budget :: "(graph \<Rightarrow> string option) \<Rightarrow> graph \<Rightarrow> bool" where
  "over_budget to_string g \<longleftrightarrow> 1 < length (gr_nodes g) \<and> MAX_BYTES < length (graph_to_json to_string g)"

text \<open>The loop of \<^verbatim>\<open>prune\<close>; that it does not end is the value \<open>None\<close>.\<close>

partial_function (option) prune_loop :: "(graph \<Rightarrow> string option) \<Rightarrow> graph \<Rightarrow> nat \<Rightarrow> (graph \<times> nat) option" where
  "prune_loop to_string g dropped =
     (if over_budget to_string g then
        (case drop_oldest (max (length (gr_nodes g) div 10) 1) g of
           (h, n) \<Rightarrow> prune_loop to_string h (dropped + n))
      else Some (g, dropped))"

definition prune :: "(graph \<Rightarrow> string option) \<Rightarrow> graph \<Rightarrow> (graph \<times> nat) option" where
  "prune to_string g =
     (case drop_oldest (length (gr_nodes g) - MAX_NODES) g of (h, n) \<Rightarrow> prune_loop to_string h n)"

subsection \<open>Where a decision came from\<close>

datatype decision_channel = ChHook | ChMcp | ChCheck

fun channel_as_str :: "decision_channel \<Rightarrow> string" where
  "channel_as_str ChHook = ''hook''"
| "channel_as_str ChMcp = ''mcp''"
| "channel_as_str ChCheck = ''check''"

definition parse_channel :: "string \<Rightarrow> decision_channel option" where
  "parse_channel v = (if v = ''hook'' then Some ChHook else if v = ''mcp'' then Some ChMcp
     else if v = ''check'' then Some ChCheck else None)"

record decision_origin =
  or_channel :: "decision_channel option"
  or_agent :: "string option"
  or_project :: "string option"
  or_rules :: "string list"
  or_instance_id :: "string option"
  or_session_id :: "string option"
  or_trust :: "string option"
  or_trust_reason :: "string option"
  or_deciding_layer :: "string option"
  or_profile :: "string option"
  or_relaxation_withheld :: bool
  or_trust_source :: "string option"
  or_host_decision :: "string option"
  or_host_withheld :: "string option"

definition origin_default :: decision_origin where
  "origin_default = \<lparr>or_channel = None, or_agent = None, or_project = None, or_rules = [],
     or_instance_id = None, or_session_id = None, or_trust = None, or_trust_reason = None,
     or_deciding_layer = None, or_profile = None, or_relaxation_withheld = False,
     or_trust_source = None, or_host_decision = None, or_host_withheld = None\<rparr>"

definition MAX_AGENT_CHARS :: nat where "MAX_AGENT_CHARS = 64"
definition ORIGIN_PROJECT_CHARS :: nat where "ORIGIN_PROJECT_CHARS = 120"
definition MAX_RULES :: nat where "MAX_RULES = 16"
definition MAX_RULE_CHARS :: nat where "MAX_RULE_CHARS = 64"
definition INSTANCE_ID_CHARS :: nat where "INSTANCE_ID_CHARS = 32"
definition MAX_SESSION_CHARS :: nat where "MAX_SESSION_CHARS = 120"
definition MAX_REASON_CHARS :: nat where "MAX_REASON_CHARS = 64"
definition TRUST_WORDS :: "string list" where "TRUST_WORDS = [''declared'', ''observed'', ''confined'']"
definition LAYER_WORDS :: "string list" where
  "LAYER_WORDS = [''hard'', ''general'', ''agent_type'', ''instance'']"
definition TRUST_SOURCE_WORDS :: "string list" where "TRUST_SOURCE_WORDS = [''jail'', ''host'']"

definition valid_instance :: "string \<Rightarrow> bool" where
  "valid_instance i \<longleftrightarrow> length i = INSTANCE_ID_CHARS \<and> list_all is_hex_byte i"

definition valid_host_decision :: "string \<Rightarrow> bool" where
  "valid_host_decision = valid_instance"

definition valid_host_withheld :: "string \<Rightarrow> bool" where
  "valid_host_withheld w \<longleftrightarrow> w \<noteq> [] \<and> length w \<le> 48
     \<and> list_all (\<lambda>b. is_ascii_lowercase b \<or> b = CHR ''_'') w"

definition valid_session :: "string \<Rightarrow> bool" where
  "valid_session s \<longleftrightarrow> (let n = char_count s in 0 < n \<and> n \<le> MAX_SESSION_CHARS)
     \<and> \<not> list_ex is_control (chars s)"

definition valid_reason :: "string \<Rightarrow> bool" where
  "valid_reason r \<longleftrightarrow> r \<noteq> [] \<and> length r \<le> MAX_REASON_CHARS
     \<and> list_all (\<lambda>b. is_ascii_lowercase b \<or> is_ascii_digit b \<or> b = CHR ''_'') r"

definition valid_agent :: "string \<Rightarrow> bool" where
  "valid_agent a \<longleftrightarrow> a \<noteq> [] \<and> length a \<le> MAX_AGENT_CHARS
     \<and> list_all (\<lambda>b. is_ascii_lowercase b \<or> is_ascii_digit b \<or> b = CHR ''-'' \<or> b = CHR ''_'') a"

definition valid_project :: "string \<Rightarrow> bool" where
  "valid_project p \<longleftrightarrow> (let n = char_count p in 0 < n \<and> n \<le> ORIGIN_PROJECT_CHARS)
     \<and> CHR 0x2F \<notin> set p \<and> CHR 0x5C \<notin> set p \<and> p \<noteq> ''.'' \<and> p \<noteq> ''..''
     \<and> \<not> list_ex is_control (chars p)"

definition valid_rule :: "string \<Rightarrow> bool" where
  "valid_rule r \<longleftrightarrow> r \<noteq> [] \<and> length r \<le> MAX_RULE_CHARS
     \<and> list_all (\<lambda>b. is_ascii_alphanumeric b \<or> b \<in> set ''_-.:'') r"

definition instance_label :: "decision_origin \<Rightarrow> string option" where
  "instance_label og = opt_filter valid_instance (or_instance_id og)"

definition trust_label :: "decision_origin \<Rightarrow> string option" where
  "trust_label og = opt_filter (\<lambda>w. w \<in> set TRUST_WORDS) (or_trust og)"

definition layer_label :: "decision_origin \<Rightarrow> string option" where
  "layer_label og = opt_filter (\<lambda>w. w \<in> set LAYER_WORDS) (or_deciding_layer og)"

text \<open>The rules kept: each once, in order, the first sixteen.\<close>

fun keep_rules :: "string list \<Rightarrow> string list \<Rightarrow> string list" where
  "keep_rules [] acc = acc"
| "keep_rules (r # rs) acc =
     (let rule = trim r;
          acc' = (if valid_rule rule \<and> rule \<notin> set acc then acc @ [rule] else acc)
      in if length acc' = MAX_RULES then acc' else keep_rules rs acc')"

definition put_some :: "string \<Rightarrow> string option \<Rightarrow> (string, string) bmap \<Rightarrow> (string, string) bmap" where
  "put_some k v m = (case v of Some s \<Rightarrow> bput k s m | None \<Rightarrow> m)"

definition write_trust :: "decision_origin \<Rightarrow> (string, string) bmap \<Rightarrow> (string, string) bmap" where
  "write_trust og m =
     (case trust_label og of
        None \<Rightarrow> m
      | Some t \<Rightarrow>
          put_some ''host_withheld'' (opt_filter valid_host_withheld (or_host_withheld og))
           (put_some ''host_decision'' (opt_filter valid_host_decision (or_host_decision og))
             (put_some ''trust_source'' (opt_filter (\<lambda>w. w \<in> set TRUST_SOURCE_WORDS) (or_trust_source og))
               (put_some ''trust_reason'' (opt_filter valid_reason (or_trust_reason og))
                 (bput ''trust'' t m)))))"

definition write_layer :: "decision_origin \<Rightarrow> (string, string) bmap \<Rightarrow> (string, string) bmap" where
  "write_layer og m =
     (case layer_label og of
        None \<Rightarrow> m
      | Some l \<Rightarrow>
          put_some ''relaxation_withheld'' (if or_relaxation_withheld og then Some ''true'' else None)
           (put_some ''profile'' (opt_filter valid_agent (or_profile og)) (bput ''deciding_layer'' l m)))"

definition write_attrs :: "decision_origin \<Rightarrow> (string, string) bmap \<Rightarrow> (string, string) bmap" where
  "write_attrs og m0 =
     (let m1 = put_some ''channel'' (map_option channel_as_str (or_channel og)) m0;
          m2 = put_some ''agent'' (opt_filter valid_agent (or_agent og)) m1;
          m3 = put_some ''project'' (opt_filter valid_project (map_option trim (or_project og))) m2;
          rules = keep_rules (or_rules og) [];
          m4 = (if rules \<noteq> [] then bput ''rules'' (join '','' rules) m3 else m3);
          m5 = put_some ''instance_id'' (instance_label og) m4;
          m6 = put_some ''session_id'' (opt_filter valid_session (map_option trim (or_session_id og))) m5
      in write_layer og (write_trust og m6))"

subsection \<open>Ingestion\<close>

definition ELLIPSIS :: string where "ELLIPSIS = [CHR 0xE2, CHR 0x80, CHR 0xA6]"

definition short_text :: "string \<Rightarrow> nat \<Rightarrow> string" where
  "short_text s n = (let t = trim s in if char_count t \<le> n then t else take_chars (n - 1) t @ ELLIPSIS)"

text \<open>\<^verbatim>\<open>rsplit_once\<close> on one byte: what is before its last occurrence and what is after it.\<close>

fun rsplit_once :: "'a \<Rightarrow> 'a list \<Rightarrow> ('a list \<times> 'a list) option" where
  "rsplit_once c [] = None"
| "rsplit_once c (x # xs) =
     (case rsplit_once c xs of
        Some (before, after) \<Rightarrow> Some (x # before, after)
      | None \<Rightarrow> if x = c then Some ([], xs) else None)"

definition colon :: char where "colon = CHR 0x3A"

definition command_session :: "string \<Rightarrow> string option" where
  "command_session i =
     (case strip_prefix ''cmd:'' i of
        None \<Rightarrow> None
      | Some rest \<Rightarrow> (case rsplit_once colon rest of
            None \<Rightarrow> None
          | Some (session, seq) \<Rightarrow> if session = [] then None else Some session))"

definition recommendation_of :: "json \<Rightarrow> string" where
  "recommendation_of verdict = (case get_str verdict ''recommendation'' of Some r \<Rightarrow> r | None \<Rightarrow> ''unknown'')"

datatype decision_mode = DmMonitor | DmEnforce | DmCheck | DmUnknown

fun mode_as_str :: "decision_mode \<Rightarrow> string" where
  "mode_as_str DmMonitor = ''monitor''"
| "mode_as_str DmEnforce = ''enforce''"
| "mode_as_str DmCheck = ''check''"
| "mode_as_str DmUnknown = ''unknown''"

datatype decision_outcome = DoAllowed | DoBlocked | DoWouldBlock | DoScreened | DoUnknown

fun outcome_as_str :: "decision_outcome \<Rightarrow> string" where
  "outcome_as_str DoAllowed = ''allowed''"
| "outcome_as_str DoBlocked = ''blocked''"
| "outcome_as_str DoWouldBlock = ''would_block''"
| "outcome_as_str DoScreened = ''screened''"
| "outcome_as_str DoUnknown = ''unknown''"

record decision_context =
  dx_mode :: decision_mode
  dx_outcome :: decision_outcome
  dx_recorded_at_ms :: "u64 option"

definition context_default :: decision_context where
  "context_default = \<lparr>dx_mode = DmUnknown, dx_outcome = DoUnknown, dx_recorded_at_ms = None\<rparr>"

text \<open>\<^verbatim>\<open>Value::as_i64\<close>, and the text of an \<^verbatim>\<open>i64\<close>.\<close>

fun as_i64 :: "json \<Rightarrow> int option" where
  "as_i64 (JNum (PosInt n)) = (if unat n < 2 ^ 63 then Some (int (unat n)) else None)"
| "as_i64 (JNum (NegInt n)) = Some (sint n)"
| "as_i64 _ = None"

definition show_int :: "int \<Rightarrow> string" where
  "show_int i = (if i < 0 then CHR ''-'' # show_nat (nat (- i)) else show_nat (nat i))"

definition cmd_id :: "string \<Rightarrow> nat \<Rightarrow> string" where
  "cmd_id session seq = ''cmd:'' @ session @ '':'' @ show_nat seq"

definition session_id :: "string \<Rightarrow> string" where "session_id session = ''session:'' @ session"
definition cat_id :: "string \<Rightarrow> string" where "cat_id cat = ''cat:'' @ cat"
definition asi_id :: "string \<Rightarrow> string" where "asi_id asi = ''asi:'' @ asi"

definition plain_node :: "string \<Rightarrow> string \<Rightarrow> string \<Rightarrow> node" where
  "plain_node i kind label = \<lparr>nd_id = i, nd_kind = kind, nd_label = label, nd_attrs = []\<rparr>"

text \<open>The attributes of a command node.\<close>

definition command_attrs :: "nat \<Rightarrow> json \<Rightarrow> decision_context \<Rightarrow> decision_origin \<Rightarrow> (string, string) bmap" where
  "command_attrs seq verdict cx og =
     (let decided = (case get_str verdict ''decided_by'' of
            Some s \<Rightarrow> if s = [] then ''rules'' else s | None \<Rightarrow> ''rules'');
          m1 = bput ''source'' ''guardrail'' (bput ''seq'' (show_nat seq)
                 (bput ''recommendation'' (recommendation_of verdict) []));
          m2 = put_some ''mode_at_decision''
                 (if dx_mode cx \<noteq> DmUnknown then Some (mode_as_str (dx_mode cx)) else None) m1;
          m3 = put_some ''outcome''
                 (if dx_outcome cx \<noteq> DoUnknown then Some (outcome_as_str (dx_outcome cx)) else None) m2;
          m4 = put_some ''recorded_at_ms'' (map_option (\<lambda>ms. show_nat (unat ms)) (dx_recorded_at_ms cx)) m3;
          m5 = bput ''decided_by'' decided m4;
          m6 = put_some ''risk'' (map_option show_int (Option.bind (jget verdict ''risk_score'') as_i64)) m5;
          m7 = put_some ''explanation''
                 (case get_str verdict ''explanation'' of
                    Some why \<Rightarrow> if trim why \<noteq> [] then Some (short_text (trim why) 300) else None
                  | None \<Rightarrow> None) m6
      in write_attrs og m7)"

definition link_category :: "string \<Rightarrow> json \<Rightarrow> graph \<Rightarrow> graph" where
  "link_category cmd m g =
     (case get_str m ''category'' of
        None \<Rightarrow> g
      | Some cat \<Rightarrow> add_edge cmd (cat_id cat) ''triggered''
                      (upsert_node (plain_node (cat_id cat) ''category'' cat) g))"

definition link_asi :: "string \<Rightarrow> json \<Rightarrow> graph \<Rightarrow> graph" where
  "link_asi cmd i g =
     (case as_str i of
        None \<Rightarrow> g
      | Some asi \<Rightarrow> add_edge cmd (asi_id asi) ''flags''
                      (upsert_node (plain_node (asi_id asi) ''asi'' asi) g))"

definition ingest :: "string \<Rightarrow> nat \<Rightarrow> string \<Rightarrow> json \<Rightarrow> decision_context \<Rightarrow> decision_origin \<Rightarrow> graph \<Rightarrow> graph" where
  "ingest session seq command verdict cx og g =
     (let cmd = cmd_id session seq;
          prev = cmd_id session (seq - 1);
          g1 = upsert_node (plain_node (session_id session) ''session'' session) g;
          g2 = upsert_node \<lparr>nd_id = cmd, nd_kind = ''command'', nd_label = short_text command 120,
                            nd_attrs = command_attrs seq verdict cx og\<rparr> g1;
          g3 = add_edge (session_id session) cmd ''ran'' g2;
          g4 = (case get_array verdict ''atr_matches'' of Some ms \<Rightarrow> fold (link_category cmd) ms g3 | None \<Rightarrow> g3);
          g5 = (case get_array verdict ''asi_ids'' of Some is \<Rightarrow> fold (link_asi cmd) is g4 | None \<Rightarrow> g4)
      in if 0 < seq \<and> prev \<in> nd_id ` set (gr_nodes g5) then add_edge prev cmd ''next'' g5 else g5)"

definition ingest_verdict_with_context ::
  "string \<Rightarrow> nat \<Rightarrow> string \<Rightarrow> json \<Rightarrow> decision_context \<Rightarrow> graph \<Rightarrow> graph" where
  "ingest_verdict_with_context session seq command verdict cx = ingest session seq command verdict cx origin_default"

definition ingest_verdict :: "string \<Rightarrow> nat \<Rightarrow> string \<Rightarrow> json \<Rightarrow> graph \<Rightarrow> graph" where
  "ingest_verdict session seq command verdict =
     ingest_verdict_with_context session seq command verdict context_default"

text \<open>The next index: one past the highest. A \<^verbatim>\<open>usize\<close> wraps in a release build.\<close>

definition seqs_of :: "string \<Rightarrow> graph \<Rightarrow> nat list" where
  "seqs_of session g =
     List.map_filter (\<lambda>n. if is_command n
        then Option.bind (strip_prefix (''cmd:'' @ session @ '':'') (nd_id n)) (parse_unsigned (2 ^ 64)) else None)
       (gr_nodes g)"

definition next_seq :: "string \<Rightarrow> graph \<Rightarrow> nat" where
  "next_seq session g =
     (case seqs_of session g of [] \<Rightarrow> 0 | s # ss \<Rightarrow> (foldl max s ss + 1) mod 2 ^ 64)"

subsection \<open>Where the record lives\<close>

definition GUARD_CONFIG_PATH :: string where "GUARD_CONFIG_PATH = ''/etc/innerwarden/guard.toml''"
definition MAX_PRODUCT_CONFIG_BYTES :: nat where "MAX_PRODUCT_CONFIG_BYTES = 64 * 1024"
definition MAX_GRAPH_FILE_CHARS :: nat where "MAX_GRAPH_FILE_CHARS = 4096"

datatype product_config = CfgAbsent | CfgPresent string | CfgRefused string

datatype graph_path_source = EnvironmentOverride | ProductConfigFile | OperatorHome | Unresolved

record config_problem =
  cp_code :: string
  cp_message :: string

record graph_path_resolution =
  gp_path :: "path option"
  gp_source :: graph_path_source
  gp_config_problem :: "config_problem option"

text \<open>The rules of a configured path, each with its reason code.\<close>

definition validate_graph_file :: "string \<Rightarrow> string + path" where
  "validate_graph_file raw =
     (let segments = filter (\<lambda>s. s \<noteq> []) (split_on slash raw) in
      case first_error
        [(trim raw = [], ''config_graph_file_empty''),
         (raw \<noteq> trim raw, ''config_graph_file_padded''),
         (MAX_GRAPH_FILE_CHARS < char_count raw, ''config_graph_file_too_long''),
         (list_ex is_control (chars raw), ''config_graph_file_control_character''),
         (\<not> starts_with raw ''/'', ''config_graph_file_not_absolute''),
         (ends_with raw ''/'', ''config_graph_file_not_a_file''),
         (''..'' \<in> set segments, ''config_graph_file_parent_traversal''),
         (segments = [], ''config_graph_file_not_a_file'')]
      of Some code \<Rightarrow> Inl code | None \<Rightarrow> Inr raw)"

text \<open>\<open>graph_file_of\<close> stands for \<^verbatim>\<open>toml::from_str\<close> into \<^verbatim>\<open>ProductConfigFile\<close>: the value of
  \<^verbatim>\<open>graph_file\<close>, if the text is TOML.\<close>

definition parse_product_config :: "(string \<Rightarrow> string option option) \<Rightarrow> string \<Rightarrow> string + path" where
  "parse_product_config graph_file_of text =
     (if MAX_PRODUCT_CONFIG_BYTES < length text then Inl ''config_too_large''
      else case graph_file_of text of
        None \<Rightarrow> Inl ''config_malformed''
      | Some None \<Rightarrow> Inl ''config_missing_graph_file''
      | Some (Some raw) \<Rightarrow> validate_graph_file raw)"

definition fallback_message :: "string \<Rightarrow> bool \<Rightarrow> string" where
  "fallback_message code recorded_in_home =
     (if recorded_in_home then
        GUARD_CONFIG_PATH @ '' exists but does not name a usable record file ('' @ code
        @ ''), so decisions are being recorded under the operator home instead, where an ''
        @ ''InnerWarden agent running as its own user cannot read them. Fix that file or remove it.''
      else
        GUARD_CONFIG_PATH @ '' exists but does not name a usable record file ('' @ code
        @ ''), and no other record location is set, so decisions are not being recorded. ''
        @ ''Fix that file or remove it.'')"

definition home_record :: "(string \<Rightarrow> string option) \<Rightarrow> string option \<Rightarrow> graph_path_resolution" where
  "home_record env code =
     (let path = map_option (\<lambda>h. pjoin h ''.config/innerwarden/graph.json'')
                   (opt_filter (\<lambda>h. trim h \<noteq> []) (env ''HOME''))
      in \<lparr>gp_path = path,
          gp_source = (if path \<noteq> None then OperatorHome else Unresolved),
          gp_config_problem = map_option (\<lambda>c. \<lparr>cp_code = c, cp_message = fallback_message c (path \<noteq> None)\<rparr>) code\<rparr>)"

definition graph_path ::
  "(string \<Rightarrow> string option option) \<Rightarrow> (string \<Rightarrow> string option) \<Rightarrow> product_config \<Rightarrow> graph_path_resolution" where
  "graph_path graph_file_of env config =
     (case opt_filter (\<lambda>s. trim s \<noteq> []) (env ''IW_GRAPH_FILE'') of
        Some p \<Rightarrow> \<lparr>gp_path = Some p, gp_source = EnvironmentOverride, gp_config_problem = None\<rparr>
      | None \<Rightarrow>
         (case config of
            CfgAbsent \<Rightarrow> home_record env None
          | CfgRefused code \<Rightarrow> home_record env (Some code)
          | CfgPresent text \<Rightarrow>
             (case parse_product_config graph_file_of text of
                Inr path \<Rightarrow> \<lparr>gp_path = Some path, gp_source = ProductConfigFile, gp_config_problem = None\<rparr>
              | Inl code \<Rightarrow> home_record env (Some code))))"
end
