(* ===== verification/GraphLaws.thy ===== *)
theory GraphLaws
  imports Graph
begin

text \<open>
  What holds of the record of decisions: a well-formed record and that every operation that writes
  it keeps it so, that recording appends, what pruning keeps, when it ends, and when it does not.
\<close>

subsection \<open>A well-formed record\<close>

text \<open>Ids are unique, edges are not repeated, the attributes are maps, and the id of a node says its
  kind where it is a command or a session.\<close>

definition node_ok :: "node \<Rightarrow> bool" where
  "node_ok n \<longleftrightarrow> bmap_wf (nd_attrs n) \<and> (starts_with (nd_id n) ''cmd:'' \<longleftrightarrow> is_command n)
     \<and> (starts_with (nd_id n) ''session:'' \<longleftrightarrow> is_session n)"

definition graph_ok :: "graph \<Rightarrow> bool" where
  "graph_ok g \<longleftrightarrow> distinct (map nd_id (gr_nodes g)) \<and> distinct (gr_edges g) \<and> list_all node_ok (gr_nodes g)"

definition edges_closed :: "graph \<Rightarrow> bool" where
  "edges_closed g \<longleftrightarrow> (\<forall>e\<in>set (gr_edges g). ed_from e \<in> nd_id ` set (gr_nodes g) \<and> ed_to e \<in> nd_id ` set (gr_nodes g))"

lemma merge_node_id [simp]: "nd_id (merge_node n m) = nd_id m"
  by (simp add: merge_node_def)

lemma upsert_ids: "map nd_id (upsert_in n ns) = (if nd_id n \<in> nd_id ` set ns then map nd_id ns else map nd_id ns @ [nd_id n])"
  by (induction n ns rule: upsert_in.induct) auto

lemma upsert_distinct: "distinct (map nd_id ns) \<Longrightarrow> distinct (map nd_id (upsert_in n ns))"
  by (simp add: upsert_ids)

lemma upsert_new: "nd_id n \<notin> nd_id ` set ns \<Longrightarrow> upsert_in n ns = ns @ [n]"
  by (induction n ns rule: upsert_in.induct) auto

lemma upsert_set: "set (upsert_in n ns) \<subseteq> insert n (set ns) \<union> {merge_node n m | m. m \<in> set ns \<and> nd_id m = nd_id n}"
  by (induction n ns rule: upsert_in.induct) auto

lemma upsert_other: "filter (\<lambda>m. nd_id m \<noteq> nd_id n \<and> p m) (upsert_in n ns) = filter (\<lambda>m. nd_id m \<noteq> nd_id n \<and> p m) ns"
  by (induction n ns rule: upsert_in.induct) auto

lemma fold_bput_wf: "bmap_wf m \<Longrightarrow> bmap_wf (fold (\<lambda>(k, v). bput k v) kvs m)"
  by (rule bstore.inv_fold_put)

lemma merge_node_ok: "node_ok n \<Longrightarrow> node_ok m \<Longrightarrow> nd_id m = nd_id n \<Longrightarrow> node_ok (merge_node n m)"
  by (auto simp: node_ok_def merge_node_def is_command_def is_session_def fold_bput_wf)

lemma upsert_ok: "node_ok n \<Longrightarrow> list_all node_ok ns \<Longrightarrow> list_all node_ok (upsert_in n ns)"
  by (induction n ns rule: upsert_in.induct) (auto simp: merge_node_ok)

lemma graph_ok_upsert [intro]: "graph_ok g \<Longrightarrow> node_ok n \<Longrightarrow> graph_ok (upsert_node n g)"
  by (simp add: graph_ok_def upsert_node_def upsert_distinct upsert_ok)

lemma graph_ok_add_edge [intro]: "graph_ok g \<Longrightarrow> graph_ok (add_edge a b k g)"
  by (simp add: graph_ok_def add_edge_def Let_def)

lemma add_edge_nodes [simp]: "gr_nodes (add_edge a b k g) = gr_nodes g"
  by (simp add: add_edge_def Let_def)

lemma upsert_node_edges [simp]: "gr_edges (upsert_node n g) = gr_edges g"
  by (simp add: upsert_node_def)

lemma graph_ok_fold: "\<lbrakk>\<And>x g. graph_ok g \<Longrightarrow> x \<in> set xs \<Longrightarrow> graph_ok (f x g); graph_ok g\<rbrakk> \<Longrightarrow> graph_ok (fold f xs g)"
  by (induction xs arbitrary: g) auto

lemma graph_ok_merge: "graph_ok g \<Longrightarrow> graph_ok other \<Longrightarrow> graph_ok (merge_graph other g)"
  unfolding merge_graph_def
  by (intro graph_ok_fold) (auto simp: add_edge_of_def graph_ok_def[of other] list_all_iff)

lemma plain_node_ok:
  "node_ok (plain_node (session_id s) ''session'' l)"
  "node_ok (plain_node (cat_id s) ''category'' l)"
  "node_ok (plain_node (asi_id s) ''asi'' l)"
  by (simp_all add: node_ok_def plain_node_def is_command_def is_session_def bmap_wf_def session_id_def
      cat_id_def asi_id_def)

lemma put_some_wf: "bmap_wf m \<Longrightarrow> bmap_wf (put_some k v m)"
  by (simp add: put_some_def bmap_wf_bput split: option.split)

lemma write_attrs_wf: "bmap_wf m \<Longrightarrow> bmap_wf (write_attrs og m)"
  by (simp add: write_attrs_def write_layer_def write_trust_def Let_def put_some_wf bmap_wf_bput split: option.split)

lemma command_attrs_wf: "bmap_wf (command_attrs seq verdict cx og)"
  unfolding command_attrs_def Let_def
  by (intro write_attrs_wf put_some_wf bmap_wf_bput) (simp add: bmap_wf_def)

lemma command_node_ok: "node_ok \<lparr>nd_id = cmd_id s k, nd_kind = ''command'', nd_label = l, nd_attrs = command_attrs k v cx og\<rparr>"
  by (simp add: node_ok_def command_attrs_wf is_command_def is_session_def cmd_id_def)

lemma graph_ok_link:
  "graph_ok g \<Longrightarrow> graph_ok (link_category c m g)"
  "graph_ok g \<Longrightarrow> graph_ok (link_asi c i g)"
  by (simp_all add: link_category_def link_asi_def graph_ok_add_edge graph_ok_upsert plain_node_ok split: option.split)

text \<open>The graph once the command's node and edge are in, and once its findings are.\<close>

definition recorded :: "string \<Rightarrow> nat \<Rightarrow> string \<Rightarrow> json \<Rightarrow> decision_context \<Rightarrow> decision_origin \<Rightarrow> graph \<Rightarrow> graph" where
  "recorded session seq command verdict cx og g =
     add_edge (session_id session) (cmd_id session seq) ''ran''
       (upsert_node \<lparr>nd_id = cmd_id session seq, nd_kind = ''command'', nd_label = short_text command 120,
                      nd_attrs = command_attrs seq verdict cx og\<rparr>
         (upsert_node (plain_node (session_id session) ''session'' session) g))"

definition with_findings :: "string \<Rightarrow> json \<Rightarrow> graph \<Rightarrow> graph" where
  "with_findings cmd verdict g =
     fold (link_asi cmd) (case get_array verdict ''asi_ids'' of Some xs \<Rightarrow> xs | None \<Rightarrow> [])
       (fold (link_category cmd) (case get_array verdict ''atr_matches'' of Some xs \<Rightarrow> xs | None \<Rightarrow> []) g)"

lemma ingest_parts:
  "ingest session seq command verdict cx og g =
     (let g' = with_findings (cmd_id session seq) verdict (recorded session seq command verdict cx og g);
          prev = cmd_id session (seq - 1)
      in if 0 < seq \<and> prev \<in> nd_id ` set (gr_nodes g') then add_edge prev (cmd_id session seq) ''next'' g' else g')"
  by (cases "get_array verdict ''atr_matches''"; cases "get_array verdict ''asi_ids''")
    (simp_all add: ingest_def with_findings_def recorded_def Let_def)

lemma recorded_ok: "graph_ok g \<Longrightarrow> graph_ok (recorded session seq command verdict cx og g)"
  by (simp add: recorded_def graph_ok_add_edge graph_ok_upsert plain_node_ok command_node_ok)

lemma with_findings_ok: "graph_ok g \<Longrightarrow> graph_ok (with_findings cmd verdict g)"
  unfolding with_findings_def by (intro graph_ok_fold) (simp_all add: graph_ok_link graph_ok_fold)

lemma ingest_ok: "graph_ok g \<Longrightarrow> graph_ok (ingest session seq command verdict cx og g)"
  by (simp add: ingest_parts Let_def graph_ok_add_edge with_findings_ok recorded_ok)

subsection \<open>Ingestion appends\<close>

lemma commands_upsert_plain:
  assumes "graph_ok g" "\<not> starts_with (nd_id n) ''cmd:''" "\<not> is_command n"
  shows "commands_of (upsert_node n g) = commands_of g"
proof -
  have "filter is_command (upsert_in n ns) = filter is_command ns" if "list_all node_ok ns" for ns
    using that
  proof (induction ns)
    case (Cons m ms)
    have "nd_id m = nd_id n \<Longrightarrow> \<not> is_command m \<and> \<not> is_command (merge_node n m)"
      using Cons.prems assms(2,3) by (auto simp: node_ok_def is_command_def merge_node_def)
    then show ?case using Cons by simp
  qed (use assms(3) in simp)
  then show ?thesis using assms(1) by (simp add: graph_ok_def upsert_node_def commands_of_def)
qed

lemma plain_ids [simp]:
  "\<not> starts_with (nd_id (plain_node (session_id s) k l)) ''cmd:''"
  "\<not> starts_with (nd_id (plain_node (cat_id s) k l)) ''cmd:''"
  "\<not> starts_with (nd_id (plain_node (asi_id s) k l)) ''cmd:''"
  "is_command (plain_node i k l) \<longleftrightarrow> k = ''command''"
  by (simp_all add: plain_node_def session_id_def cat_id_def asi_id_def is_command_def)

lemma commands_add_edge [simp]: "commands_of (add_edge a b k g) = commands_of g"
  by (simp add: commands_of_def)

lemma commands_link:
  assumes "graph_ok g"
  shows "commands_of (link_category c m g) = commands_of g" "commands_of (link_asi c i g) = commands_of g"
  by (simp_all add: link_category_def link_asi_def commands_upsert_plain[OF assms] split: option.split)

lemma commands_fold:
  assumes "\<And>x g. graph_ok g \<Longrightarrow> graph_ok (f x g) \<and> commands_of (f x g) = commands_of g"
  shows "graph_ok g \<Longrightarrow> commands_of (fold f xs g) = commands_of g"
  using assms by (induction xs arbitrary: g) auto

lemma commands_with_findings: "graph_ok g \<Longrightarrow> commands_of (with_findings cmd verdict g) = commands_of g"
  unfolding with_findings_def
  by (simp add: commands_fold commands_link graph_ok_link graph_ok_fold)

lemma cmd_not_session: "cmd_id s k \<noteq> session_id t"
  by (simp add: cmd_id_def session_id_def)

lemma commands_recorded:
  assumes "graph_ok g" "cmd_id session seq \<notin> nd_id ` set (gr_nodes g)"
  shows "commands_of (recorded session seq command verdict cx og g) = commands_of g
    @ [\<lparr>nd_id = cmd_id session seq, nd_kind = ''command'', nd_label = short_text command 120,
        nd_attrs = command_attrs seq verdict cx og\<rparr>]" (is "_ = _ @ [?n]")
proof -
  let ?h = "upsert_node (plain_node (session_id session) ''session'' session) g"
  have "set (map nd_id (gr_nodes ?h)) \<subseteq> insert (session_id session) (nd_id ` set (gr_nodes g))"
    by (auto simp: upsert_node_def upsert_ids plain_node_def)
  then have "nd_id ?n \<notin> nd_id ` set (gr_nodes ?h)"
    using assms(2) cmd_not_session[of session seq session] by auto
  then have "gr_nodes (upsert_node ?n ?h) = gr_nodes ?h @ [?n]"
    by (simp add: upsert_node_def upsert_new)
  moreover have "commands_of ?h = commands_of g" by (simp add: commands_upsert_plain[OF assms(1)])
  ultimately show ?thesis by (simp add: recorded_def commands_of_def is_command_def)
qed

lemma foldl_max_le: "x \<in> set (y # ys) \<Longrightarrow> x \<le> foldl max y (ys :: nat list)"
proof (induction ys arbitrary: x y)
  case (Cons z ys)
  have "max y z \<le> foldl max (max y z) ys" using Cons.IH[of "max y z" "max y z"] by simp
  moreover have "x \<in> set ys \<Longrightarrow> x \<le> foldl max (max y z) ys" using Cons.IH[of x "max y z"] by simp
  ultimately show ?case using Cons.prems by auto
qed simp

lemma foldl_max_in: "foldl max y (ys :: nat list) \<in> set (y # ys)"
proof (induction ys arbitrary: y)
  case (Cons z ys)
  then show ?case using Cons.IH[of "max y z"] by (auto simp: max_def split: if_splits)
qed simp

lemma next_seq_fresh:
  assumes "graph_ok g" "\<forall>k\<in>set (seqs_of session g). k + 1 < 2 ^ 64"
  shows "cmd_id session (next_seq session g) \<notin> nd_id ` set (gr_nodes g)"
proof
  let ?k = "next_seq session g"
  have below: "k < ?k \<and> ?k < 2 ^ 64" if "k \<in> set (seqs_of session g)" for k
  proof (cases "seqs_of session g")
    case (Cons s ss)
    have "foldl max s ss + 1 < 2 ^ 64" using assms(2) Cons foldl_max_in[of s ss] by metis
    then have "?k = foldl max s ss + 1" using Cons by (simp add: next_seq_def)
    moreover have "k \<le> foldl max s ss" using that Cons foldl_max_le by metis
    ultimately show ?thesis using \<open>foldl max s ss + 1 < 2 ^ 64\<close> by simp
  qed (use that in simp)
  have small: "?k < 2 ^ 64" by (simp add: next_seq_def split: list.split)
  assume "cmd_id session ?k \<in> nd_id ` set (gr_nodes g)"
  then obtain n where n: "n \<in> set (gr_nodes g)" "nd_id n = cmd_id session ?k" by (metis imageE)
  have "node_ok n" using assms(1) n(1) by (simp add: graph_ok_def list_all_iff)
  moreover have "starts_with (nd_id n) ''cmd:''" unfolding n(2) by (simp add: cmd_id_def)
  ultimately have "is_command n" by (simp add: node_ok_def)
  moreover have "strip_prefix (''cmd:'' @ session @ '':'') (nd_id n) = Some (show_nat ?k)"
    unfolding n(2) cmd_id_def by (metis append_assoc strip_prefix_append)
  ultimately have "?k \<in> set (seqs_of session g)"
    using n(1) parse_unsigned_show[OF small]
    by (force simp: seqs_of_def List.map_filter_def)
  then show False using below by blast
qed

text \<open>C8: Recording appends. On a well-formed record the next index of a session names no node,
  and to ingest a decision under it leaves every recorded decision as it is and adds the new one at
  the end; the record stays well formed.\<close>

theorem recording_appends:
  assumes "graph_ok g" "\<forall>k\<in>set (seqs_of session g). k + 1 < 2 ^ 64"
  shows "commands_of (ingest session (next_seq session g) command verdict cx og g)
      = commands_of g @ [\<lparr>nd_id = cmd_id session (next_seq session g), nd_kind = ''command'',
          nd_label = short_text command 120, nd_attrs = command_attrs (next_seq session g) verdict cx og\<rparr>]
    \<and> graph_ok (ingest session (next_seq session g) command verdict cx og g)"
proof -
  let ?h = "recorded session (next_seq session g) command verdict cx og g"
  have ok: "graph_ok ?h" by (rule recorded_ok[OF assms(1)])
  have "commands_of (ingest session (next_seq session g) command verdict cx og g) = commands_of ?h"
    by (simp add: ingest_parts Let_def commands_with_findings[OF ok])
  then show ?thesis
    by (simp add: commands_recorded[OF assms(1) next_seq_fresh[OF assms]] ingest_ok[OF assms(1)])
qed

definition sample_graph :: graph where
  "sample_graph = ingest_verdict ''s1'' 0 ''ls'' (jobj [(''recommendation'', JStr ''allow'')]) graph_default"

lemma sample_graph_ok: "graph_ok sample_graph" "edges_closed sample_graph"
  by (code_simp, code_simp)

subsection \<open>What pruning keeps\<close>

definition sessions_of :: "graph \<Rightarrow> node list" where
  "sessions_of g = filter is_session (gr_nodes g)"

text \<open>The relation of a record to the one it was pruned from: the sessions and the newest commands are
  kept, and every edge whose ends are.\<close>

definition pruned_to :: "graph \<Rightarrow> graph \<Rightarrow> bool" where
  "pruned_to g h \<longleftrightarrow> sessions_of h = sessions_of g \<and> suffix (commands_of h) (commands_of g)
     \<and> set (gr_nodes h) \<subseteq> set (gr_nodes g) \<and> graph_ok h \<and> edges_closed h
     \<and> gr_edges h = filter (\<lambda>e. ed_from e \<in> nd_id ` set (gr_nodes h) \<and> ed_to e \<in> nd_id ` set (gr_nodes h)) (gr_edges g)"

lemma drop_oldest_nodes:
  "gr_nodes (fst (drop_oldest k g)) = filter is_session (take k (gr_nodes g)) @ drop k (gr_nodes g)"
  by (simp add: drop_oldest_def Let_def)

lemma drop_oldest_edges:
  "gr_edges (fst (drop_oldest k g)) = filter (\<lambda>e. ed_from e \<notin> nd_id ` {n \<in> set (take k (gr_nodes g)). \<not> is_session n}
     \<and> ed_to e \<notin> nd_id ` {n \<in> set (take k (gr_nodes g)). \<not> is_session n}) (gr_edges g)"
  by (auto simp: drop_oldest_def Let_def intro!: filter_True[symmetric])

lemma filter_take_drop: "filter p (take k xs) @ filter p (drop k xs) = filter p xs"
  by (metis append_take_drop_id filter_append)

lemma drop_oldest_sessions: "sessions_of (fst (drop_oldest k g)) = sessions_of g"
  by (simp add: sessions_of_def drop_oldest_nodes filter_take_drop)

lemma drop_oldest_commands: "commands_of (fst (drop_oldest k g)) = filter is_command (drop k (gr_nodes g))"
  by (simp add: commands_of_def drop_oldest_nodes is_command_def is_session_def filter_empty_conv)

lemma drop_oldest_set: "set (gr_nodes (fst (drop_oldest k g))) \<subseteq> set (gr_nodes g)"
  by (auto simp: drop_oldest_nodes dest: in_set_takeD in_set_dropD)

lemma dropped_ids:
  assumes "distinct (map nd_id (gr_nodes g))"
  shows "nd_id ` {n \<in> set (take k (gr_nodes g)). \<not> is_session n}
    = nd_id ` set (gr_nodes g) - nd_id ` set (gr_nodes (fst (drop_oldest k g)))"
proof -
  let ?f = "take k (gr_nodes g)" and ?r = "drop k (gr_nodes g)"
  have parts: "set (gr_nodes g) = set ?f \<union> set ?r" by (metis append_take_drop_id set_append)
  have inj: "inj_on nd_id (set (gr_nodes g))" using assms by (simp add: distinct_map)
  have "distinct (gr_nodes g)" using assms by (simp add: distinct_map)
  then have apart: "set ?f \<inter> set ?r = {}" by (simp add: set_take_disj_set_drop_if_distinct)
  have "set (gr_nodes (fst (drop_oldest k g))) = {n \<in> set ?f. is_session n} \<union> set ?r"
    by (simp add: drop_oldest_nodes)
  moreover have "{n \<in> set ?f. \<not> is_session n} = set (gr_nodes g) - ({n \<in> set ?f. is_session n} \<union> set ?r)"
    using parts apart by auto
  ultimately show ?thesis
    using inj_on_image_set_diff[OF inj, of "set (gr_nodes g)" "set (gr_nodes (fst (drop_oldest k g)))"]
      drop_oldest_set[of k g] by simp
qed

lemma drop_oldest_pruned:
  assumes "graph_ok g" "edges_closed g"
  shows "pruned_to g (fst (drop_oldest k g))"
proof -
  let ?h = "fst (drop_oldest k g)"
  have dist: "distinct (map nd_id (gr_nodes g))" using assms(1) by (simp add: graph_ok_def)
  have nodes: "gr_nodes ?h = filter is_session (take k (gr_nodes g)) @ drop k (gr_nodes g)"
    by (rule drop_oldest_nodes)
  have "distinct (map nd_id (take k (gr_nodes g)) @ map nd_id (drop k (gr_nodes g)))"
    using dist by (metis append_take_drop_id map_append)
  then have ids: "distinct (map nd_id (gr_nodes ?h))" by (auto simp: nodes distinct_map_filter)
  have edges: "gr_edges ?h = filter (\<lambda>e. ed_from e \<in> nd_id ` set (gr_nodes ?h) \<and> ed_to e \<in> nd_id ` set (gr_nodes ?h)) (gr_edges g)"
    unfolding drop_oldest_edges dropped_ids[OF dist]
    using assms(2) by (intro filter_cong) (auto simp: edges_closed_def)
  have "list_all node_ok (gr_nodes ?h)"
    using assms(1) drop_oldest_set[of k g] by (auto simp: graph_ok_def list_all_iff)
  then have "graph_ok ?h" using ids assms(1) by (simp add: graph_ok_def edges)
  moreover have "edges_closed ?h" by (simp add: edges_closed_def edges)
  moreover have "commands_of g = filter is_command (take k (gr_nodes g)) @ commands_of ?h"
    unfolding drop_oldest_commands by (simp add: commands_of_def filter_take_drop)
  then have "suffix (commands_of ?h) (commands_of g)" by (rule suffixI)
  ultimately show ?thesis
    using edges drop_oldest_set[of k g] by (simp add: pruned_to_def drop_oldest_sessions)
qed

lemma pruned_to_refl: "graph_ok g \<Longrightarrow> edges_closed g \<Longrightarrow> pruned_to g g"
  by (auto simp: pruned_to_def edges_closed_def intro!: filter_True[symmetric])

lemma filter_ends_twice:
  "A \<subseteq> B \<Longrightarrow> filter (\<lambda>e. ed_from e \<in> A \<and> ed_to e \<in> A) (filter (\<lambda>e. ed_from e \<in> B \<and> ed_to e \<in> B) es)
    = filter (\<lambda>e. ed_from e \<in> A \<and> ed_to e \<in> A) es"
  by (induction es) auto

lemma pruned_to_trans:
  assumes "pruned_to a b" "pruned_to b c"
  shows "pruned_to a c"
proof -
  have sub: "nd_id ` set (gr_nodes c) \<subseteq> nd_id ` set (gr_nodes b)"
    using assms(2) by (auto simp: pruned_to_def)
  have "gr_edges c = filter (\<lambda>e. ed_from e \<in> nd_id ` set (gr_nodes c) \<and> ed_to e \<in> nd_id ` set (gr_nodes c)) (gr_edges a)"
    using assms filter_ends_twice[OF sub, of "gr_edges a"] by (simp add: pruned_to_def)
  moreover have "suffix (commands_of c) (commands_of a)"
    using assms suffix_order.trans unfolding pruned_to_def by blast
  moreover have "set (gr_nodes c) \<subseteq> set (gr_nodes a)" using assms unfolding pruned_to_def by blast
  ultimately show ?thesis using assms unfolding pruned_to_def by simp
qed

text \<open>What holds of a result of the loop.\<close>

definition loop_result :: "(graph \<Rightarrow> string option) \<Rightarrow> graph \<Rightarrow> graph \<Rightarrow> bool" where
  "loop_result to_string g h \<longleftrightarrow> \<not> over_budget to_string h \<and> (graph_ok g \<longrightarrow> edges_closed g \<longrightarrow> pruned_to g h)"

lemma loop_result_step:
  assumes "loop_result to_string (fst (drop_oldest k g)) h"
  shows "loop_result to_string g h"
proof -
  have "pruned_to g h" if "graph_ok g" "edges_closed g"
  proof -
    have step: "pruned_to g (fst (drop_oldest k g))" by (rule drop_oldest_pruned[OF that])
    then have "graph_ok (fst (drop_oldest k g))" "edges_closed (fst (drop_oldest k g))"
      unfolding pruned_to_def by blast+
    then show ?thesis using pruned_to_trans[OF step] assms unfolding loop_result_def by blast
  qed
  then show ?thesis using assms unfolding loop_result_def by blast
qed

lemma prune_loop_result: "prune_loop to_string g d = Some r \<Longrightarrow> loop_result to_string g (fst r)"
proof (rule prune_loop.raw_induct[where P = "\<lambda>to_string g d r. loop_result to_string g (fst r)"], goal_cases)
  case (1 rec to_string g d r)
  show ?case
  proof (cases "over_budget to_string g")
    case True
    let ?p = "drop_oldest (max (length (gr_nodes g) div 10) 1) g"
    have "rec to_string (fst ?p) (d + snd ?p) = Some r"
      using 1(3) True by (simp add: case_prod_beta)
    from 1(2)[OF this] show ?thesis by (rule loop_result_step)
  next
    case False
    then have "fst r = g" using 1(3) by auto
    then show ?thesis using False pruned_to_refl[of g] by (simp add: loop_result_def)
  qed
qed

lemma length_first_drop:
  "length (gr_nodes (fst (drop_oldest (length (gr_nodes g) - MAX_NODES) g))) \<le> length (sessions_of g) + MAX_NODES"
proof -
  have "length (filter is_session (take k (gr_nodes g))) \<le> length (sessions_of g)" for k
    unfolding sessions_of_def by (metis filter_take_drop length_append le_add1)
  from this[of "length (gr_nodes g) - MAX_NODES"] show ?thesis by (simp add: drop_oldest_nodes)
qed

text \<open>C9: What pruning keeps. When \<^verbatim>\<open>prune\<close> returns, the file fits the budget; every session node is
  there; the commands kept are the newest, in their order; every edge whose two ends are kept is kept
  and no edge dangles; and no more than \<open>MAX_NODES\<close> nodes are left beside the sessions.\<close>

theorem prune_keeps:
  assumes "graph_ok g" "edges_closed g" "prune to_string g = Some (h, n)"
  shows "pruned_to g h \<and> \<not> over_budget to_string h
    \<and> length (gr_nodes h) \<le> MAX_NODES + length (sessions_of g)"
proof -
  let ?p = "drop_oldest (length (gr_nodes g) - MAX_NODES) g"
  have "prune_loop to_string (fst ?p) (snd ?p) = Some (h, n)"
    using assms(3) by (simp add: prune_def case_prod_beta)
  then have loop: "loop_result to_string (fst ?p) h" using prune_loop_result by fastforce
  have first: "pruned_to g (fst ?p)" by (rule drop_oldest_pruned[OF assms(1,2)])
  then have rest: "pruned_to (fst ?p) h" using loop unfolding loop_result_def pruned_to_def by blast
  have whole: "pruned_to g h" by (rule pruned_to_trans[OF first rest])
  have fits: "\<not> over_budget to_string h" using loop unfolding loop_result_def by blast
  have "distinct (gr_nodes h)" "set (gr_nodes h) \<subseteq> set (gr_nodes (fst ?p))"
    using rest by (auto simp: pruned_to_def graph_ok_def distinct_map)
  then have "length (gr_nodes h) \<le> length (gr_nodes (fst ?p))"
    by (metis card_length card_mono distinct_card finite_set le_trans)
  also have "\<dots> \<le> length (sessions_of g) + MAX_NODES" by (rule length_first_drop)
  finally show ?thesis using whole fits by simp
qed

lemma prune_keeps_witness:
  "\<exists>h. prune (\<lambda>g. None) sample_graph = Some (h, 0) \<and> pruned_to sample_graph h \<and> length (gr_nodes h) \<le> MAX_NODES + 1"
proof -
  have "length (gr_nodes sample_graph) = 2" "length (sessions_of sample_graph) = 1" by code_simp+
  then have "prune (\<lambda>g. None) sample_graph = Some (sample_graph, 0)"
    by (simp add: prune_def drop_oldest_def MAX_NODES_def prune_loop.simps over_budget_def graph_to_json_def MAX_BYTES_def)
  then show ?thesis
    using prune_keeps[OF sample_graph_ok \<open>prune (\<lambda>g. None) sample_graph = Some (sample_graph, 0)\<close>]
      \<open>length (sessions_of sample_graph) = 1\<close> by simp
qed

lemma recording_appends_witness:
  "commands_of (ingest ''s1'' 1 ''rm -rf /'' JNull context_default origin_default sample_graph)
    = commands_of sample_graph @ [\<lparr>nd_id = ''cmd:s1:1'', nd_kind = ''command'', nd_label = ''rm -rf /'',
        nd_attrs = command_attrs 1 JNull context_default origin_default\<rparr>]"
proof -
  have "seqs_of ''s1'' sample_graph = [0]" "next_seq ''s1'' sample_graph = 1" "cmd_id ''s1'' 1 = ''cmd:s1:1''"
    "short_text ''rm -rf /'' 120 = ''rm -rf /''" by code_simp+
  then show ?thesis
    using recording_appends[OF sample_graph_ok(1), where session = "''s1''" and command = "''rm -rf /''"
        and verdict = JNull and cx = context_default and og = origin_default] by simp
qed

subsection \<open>When pruning ends\<close>

text \<open>A step of the loop drops a node where the oldest tenth holds one that is no session.\<close>

lemma drop_oldest_shorter:
  assumes "length (sessions_of g) < k" "k \<le> length (gr_nodes g)"
  shows "length (gr_nodes (fst (drop_oldest k g))) < length (gr_nodes g)"
proof -
  have "length (filter is_session (take k (gr_nodes g))) \<le> length (sessions_of g)"
    unfolding sessions_of_def by (metis filter_take_drop length_append le_add1)
  then show ?thesis using assms by (simp add: drop_oldest_nodes)
qed

lemma prune_loop_ends:
  assumes "\<And>h. set (gr_nodes h) \<subseteq> set (gr_nodes g) \<Longrightarrow>
      length (gr_nodes h) < 10 * (length (sessions_of g) + 1) \<Longrightarrow> \<not> over_budget to_string h"
  shows "\<exists>r. prune_loop to_string g d = Some r"
  using assms
proof (induction "length (gr_nodes g)" arbitrary: g d rule: less_induct)
  case less
  show ?case
  proof (cases "over_budget to_string g")
    case True
    let ?k = "max (length (gr_nodes g) div 10) 1" and ?p = "drop_oldest (max (length (gr_nodes g) div 10) 1) g"
    have long: "10 * (length (sessions_of g) + 1) \<le> length (gr_nodes g)"
      using less.prems[of g] True by (meson not_less order_refl)
    then have "length (sessions_of g) + 1 \<le> length (gr_nodes g) div 10"
      using div_le_mono[OF long, of 10] by simp
    then have "length (sessions_of g) < ?k" "?k \<le> length (gr_nodes g)" using long by simp_all
    then have "length (gr_nodes (fst ?p)) < length (gr_nodes g)" by (rule drop_oldest_shorter)
    moreover have "\<not> over_budget to_string h"
      if "set (gr_nodes h) \<subseteq> set (gr_nodes (fst ?p))" "length (gr_nodes h) < 10 * (length (sessions_of (fst ?p)) + 1)" for h
      using less.prems[of h] that drop_oldest_set[of ?k g] by (simp add: drop_oldest_sessions)
    ultimately have "\<exists>r. prune_loop to_string (fst ?p) (d + snd ?p) = Some r" by (rule less.hyps) 
    then show ?thesis using True by (subst prune_loop.simps) (simp add: case_prod_beta)
  next
    case False
    then show ?thesis by (subst prune_loop.simps) simp
  qed
qed



text \<open>A record whose oldest tenth is sessions, and which is over the budget: a step changes nothing.\<close>

definition stuck :: "(graph \<Rightarrow> string option) \<Rightarrow> graph \<Rightarrow> bool" where
  "stuck to_string g \<longleftrightarrow> over_budget to_string g
     \<and> list_all is_session (take (max (length (gr_nodes g) div 10) 1) (gr_nodes g))"

lemma drop_only_sessions:
  assumes "list_all is_session (take k (gr_nodes g))"
  shows "drop_oldest k g = (g, 0)"
proof -
  have a: "filter is_session (take k (gr_nodes g)) = take k (gr_nodes g)"
    using assms by (simp add: list_all_iff)
  have b: "filter (\<lambda>n. \<not> is_session n) (take k (gr_nodes g)) = []"
    using assms by (auto simp: list_all_iff filter_empty_conv)
  show ?thesis unfolding drop_oldest_def Let_def a b by simp
qed

lemma stuck_loop: "prune_loop to_string g d = Some r \<Longrightarrow> \<not> stuck to_string g"
proof (rule prune_loop.raw_induct[where P = "\<lambda>to_string g d r. \<not> stuck to_string g"], goal_cases)
  case (1 rec to_string g d r)
  show ?case
  proof
    assume s: "stuck to_string g"
    then have "rec to_string g (d + 0) = Some r" using 1(3) s drop_only_sessions by (simp add: stuck_def)
    from 1(2)[OF this] show False using s by simp
  qed
qed

text \<open>C11: Pruning that never ends. A record of at most \<open>MAX_NODES\<close> nodes over the byte budget, whose
  oldest tenth is session nodes, is never made smaller: the loop of \<^verbatim>\<open>prune\<close> runs for ever. The
  sessions an earlier pruning kept are put at the front, where the next one looks first.\<close>

theorem prune_never_ends:
  assumes "length (gr_nodes g) \<le> MAX_NODES" "over_budget to_string g"
    and "list_all is_session (take (max (length (gr_nodes g) div 10) 1) (gr_nodes g))"
  shows "prune to_string g = None"
proof -
  have "prune to_string g = prune_loop to_string g 0"
    using assms(1) by (simp add: prune_def drop_oldest_def)
  moreover have "stuck to_string g" using assms(2,3) by (simp add: stuck_def)
  ultimately show ?thesis using stuck_loop by (cases "prune_loop to_string g 0") auto
qed

lemma prune_never_ends_witness:
  "prune (\<lambda>g. Some (replicate (MAX_BYTES + 1) CHR ''x'')) sample_graph = None"
proof (rule prune_never_ends)
  have n: "length (gr_nodes sample_graph) = 2" by code_simp
  then show "length (gr_nodes sample_graph) \<le> MAX_NODES" by (simp add: MAX_NODES_def)
  show "over_budget (\<lambda>g. Some (replicate (MAX_BYTES + 1) CHR ''x'')) sample_graph"
    using n by (simp add: over_budget_def graph_to_json_def)
  show "list_all is_session (take (max (length (gr_nodes sample_graph) div 10) 1) (gr_nodes sample_graph))"
    by code_simp
qed
end
