(* ===== verification/Views.thy ===== *)
theory Views
  imports Graph
begin
text \<open>
  What the record is read as: the counts, the narrative, the summary of the home screen and the page
  of sessions of \<^verbatim>\<open>src/crates/graph/src/lib.rs\<close>. The maps a read builds (\<^verbatim>\<open>HashMap\<close>) are the functions
  they represent: a later node of the same id replaces an earlier one. \<open>lower\<close> is
  \<^verbatim>\<open>str::to_lowercase\<close>.
\<close>

subsection \<open>Attributes\<close>

definition attr :: "node \<Rightarrow> string \<Rightarrow> string option" where
  "attr n k = bget (nd_attrs n) k"

definition attr_or_unknown :: "node \<Rightarrow> string \<Rightarrow> string" where
  "attr_or_unknown n k = (case attr n k of Some v \<Rightarrow> v | None \<Rightarrow> ''unknown'')"

definition parse_usize :: "string \<Rightarrow> nat option" where
  "parse_usize = parse_unsigned (2 ^ 64)"

definition parse_u64 :: "string \<Rightarrow> nat option" where
  "parse_u64 = parse_unsigned (2 ^ 64)"

text \<open>\<^verbatim>\<open>str::parse::<i64>\<close>: a sign and digits.\<close>

definition parse_i64 :: "string \<Rightarrow> int option" where
  "parse_i64 s =
     (case s of
        c # r \<Rightarrow>
          if c = CHR ''-'' then
            (if r \<noteq> [] \<and> list_all is_ascii_digit r \<and> nat_of_digits r \<le> 2 ^ 63
             then Some (- int (nat_of_digits r)) else None)
          else map_option int (parse_unsigned (2 ^ 63) s)
      | [] \<Rightarrow> None)"

definition attr_seq :: "node \<Rightarrow> nat" where
  "attr_seq n = (case Option.bind (attr n ''seq'') parse_usize of Some k \<Rightarrow> k | None \<Rightarrow> 0)"

definition recorded_at_ms :: "node \<Rightarrow> nat option" where
  "recorded_at_ms n = Option.bind (attr n ''recorded_at_ms'') parse_u64"

definition has_verdict :: "string \<Rightarrow> node \<Rightarrow> bool" where
  "has_verdict v n \<longleftrightarrow> attr n ''recommendation'' = Some v"

definition has_outcome :: "string \<Rightarrow> node \<Rightarrow> bool" where
  "has_outcome v n \<longleftrightarrow> attr n ''outcome'' = Some v"

definition count_if :: "('a \<Rightarrow> bool) \<Rightarrow> 'a list \<Rightarrow> nat" where
  "count_if p xs = length (filter p xs)"

subsection \<open>Counts\<close>

record graph_stats =
  st_sessions :: nat
  st_commands :: nat
  st_blocked :: nat
  st_review :: nat
  st_deny_verdicts :: nat
  st_review_verdicts :: nat
  st_allow_verdicts :: nat
  st_unknown_verdicts :: nat
  st_actual_blocks :: nat
  st_would_block :: nat
  st_screened :: nat
  st_outcomes_unknown :: nat
  st_denies_without_block :: nat

definition bare_session :: "string \<Rightarrow> string" where
  "bare_session i = (case strip_prefix ''session:'' i of Some r \<Rightarrow> r | None \<Rightarrow> i)"

definition unknown_verdict :: "node \<Rightarrow> bool" where
  "unknown_verdict n \<longleftrightarrow> \<not> has_verdict ''deny'' n \<and> \<not> has_verdict ''review'' n \<and> \<not> has_verdict ''allow'' n"

definition unknown_outcome :: "node \<Rightarrow> bool" where
  "unknown_outcome n \<longleftrightarrow> \<not> has_outcome ''blocked'' n \<and> \<not> has_outcome ''would_block'' n
     \<and> \<not> has_outcome ''screened'' n \<and> \<not> has_outcome ''allowed'' n"

definition session_names :: "graph \<Rightarrow> string list" where
  "session_names g =
     (let ran = map (\<lambda>e. bare_session (ed_from e)) (filter (\<lambda>e. ed_kind e = ''ran'') (gr_edges g))
      in remdups (if ran \<noteq> [] then ran
                  else List.map_filter (\<lambda>n. command_session (nd_id n)) (commands_of g)))"

definition graph_stats_of :: "graph \<Rightarrow> graph_stats" where
  "graph_stats_of g =
     (let cs = commands_of g in
      \<lparr>st_sessions = length (session_names g),
       st_commands = length cs,
       st_blocked = count_if (has_verdict ''deny'') cs,
       st_review = count_if (has_verdict ''review'') cs,
       st_deny_verdicts = count_if (has_verdict ''deny'') cs,
       st_review_verdicts = count_if (has_verdict ''review'') cs,
       st_allow_verdicts = count_if (has_verdict ''allow'') cs,
       st_unknown_verdicts = count_if unknown_verdict cs,
       st_actual_blocks = count_if (has_outcome ''blocked'') cs,
       st_would_block = count_if (has_outcome ''would_block'') cs,
       st_screened = count_if (has_outcome ''screened'') cs,
       st_outcomes_unknown = count_if unknown_outcome cs,
       st_denies_without_block = count_if (\<lambda>n. has_verdict ''deny'' n \<and> \<not> has_outcome ''blocked'' n) cs\<rparr>)"

subsection \<open>The index of a read\<close>

definition node_of :: "graph \<Rightarrow> string \<Rightarrow> node option" where
  "node_of g i = List.find (\<lambda>n. nd_id n = i) (List.rev (gr_nodes g))"

definition first_node :: "graph \<Rightarrow> string \<Rightarrow> node option" where
  "first_node g i = List.find (\<lambda>n. nd_id n = i) (gr_nodes g)"

definition edges_out :: "graph \<Rightarrow> string \<Rightarrow> edge list" where
  "edges_out g i = filter (\<lambda>e. ed_from e = i) (gr_edges g)"

definition edges_in :: "graph \<Rightarrow> string \<Rightarrow> edge list" where
  "edges_in g i = filter (\<lambda>e. ed_to e = i) (gr_edges g)"

definition edge_kind :: "string \<Rightarrow> edge \<Rightarrow> bool" where
  "edge_kind k e \<longleftrightarrow> ed_kind e = k"

subsection \<open>The narrative\<close>

definition narrate_icon :: "string \<Rightarrow> string \<Rightarrow> string" where
  "narrate_icon outcome rec =
     (if outcome = ''blocked'' then [CHR 0xF0, CHR 0x9F, CHR 0x9A, CHR 0xAB]
      else if outcome = ''would_block'' then [CHR 0xE2, CHR 0x97, CHR 0x87]
      else if outcome = ''screened'' then [CHR 0xE2, CHR 0x80, CHR 0xA2]
      else if outcome = ''allowed'' then [CHR 0xE2, CHR 0x9C, CHR 0x93]
      else if rec = ''deny'' then ''!''
      else if rec = ''review'' then [CHR 0xE2, CHR 0x9A, CHR 0xA0, CHR 0xEF, CHR 0xB8, CHR 0x8F]
      else if rec = ''allow'' then [CHR 0xE2, CHR 0x9C, CHR 0x93]
      else ''?'')"

definition narrate_command :: "graph \<Rightarrow> node \<Rightarrow> string" where
  "narrate_command g c =
     (let rec = attr_or_unknown c ''recommendation'';
          outcome = attr_or_unknown c ''outcome'';
          cats = map nd_label (List.map_filter (\<lambda>e. first_node g (ed_to e))
                   (filter (edge_kind ''triggered'') (edges_out g (nd_id c))));
          tail = (if cats = [] then [] else ''  ['' @ join '', '' cats @ '']'')
      in ''  '' @ narrate_icon outcome rec @ '' '' @ nd_label c @ '', '' @ rec @ '' (outcome: '' @ outcome
         @ '')'' @ tail @ [CHR 0x0A])"

definition narrate_session :: "graph \<Rightarrow> node \<Rightarrow> string" where
  "narrate_session g s =
     (let cmds = sort_key attr_seq (List.map_filter (\<lambda>e. first_node g (ed_to e))
                   (filter (edge_kind ''ran'') (edges_out g (nd_id s))));
          denies = count_if (has_verdict ''deny'') cmds
      in ''Session '' @ nd_label s @ '', '' @ show_nat (length cmds) @ '' command(s), '' @ show_nat denies
         @ '' deny verdict(s):'' @ [CHR 0x0A] @ concat (map (narrate_command g) cmds))"

definition narrate :: "graph \<Rightarrow> string" where
  "narrate g =
     (let sessions = filter is_session (gr_nodes g) in
      if sessions = [] then ''No agent activity recorded yet.''
      else trim_end (concat (map (narrate_session g) sessions)))"

subsection \<open>The home screen\<close>

record decision_summary =
  ds_id :: string
  ds_session :: string
  ds_command :: string
  ds_recommendation :: string
  ds_outcome :: string
  ds_mode_at_decision :: string
  ds_recorded_at_ms :: "nat option"
  ds_categories :: "string list"
  ds_decided_by :: string

record category_count =
  cc_name :: string
  cc_count :: nat

record overview =
  ov_stats :: graph_stats
  ov_top_categories :: "category_count list"
  ov_recent_blocks :: "decision_summary list"
  ov_recent_decisions :: "decision_summary list"

definition decision_summary_of :: "graph \<Rightarrow> node \<Rightarrow> decision_summary" where
  "decision_summary_of g n =
     \<lparr>ds_id = nd_id n,
      ds_session = (case List.find (edge_kind ''ran'') (edges_in g (nd_id n)) of
          Some e \<Rightarrow> bare_session (ed_from e) | None \<Rightarrow> []),
      ds_command = nd_label n,
      ds_recommendation = attr_or_unknown n ''recommendation'',
      ds_outcome = attr_or_unknown n ''outcome'',
      ds_mode_at_decision = attr_or_unknown n ''mode_at_decision'',
      ds_recorded_at_ms = recorded_at_ms n,
      ds_categories = map nd_label (List.map_filter (\<lambda>e. node_of g (ed_to e))
         (filter (edge_kind ''triggered'') (edges_out g (nd_id n)))),
      ds_decided_by = attr_or_unknown n ''decided_by''\<rparr>"

text \<open>\<^verbatim>\<open>sort_by\<close> and \<^verbatim>\<open>sort_by_key\<close> with the order reversed are stable.\<close>

definition sort_desc :: "('a \<Rightarrow> 'k::linorder) \<Rightarrow> 'a list \<Rightarrow> 'a list" where
  "sort_desc k xs = List.rev (sort_key k (List.rev xs))"

definition triggered_labels :: "graph \<Rightarrow> string list" where
  "triggered_labels g =
     List.map_filter (\<lambda>e. if edge_kind ''triggered'' e
        then map_option nd_label (opt_filter (\<lambda>n. nd_kind n = ''category'') (node_of g (ed_to e))) else None)
       (gr_edges g)"

definition top_categories :: "graph \<Rightarrow> category_count list" where
  "top_categories g =
     (let labels = triggered_labels g;
          counts = map (\<lambda>l. \<lparr>cc_name = l, cc_count = count_list labels l\<rparr>) (sort_dedup labels)
      in take 8 (sort_desc cc_count counts))"

definition overview_of :: "graph \<Rightarrow> nat \<Rightarrow> overview" where
  "overview_of g recent_limit =
     (let newest = List.rev (commands_of g) in
      \<lparr>ov_stats = graph_stats_of g,
       ov_top_categories = top_categories g,
       ov_recent_blocks = map (decision_summary_of g) (take recent_limit (filter (has_verdict ''deny'') newest)),
       ov_recent_decisions = map (decision_summary_of g) (take recent_limit newest)\<rparr>)"

subsection \<open>The page of sessions\<close>

record cmd_view =
  cv_id :: string
  cv_seq :: nat
  cv_command :: string
  cv_recommendation :: string
  cv_outcome :: string
  cv_mode_at_decision :: string
  cv_recorded_at_ms :: "nat option"
  cv_risk :: "int option"
  cv_decided_by :: string
  cv_categories :: "string list"
  cv_asi :: "string list"
  cv_explanation :: string

record session_view =
  sv_id :: string
  sv_label :: string
  sv_commands :: nat
  sv_blocked :: nat
  sv_review :: nat
  sv_allowed :: nat
  sv_unknown_verdicts :: nat
  sv_actual_blocks :: nat
  sv_would_block :: nat
  sv_screened :: nat
  sv_outcomes_unknown :: nat
  sv_items :: "cmd_view list"
  sv_truncated :: bool

record cases_page =
  pg_sessions :: "session_view list"
  pg_total_sessions :: nat
  pg_total_commands :: nat
  pg_offset :: nat
  pg_limit :: nat

definition MAX_ITEMS :: nat where "MAX_ITEMS = 500"

definition linked_labels :: "graph \<Rightarrow> node \<Rightarrow> string \<Rightarrow> string list" where
  "linked_labels g n kind =
     map nd_label (List.map_filter (\<lambda>e. opt_filter (\<lambda>t. nd_kind t = kind) (node_of g (ed_to e)))
       (filter (\<lambda>e. edge_kind ''triggered'' e \<or> edge_kind ''flags'' e) (edges_out g (nd_id n))))"

definition cmd_view_of :: "graph \<Rightarrow> node \<Rightarrow> cmd_view" where
  "cmd_view_of g n =
     \<lparr>cv_id = nd_id n, cv_seq = attr_seq n, cv_command = nd_label n,
      cv_recommendation = attr_or_unknown n ''recommendation'',
      cv_outcome = attr_or_unknown n ''outcome'',
      cv_mode_at_decision = attr_or_unknown n ''mode_at_decision'',
      cv_recorded_at_ms = recorded_at_ms n,
      cv_risk = Option.bind (attr n ''risk'') parse_i64,
      cv_decided_by = attr_or_unknown n ''decided_by'',
      cv_categories = linked_labels g n ''category'',
      cv_asi = linked_labels g n ''asi'',
      cv_explanation = str_or (attr n ''explanation'')\<rparr>"

fun index_of :: "('a \<Rightarrow> bool) \<Rightarrow> 'a list \<Rightarrow> nat option" where
  "index_of p [] = None"
| "index_of p (x # xs) = (if p x then Some 0 else map_option Suc (index_of p xs))"

definition node_position :: "graph \<Rightarrow> string \<Rightarrow> nat option" where
  "node_position g i =
     map_option (\<lambda>k. length (gr_nodes g) - 1 - k) (index_of (\<lambda>n. nd_id n = i) (List.rev (gr_nodes g)))"

definition latest_command_position :: "graph \<Rightarrow> node \<Rightarrow> nat" where
  "latest_command_position g s =
     (case List.map_filter (\<lambda>e. node_position g (ed_to e)) (filter (edge_kind ''ran'') (edges_out g (nd_id s))) of
        p # ps \<Rightarrow> foldl max p ps
      | [] \<Rightarrow> (case node_position g (nd_id s) of Some p \<Rightarrow> p | None \<Rightarrow> 0))"

text \<open>The sessions named by commands whose session node is gone, each once, in the order met.\<close>

definition dedup_first :: "'a list \<Rightarrow> 'a list" where
  "dedup_first xs = List.rev (remdups (List.rev xs))"

definition command_key :: "node \<Rightarrow> string option" where
  "command_key n =
     (if is_command n then Option.bind (strip_prefix ''cmd:'' (nd_id n)) (\<lambda>r. map_option fst (rsplit_once colon r))
      else None)"

definition recovered_sessions :: "graph \<Rightarrow> node list" where
  "recovered_sessions g =
     (let anchored = map (\<lambda>s. bare_session (nd_id s)) (filter is_session (gr_nodes g));
          keys = dedup_first (filter (\<lambda>k. k \<notin> set anchored) (List.map_filter command_key (gr_nodes g)))
      in map (\<lambda>k. plain_node (''session:'' @ k) ''session'' k) keys)"

definition all_sessions :: "graph \<Rightarrow> node list" where
  "all_sessions g = sort_desc (latest_command_position g)
     (filter is_session (gr_nodes g) @ recovered_sessions g)"

text \<open>The commands of a session: those an edge names, and those whose id does and whose edge is gone.\<close>

definition session_commands :: "graph \<Rightarrow> node \<Rightarrow> node list" where
  "session_commands g s =
     (let ran = List.map_filter (\<lambda>e. node_of g (ed_to e)) (filter (edge_kind ''ran'') (edges_out g (nd_id s)));
          named = filter (\<lambda>n. starts_with (nd_id n) (''cmd:'' @ bare_session (nd_id s) @ '':'')
                              \<and> nd_id n \<notin> nd_id ` set ran) (commands_of g)
      in sort_desc attr_seq (ran @ named))"

definition session_asked :: "string option \<Rightarrow> node \<Rightarrow> bool" where
  "session_asked session s \<longleftrightarrow> is_none_or session
     (\<lambda>f. f = nd_label s \<or> f = bare_session (nd_id s) \<or> f = nd_id s)"

definition command_asked :: "(string \<Rightarrow> string) \<Rightarrow> string option \<Rightarrow> string option \<Rightarrow> node \<Rightarrow> bool" where
  "command_asked lower verdict q n \<longleftrightarrow>
     is_none_or verdict (\<lambda>v. attr_or_unknown n ''recommendation'' = v)
     \<and> is_none_or q (\<lambda>w. contains (lower (nd_label n)) w)"

definition query_text :: "(string \<Rightarrow> string) \<Rightarrow> string option \<Rightarrow> string option" where
  "query_text lower query = map_option lower (opt_filter (\<lambda>s. s \<noteq> []) (map_option trim query))"

definition query_verdict :: "string option \<Rightarrow> string option" where
  "query_verdict verdict = opt_filter (\<lambda>v. v \<in> set [''deny'', ''review'', ''allow'', ''unknown'']) verdict"

text \<open>The matching sessions: the node, its commands and those of them that match.\<close>

definition kept_sessions ::
  "(string \<Rightarrow> string) \<Rightarrow> string option \<Rightarrow> string option \<Rightarrow> string option \<Rightarrow> graph
   \<Rightarrow> (node \<times> node list \<times> node list) list" where
  "kept_sessions lower session verdict q g =
     filter (\<lambda>(s, cmds, matched). cmds \<noteq> [] \<and> \<not> ((verdict \<noteq> None \<or> q \<noteq> None) \<and> matched = []))
       (map (\<lambda>s. (s, session_commands g s, filter (command_asked lower verdict q) (session_commands g s)))
         (filter (session_asked session) (all_sessions g)))"

definition session_view_of :: "graph \<Rightarrow> node \<times> node list \<times> node list \<Rightarrow> session_view" where
  "session_view_of g k =
     (case k of (s, cmds, matched) \<Rightarrow>
       (let items = map (cmd_view_of g) (take MAX_ITEMS matched) in
        \<lparr>sv_id = nd_id s, sv_label = nd_label s, sv_commands = length cmds,
         sv_blocked = count_if (has_verdict ''deny'') cmds,
         sv_review = count_if (has_verdict ''review'') cmds,
         sv_allowed = count_if (has_verdict ''allow'') cmds,
         sv_unknown_verdicts = count_if unknown_verdict cmds,
         sv_actual_blocks = count_if (has_outcome ''blocked'') cmds,
         sv_would_block = count_if (has_outcome ''would_block'') cmds,
         sv_screened = count_if (has_outcome ''screened'') cmds,
         sv_outcomes_unknown = count_if unknown_outcome cmds,
         sv_items = items,
         sv_truncated = (length items < length matched)\<rparr>))"

definition cases_page_of ::
  "(string \<Rightarrow> string) \<Rightarrow> string option \<Rightarrow> string option \<Rightarrow> string option \<Rightarrow> nat \<Rightarrow> nat \<Rightarrow> graph \<Rightarrow> cases_page" where
  "cases_page_of lower session verdict query offset limit g =
     (let q = query_text lower query; v = query_verdict verdict;
          kept = kept_sessions lower session v q g
      in \<lparr>pg_sessions = map (session_view_of g) (take limit (drop offset kept)),
          pg_total_sessions = length kept,
          pg_total_commands = sum_list (map (\<lambda>(s, cmds, matched).
             if v \<noteq> None \<or> q \<noteq> None then length matched else length cmds) kept),
          pg_offset = offset, pg_limit = limit\<rparr>)"
end
