(* ===== verification/Decisions.thy ===== *)
theory Decisions
  imports Views
begin
text \<open>
  One decision at a time: \<^verbatim>\<open>src/crates/graph/src/decisions.rs\<close>. What each command node of the record says
  (its outcome key, channel, reason, identity labels), the page of decisions newest first with its
  cursor, and the counts beside it. The maps a read builds are association lists in key order; for
  a \<^verbatim>\<open>HashMap\<close> that order is never seen, since what is made of it is sorted or looked up. \<open>lower\<close> is
  \<^verbatim>\<open>str::to_lowercase\<close>.
\<close>

subsection \<open>What a node says\<close>

record decision_identity =
  di_instance_id :: "string option"
  di_session_id :: "string option"
  di_trust :: "string option"
  di_trust_reason :: "string option"
  di_deciding_layer :: "string option"
  di_profile :: "string option"
  di_relaxation_withheld :: bool
  di_trust_source :: "string option"
  di_host_decision :: "string option"
  di_host_withheld :: "string option"

definition trust_of :: "node \<Rightarrow> string option" where
  "trust_of n = opt_filter (\<lambda>w. w \<in> set TRUST_WORDS) (attr n ''trust'')"

definition layer_of :: "node \<Rightarrow> string option" where
  "layer_of n = opt_filter (\<lambda>w. w \<in> set LAYER_WORDS) (attr n ''deciding_layer'')"

definition beside :: "string option \<Rightarrow> node \<Rightarrow> string \<Rightarrow> (string \<Rightarrow> bool) \<Rightarrow> string option" where
  "beside label n k valid = (if label = None then None else opt_filter valid (attr n k))"

definition identity_of :: "node \<Rightarrow> decision_identity option" where
  "identity_of n =
     (let trust = trust_of n; layer = layer_of n;
          d = \<lparr>di_instance_id = opt_filter valid_instance (attr n ''instance_id''),
               di_session_id = opt_filter valid_session (attr n ''session_id''),
               di_trust = trust,
               di_trust_reason = beside trust n ''trust_reason'' valid_reason,
               di_deciding_layer = layer,
               di_profile = beside layer n ''profile'' valid_agent,
               di_relaxation_withheld = (layer \<noteq> None \<and> attr n ''relaxation_withheld'' = Some ''true''),
               di_trust_source = beside trust n ''trust_source'' (\<lambda>w. w \<in> set TRUST_SOURCE_WORDS),
               di_host_decision = beside trust n ''host_decision'' valid_host_decision,
               di_host_withheld = beside trust n ''host_withheld'' valid_host_withheld\<rparr>
      in if di_instance_id d \<noteq> None \<or> di_session_id d \<noteq> None \<or> di_trust d \<noteq> None \<or> di_deciding_layer d \<noteq> None
         then Some d else None)"

definition OUTCOME_KEYS :: "string list" where
  "OUTCOME_KEYS = [''refused_before_run'', ''unsafe_may_have_run'', ''would_have_refused'', ''flagged_ran'',
     ''allowed'', ''checked_only'', ''unplaced'']"

definition outcome_key :: "node \<Rightarrow> string" where
  "outcome_key n =
     (if attr n ''mode_at_decision'' = Some ''check'' then ''checked_only''
      else case attr n ''outcome'' of
        None \<Rightarrow> ''unplaced''
      | Some out \<Rightarrow>
          if out = ''blocked'' then ''refused_before_run''
          else if out = ''would_block'' then ''would_have_refused''
          else if out = ''screened'' then ''checked_only''
          else if out = ''allowed'' then
            (if has_verdict ''deny'' n then ''unsafe_may_have_run''
             else if has_verdict ''review'' n then ''flagged_ran''
             else if has_verdict ''allow'' n then ''allowed'' else ''unplaced'')
          else ''unplaced'')"

definition is_flagged :: "node \<Rightarrow> bool" where
  "is_flagged n \<longleftrightarrow> has_verdict ''deny'' n \<or> has_verdict ''review'' n
     \<or> has_outcome ''blocked'' n \<or> has_outcome ''would_block'' n"

definition is_flagged_agent_action :: "node \<Rightarrow> bool" where
  "is_flagged_agent_action n \<longleftrightarrow> is_flagged n \<and> outcome_key n \<noteq> ''checked_only''"

definition MCP_LABEL_PREFIX :: string where
  "MCP_LABEL_PREFIX = ''MCP '' @ [CHR 0xC2, CHR 0xB7] @ '' ''"

definition channel_of :: "node \<Rightarrow> string" where
  "channel_of n =
     (case Option.bind (attr n ''channel'') parse_channel of
        Some c \<Rightarrow> channel_as_str c
      | None \<Rightarrow>
          if attr n ''mode_at_decision'' = Some ''check'' then ''check''
          else if starts_with (nd_label n) MCP_LABEL_PREFIX
            \<or> starts_with (str_or (command_session (nd_id n))) ''mcp:'' then ''mcp''
          else (case attr n ''source'' of
              None \<Rightarrow> ''hook''
            | Some s \<Rightarrow> if s = ''guardrail'' then ''hook'' else ''unknown''))"

definition rules_of :: "node \<Rightarrow> string list" where
  "rules_of n = (case attr n ''rules'' of
     Some rules \<Rightarrow> filter valid_rule (split_on (CHR 0x2C) rules) | None \<Rightarrow> [])"

definition REASON_SEPARATOR :: string where "REASON_SEPARATOR = ''; ''"

definition explanation_of :: "node \<Rightarrow> string" where
  "explanation_of n = trim (str_or (attr n ''explanation''))"

definition fnv64 :: "string \<Rightarrow> u64" where
  "fnv64 text = foldl (\<lambda>h b. xor h (of_nat (byte b)) * 0x100000001b3) 0xcbf29ce484222325 text"

definition hex16 :: "u64 \<Rightarrow> string" where
  "hex16 w = map (\<lambda>i. hex_digit (unat w div 16 ^ i mod 16)) (List.rev [0..<16])"

definition reason_key :: "node \<Rightarrow> string" where
  "reason_key n =
     (case rules_of n of
        primary # rest \<Rightarrow> ''rule:'' @ primary
      | [] \<Rightarrow> if explanation_of n = [] then ''none'' else ''text:'' @ hex16 (fnv64 (explanation_of n)))"

text \<open>\<^verbatim>\<open>str::split\<close> on a string of two bytes.\<close>

fun split_two :: "char \<Rightarrow> char \<Rightarrow> string \<Rightarrow> string list" where
  "split_two a b (x # y # s) =
     (if x = a \<and> y = b then [] # split_two a b s
      else (case split_two a b (y # s) of p # ps \<Rightarrow> (x # p) # ps | [] \<Rightarrow> [[x]]))"
| "split_two a b s = [s]"

definition reason_words :: "node \<Rightarrow> string" where
  "reason_words n = trim (hd (split_two CHR '';'' CHR '' '' (explanation_of n)))"

definition reasons_more :: "node \<Rightarrow> nat" where
  "reasons_more n =
     (if rules_of n \<noteq> [] then length (rules_of n) - 1
      else if explanation_of n = [] then 0
      else length (split_two CHR '';'' CHR '' '' (explanation_of n)) - 1)"

definition id_seq :: "string \<Rightarrow> nat option" where
  "id_seq i = Option.bind (rsplit_once colon i) (\<lambda>(before, seq). parse_usize seq)"

definition seq_of :: "node \<Rightarrow> nat" where
  "seq_of n = (case Option.bind (attr n ''seq'') parse_usize of
     Some s \<Rightarrow> s | None \<Rightarrow> (case id_seq (nd_id n) of Some s \<Rightarrow> s | None \<Rightarrow> 0))"

subsection \<open>The order and the cursor\<close>

text \<open>The derived order of \<^verbatim>\<open>OrderKey\<close> compares the fields in turn: the order of tuples.\<close>

type_synonym order_key = "nat \<times> string \<times> nat \<times> string"

definition session_or_empty :: "string \<Rightarrow> string" where
  "session_or_empty i = str_or (command_session i)"

definition order_key :: "node \<Rightarrow> order_key" where
  "order_key n = (case recorded_at_ms n of Some ms \<Rightarrow> ms | None \<Rightarrow> 0,
     session_or_empty (nd_id n), seq_of n, nd_id n)"

record decision_cursor =
  dc_ms :: nat
  dc_id :: string

definition cursor_encode :: "decision_cursor \<Rightarrow> string" where
  "cursor_encode c = show_nat (dc_ms c) @ ''-'' @ concat (map (\<lambda>b. [hex_digit (byte b div 16), hex_digit (byte b mod 16)]) (dc_id c))"

text \<open>\<^verbatim>\<open>u8::from_str_radix(pair, 16)\<close>: either case, and a plus before a single digit.\<close>

definition hex_value :: "char \<Rightarrow> nat option" where
  "hex_value c =
     (if is_ascii_digit c then Some (byte c - 48)
      else if 97 \<le> byte c \<and> byte c \<le> 102 then Some (byte c - 87)
      else if 65 \<le> byte c \<and> byte c \<le> 70 then Some (byte c - 55) else None)"

definition radix16 :: "char \<Rightarrow> char \<Rightarrow> nat option" where
  "radix16 c d =
     (if c = CHR ''+'' then hex_value d
      else Option.bind (hex_value c) (\<lambda>x. map_option (\<lambda>y. 16 * x + y) (hex_value d)))"

fun radix16_pairs :: "string \<Rightarrow> string option" where
  "radix16_pairs (c # d # s) =
     Option.bind (radix16 c d) (\<lambda>x. map_option ((#) (char_of x)) (radix16_pairs s))"
| "radix16_pairs [] = Some []"
| "radix16_pairs [c] = None"

definition split_once :: "char \<Rightarrow> string \<Rightarrow> (string \<times> string) option" where
  "split_once c s =
     (if c \<in> set s then Some (takeWhile (\<lambda>x. x \<noteq> c) s, tl (dropWhile (\<lambda>x. x \<noteq> c) s)) else None)"

definition cursor_parse :: "string \<Rightarrow> decision_cursor option" where
  "cursor_parse value =
     (case split_once CHR ''-'' value of
        None \<Rightarrow> None
      | Some (ms, hex) \<Rightarrow>
         (case parse_u64 ms of
            None \<Rightarrow> None
          | Some m \<Rightarrow>
              if hex = [] \<or> length hex mod 2 \<noteq> 0 \<or> 1024 < length hex then None
              else (case Option.bind (radix16_pairs hex) from_utf8 of
                  None \<Rightarrow> None
                | Some i \<Rightarrow> if starts_with i ''cmd:'' then Some \<lparr>dc_ms = m, dc_id = i\<rparr> else None)))"

definition cursor_key :: "decision_cursor \<Rightarrow> order_key" where
  "cursor_key c = (dc_ms c, session_or_empty (dc_id c),
     (case id_seq (dc_id c) of Some s \<Rightarrow> s | None \<Rightarrow> 0), dc_id c)"

subsection \<open>Records, facts and counts\<close>

record decision_record =
  dr_id :: string
  dr_session :: string
  dr_seq :: nat
  dr_command :: string
  dr_command_shortened :: bool
  dr_channel :: string
  dr_agent :: "string option"
  dr_project :: "string option"
  dr_recommendation :: string
  dr_outcome :: string
  dr_mode_at_decision :: string
  dr_outcome_key :: string
  dr_recorded_at_ms :: "nat option"
  dr_decided_by :: string
  dr_risk :: "int option"
  dr_reason_key :: string
  dr_reason_words :: string
  dr_reasons_more :: nat
  dr_rules :: "string list"
  dr_categories :: "string list"
  dr_asi :: "string list"
  dr_explanation :: string
  dr_flagged :: bool
  dr_identity :: "decision_identity option"

record row =
  rw_node :: node
  rw_key :: order_key
  rw_flagged :: bool
  rw_outcome :: string
  rw_reason :: string
  rw_session :: string

definition row_of :: "node \<Rightarrow> row" where
  "row_of n = \<lparr>rw_node = n, rw_key = order_key n, rw_flagged = is_flagged n, rw_outcome = outcome_key n,
     rw_reason = reason_key n, rw_session = session_or_empty (nd_id n)\<rparr>"

definition command_rows :: "graph \<Rightarrow> row list" where
  "command_rows g = map row_of (commands_of g)"

definition session_matches :: "string \<Rightarrow> string \<Rightarrow> bool" where
  "session_matches f session \<longleftrightarrow> bare_session f = session"

definition linked_edges :: "graph \<Rightarrow> string \<Rightarrow> string list" where
  "linked_edges g i =
     map ed_to (filter (\<lambda>e. edge_kind ''triggered'' e \<or> edge_kind ''flags'' e) (edges_out g i))"

definition record_labels :: "graph \<Rightarrow> node \<Rightarrow> string \<Rightarrow> string list" where
  "record_labels g n kind = remdups_adj (map nd_label (filter (\<lambda>t. nd_kind t = kind)
     (List.map_filter (first_node g) (linked_edges g (nd_id n)))))"

definition decision_record_of :: "graph \<Rightarrow> node \<Rightarrow> decision_record" where
  "decision_record_of g n =
     \<lparr>dr_id = nd_id n, dr_session = session_or_empty (nd_id n), dr_seq = seq_of n, dr_command = nd_label n,
      dr_command_shortened = (ends_with (nd_label n) ELLIPSIS \<and> 120 \<le> char_count (nd_label n)),
      dr_channel = channel_of n,
      dr_agent = opt_filter valid_agent (attr n ''agent''),
      dr_project = opt_filter valid_project (attr n ''project''),
      dr_recommendation = attr_or_unknown n ''recommendation'',
      dr_outcome = attr_or_unknown n ''outcome'',
      dr_mode_at_decision = attr_or_unknown n ''mode_at_decision'',
      dr_outcome_key = outcome_key n,
      dr_recorded_at_ms = recorded_at_ms n,
      dr_decided_by = attr_or_unknown n ''decided_by'',
      dr_risk = Option.bind (attr n ''risk'') parse_i64,
      dr_reason_key = reason_key n,
      dr_reason_words = reason_words n,
      dr_reasons_more = reasons_more n,
      dr_rules = rules_of n,
      dr_categories = record_labels g n ''category'',
      dr_asi = record_labels g n ''asi'',
      dr_explanation = explanation_of n,
      dr_flagged = is_flagged n,
      dr_identity = identity_of n\<rparr>"

definition opt_max :: "nat option \<Rightarrow> nat option \<Rightarrow> nat option" where
  "opt_max prev ms = (case ms of None \<Rightarrow> prev
     | Some m \<Rightarrow> Some (case prev of Some l \<Rightarrow> max l m | None \<Rightarrow> m))"

definition opt_min :: "nat option \<Rightarrow> nat option \<Rightarrow> nat option" where
  "opt_min first ms = (case ms of None \<Rightarrow> first
     | Some m \<Rightarrow> Some (case first of Some l \<Rightarrow> min l m | None \<Rightarrow> m))"

text \<open>A counter per key: \<^verbatim>\<open>*entry(key).or_insert(0) += 1\<close>.\<close>

definition bump :: "string \<Rightarrow> (string, nat) bmap \<Rightarrow> (string, nat) bmap" where
  "bump k m = bupsert 0 (\<lambda>n. n + 1) k m"

record session_facts =
  sf_agent :: "string option"
  sf_channel :: string
  sf_project :: "string option"
  sf_decisions :: nat
  sf_flagged :: nat
  sf_first_at_ms :: "nat option"
  sf_last_at_ms :: "nat option"

definition session_facts_default :: session_facts where
  "session_facts_default = \<lparr>sf_agent = None, sf_channel = [], sf_project = None, sf_decisions = 0,
     sf_flagged = 0, sf_first_at_ms = None, sf_last_at_ms = None\<rparr>"

definition flagged_by_agent :: "row \<Rightarrow> bool" where
  "flagged_by_agent r \<longleftrightarrow> rw_flagged r \<and> rw_outcome r \<noteq> ''checked_only''"

definition facts_step :: "row \<Rightarrow> session_facts \<times> order_key \<Rightarrow> session_facts \<times> order_key" where
  "facts_step r entry =
     (case entry of (s, newest) \<Rightarrow>
       (let n = rw_node r; ms = recorded_at_ms n;
            s1 = s\<lparr>sf_decisions := sf_decisions s + 1,
                   sf_flagged := sf_flagged s + (if flagged_by_agent r then 1 else 0),
                   sf_first_at_ms := opt_min (sf_first_at_ms s) ms,
                   sf_last_at_ms := opt_max (sf_last_at_ms s) ms\<rparr>
        in if sf_decisions s1 = 1 \<or> newest \<le> rw_key r then
             (s1\<lparr>sf_channel := channel_of n,
                 sf_agent := (case opt_filter valid_agent (attr n ''agent'') of
                     Some a \<Rightarrow> Some a | None \<Rightarrow> sf_agent s1),
                 sf_project := (case opt_filter valid_project (attr n ''project'') of
                     Some p \<Rightarrow> Some p | None \<Rightarrow> sf_project s1)\<rparr>, rw_key r)
           else (s1, newest)))"

definition session_facts_of :: "row list \<Rightarrow> (string, session_facts) bmap" where
  "session_facts_of rows =
     map (\<lambda>(s, facts, key). (s, facts))
       (fold (\<lambda>r. bupsert (session_facts_default, rw_key r) (facts_step r) (rw_session r)) rows [])"

definition agents_last_seen :: "graph \<Rightarrow> (string, nat) bmap" where
  "agents_last_seen g =
     fold (\<lambda>n m. case (opt_filter valid_agent (attr n ''agent''), recorded_at_ms n) of
         (Some a, Some ms) \<Rightarrow> bupsert ms (max ms) a m | _ \<Rightarrow> m) (commands_of g) []"

definition newest_decision_ms :: "graph \<Rightarrow> nat option" where
  "newest_decision_ms g = fold (\<lambda>n prev. opt_max prev (recorded_at_ms n)) (commands_of g) None"

record screening_evidence =
  se_through_agents :: nat
  se_newest_through_agents_ms :: "nat option"
  se_by_hand :: nat

definition is_check :: "node \<Rightarrow> bool" where
  "is_check n \<longleftrightarrow> channel_of n = ''check'' \<or> attr n ''mode_at_decision'' = Some ''check''"

definition through_agent :: "node \<Rightarrow> bool" where
  "through_agent n \<longleftrightarrow> channel_of n = ''hook'' \<or> channel_of n = ''mcp''"

definition evidence_step :: "node \<Rightarrow> screening_evidence \<Rightarrow> screening_evidence" where
  "evidence_step n e =
     (if is_check n then e\<lparr>se_by_hand := se_by_hand e + 1\<rparr>
      else if \<not> through_agent n then e
      else e\<lparr>se_through_agents := se_through_agents e + 1,
             se_newest_through_agents_ms := opt_max (se_newest_through_agents_ms e) (recorded_at_ms n)\<rparr>)"

definition screening_evidence_of :: "graph \<Rightarrow> screening_evidence" where
  "screening_evidence_of g = fold evidence_step (commands_of g)
     \<lparr>se_through_agents = 0, se_newest_through_agents_ms = None, se_by_hand = 0\<rparr>"

definition channel_times :: "bool \<Rightarrow> graph \<Rightarrow> (string, nat) bmap" where
  "channel_times unnamed_only g =
     fold (\<lambda>n m.
         if unnamed_only \<and> is_some_and (attr n ''agent'') valid_agent then m
         else if \<not> through_agent n then m
         else case recorded_at_ms n of None \<Rightarrow> m | Some ms \<Rightarrow> bupsert ms (max ms) (channel_of n) m)
       (commands_of g) []"

definition channels_last_seen :: "graph \<Rightarrow> (string, nat) bmap" where
  "channels_last_seen = channel_times False"

definition unnamed_channels_last_seen :: "graph \<Rightarrow> (string, nat) bmap" where
  "unnamed_channels_last_seen = channel_times True"

record flagged_summary =
  fs_outcome_key :: string
  fs_rules :: "string list"
  fs_reason_words :: string

definition flagged_summaries :: "graph \<Rightarrow> flagged_summary list" where
  "flagged_summaries g =
     map (\<lambda>n. \<lparr>fs_outcome_key = outcome_key n, fs_rules = rules_of n, fs_reason_words = reason_words n\<rparr>)
       (filter is_flagged_agent_action (commands_of g))"

record record_span =
  rs_decisions :: nat
  rs_flagged :: nat
  rs_checked :: nat
  rs_oldest_at_ms :: "nat option"
  rs_newest_at_ms :: "nat option"
  rs_capped :: bool

definition record_span_of :: "graph \<Rightarrow> record_span" where
  "record_span_of g =
     (let cs = commands_of g in
      \<lparr>rs_decisions = length cs,
       rs_flagged = count_if is_flagged_agent_action cs,
       rs_checked = count_if (\<lambda>n. outcome_key n = ''checked_only'') cs,
       rs_oldest_at_ms = fold (\<lambda>n first. opt_min first (recorded_at_ms n)) cs None,
       rs_newest_at_ms = fold (\<lambda>n prev. opt_max prev (recorded_at_ms n)) cs None,
       rs_capped = (MAX_NODES \<le> length (gr_nodes g))\<rparr>)"

record session_summary =
  ss_id :: string
  ss_facts :: session_facts
  ss_by_outcome :: "(string, nat) bmap"

definition outcome_counts :: "row list \<Rightarrow> (string, nat) bmap" where
  "outcome_counts rows = fold (\<lambda>r. bump (rw_outcome r)) rows []"

definition recent_sessions :: "graph \<Rightarrow> nat \<Rightarrow> session_summary list" where
  "recent_sessions g limit =
     (let rows = command_rows g;
          by_outcome = fold (\<lambda>r. bupsert [] (bump (rw_outcome r)) (rw_session r)) rows [];
          sessions = map (\<lambda>(i, facts). \<lparr>ss_id = i, ss_facts = facts,
               ss_by_outcome = (case bget by_outcome i of Some m \<Rightarrow> m | None \<Rightarrow> [])\<rparr>)
             (filter (\<lambda>(i, facts). i \<noteq> [] \<and> i \<noteq> ''host'') (session_facts_of rows))
      in take limit (sort_desc (\<lambda>s. case sf_last_at_ms (ss_facts s) of None \<Rightarrow> 0 | Some ms \<Rightarrow> ms + 1) sessions))"

record tally =
  ta_count :: nat
  ta_parts :: "(string, nat) bmap"
  ta_flagged :: nat
  ta_latest_flagged :: "decision_record option"
  ta_all_monitor :: bool

definition TALLY_KEYS :: "string list" where
  "TALLY_KEYS = [''refused_before_run'', ''unsafe_may_have_run'', ''would_have_refused'', ''flagged_ran'',
     ''allowed'', ''unplaced'']"

definition in_window :: "nat \<Rightarrow> node \<Rightarrow> bool" where
  "in_window from_ms n \<longleftrightarrow> attr n ''mode_at_decision'' \<noteq> Some ''check''
     \<and> is_some_and (recorded_at_ms n) (\<lambda>ms. from_ms \<le> ms)"

definition tally_key :: "node \<Rightarrow> string" where
  "tally_key n = (if outcome_key n = ''checked_only'' then ''unplaced'' else outcome_key n)"

definition newer_of :: "node \<Rightarrow> (node \<times> order_key) option \<Rightarrow> (node \<times> order_key) option" where
  "newer_of n latest =
     (if is_none_or latest (\<lambda>(m, newest). newest < order_key n) then Some (n, order_key n) else latest)"

definition agent_actions_tally :: "graph \<Rightarrow> nat \<Rightarrow> tally" where
  "agent_actions_tally g from_ms =
     (let seen = filter (in_window from_ms) (commands_of g);
          flagged = filter is_flagged seen
      in \<lparr>ta_count = length seen,
          ta_parts = fold (\<lambda>n. bump (tally_key n)) seen [],
          ta_flagged = length flagged,
          ta_latest_flagged = map_option (\<lambda>(n, key). decision_record_of g n) (fold newer_of flagged None),
          ta_all_monitor = (seen \<noteq> [] \<and> list_all (\<lambda>n. attr n ''mode_at_decision'' = Some ''monitor'') seen)\<rparr>)"

subsection \<open>The sessions of an instance\<close>

record instance_session =
  is_session_id :: string
  is_first_at_ms :: "nat option"
  is_last_at_ms :: "nat option"
  is_case_id :: "string option"

record instance_activity =
  ia_trust :: "string option"
  ia_trust_reason :: "string option"
  ia_last_at_ms :: "nat option"
  ia_sessions :: "instance_session list"

record seen_instance =
  si_trust :: "string option"
  si_trust_reason :: "string option"
  si_last_at_ms :: "nat option"
  si_trust_key :: "order_key option"
  si_sessions :: "(string, instance_session \<times> order_key option) bmap"

definition seen_default :: seen_instance where
  "seen_default = \<lparr>si_trust = None, si_trust_reason = None, si_last_at_ms = None, si_trust_key = None,
     si_sessions = []\<rparr>"

definition session_step ::
  "row \<Rightarrow> instance_session \<times> order_key option \<Rightarrow> instance_session \<times> order_key option" where
  "session_step r entry =
     (case entry of (f, case_key) \<Rightarrow>
       (let ms = recorded_at_ms (rw_node r);
            f1 = f\<lparr>is_first_at_ms := opt_min (is_first_at_ms f) ms, is_last_at_ms := opt_max (is_last_at_ms f) ms\<rparr>
        in if is_flagged_agent_action (rw_node r) \<and> is_none_or case_key (\<lambda>k. k < rw_key r)
           then (f1\<lparr>is_case_id := Some (nd_id (rw_node r))\<rparr>, Some (rw_key r)) else (f1, case_key)))"

definition seen_step :: "row \<Rightarrow> seen_instance \<Rightarrow> seen_instance" where
  "seen_step r s =
     (let n = rw_node r;
          s1 = s\<lparr>si_last_at_ms := opt_max (si_last_at_ms s) (recorded_at_ms n)\<rparr>;
          s2 = (case trust_of n of
              None \<Rightarrow> s1
            | Some t \<Rightarrow>
                if is_none_or (si_trust_key s1) (\<lambda>k. k < rw_key r)
                then s1\<lparr>si_trust_key := Some (rw_key r), si_trust := Some t,
                        si_trust_reason := opt_filter valid_reason (attr n ''trust_reason'')\<rparr>
                else s1)
      in case opt_filter valid_session (attr n ''session_id'') of
           None \<Rightarrow> s2
         | Some sid \<Rightarrow>
             s2\<lparr>si_sessions := bupsert
                 (\<lparr>is_session_id = sid, is_first_at_ms = None, is_last_at_ms = None, is_case_id = None\<rparr>, None)
                 (session_step r) sid (si_sessions s2)\<rparr>)"

definition opt_rank :: "nat option \<Rightarrow> nat" where
  "opt_rank ms = (case ms of None \<Rightarrow> 0 | Some m \<Rightarrow> m + 1)"

definition instance_activity_of :: "graph \<Rightarrow> nat \<Rightarrow> (string, instance_activity) bmap" where
  "instance_activity_of g max_sessions =
     map (\<lambda>(i, s). (i,
         \<lparr>ia_trust = si_trust s, ia_trust_reason = si_trust_reason s, ia_last_at_ms = si_last_at_ms s,
          ia_sessions = take max_sessions (sort_desc (\<lambda>f. opt_rank (is_last_at_ms f))
            (map (\<lambda>(sid, f, key). f) (si_sessions s)))\<rparr>))
       (fold (\<lambda>r m. case opt_filter valid_instance (attr (rw_node r) ''instance_id'') of
           None \<Rightarrow> m | Some i \<Rightarrow> bupsert seen_default (seen_step r) i m) (command_rows g) [])"

subsection \<open>The page of decisions\<close>

record decision_query =
  dq_flagged_only :: bool
  dq_outcome :: "string option"
  dq_verdict :: "string option"
  dq_reason :: "string option"
  dq_reason_not :: "string option"
  dq_session :: "string option"
  dq_text :: "string option"
  dq_cursor :: "decision_cursor option"
  dq_limit :: nat

definition query_default :: decision_query where
  "query_default = \<lparr>dq_flagged_only = True, dq_outcome = None, dq_verdict = None, dq_reason = None,
     dq_reason_not = None, dq_session = None, dq_text = None, dq_cursor = None, dq_limit = 25\<rparr>"

definition MAX_DECISIONS_PAGE :: nat where "MAX_DECISIONS_PAGE = 50"
definition REASONS_SHOWN :: nat where "REASONS_SHOWN = 8"
definition MAX_REASON_EXPLANATION_CHARS :: nat where "MAX_REASON_EXPLANATION_CHARS = 300"

record reason_count =
  rc_key :: string
  rc_words :: string
  rc_rules :: "string list"
  rc_count :: nat
  rc_by_outcome :: "(string, nat) bmap"
  rc_explanation :: string

record decisions_page =
  dp_items :: "decision_record list"
  dp_next_cursor :: "string option"
  dp_total :: nat
  dp_flagged_total :: nat
  dp_by_outcome :: "(string, nat) bmap"
  dp_reasons :: "reason_count list"
  dp_reasons_distinct :: nat
  dp_record :: record_span
  dp_sessions :: "(string, session_facts) bmap"

text \<open>Every filter but the outcome and the reason.\<close>

definition base_ok :: "(string \<Rightarrow> string) \<Rightarrow> decision_query \<Rightarrow> row \<Rightarrow> bool" where
  "base_ok lower q r \<longleftrightarrow>
     (\<not> dq_flagged_only q \<or> rw_flagged r \<and> (dq_outcome q = Some ''checked_only'' \<or> rw_outcome r \<noteq> ''checked_only''))
     \<and> is_none_or (dq_verdict q) (\<lambda>v. attr_or_unknown (rw_node r) ''recommendation'' = v)
     \<and> is_none_or (dq_session q) (\<lambda>s. session_matches s (rw_session r))
     \<and> is_none_or (query_text lower (dq_text q)) (\<lambda>t. contains (lower (nd_label (rw_node r))) t)"

definition outcome_ok :: "decision_query \<Rightarrow> row \<Rightarrow> bool" where
  "outcome_ok q r \<longleftrightarrow> is_none_or (dq_outcome q) (\<lambda>og. rw_outcome r = og)"

definition reason_ok :: "decision_query \<Rightarrow> row \<Rightarrow> bool" where
  "reason_ok q r \<longleftrightarrow> is_none_or (dq_reason q) (\<lambda>x. rw_reason r = x)
     \<and> is_none_or (dq_reason_not q) (\<lambda>x. rw_reason r \<noteq> x)"

definition matching_rows :: "(string \<Rightarrow> string) \<Rightarrow> decision_query \<Rightarrow> graph \<Rightarrow> row list" where
  "matching_rows lower q g =
     filter (\<lambda>r. base_ok lower q r \<and> outcome_ok q r \<and> reason_ok q r) (command_rows g)"

definition reason_entry :: "row \<Rightarrow> nat \<times> order_key \<times> node \<Rightarrow> nat \<times> order_key \<times> node" where
  "reason_entry r e =
     (case e of (count, key, n) \<Rightarrow>
       if key < rw_key r then (count + 1, rw_key r, rw_node r) else (count + 1, key, n))"

definition reason_list :: "row list \<Rightarrow> reason_count list" where
  "reason_list rows =
     (let reasons = fold (\<lambda>r. bupsert (0, rw_key r, rw_node r) (reason_entry r) (rw_reason r)) rows [];
          outcomes = fold (\<lambda>r. bupsert [] (bump (rw_outcome r)) (rw_reason r)) rows []
      in sort_desc rc_count (map (\<lambda>(key, count, k, n).
           \<lparr>rc_key = key, rc_words = reason_words n, rc_rules = rules_of n, rc_count = count,
            rc_by_outcome = (case bget outcomes key of Some m \<Rightarrow> m | None \<Rightarrow> []),
            rc_explanation = take_chars MAX_REASON_EXPLANATION_CHARS (explanation_of n)\<rparr>) reasons))"

text \<open>The rows of a page after the cursor, one more than asked for to learn whether there is a next.\<close>

definition page_limit :: "decision_query \<Rightarrow> nat" where
  "page_limit q = min (max (dq_limit q) 1) MAX_DECISIONS_PAGE"

definition after_cursor :: "decision_query \<Rightarrow> row \<Rightarrow> bool" where
  "after_cursor q r \<longleftrightarrow> is_none_or (dq_cursor q) (\<lambda>c. rw_key r < cursor_key c)"

definition page_rows :: "(string \<Rightarrow> string) \<Rightarrow> decision_query \<Rightarrow> graph \<Rightarrow> row list" where
  "page_rows lower q g =
     take (page_limit q + 1) (filter (after_cursor q) (sort_desc rw_key (matching_rows lower q g)))"

definition row_cursor :: "row \<Rightarrow> decision_cursor" where
  "row_cursor r = \<lparr>dc_ms = fst (rw_key r), dc_id = nd_id (rw_node r)\<rparr>"

definition decisions_page_of :: "(string \<Rightarrow> string) \<Rightarrow> decision_query \<Rightarrow> graph \<Rightarrow> decisions_page" where
  "decisions_page_of lower q g =
     (let rows = command_rows g;
          based = filter (base_ok lower q) rows;
          reasons = reason_list (filter (\<lambda>r. rw_flagged r \<and> outcome_ok q r) based);
          found = page_rows lower q g;
          page = take (page_limit q) found;
          facts = session_facts_of rows;
          items = map (\<lambda>r. decision_record_of g (rw_node r)) page
      in \<lparr>dp_items = items,
          dp_next_cursor = (if page_limit q < length found
             then (if page = [] then None else Some (cursor_encode (row_cursor (last page)))) else None),
          dp_total = length (matching_rows lower q g),
          dp_flagged_total = count_if flagged_by_agent rows,
          dp_by_outcome = outcome_counts (filter (reason_ok q) based),
          dp_reasons = take REASONS_SHOWN reasons,
          dp_reasons_distinct = length reasons,
          dp_record = record_span_of g,
          dp_sessions = bmap_of (List.map_filter (\<lambda>i. map_option (Pair (dr_session i)) (bget facts (dr_session i))) items)\<rparr>)"

subsection \<open>One decision\<close>

record decision_brief =
  db_id :: string
  db_command :: string
  db_outcome_key :: string
  db_recorded_at_ms :: "nat option"
  db_flagged :: bool

record decision_detail =
  dd_item :: decision_record
  dd_before :: "decision_brief list"
  dd_after :: "decision_brief list"
  dd_session :: session_facts

definition brief_of :: "row \<Rightarrow> decision_brief" where
  "brief_of r = \<lparr>db_id = nd_id (rw_node r), db_command = nd_label (rw_node r), db_outcome_key = rw_outcome r,
     db_recorded_at_ms = recorded_at_ms (rw_node r), db_flagged = rw_flagged r\<rparr>"

definition decision_of :: "graph \<Rightarrow> string \<Rightarrow> decision_detail option" where
  "decision_of g i =
     (case List.find (\<lambda>n. is_command n \<and> nd_id n = i) (gr_nodes g) of
        None \<Rightarrow> None
      | Some n \<Rightarrow>
         (let session = session_or_empty i;
              siblings = sort_key (\<lambda>r. (seq_of (rw_node r), nd_id (rw_node r)))
                (filter (\<lambda>r. rw_session r = session) (command_rows g))
          in case index_of (\<lambda>r. nd_id (rw_node r) = i) siblings of
               None \<Rightarrow> None
             | Some at \<Rightarrow>
                 Some \<lparr>dd_item = decision_record_of g n,
                       dd_before = map brief_of (drop (at - 2) (take at siblings)),
                       dd_after = map brief_of (take 1 (drop (at + 1) siblings)),
                       dd_session = (case bget (session_facts_of (command_rows g)) session of
                          Some f \<Rightarrow> f | None \<Rightarrow> session_facts_default)\<rparr>))"
end
