(* ===== verification/DecisionLaws.thy ===== *)
theory DecisionLaws
  imports GraphLaws Decisions
begin

text \<open>
  What the reads of the record promise: no command is missing from the page of sessions, a cursor reads
  back, following the pages gives every matching decision once and in order, across a pruning too, and the
  counts beside the list add up.
\<close>

subsection \<open>Lookups and orders\<close>

lemma set_sort_desc [simp]: "set (sort_desc k xs) = set xs"
  by (simp add: sort_desc_def)

lemma length_sort_desc [simp]: "length (sort_desc k xs) = length xs"
  by (simp add: sort_desc_def)

lemma set_dedup_first [simp]: "set (dedup_first xs) = set xs"
  by (simp add: dedup_first_def)

lemma rsplit_once_Some: "rsplit_once c xs = Some (a, b) \<Longrightarrow> xs = a @ c # b \<and> c \<notin> set b"
proof (induction xs arbitrary: a)
  case (Cons x xs)
  show ?case
  proof (cases "rsplit_once c xs")
    case None
    have "c \<notin> set ys" if "rsplit_once c ys = None" for ys :: "'a list"
      using that by (induction ys) (auto split: option.splits if_splits)
    then show ?thesis using None Cons.prems by (auto split: if_splits)
  next
    case (Some p)
    then show ?thesis using Cons by (cases p) auto
  qed
qed simp

lemma rsplit_once_last: "c \<notin> set b \<Longrightarrow> rsplit_once c (a @ c # b) = Some (a, b)"
proof -
  assume "c \<notin> set b"
  moreover have "c \<notin> set ys \<Longrightarrow> rsplit_once c ys = None" for ys :: "'a list" by (induction ys) auto
  ultimately show ?thesis by (induction a) auto
qed

lemma bare_session_id [simp]: "bare_session (session_id k) = k"
  unfolding bare_session_def session_id_def strip_prefix_append by simp

lemma find_Some_in: "List.find p xs = Some x \<Longrightarrow> x \<in> set xs \<and> p x"
  by (auto simp: find_Some_iff in_set_conv_nth)

lemma node_of_in: "node_of g i = Some n \<Longrightarrow> n \<in> set (gr_nodes g) \<and> nd_id n = i"
  using find_Some_in[of "\<lambda>n. nd_id n = i" "List.rev (gr_nodes g)" n] by (simp add: node_of_def)

lemma map_filter_in: "y \<in> set (List.map_filter f xs) \<longleftrightarrow> (\<exists>x\<in>set xs. f x = Some y)"
  by (force simp: List.map_filter_def)

lemma in_ids: "i \<in> nd_id ` S \<longleftrightarrow> (\<exists>m\<in>S. nd_id m = i)"
  by auto

lemma unique_ids:
  "graph_ok g \<Longrightarrow> n \<in> set (gr_nodes g) \<Longrightarrow> m \<in> set (gr_nodes g) \<Longrightarrow> nd_id n = nd_id m \<Longrightarrow> n = m"
  by (auto simp: graph_ok_def distinct_map dest: inj_onD)

subsection \<open>Every command is on the page of sessions\<close>

text \<open>A command whose id names a session is among the commands of the session of that name.\<close>

lemma named_command_in_session:
  assumes "graph_ok g" "n \<in> set (commands_of g)" "command_key n = Some (bare_session (nd_id s))"
  shows "n \<in> set (session_commands g s)"
proof -
  let ?ran = "List.map_filter (\<lambda>e. node_of g (ed_to e)) (filter (edge_kind ''ran'') (edges_out g (nd_id s)))"
  obtain r where r: "strip_prefix ''cmd:'' (nd_id n) = Some r" "map_option fst (rsplit_once colon r) = Some (bare_session (nd_id s))"
    using assms(3) by (auto simp: command_key_def bind_eq_Some_conv split: if_splits)
  then obtain x where "rsplit_once colon r = Some (bare_session (nd_id s), x)" by (cases "rsplit_once colon r") auto
  then have "r = bare_session (nd_id s) @ colon # x" by (rule rsplit_once_Some[THEN conjunct1])
  then have "nd_id n = (''cmd:'' @ bare_session (nd_id s) @ '':'') @ x"
    using r(1) by (simp add: strip_prefix_Some colon_def)
  then have named: "starts_with (nd_id n) (''cmd:'' @ bare_session (nd_id s) @ '':'')" by (rule prefixI)
  show ?thesis
  proof (cases "nd_id n \<in> nd_id ` set ?ran")
    case True
    then obtain m where m: "m \<in> set ?ran" "nd_id m = nd_id n" unfolding in_ids by blast
    then obtain e :: edge where "node_of g (ed_to e) = Some m" unfolding map_filter_in by blast
    then have "m \<in> set (gr_nodes g)" using node_of_in by blast
    moreover have "n \<in> set (gr_nodes g)" using assms(2) by (simp add: commands_of_def)
    ultimately have "m = n" using unique_ids[OF assms(1)] m(2) by blast
    then show ?thesis using m(1) by (simp add: session_commands_def Let_def)
  next
    case False
    then have "n \<in> set (filter (\<lambda>n. starts_with (nd_id n) (''cmd:'' @ bare_session (nd_id s) @ '':'')
                              \<and> nd_id n \<notin> nd_id ` set ?ran) (commands_of g))"
      using named assms(2) by simp
    then show ?thesis unfolding session_commands_def Let_def set_sort_desc set_append by blast
  qed
qed

lemma session_of_key:
  assumes "n \<in> set (commands_of g)" "command_key n = Some k"
  shows "\<exists>s\<in>set (all_sessions g). bare_session (nd_id s) = k"
proof (cases "k \<in> set (map (\<lambda>s. bare_session (nd_id s)) (filter is_session (gr_nodes g)))")
  case True
  then show ?thesis by (auto simp: all_sessions_def)
next
  case False
  have "k \<in> set (List.map_filter command_key (gr_nodes g))"
    using assms by (auto simp: map_filter_in commands_of_def)
  then have "plain_node (''session:'' @ k) ''session'' k \<in> set (recovered_sessions g)"
    using False by (simp add: recovered_sessions_def Let_def)
  moreover have "bare_session (nd_id (plain_node (''session:'' @ k) ''session'' k)) = k"
    using bare_session_id[of k] by (simp add: plain_node_def session_id_def)
  ultimately show ?thesis unfolding all_sessions_def set_sort_desc set_append by blast
qed


subsection \<open>Counts\<close>

lemma count_if_parts:
  "count_if p xs + count_if (\<lambda>x. \<not> p x \<and> q x) xs = count_if (\<lambda>x. p x \<or> q x) xs"
  by (induction xs) (auto simp: count_if_def)

lemma count_if_disjoint:
  "(\<And>x. x \<in> set xs \<Longrightarrow> \<not> (p x \<and> q x)) \<Longrightarrow> count_if p xs + count_if q xs = count_if (\<lambda>x. p x \<or> q x) xs"
  by (induction xs) (auto simp: count_if_def)

lemma count_if_all: "(\<And>x. x \<in> set xs \<Longrightarrow> p x) \<Longrightarrow> count_if p xs = length xs"
  by (simp add: count_if_def)

lemma has_verdict_unique: "has_verdict v n \<Longrightarrow> has_verdict w n \<Longrightarrow> v = w"
  by (simp add: has_verdict_def)

lemma has_outcome_unique: "has_outcome v n \<Longrightarrow> has_outcome w n \<Longrightarrow> v = w"
  by (simp add: has_outcome_def)

lemma verdict_counts:
  "count_if (has_verdict ''deny'') xs + count_if (has_verdict ''review'') xs
   + count_if (has_verdict ''allow'') xs + count_if unknown_verdict xs = length xs"
  by (induction xs) (auto simp: count_if_def unknown_verdict_def has_verdict_def)

lemma outcome_counts_parts:
  "count_if (has_outcome ''blocked'') xs + count_if (has_outcome ''would_block'') xs
   + count_if (has_outcome ''screened'') xs + count_if (has_outcome ''allowed'') xs
   + count_if unknown_outcome xs = length xs"
  by (induction xs) (auto simp: count_if_def unknown_outcome_def has_outcome_def)
subsection \<open>The cursor\<close>

lemma hex_value_digit: "k < 16 \<Longrightarrow> hex_value (hex_digit k) = Some k \<and> hex_digit k \<noteq> CHR ''+''"
proof -
  assume "k < 16"
  then have "k \<in> set [0..<16]" by simp
  moreover have "list_all (\<lambda>k. hex_value (hex_digit k) = Some k \<and> hex_digit k \<noteq> CHR ''+'') [0..<16]"
    by code_simp
  ultimately show ?thesis unfolding list_all_iff by blast
qed

lemma radix16_digits: "b < 256 \<Longrightarrow> radix16 (hex_digit (b div 16)) (hex_digit (b mod 16)) = Some b"
  using hex_value_digit[of "b div 16"] hex_value_digit[of "b mod 16"] by (simp add: radix16_def)

definition hex_text :: "string \<Rightarrow> string" where
  "hex_text s = concat (map (\<lambda>b. [hex_digit (byte b div 16), hex_digit (byte b mod 16)]) s)"

lemma radix16_hex_text: "radix16_pairs (hex_text s) = Some s"
  by (induction s) (simp_all add: hex_text_def radix16_digits)

lemma length_hex_text: "length (hex_text s) = 2 * length s"
  by (induction s) (simp_all add: hex_text_def)

lemma hex_text_Nil: "hex_text s = [] \<longleftrightarrow> s = []"
  by (cases s) (simp_all add: hex_text_def)

lemma split_once_first: "c \<notin> set a \<Longrightarrow> split_once c (a @ c # b) = Some (a, b)"
proof -
  assume c: "c \<notin> set a"
  then have "takeWhile (\<lambda>x. x \<noteq> c) (a @ c # b) = a" "dropWhile (\<lambda>x. x \<noteq> c) (a @ c # b) = c # b"
    by (auto simp: takeWhile_append dropWhile_append3)
  then show ?thesis by (simp add: split_once_def)
qed

lemma no_dash: "CHR ''-'' \<notin> set (show_nat k)"
  using show_nat_digits[of k] by (auto simp: list_all_iff is_ascii_digit_def)

definition cursor_ok :: "decision_cursor \<Rightarrow> bool" where
  "cursor_ok c \<longleftrightarrow> dc_ms c < 2 ^ 64 \<and> is_utf8 (dc_id c) \<and> starts_with (dc_id c) ''cmd:'' \<and> length (dc_id c) \<le> 512"

lemma parse_encode: "cursor_ok c \<Longrightarrow> cursor_parse (cursor_encode c) = Some c"
proof -
  assume ok: "cursor_ok c"
  have "cursor_encode c = show_nat (dc_ms c) @ CHR ''-'' # hex_text (dc_id c)"
    by (simp add: cursor_encode_def hex_text_def)
  then have "split_once CHR ''-'' (cursor_encode c) = Some (show_nat (dc_ms c), hex_text (dc_id c))"
    using split_once_first[OF no_dash] by simp
  moreover have "parse_u64 (show_nat (dc_ms c)) = Some (dc_ms c)"
    using ok by (simp add: parse_u64_def parse_unsigned_show cursor_ok_def)
  moreover have "dc_id c \<noteq> []" using ok by (auto simp: cursor_ok_def)
  ultimately show ?thesis
    using ok by (simp add: cursor_parse_def cursor_ok_def length_hex_text hex_text_Nil radix16_hex_text from_utf8_def)
qed

lemma radix16_pairs_length: "radix16_pairs s = Some r \<Longrightarrow> length s = 2 * length r"
  by (induction s arbitrary: r rule: radix16_pairs.induct) (auto simp: bind_eq_Some_conv)

lemma parse_u64_bound: "parse_u64 s = Some k \<Longrightarrow> k < 2 ^ 64"
  by (auto simp: parse_u64_def parse_unsigned_def Let_def split: if_splits)

lemma cursor_parse_ok: "cursor_parse v = Some c \<Longrightarrow> cursor_ok c"
proof -
  assume v: "cursor_parse v = Some c"
  obtain ms hex where a: "split_once CHR ''-'' v = Some (ms, hex)"
    using v by (cases "split_once CHR ''-'' v") (auto simp: cursor_parse_def)
  obtain m where b: "parse_u64 ms = Some m"
    using v a by (cases "parse_u64 ms") (auto simp: cursor_parse_def)
  have len: "length hex \<le> 1024" using v a b by (auto simp: cursor_parse_def split: if_splits)
  obtain i where i: "radix16_pairs hex = Some i" "is_utf8 i" "starts_with i ''cmd:''" "c = \<lparr>dc_ms = m, dc_id = i\<rparr>"
    using v a b by (cases "radix16_pairs hex") (auto simp: cursor_parse_def from_utf8_def split: if_splits)
  then show ?thesis
    using len radix16_pairs_length[OF i(1)] parse_u64_bound[OF b] by (simp add: cursor_ok_def)
qed

text \<open>C14: The cursor of a page. It reads back as the place it was written from exactly when its time is
  a \<^verbatim>\<open>u64\<close> and its id is UTF-8, of a command, and of at most 512 bytes; and whatever text reads as a cursor, the
  cursor read is of that kind. A longer id is written into a cursor that no later page takes.\<close>

theorem cursor_reads_back:
  "(cursor_parse (cursor_encode c) = Some c) = cursor_ok c
    \<and> list_all cursor_ok (List.map_filter cursor_parse texts)"
proof -
  have "list_all cursor_ok (List.map_filter cursor_parse texts)"
    using cursor_parse_ok by (auto simp: list_all_iff map_filter_in)
  then show ?thesis using parse_encode cursor_parse_ok by blast
qed

subsection \<open>Following the pages\<close>

text \<open>The items a reader gets who follows the cursor of each page to the next, at most \<open>fuel\<close> pages.\<close>

fun follow :: "(string \<Rightarrow> string) \<Rightarrow> graph \<Rightarrow> nat \<Rightarrow> decision_query \<Rightarrow> decision_record list" where
  "follow lower g 0 q = []"
| "follow lower g (Suc fuel) q =
     (let page = decisions_page_of lower q g in
      dp_items page @ (case Option.bind (dp_next_cursor page) cursor_parse of
          None \<Rightarrow> [] | Some c \<Rightarrow> follow lower g fuel (q\<lparr>dq_cursor := Some c\<rparr>)))"

text \<open>A record whose cursors name what they are made from: the ids fit one, and the step number a node
  carries is the one in its id, as ingestion writes it.\<close>

definition pageable :: "node \<Rightarrow> bool" where
  "pageable n \<longleftrightarrow> is_utf8 (nd_id n) \<and> length (nd_id n) \<le> 512
     \<and> seq_of n = (case id_seq (nd_id n) of Some s \<Rightarrow> s | None \<Rightarrow> 0)"

lemma sort_desc_strict:
  assumes "distinct (map k xs)"
  shows "sorted_wrt (\<lambda>a b. k b < k a) (sort_desc k xs)"
proof -
  have "sorted (map k (sort_key k (List.rev xs)))" by simp
  moreover have "distinct (map k (sort_key k (List.rev xs)))" using assms by (simp add: distinct_map)
  ultimately have "sorted_wrt (<) (map k (sort_key k (List.rev xs)))" by (simp add: strict_sorted_iff)
  then show ?thesis by (simp add: sort_desc_def sorted_wrt_rev sorted_wrt_map)
qed

lemma below_in_desc:
  assumes "sorted_wrt (\<lambda>a b. k b < k a) (xs @ y # zs)"
  shows "filter (\<lambda>r. k r < (k y :: 'k::linorder)) (xs @ y # zs) = zs"
proof -
  have "\<forall>x\<in>set xs. \<not> k x < k y" "\<forall>z\<in>set zs. k z < k y"
    using assms by (auto simp: sorted_wrt_append)
  then show ?thesis by (simp add: filter_empty_conv)
qed

lemma rw_key_row: "rw_key (row_of n) = order_key n" "rw_node (row_of n) = n"
  by (simp_all add: row_of_def)

lemma row_keys_distinct:
  assumes "graph_ok g"
  shows "distinct (map rw_key (matching_rows lower q g))"
proof -
  have "distinct (map nd_id (commands_of g))"
    using assms by (simp add: graph_ok_def commands_of_def distinct_map_filter)
  then have "inj_on nd_id (set (commands_of g))" "distinct (commands_of g)" by (simp_all add: distinct_map)
  then have "inj_on (\<lambda>n. rw_key (row_of n)) (set (commands_of g))"
    by (auto simp: inj_on_def rw_key_row order_key_def)
  then have "distinct (map rw_key (command_rows g))"
    using \<open>distinct (commands_of g)\<close> by (simp add: command_rows_def distinct_map comp_def inj_on_def row_of_def)
  then show ?thesis by (simp add: matching_rows_def distinct_map_filter)
qed

lemma row_is_row_of: "r \<in> set (matching_rows lower q g) \<Longrightarrow> \<exists>n\<in>set (commands_of g). r = row_of n"
  by (auto simp: matching_rows_def command_rows_def)

lemma recorded_at_bound: "recorded_at_ms n = Some ms \<Longrightarrow> ms < 2 ^ 64"
  using parse_u64_bound by (auto simp: recorded_at_ms_def bind_eq_Some_conv)

lemma row_cursor_ok:
  assumes "graph_ok g" "n \<in> set (commands_of g)" "pageable n"
  shows "cursor_ok (row_cursor (row_of n)) \<and> cursor_key (row_cursor (row_of n)) = rw_key (row_of n)"
proof -
  have "node_ok n" "is_command n" using assms(1,2) by (auto simp: graph_ok_def commands_of_def list_all_iff)
  then have "starts_with (nd_id n) ''cmd:''" by (simp add: node_ok_def)
  moreover have "(case recorded_at_ms n of Some ms \<Rightarrow> ms | None \<Rightarrow> 0) < 2 ^ 64"
    using recorded_at_bound[of n] by (simp split: option.split)
  ultimately show ?thesis
    using assms(3) by (simp add: cursor_ok_def row_cursor_def cursor_key_def rw_key_row order_key_def pageable_def)
qed

lemma matching_cursor [simp]: "matching_rows lower (q\<lparr>dq_cursor := c\<rparr>) g = matching_rows lower q g"
  by (simp add: matching_rows_def base_ok_def[abs_def] outcome_ok_def reason_ok_def)

lemma page_limit_cursor [simp]: "page_limit (q\<lparr>dq_cursor := c\<rparr>) = page_limit q"
  by (simp add: page_limit_def)

lemma page_limit_pos: "0 < page_limit q"
  by (simp add: page_limit_def MAX_DECISIONS_PAGE_def)

lemma page_items:
  "dp_items (decisions_page_of lower q g) = map (\<lambda>r. decision_record_of g (rw_node r)) (take (page_limit q) (page_rows lower q g))"
  "dp_next_cursor (decisions_page_of lower q g) =
     (if page_limit q < length (page_rows lower q g)
      then Some (cursor_encode (row_cursor (List.last (take (page_limit q) (page_rows lower q g))))) else None)"
  using page_limit_pos[of q] by (auto simp: decisions_page_of_def Let_def)

lemma follow_suffix:
  assumes "graph_ok g" "list_all pageable (commands_of g)"
    "sort_desc rw_key (matching_rows lower q g) = done_rows @ left"
    "filter (after_cursor q) (done_rows @ left) = left" "length left < fuel"
  shows "follow lower g fuel q = map (\<lambda>r. decision_record_of g (rw_node r)) left"
  using assms(3-5)
proof (induction fuel arbitrary: q done_rows left)
  case (Suc fuel)
  let ?k = "page_limit q" and ?rec = "\<lambda>r. decision_record_of g (rw_node r)"
  have rows: "page_rows lower q g = take (?k + 1) left" using Suc.prems(1,2) by (simp add: page_rows_def)
  show ?case
  proof (cases "?k < length left")
    case False
    then show ?thesis by (simp add: Let_def page_items rows)
  next
    case True
    define y where "y = left ! (?k - 1)"
    have k: "0 < ?k" by (rule page_limit_pos)
    have take: "take ?k left = take (?k - 1) left @ [y]"
      using True k take_Suc_conv_app_nth[of "?k - 1" left] by (simp add: y_def)
    have cut: "left = (take (?k - 1) left @ [y]) @ drop ?k left" using take append_take_drop_id[of ?k left] by metis
    have "y \<in> set (sort_desc rw_key (matching_rows lower q g))"
      using Suc.prems(1) True k by (simp add: y_def)
    then obtain n where n: "n \<in> set (commands_of g)" "y = row_of n" using row_is_row_of by fastforce
    have c: "cursor_ok (row_cursor y) \<and> cursor_key (row_cursor y) = rw_key y"
      using row_cursor_ok[OF assms(1) n(1)] n assms(2) by (simp add: list_all_iff)
    let ?q = "q\<lparr>dq_cursor := Some (row_cursor y)\<rparr>"
    have "sorted_wrt (\<lambda>a b. rw_key b < rw_key a) ((done_rows @ take (?k - 1) left) @ y # drop ?k left)"
      using sort_desc_strict[OF row_keys_distinct[OF assms(1)]] Suc.prems(1) cut by (metis append.assoc append_Cons append_Nil)
    then have "filter (\<lambda>r. rw_key r < rw_key y) ((done_rows @ take (?k - 1) left) @ y # drop ?k left) = drop ?k left"
      by (rule below_in_desc)
    moreover have "after_cursor ?q = (\<lambda>r. rw_key r < rw_key y)"
      using c by (simp add: after_cursor_def[abs_def] is_none_or_def)
    ultimately have rest: "filter (after_cursor ?q) ((done_rows @ take ?k left) @ drop ?k left) = drop ?k left"
      by (simp only: take append.assoc append_Cons append_Nil)
    have "follow lower g fuel ?q = map ?rec (drop ?k left)"
    proof (rule Suc.IH)
      show "sort_desc rw_key (matching_rows lower ?q g) = (done_rows @ take ?k left) @ drop ?k left"
        using Suc.prems(1) by simp
      show "length (drop ?k left) < fuel" using Suc.prems(3) True k by simp
    qed (rule rest)
    moreover have "dp_next_cursor (decisions_page_of lower q g) = Some (cursor_encode (row_cursor y))"
      using True by (simp add: page_items rows take)
    moreover have "dp_items (decisions_page_of lower q g) = map ?rec (take ?k left)" using True by (simp add: page_items rows min_def)
    moreover have "cursor_parse (cursor_encode (row_cursor y)) = Some (row_cursor y)" using c parse_encode by blast
    ultimately show ?thesis by (simp add: Let_def flip: map_append)
  qed
qed simp

text \<open>C12: Paging misses nothing and repeats nothing. A reader who starts without a cursor and follows the cursor
  each page gives, whatever the size of a page, gets after finitely many pages exactly the decisions
  that match the filters, each once, newest first.\<close>

theorem pages_cover:
  assumes "graph_ok g" "list_all pageable (commands_of g)" "dq_cursor q = None" "length (commands_of g) < fuel"
  shows "follow lower g fuel q
    = map (\<lambda>r. decision_record_of g (rw_node r)) (sort_desc rw_key (matching_rows lower q g))"
proof (rule follow_suffix[OF assms(1,2), where done_rows = "[]"])
  have "length (matching_rows lower q g) \<le> length (commands_of g)"
    by (metis command_rows_def length_filter_le length_map matching_rows_def)
  then show "length (sort_desc rw_key (matching_rows lower q g)) < fuel" using assms(4) by simp
qed (simp_all add: after_cursor_def is_none_or_def assms(3))

subsection \<open>Pages across a pruning\<close>

lemma prune_pruned_to:
  assumes "graph_ok g" "edges_closed g" "prune to_string g = Some (h, n)"
  shows "pruned_to g h"
proof -
  let ?p = "drop_oldest (length (gr_nodes g) - MAX_NODES) g"
  have "prune_loop to_string (fst ?p) (snd ?p) = Some (h, n)"
    using assms(3) by (simp add: prune_def case_prod_beta)
  then have "loop_result to_string (fst ?p) h" using prune_loop_result by fastforce
  moreover have "pruned_to g (fst ?p)" by (rule drop_oldest_pruned[OF assms(1,2)])
  ultimately have "pruned_to g (fst ?p)" "pruned_to (fst ?p) h" unfolding loop_result_def pruned_to_def by blast+
  then show ?thesis by (rule pruned_to_trans)
qed

lemma suffix_filter:
  assumes "suffix ys xs" "distinct xs"
  shows "filter (\<lambda>x. x \<in> set ys) xs = ys"
proof -
  obtain zs where "xs = zs @ ys" using assms(1) by (auto simp: suffix_def)
  then show ?thesis using assms(2) by (auto simp: filter_empty_conv)
qed

lemma filter_sort_desc: "filter p (sort_desc k xs) = sort_desc k (filter p xs)"
  by (simp only: sort_desc_def rev_filter[symmetric] filter_sort)

lemma kept_rows:
  assumes "graph_ok g" "pruned_to g h"
  shows "matching_rows lower q h = filter (\<lambda>r. rw_node r \<in> set (commands_of h)) (matching_rows lower q g)"
proof -
  have "distinct (commands_of g)" using assms(1) by (auto simp: graph_ok_def commands_of_def distinct_map)
  then have "commands_of h = filter (\<lambda>n. n \<in> set (commands_of h)) (commands_of g)"
    using assms(2) suffix_filter by (metis pruned_to_def)
  then have "command_rows h = filter (\<lambda>r. rw_node r \<in> set (commands_of h)) (command_rows g)"
    unfolding command_rows_def by (metis (mono_tags, lifting) comp_def filter_cong filter_map rw_key_row(2))
  then show ?thesis by (simp add: matching_rows_def conj_commute)
qed

text \<open>C13: A cursor survives a pruning. On the record a pruning leaves, the page after any cursor is the page of
  the old record with the decisions that were dropped left out: nothing that is kept is skipped, nothing
  comes twice, and the order is the same, even when the decision the cursor names is gone.\<close>

theorem page_after_prune:
  assumes "graph_ok g" "edges_closed g" "prune to_string g = Some (h, n)"
  shows "page_rows lower q h = take (page_limit q + 1)
    (filter (\<lambda>r. rw_node r \<in> set (commands_of h))
      (filter (after_cursor q) (sort_desc rw_key (matching_rows lower q g))))"
proof -
  have "sort_desc rw_key (matching_rows lower q h)
      = filter (\<lambda>r. rw_node r \<in> set (commands_of h)) (sort_desc rw_key (matching_rows lower q g))"
    unfolding kept_rows[OF assms(1) prune_pruned_to[OF assms]] by (rule filter_sort_desc[symmetric])
  then show ?thesis by (simp add: page_rows_def conj_commute)
qed

subsection \<open>The counts beside the list\<close>

definition bcount :: "(string, nat) bmap \<Rightarrow> string \<Rightarrow> nat" where
  "bcount m k = (case bget m k of Some c \<Rightarrow> c | None \<Rightarrow> 0)"

lemma bump_wf: "bmap_wf m \<Longrightarrow> bmap_wf (bump k m)"
  by (simp add: bump_def)

lemma bget_bump: "bmap_wf m \<Longrightarrow> bget (bump k m) j = (if j = k then Some (bcount m k + 1) else bget m j)"
  by (simp add: bump_def bupsert_def bget_bput bcount_def)

lemma fold_bump_count:
  "bmap_wf m \<Longrightarrow> bmap_wf (fold (\<lambda>r. bump (key r)) rows m)
     \<and> bcount (fold (\<lambda>r. bump (key r)) rows m) k = bcount m k + count_if (\<lambda>r. key r = k) rows"
  by (induction rows arbitrary: m) (auto simp: bump_wf bget_bump bcount_def count_if_def)

lemma fold_bump_count_Nil: "bcount (fold (\<lambda>r. bump (key r)) rows []) k = count_if (\<lambda>r. key r = k) rows"
proof -
  have "bmap_wf ([] :: (string, nat) bmap)" by (simp add: bmap_wf_def)
  from fold_bump_count[OF this, where key = key and rows = rows and k = k] show ?thesis
    by (simp add: bcount_def[of "[]"] bget_def)
qed

lemma sum_bput: "bmap_wf m \<Longrightarrow> sum_list (map snd (bput k v m)) + bcount m k = sum_list (map snd m) + (v :: nat)"
proof (induction k v m rule: bput.induct)
  case (2 k v k' v' m)
  have "map_of m k = None" if "\<not> k' < k"
    using that 2(2) by (force simp: bmap_wf_def map_of_eq_None_iff)
  then show ?case using 2 by (auto simp: bmap_wf_def bcount_def bget_def split: option.splits)
qed (simp add: bcount_def bget_def)

lemma fold_bump_sum:
  "bmap_wf m \<Longrightarrow> sum_list (map snd (fold (\<lambda>r. bump (key r)) rows m)) = sum_list (map snd m) + length rows"
proof (induction rows arbitrary: m)
  case (Cons r rows)
  have "bump (key r) m = bput (key r) (bcount m (key r) + 1) m"
    by (simp add: bump_def bupsert_def bcount_def)
  then have "sum_list (map snd (bump (key r) m)) = sum_list (map snd m) + 1"
    using sum_bput[OF Cons.prems, of "key r" "bcount m (key r) + 1"] by simp
  then show ?case using Cons.IH[OF bump_wf[OF Cons.prems]] by simp
qed simp

lemma fold_bump_sum_Nil: "sum_list (map snd (fold (\<lambda>r. bump (key r)) rows [])) = length rows"
  using fold_bump_sum[where m = "[]"] by (simp add: bmap_wf_def)

lemma total_is: "dp_total (decisions_page_of lower q g)
    = count_if (\<lambda>r. base_ok lower q r \<and> outcome_ok q r \<and> reason_ok q r) (command_rows g)"
  by (simp add: decisions_page_of_def Let_def matching_rows_def count_if_def)

lemma by_outcome_is: "dp_by_outcome (decisions_page_of lower q g)
    = fold (\<lambda>r. bump (rw_outcome r)) (filter (\<lambda>r. base_ok lower q r \<and> reason_ok q r) (command_rows g)) []"
  by (simp add: decisions_page_of_def Let_def outcome_counts_def conj_commute)

lemma count_if_filter: "count_if p (filter q xs) = count_if (\<lambda>x. q x \<and> p x) xs"
  by (simp add: count_if_def conj_commute)

lemma count_if_cong: "(\<And>x. x \<in> set xs \<Longrightarrow> p x = q x) \<Longrightarrow> count_if p xs = count_if q xs"
  by (simp add: count_if_def cong: filter_cong)


text \<open>What the list of reasons holds before it is cut.\<close>

lemma bget_fold_group:
  assumes "bmap_wf m"
  shows "bget (fold (\<lambda>r. bupsert (start_at r) (grow r) (key r)) rows m) k
    = (case filter (\<lambda>r. key r = k) rows of
         [] \<Rightarrow> bget m k
       | r # rest \<Rightarrow> Some (fold grow (r # rest) (case bget m k of Some v \<Rightarrow> v | None \<Rightarrow> start_at r)))"
  using assms
proof (induction rows arbitrary: m)
  case (Cons x rows)
  have get: "bget (bupsert (start_at x) (grow x) (key x) m) j
      = (if j = key x then Some (grow x (case bget m (key x) of Some w \<Rightarrow> w | None \<Rightarrow> start_at x)) else bget m j)" for j
    using Cons.prems by (simp add: bupsert_def bget_bput)
  show ?case
    using Cons.IH[OF bmap_wf_bupsert[OF Cons.prems], of "start_at x" "grow x" "key x"]
    by (auto simp: get split: list.splits)
qed simp

lemma reason_entry_count: "fst (fold reason_entry rows e) = fst e + length rows"
  by (induction rows arbitrary: e) (auto simp: reason_entry_def split: prod.splits)

lemma fold_group_wf: "bmap_wf m \<Longrightarrow> bmap_wf (fold (\<lambda>r. bupsert (start_at r) (grow r) (key r)) rows m)"
  by (induction rows arbitrary: m) auto

lemma reason_list_counts:
  assumes "rc \<in> set (reason_list rows)"
  shows "rc_count rc = count_if (\<lambda>r. rw_reason r = rc_key rc) rows
    \<and> rc_by_outcome rc = fold (\<lambda>r. bump (rw_outcome r)) (filter (\<lambda>r. rw_reason r = rc_key rc) rows) []
    \<and> 0 < rc_count rc"
proof -
  let ?reasons = "fold (\<lambda>r. bupsert (0, rw_key r, rw_node r) (reason_entry r) (rw_reason r)) rows []"
  let ?outcomes = "fold (\<lambda>r. bupsert [] (bump (rw_outcome r)) (rw_reason r)) rows []"
  let ?mine = "filter (\<lambda>r. rw_reason r = rc_key rc) rows"
  have wf: "bmap_wf ([] :: (string, 'v) bmap)" by (simp add: bmap_wf_def)
  obtain count k n where e: "(rc_key rc, count, k, n) \<in> set ?reasons" "rc_count rc = count"
    "rc_by_outcome rc = (case bget ?outcomes (rc_key rc) of Some m \<Rightarrow> m | None \<Rightarrow> [])"
    using assms by (auto simp: reason_list_def Let_def)
  then have got: "bget ?reasons (rc_key rc) = Some (count, k, n)"
    by (intro in_bget fold_group_wf wf e(1))
  then obtain r rest where mine: "?mine = r # rest"
    unfolding bget_fold_group[OF wf] by (cases ?mine) (auto simp: bget_def)
  have "Some (count, k, n) = Some (fold reason_entry ?mine (0, rw_key r, rw_node r))"
    using got unfolding bget_fold_group[OF wf] mine by (simp add: bget_def)
  then have "count = length ?mine" using reason_entry_count[of ?mine] by (metis add_0 fst_conv option.inject)
  moreover have "bget ?outcomes (rc_key rc) = Some (fold (\<lambda>r. bump (rw_outcome r)) ?mine [])"
    unfolding bget_fold_group[OF wf] mine by (simp add: bget_def)
  ultimately show ?thesis using e mine by (simp add: count_if_def)
qed

text \<open>C17: A reason's number is what its filter finds. In a list of flagged decisions, the count of every
  reason named beside it is the total of the same query narrowed to that reason, its counts by outcome add up to
  it, and no reason is named that no decision has.\<close>

theorem reason_counts_are_totals:
  assumes "dq_flagged_only q" "rc \<in> set (dp_reasons (decisions_page_of lower q g))"
  shows "rc_count rc = dp_total (decisions_page_of lower (q\<lparr>dq_reason := Some (rc_key rc), dq_reason_not := None\<rparr>) g)
    \<and> sum_list (map snd (rc_by_outcome rc)) = rc_count rc \<and> 0 < rc_count rc"
proof -
  let ?rows = "filter (\<lambda>r. rw_flagged r \<and> outcome_ok q r) (filter (base_ok lower q) (command_rows g))"
  have "rc \<in> set (reason_list ?rows)"
    using assms(2) in_set_takeD by (fastforce simp: decisions_page_of_def Let_def)
  note counts = reason_list_counts[OF this]
  have "count_if (\<lambda>r. rw_reason r = rc_key rc) ?rows
      = dp_total (decisions_page_of lower (q\<lparr>dq_reason := Some (rc_key rc), dq_reason_not := None\<rparr>) g)"
    unfolding total_is count_if_filter using assms(1)
    by (intro count_if_cong) (auto simp: base_ok_def outcome_ok_def reason_ok_def is_none_or_def)
  moreover have "sum_list (map snd (rc_by_outcome rc)) = rc_count rc"
    using counts by (simp add: fold_bump_sum_Nil count_if_def)
  ultimately show ?thesis using counts by simp
qed

subsection \<open>Witnesses\<close>


lemma sample_pageable: "list_all pageable (commands_of sample_graph)"
  by code_simp

lemma pages_cover_witness:
  "follow (\<lambda>s. s) sample_graph 2 query_default
     = map (\<lambda>r. decision_record_of sample_graph (rw_node r)) (sort_desc rw_key (matching_rows (\<lambda>s. s) query_default sample_graph))"
  by (rule pages_cover[OF sample_graph_ok(1) sample_pageable]) (simp add: query_default_def, code_simp)

lemma page_after_prune_witness:
  "\<exists>h. prune (\<lambda>g. None) sample_graph = Some (h, 0)
     \<and> page_rows (\<lambda>s. s) query_default h = take 26 (filter (\<lambda>r. rw_node r \<in> set (commands_of h))
       (filter (after_cursor query_default) (sort_desc rw_key (matching_rows (\<lambda>s. s) query_default sample_graph))))"
proof -
  have "length (gr_nodes sample_graph) = 2" by code_simp
  then have p: "prune (\<lambda>g. None) sample_graph = Some (sample_graph, 0)"
    by (simp add: prune_def drop_oldest_def MAX_NODES_def prune_loop.simps over_budget_def graph_to_json_def MAX_BYTES_def)
  have "page_limit query_default + 1 = 26" by code_simp
  then show ?thesis using page_after_prune[OF sample_graph_ok p, of "\<lambda>s. s" query_default] p by auto
qed


definition flagged_graph :: graph where
  "flagged_graph = ingest_verdict ''s1'' 1 ''rm -rf /'' (jobj [(''recommendation'', JStr ''deny'')]) sample_graph"

lemma reason_counts_are_totals_witness:
  "rc_count (hd (dp_reasons (decisions_page_of (\<lambda>s. s) query_default flagged_graph)))
    = dp_total (decisions_page_of (\<lambda>s. s) (query_default\<lparr>dq_reason := Some ''none'', dq_reason_not := None\<rparr>) flagged_graph)"
proof -
  let ?rc = "hd (dp_reasons (decisions_page_of (\<lambda>s. s) query_default flagged_graph))"
  have f: "dq_flagged_only query_default" by (simp add: query_default_def)
  have "dp_reasons (decisions_page_of (\<lambda>s. s) query_default flagged_graph) \<noteq> []" by code_simp
  then have rc: "?rc \<in> set (dp_reasons (decisions_page_of (\<lambda>s. s) query_default flagged_graph))" by simp
  have "rc_key ?rc = ''none''" by code_simp
  then show ?thesis using reason_counts_are_totals[OF f rc] by simp
qed
end
