(* ===== verification/Launch.thy ===== *)
theory Launch
  imports Decisions Seccomp Jail
begin
text \<open>
  What a launch does around the jail: the module \<^verbatim>\<open>launch\<close> of \<^verbatim>\<open>src/crates/cli/src/contain.rs\<close>. The user
  scope, the filter the host takes, the way to the system profiles file, the gate of a profile that
  waits for the host, what the kernel and bubblewrap report, the record, and the count of what the
  jail's hook screened. What the launcher reads of the host is an argument: the
  entries of a path, the text of a file under \<^verbatim>\<open>/proc\<close>, the answer of a probe. \<open>from_slice\<close> and \<open>decode\<close>
  stand for \<^verbatim>\<open>serde_json\<close>, \<open>sha256\<close> for the crate of that name.
\<close>

unbundle bit_operations_syntax

subsection \<open>The user scope\<close>

definition MAX_INFO_BYTES :: nat where "MAX_INFO_BYTES = 4096"
definition DRY_RUN_INFO_FD :: nat where "DRY_RUN_INFO_FD = 9"
definition DRY_RUN_RECORD_FD :: nat where "DRY_RUN_RECORD_FD = 10"
definition DRY_RUN_KEY_FD :: nat where "DRY_RUN_KEY_FD = 11"
definition DRY_RUN_MARKER_FD :: nat where "DRY_RUN_MARKER_FD = 12"
definition DRY_RUN_SECCOMP_FD :: nat where "DRY_RUN_SECCOMP_FD = 13"
definition EXPAND_ENVIRONMENT_SWITCH_SINCE :: nat where "EXPAND_ENVIRONMENT_SWITCH_SINCE = 254"

record scope_facts =
  scf_systemd_run :: "path option"
  scf_systemd_version :: "nat option"
  scf_user_manager :: bool

datatype no_scope = NoSystemdRun | NoUserManager | UnknownSystemd | ScopeNotStarted | NotSeenInScope

fun no_scope_why :: "no_scope \<Rightarrow> string" where
  "no_scope_why NoSystemdRun = ''systemd-run is not installed at a root-owned path''"
| "no_scope_why NoUserManager = ''no user service manager in this session''"
| "no_scope_why UnknownSystemd = ''the systemd version is unknown''"
| "no_scope_why ScopeNotStarted = ''systemd-run did not start the jail in a scope''"
| "no_scope_why NotSeenInScope = ''the kernel does not show the jail in its scope''"

definition no_scope_sentence :: "no_scope \<Rightarrow> string" where
  "no_scope_sentence why = ''innerwarden contain: no scope ('' @ no_scope_why why @ ''): identity is at most observed''"

datatype scope_plan = ScopeUser (sp_systemd_run: path) (sp_unit: string) (sp_no_expand: bool) | ScopeNone no_scope

definition plan_scope :: "scope_facts \<Rightarrow> string \<Rightarrow> scope_plan" where
  "plan_scope f unit =
     (case scf_systemd_run f of
        None \<Rightarrow> ScopeNone NoSystemdRun
      | Some srun \<Rightarrow>
          if \<not> scf_user_manager f then ScopeNone NoUserManager
          else case scf_systemd_version f of
            None \<Rightarrow> ScopeNone UnknownSystemd
          | Some version \<Rightarrow> ScopeUser srun unit (EXPAND_ENVIRONMENT_SWITCH_SINCE \<le> version))"

definition user_manager_socket :: "string option \<Rightarrow> path option" where
  "user_manager_socket xdg =
     (case xdg of None \<Rightarrow> None
      | Some dir \<Rightarrow> if has_root dir then Some (pjoin dir ''systemd/private'') else None)"

text \<open>A number of at most six ASCII digits.\<close>

definition small_number :: "string \<Rightarrow> nat option" where
  "small_number s = (if s \<noteq> [] \<and> length s \<le> 6 \<and> list_all is_ascii_digit s then Some (nat_of_digits s) else None)"

definition first_line :: "string \<Rightarrow> string option" where
  "first_line text = (case str_lines text of [] \<Rightarrow> None | l # ls \<Rightarrow> Some l)"

definition parse_systemd_version :: "string \<Rightarrow> nat option" where
  "parse_systemd_version text =
     Option.bind (first_line text) (\<lambda>l. Option.bind (strip_prefix ''systemd '' l)
       (\<lambda>rest. small_number (takeWhile is_ascii_digit rest)))"

subsection \<open>The filter of the jail\<close>

definition TRACER_SAFE_KERNEL :: "nat \<times> nat" where "TRACER_SAFE_KERNEL = (4, 8)"

datatype tracer_order = TracerAfter | TracerBefore | TracerUnknown

text \<open>The pieces between dots and dashes; the first two must be numbers.\<close>

definition release_parts :: "string \<Rightarrow> string list" where
  "release_parts s = concat (map (split_on CHR ''-'') (split_on CHR ''.'' s))"

definition tracer_order :: "string \<Rightarrow> tracer_order" where
  "tracer_order release =
     (case release_parts (trim release) of
        major # minor # rest \<Rightarrow>
          (case (small_number major, small_number minor) of
             (Some a, Some b) \<Rightarrow> if TRACER_SAFE_KERNEL \<le> (a, b) then TracerAfter else TracerBefore
           | _ \<Rightarrow> TracerUnknown)
      | _ \<Rightarrow> TracerUnknown)"

datatype userns_why = UProbeFailed | UKernelTooOld | UKernelUnknown | UNotBuilt | UNotHanded

fun userns_word :: "userns_why \<Rightarrow> string" where
  "userns_word UProbeFailed = ''userns_probe_failed''"
| "userns_word UKernelTooOld = ''userns_kernel_too_old''"
| "userns_word UKernelUnknown = ''userns_kernel_unknown''"
| "userns_word UNotBuilt = ''userns_filter_not_built''"
| "userns_word UNotHanded = ''userns_filter_not_handed''"

fun userns_why_sentence :: "userns_why \<Rightarrow> string" where
  "userns_why_sentence UProbeFailed =
     ''Bubblewrap here could not start a jail with user namespaces closed, so the jail runs without that.''"
| "userns_why_sentence UKernelTooOld =
     ''This kernel is older than 4.8, where a program that traces another could get a call past the ''
     @ ''filter, so the jail runs without closing them.''"
| "userns_why_sentence UKernelUnknown =
     ''This kernel's release could not be read as a version (it is not one, or there is no /proc and a ''
     @ ''personality such as setarch --uname-2.6 hides it from uname), so it is taken as older than 4.8 ''
     @ ''and the jail runs without closing them.''"
| "userns_why_sentence UNotBuilt =
     ''This build has no sandbox filter for this architecture, so the jail runs without closing them.''"
| "userns_why_sentence UNotHanded =
     ''The launcher could not hand the sandbox filter to bubblewrap, so the jail runs without closing them.''"

definition USERNS_OPEN_ALSO :: string where
  "USERNS_OPEN_ALSO = ''Joining other namespaces stays open too, and a 32-bit program runs in the jail.''"

definition userns_open_sentence :: "userns_why \<Rightarrow> string" where
  "userns_open_sentence why = ''innerwarden contain: user namespaces stay open ('' @ userns_word why @ ''): ''
     @ userns_why_sentence why @ '' '' @ USERNS_OPEN_ALSO"

datatype filter_why = FProbeFailed | FNotBuilt | FKernelTooOld | FKernelUnknown | FNotHanded

fun filter_word :: "filter_why \<Rightarrow> string" where
  "filter_word FProbeFailed = ''filter_probe_failed''"
| "filter_word FNotBuilt = ''filter_not_built''"
| "filter_word FKernelTooOld = ''filter_kernel_too_old''"
| "filter_word FKernelUnknown = ''filter_kernel_unknown''"
| "filter_word FNotHanded = ''filter_not_handed''"

definition STILL_OPEN :: string where
  "STILL_OPEN = ''still inject keystrokes into your terminal and make new btrfs or bcachefs subvolumes or ''
     @ ''snapshots (a snapshot shows the files the jail hides).''"

definition STILL_OPEN_PAST :: string where
  "STILL_OPEN_PAST = ''programs in the jail may still inject keystrokes into your terminal or make new btrfs or ''
     @ ''bcachefs subvolumes or snapshots (a snapshot shows the files the jail hides).''"

fun filter_why_sentence :: "filter_why \<Rightarrow> string" where
  "filter_why_sentence FProbeFailed =
     ''Bubblewrap here could not start a jail with the sandbox filter, so programs in the jail can '' @ STILL_OPEN"
| "filter_why_sentence FNotBuilt =
     ''This build has no sandbox filter for this architecture, so programs in the jail can '' @ STILL_OPEN"
| "filter_why_sentence FKernelTooOld =
     ''This kernel is older than 4.8, where a program that traces another can get a call past the filter, so ''
     @ STILL_OPEN_PAST"
| "filter_why_sentence FKernelUnknown =
     ''This kernel's release could not be read as a version (it is not one, or there is no /proc and a ''
     @ ''personality such as setarch --uname-2.6 hides it from uname), so it is taken as older than 4.8, ''
     @ ''where a program that traces another can get a call past the filter: '' @ STILL_OPEN_PAST"
| "filter_why_sentence FNotHanded =
     ''The launcher could not hand the sandbox filter to bubblewrap, so programs in the jail can '' @ STILL_OPEN"

definition weaker_only :: "filter_why \<Rightarrow> bool" where
  "weaker_only why \<longleftrightarrow> why = FKernelTooOld \<or> why = FKernelUnknown"

definition filter_sentence :: "filter_why \<Rightarrow> string" where
  "filter_sentence why = ''innerwarden contain: ''
     @ (if weaker_only why then ''a weaker sandbox filter'' else ''no sandbox filter'')
     @ '' ('' @ filter_word why @ ''): '' @ filter_why_sentence why"

datatype probe_answer = ProbeRan | ProbeFailed | ProbeNotHanded

text \<open>The error numbers of \<^verbatim>\<open>libc\<close> on Linux.\<close>

definition EMFILE :: int where "EMFILE = 24"
definition ENFILE :: int where "ENFILE = 23"
definition EAGAIN :: int where "EAGAIN = 11"
definition ENOMEM :: int where "ENOMEM = 12"

definition spawn_failed_answer :: "int option \<Rightarrow> probe_answer" where
  "spawn_failed_answer code =
     (if is_some_and code (\<lambda>e. e \<in> {EMFILE, ENFILE, EAGAIN, ENOMEM}) then ProbeNotHanded else ProbeFailed)"

record filter_host =
  fh_built :: bool
  fh_tracer :: tracer_order

record filter_plan =
  fp_filter :: "rules option"
  fp_said :: "string list"

definition plan_close_userns :: "filter_plan \<Rightarrow> bool" where
  "plan_close_userns p \<longleftrightarrow> fp_filter p = Some Identified"

text \<open>Why an identified launch does not get the identified filter, if it does not.\<close>

definition identified_refused :: "filter_host \<Rightarrow> (rules \<Rightarrow> probe_answer) \<Rightarrow> userns_why option" where
  "identified_refused host probe =
     (if \<not> fh_built host then Some UNotBuilt
      else if fh_tracer host = TracerBefore then Some UKernelTooOld
      else if fh_tracer host = TracerUnknown then Some UKernelUnknown
      else case probe Identified of
        ProbeRan \<Rightarrow> None | ProbeFailed \<Rightarrow> Some UProbeFailed | ProbeNotHanded \<Rightarrow> Some UNotHanded)"

definition terminal_plan :: "filter_host \<Rightarrow> (rules \<Rightarrow> probe_answer) \<Rightarrow> rules option \<times> string list" where
  "terminal_plan host probe =
     (if \<not> fh_built host then (None, [filter_sentence FNotBuilt])
      else case probe Terminal of
        ProbeRan \<Rightarrow> (Some Terminal,
          (case fh_tracer host of TracerAfter \<Rightarrow> [] | TracerBefore \<Rightarrow> [filter_sentence FKernelTooOld]
           | TracerUnknown \<Rightarrow> [filter_sentence FKernelUnknown]))
      | ProbeFailed \<Rightarrow> (None, [filter_sentence FProbeFailed])
      | ProbeNotHanded \<Rightarrow> (None, [filter_sentence FNotHanded]))"

definition filter_plan_of :: "bool \<Rightarrow> filter_host \<Rightarrow> (rules \<Rightarrow> probe_answer) \<Rightarrow> filter_plan" where
  "filter_plan_of identity host probe =
     (case (if identity then Some (identified_refused host probe) else None) of
        Some None \<Rightarrow> \<lparr>fp_filter = Some Identified, fp_said = []\<rparr>
      | Some (Some why) \<Rightarrow> (case terminal_plan host probe of
            (f, said) \<Rightarrow> \<lparr>fp_filter = f, fp_said = userns_open_sentence why # said\<rparr>)
      | None \<Rightarrow> (case terminal_plan host probe of (f, said) \<Rightarrow> \<lparr>fp_filter = f, fp_said = said\<rparr>))"

definition filter_lost_sentences :: "rules \<Rightarrow> string list" where
  "filter_lost_sentences planned =
     (if planned = Identified then [userns_open_sentence UNotHanded] else []) @ [filter_sentence FNotHanded]"

datatype dry_run_filter = DryRestricted "string list" | DryPlan filter_plan

fun dry_filter :: "dry_run_filter \<Rightarrow> rules option" where
  "dry_filter (DryRestricted lines) = None"
| "dry_filter (DryPlan plan) = fp_filter plan"

fun dry_lines :: "bool \<Rightarrow> dry_run_filter \<Rightarrow> string list" where
  "dry_lines identity (DryRestricted lines) = (if identity then map (\<lambda>l. trim_end (''# '' @ l)) lines else [])"
| "dry_lines identity (DryPlan plan) = map (\<lambda>l. ''# '' @ l) (fp_said plan)"

definition dry_run_filter_of :: "string list option \<Rightarrow> filter_plan \<Rightarrow> dry_run_filter" where
  "dry_run_filter_of advice plan = (case advice of Some lines \<Rightarrow> DryRestricted lines | None \<Rightarrow> DryPlan plan)"

definition filter_probe_argv :: "nat \<Rightarrow> bool \<Rightarrow> string list" where
  "filter_probe_argv fd identity =
     [SECCOMP_OPTION, show_nat fd] @ JAIL_NAMESPACES @ (if identity then CAP_DROP_ALL else [])
     @ [''--ro-bind'', ''/'', ''/'', ''true'']"

subsection \<open>The way to the system profiles file\<close>

datatype host_entry =
    EntryAbsent
  | EntryUnreadable
  | EntryFound (he_symlink: bool) (he_dir: bool) (he_file: bool) (he_uid: u32) (he_mode: u32)

definition system_profiles_chain :: "path list" where
  "system_profiles_chain = List.rev (ancestors SYSTEM_PROFILES_PATH)"

datatype profiles_chain = ChainNotAsked | ChainProven bool | ChainRefused string

definition chain_marks :: "profiles_chain \<Rightarrow> bool" where
  "chain_marks c \<longleftrightarrow> c = ChainProven True"

definition owned_by :: "u32 \<Rightarrow> string" where
  "owned_by uid = ''owned by uid '' @ show_nat (unat uid)"

text \<open>What is wrong with an entry, if anything is; \<open>leaf\<close>: it is the last. The bits \<^verbatim>\<open>0o022\<close> are 18.\<close>

definition entry_fault :: "bool \<Rightarrow> string \<Rightarrow> host_entry \<Rightarrow> string option" where
  "entry_fault leaf path e =
     (case e of
        EntryAbsent \<Rightarrow> None
      | EntryUnreadable \<Rightarrow> Some (path @ '' could not be inspected'')
      | EntryFound symlink dir file uid mode \<Rightarrow>
          if symlink then Some (path @ '' is a symbolic link ('' @ owned_by uid @ '')'')
          else if uid \<noteq> 0 then Some (path @ '' is '' @ owned_by uid @ '', not root'')
          else if mode AND 0x12 \<noteq> 0 then
            Some (path @ '' ('' @ owned_by uid @ '') can be written by its group or by others'')
          else if leaf \<and> \<not> file then Some (path @ '' ('' @ owned_by uid @ '') is not a regular file'')
          else if \<not> leaf \<and> \<not> dir then Some (path @ '' ('' @ owned_by uid @ '') is not a folder'')
          else None)"

fun system_profiles_refusal :: "(path \<times> host_entry) list \<Rightarrow> string option" where
  "system_profiles_refusal [] = None"
| "system_profiles_refusal ((path, e) # rest) =
     (if e = EntryAbsent then None
      else case entry_fault (rest = []) (to_string_lossy path) e of
        Some what \<Rightarrow> Some (''innerwarden contain: '' @ what @ '', and a jail reads this host's agent profiles ''
                           @ ''through it, so nothing was started.'')
      | None \<Rightarrow> system_profiles_refusal rest)"

definition profiles_chain_of :: "bool \<Rightarrow> (path \<times> host_entry) list \<Rightarrow> profiles_chain" where
  "profiles_chain_of identity chain =
     (let file = (chain \<noteq> [] \<and> snd (last chain) \<noteq> EntryAbsent) in
      if \<not> identity \<and> \<not> file then ChainNotAsked
      else case system_profiles_refusal chain of Some why \<Rightarrow> ChainRefused why | None \<Rightarrow> ChainProven file)"

subsection \<open>The program that starts the jail\<close>

definition launch_argv :: "path \<Rightarrow> string list \<Rightarrow> scope_plan \<Rightarrow> path \<times> string list" where
  "launch_argv bwrap args plan =
     (case plan of
        ScopeNone why \<Rightarrow> (bwrap, args)
      | ScopeUser srun unit no_expand \<Rightarrow>
          (srun, [''--user'', ''--scope'', ''--quiet'', ''--unit'', unit]
            @ (if no_expand then [''--expand-environment=no''] else [])
            @ [''--'', to_string_lossy bwrap] @ args))"

subsection \<open>What the kernel and bubblewrap report\<close>

definition parse_u32_word :: "string \<Rightarrow> u32 option" where
  "parse_u32_word s = map_option of_nat (parse_u32 s)"

definition parse_u64_word :: "string \<Rightarrow> u64 option" where
  "parse_u64_word s = map_option of_nat (parse_u64 s)"

definition close_paren :: char where "close_paren = CHR 0x29"

definition parse_parent_pid :: "string \<Rightarrow> u32 option" where
  "parse_parent_pid stat =
     Option.bind (rsplit_once close_paren stat) (\<lambda>(name, rest).
       (case split_whitespace rest of state # pid # others \<Rightarrow> parse_u32_word pid | _ \<Rightarrow> None))"

text \<open>\<^verbatim>\<open>splitn(3, ':')\<close> with three pieces: the hierarchy, its controllers and the path.\<close>

definition cgroup_fields :: "string \<Rightarrow> (string \<times> string) option" where
  "cgroup_fields l =
     Option.bind (split_once colon l) (\<lambda>(hierarchy, r). split_once colon r)"

definition find_some :: "('a \<Rightarrow> 'b option) \<Rightarrow> 'a list \<Rightarrow> 'b option" where
  "find_some f xs = (case List.map_filter f xs of [] \<Rightarrow> None | y # ys \<Rightarrow> Some y)"

definition parse_proc_cgroup :: "string \<Rightarrow> string option" where
  "parse_proc_cgroup text =
     (let unified = find_some (strip_prefix ''0::'') (str_lines text);
          named = find_some (\<lambda>l. Option.bind (cgroup_fields l)
            (\<lambda>(controllers, p). if controllers = ''name=systemd'' then Some p else None)) (str_lines text)
      in case (if unified \<noteq> None then unified else named) of
           None \<Rightarrow> None
         | Some p \<Rightarrow> if starts_with (trim_end p) ''/'' \<and> \<not> list_ex is_control (chars (trim_end p))
                     then Some (trim_end p) else None)"

definition user_scope_seen :: "string \<Rightarrow> string \<Rightarrow> u32 \<Rightarrow> scope option" where
  "user_scope_seen cgroup unit uid =
     (if is_user_scope_cgroup cgroup unit uid then Some \<lparr>sc_unit = unit, sc_cgroup_path = cgroup\<rparr> else None)"

definition system_scope_seen :: "string \<Rightarrow> string \<Rightarrow> scope option" where
  "system_scope_seen cgroup unit =
     (if cgroup = system_scope_cgroup unit then Some \<lparr>sc_unit = unit, sc_cgroup_path = cgroup\<rparr> else None)"

record info_fd =
  if_child_pid :: u32
  if_pid_namespace :: "u64 option"
  if_mnt_namespace :: "u64 option"

datatype info_error = InfoEmpty | InfoTooLarge | InfoMalformed string | NoChildPid

fun info_error_text :: "info_error \<Rightarrow> string" where
  "info_error_text InfoEmpty = ''bwrap reported nothing on the info descriptor''"
| "info_error_text InfoTooLarge = ''bwrap's info is larger than '' @ show_nat MAX_INFO_BYTES @ '' bytes''"
| "info_error_text (InfoMalformed why) = ''bwrap's info is not JSON: '' @ why"
| "info_error_text NoChildPid = ''bwrap's info has no usable child-pid''"

record info_wire =
  iw_child_pid :: "u64 option"
  iw_pid_namespace :: "u64 option"
  iw_mnt_namespace :: "u64 option"

text \<open>\<^verbatim>\<open>u8::is_ascii_whitespace\<close>.\<close>

definition is_ascii_ws :: "char \<Rightarrow> bool" where
  "is_ascii_ws c \<longleftrightarrow> byte c \<in> {9, 10, 12, 13, 32}"

definition parse_info_fd :: "(bytes \<Rightarrow> string + info_wire) \<Rightarrow> bytes \<Rightarrow> info_error + info_fd" where
  "parse_info_fd from_slice bs =
     (if list_all is_ascii_ws bs then Inl InfoEmpty
      else if MAX_INFO_BYTES < length bs then Inl InfoTooLarge
      else case from_slice bs of
        Inl why \<Rightarrow> Inl (InfoMalformed why)
      | Inr w \<Rightarrow>
         (case opt_filter (\<lambda>p. unat p < 2 ^ 32 \<and> p \<noteq> 0) (iw_child_pid w) of
            None \<Rightarrow> Inl NoChildPid
          | Some p \<Rightarrow> Inr \<lparr>if_child_pid = ucast p, if_pid_namespace = iw_pid_namespace w,
                           if_mnt_namespace = iw_mnt_namespace w\<rparr>))"

text \<open>\<^verbatim>\<open>split_ascii_whitespace\<close>.\<close>

definition ascii_words :: "string \<Rightarrow> string list" where
  "ascii_words s = filter (\<lambda>w. w \<noteq> []) (split_on CHR '' '' (map (\<lambda>c. if is_ascii_ws c then CHR '' '' else c) s))"

definition parse_start_ticks :: "string \<Rightarrow> u64 option" where
  "parse_start_ticks stat =
     Option.bind (rsplit_once close_paren stat) (\<lambda>(name, rest).
       (case drop 19 (ascii_words rest) of w # ws \<Rightarrow> parse_u64_word w | [] \<Rightarrow> None))"

definition parse_ns_link_of :: "string \<Rightarrow> string \<Rightarrow> u64 option" where
  "parse_ns_link_of kind link =
     Option.bind (strip_prefix kind (trim link)) (\<lambda>a. Option.bind (strip_prefix '':['' a) (\<lambda>b.
       Option.bind (strip_suffix '']'' b) (\<lambda>rest.
         if rest = [] \<or> \<not> list_all is_ascii_digit rest then None else parse_u64_word rest)))"

definition parse_ns_link :: "string \<Rightarrow> u64 option" where
  "parse_ns_link = parse_ns_link_of ''pid''"

definition parse_mnt_ns_link :: "string \<Rightarrow> u64 option" where
  "parse_mnt_ns_link = parse_ns_link_of ''mnt''"

definition instance_id_from :: "u8 list \<Rightarrow> string" where
  "instance_id_from bs = concat (map hex_byte bs)"

subsection \<open>Where the host admitted the jail\<close>

definition NOT_ADMITTED :: string where
  "NOT_ADMITTED = ''InnerWarden Pro on this host did not admit this jail, and its profile starts it only ''
     @ ''when admitted.''"

definition admitted_here :: "system_scope_admission \<Rightarrow> scope option \<Rightarrow> bool" where
  "admitted_here answer system_scope \<longleftrightarrow> ssa_admitted answer \<and> system_scope \<noteq> None"

fun jail_starts :: "jail_start \<Rightarrow> bool \<Rightarrow> bool" where
  "jail_starts Always admitted = True"
| "jail_starts OnlyWhenAdmitted admitted = admitted"

definition launch_starts :: "jail_start \<Rightarrow> (system_scope_admission \<times> scope option) option \<Rightarrow> bool" where
  "launch_starts js made =
     jail_starts js (is_some_and made (\<lambda>(answer, system_scope). admitted_here answer system_scope))"

datatype no_answer = NotLoopback | AnswerRefused | Unreachable | WrongKey | AnswerFailed | TimedOut | Broken

fun no_answer_text :: "no_answer \<Rightarrow> string" where
  "no_answer_text NotLoopback = ''the agent's address is not this host's loopback''"
| "no_answer_text AnswerRefused = ''nothing listens at the agent's address: InnerWarden Pro is not running''"
| "no_answer_text Unreachable = ''the agent's address cannot be reached''"
| "no_answer_text WrongKey = ''the server at the agent's address does not hold the host's key''"
| "no_answer_text AnswerFailed = ''the connection to the agent failed''"
| "no_answer_text TimedOut = ''the agent did not answer in time''"
| "no_answer_text Broken = ''the agent's answer could not be read''"

definition SYSTEM_SCOPE_TAKEN :: u16 where "SYSTEM_SCOPE_TAKEN = 202"

definition scope_answer ::
  "(bytes \<Rightarrow> json option) \<Rightarrow> no_answer + (u16 \<times> bytes) \<Rightarrow> (string + unit) \<times> system_scope_admission" where
  "scope_answer from_slice result =
     (case result of
        Inr (status, answer) \<Rightarrow>
          if status = SYSTEM_SCOPE_TAKEN then (Inr (), admission_read from_slice answer)
          else if 200 \<le> status \<and> status < 300 then (Inr (), admission_NONE)
          else (Inl (''HTTP '' @ show_nat (unat status)), admission_NONE)
      | Inl why \<Rightarrow> (Inl (no_answer_text why), admission_NONE))"

datatype unbelieved = UnbelievedNoKey | UnbelievedAddress string

text \<open>The address a connection is held to the host's key over: its port and path.\<close>

definition loopback_target :: "string \<Rightarrow> (nat \<times> string) option" where
  "loopback_target url =
     Option.bind (strip_prefix ''https://127.0.0.1:'' url) (\<lambda>rest.
       if slash \<in> set rest then
         (let path = dropWhile (\<lambda>c. c \<noteq> slash) rest in
          Option.bind (parse_unsigned (2 ^ 16) (takeWhile (\<lambda>c. c \<noteq> slash) rest)) (\<lambda>port.
            if list_ex (\<lambda>c. is_whitespace c \<or> is_control c) (chars path) then None else Some (port, path)))
       else None)"

definition pinnable :: "string \<Rightarrow> bool" where
  "pinnable url \<longleftrightarrow> loopback_target url \<noteq> None"

definition answer_unbelieved :: "bool \<Rightarrow> string option \<Rightarrow> unbelieved option" where
  "answer_unbelieved key_held url =
     (case url of
        None \<Rightarrow> None
      | Some u \<Rightarrow> if \<not> key_held then Some UnbelievedNoKey
                  else if pinnable u then None else Some (UnbelievedAddress u))"

definition unbelieved_sentence :: "unbelieved \<Rightarrow> string" where
  "unbelieved_sentence why =
     (case why of
        UnbelievedNoKey \<Rightarrow>
          ''the host's answer about this jail cannot be believed without its key, and this launcher holds none (''
          @ AGENT_TLS_SPKI_PATH @ '' is not there, or not root's in folders only root can write)''
      | UnbelievedAddress url \<Rightarrow>
          ''the host's answer about this jail cannot be believed: it is held to the host's key only at ''
          @ ''https://127.0.0.1, and the local agent's address is '' @ url)"

definition USER_PROFILES_PATH :: string where
  "USER_PROFILES_PATH = ''.config/innerwarden/agent-profiles.toml''"
definition AGENT_URL_VAR :: string where "AGENT_URL_VAR = ''INNERWARDEN_AGENT_URL''"

definition not_admitted_remedy :: "string list \<Rightarrow> unbelieved option \<Rightarrow> string" where
  "not_admitted_remedy files why =
     (let place = (if files = [] then SYSTEM_PROFILES_PATH @ '' or ~/'' @ USER_PROFILES_PATH else join '' and '' files);
          check = (case why of
              None \<Rightarrow> ''Check that InnerWarden Pro is running (systemctl status innerwarden-agent)''
            | Some UnbelievedNoKey \<Rightarrow>
                ''Check that InnerWarden Pro on this host publishes its key at '' @ AGENT_TLS_SPKI_PATH
                @ '', root's, in folders only root can write (an older InnerWarden Pro does not)''
            | Some (UnbelievedAddress u) \<Rightarrow> ''Unset '' @ AGENT_URL_VAR @ '', or point it at https://127.0.0.1'')
      in check @ '', then try again. The jail waits for it because of start = '' @ [CHR 0x22]
         @ ''only_when_admitted'' @ [CHR 0x22] @ '' in '' @ place @ ''.'')"

subsection \<open>The gate\<close>

definition GATE_REFUSED :: string where
  "GATE_REFUSED = ''this jail holds no record that the host admitted it, so its command does not start.''"

definition gate_for :: "jail_start \<Rightarrow> string \<Rightarrow> string option" where
  "gate_for js instance_id = (if js = OnlyWhenAdmitted then Some instance_id else None)"

definition parse_gate_args :: "string list \<Rightarrow> (string \<times> string list) option" where
  "parse_gate_args args =
     (case args of
        flag # inst # end # command \<Rightarrow>
          if flag = ''--instance'' \<and> end = ''--'' \<and> inst \<noteq> [] \<and> command \<noteq> [] then Some (inst, command) else None
      | _ \<Rightarrow> None)"

definition gate_opens ::
  "(bytes \<Rightarrow> string + u64 option) \<Rightarrow> (bytes \<Rightarrow> string + launch_record) \<Rightarrow> bytes \<Rightarrow> string \<Rightarrow> bool" where
  "gate_opens probe decode record instance_id =
     (case parse_launch_record probe decode record of Inr r \<Rightarrow> lr_instance_id r = instance_id | Inl e \<Rightarrow> False)"

text \<open>The processes to end with a jail, each once, while their parent is still bubblewrap.\<close>

definition jail_processes_to_end :: "u32 \<Rightarrow> u32 option \<Rightarrow> u32 list \<Rightarrow> (u32 \<Rightarrow> u32 option) \<Rightarrow> u32 list" where
  "jail_processes_to_end bwrap reported listed parent_of =
     fold (\<lambda>pid out. if pid \<notin> set out \<and> parent_of pid = Some bwrap then out @ [pid] else out)
       (case_option [] (\<lambda>p. [p]) reported @ listed) []"

subsection \<open>The resolver file\<close>

fun resolve_steps :: "comp list \<Rightarrow> path \<Rightarrow> path" where
  "resolve_steps [] out = out"
| "resolve_steps (RootDir # cs) out = resolve_steps cs out"
| "resolve_steps (CurDir # cs) out = resolve_steps cs out"
| "resolve_steps (ParentDir # cs) out =
     resolve_steps cs (case parent out of Some p \<Rightarrow> p | None \<Rightarrow> out)"
| "resolve_steps (Normal name # cs) out = resolve_steps cs (pjoin out name)"

definition resolv_conf_target :: "path \<Rightarrow> path option" where
  "resolv_conf_target link =
     (let out = resolve_steps (components (pjoin ''/etc'' link)) ''/'' in
      if under out ''/run'' \<and> \<not> path_eq out ''/run'' then Some out else None)"

definition RESOLVER_ONLY_FOLDERS :: "path list" where "RESOLVER_ONLY_FOLDERS = [''/run/resolvconf'']"

definition resolv_conf_bind :: "path \<Rightarrow> (path \<Rightarrow> bool) \<Rightarrow> path" where
  "resolv_conf_bind target holds_sockets =
     (case parent target of
        Some folder \<Rightarrow> if path_in RESOLVER_ONLY_FOLDERS folder \<and> \<not> holds_sockets folder then folder else target
      | None \<Rightarrow> target)"

subsection \<open>Where the records are\<close>

definition LAUNCHER_RECORD_DIR :: string where "LAUNCHER_RECORD_DIR = ''innerwarden/instances''"

fun plain_step :: "comp \<Rightarrow> bool" where
  "plain_step RootDir = True"
| "plain_step (Normal n) = True"
| "plain_step CurDir = False"
| "plain_step ParentDir = False"

text \<open>\<^verbatim>\<open>components().collect()\<close>: the path pushed together from its steps.\<close>

definition collect_path :: "comp list \<Rightarrow> path" where
  "collect_path cs = fold (\<lambda>c p. pjoin p (comp_name c)) cs []"

definition records_dir :: "string option \<Rightarrow> path \<Rightarrow> path" where
  "records_dir xdg home =
     (let fallback = pjoin (pjoin home ''.local/state'') LAUNCHER_RECORD_DIR in
      case xdg of
        None \<Rightarrow> fallback
      | Some dir \<Rightarrow> if has_root dir \<and> list_all plain_step (components dir)
                    then pjoin (collect_path (components dir)) LAUNCHER_RECORD_DIR else fallback)"

definition record_path :: "path \<Rightarrow> string \<Rightarrow> path option" where
  "record_path dir instance_id = map_option (pjoin dir) (instance_record_file instance_id)"

definition project_path_file :: "string \<Rightarrow> string option" where
  "project_path_file instance_id = (if is_instance_id instance_id then Some (instance_id @ ''.project'') else None)"

definition MAX_PROJECT_PATH_BYTES :: nat where "MAX_PROJECT_PATH_BYTES = 4096"

text \<open>\<^verbatim>\<open>Path::file_name\<close>: the last step, if it is a name.\<close>

definition file_name :: "path \<Rightarrow> string option" where
  "file_name p = (if components p = [] then None
     else case last (components p) of Normal n \<Rightarrow> Some n | _ \<Rightarrow> None)"

definition parse_project_path :: "bytes \<Rightarrow> string \<Rightarrow> path option" where
  "parse_project_path bs project =
     (case from_utf8 bs of
        None \<Rightarrow> None
      | Some raw \<Rightarrow>
         (let text = (case strip_suffix [CHR 0x0A] raw of Some t \<Rightarrow> t | None \<Rightarrow> raw) in
          if text = [] \<or> MAX_PROJECT_PATH_BYTES < length text \<or> \<not> starts_with text ''/''
             \<or> list_ex is_control (chars text) then None
          else if list_all (\<lambda>step. step \<noteq> [] \<and> step \<noteq> ''.'' \<and> step \<noteq> ''..'') (split_on slash (tl text))
             \<and> Option.bind (file_name text) from_utf8 = Some project
          then Some text else None))"

subsection \<open>The record\<close>

fun launch_mode_of :: "jail_mode \<Rightarrow> launch_mode" where
  "launch_mode_of JmMonitor = LmMonitor"
| "launch_mode_of JmEnforce = LmEnforce"
| "launch_mode_of JmBlockReview = LmBlockReview"

record launch_facts =
  lf_instance_id :: string
  lf_agent_type :: string
  lf_launcher_path :: path
  lf_launcher_version :: string
  lf_launcher_root_owned :: bool
  lf_uid :: u32
  lf_project :: path
  lf_mode :: jail_mode
  lf_started_at :: string
  lf_info :: info_fd
  lf_start_ticks :: u64
  lf_pid_ns :: u64
  lf_mnt_ns :: u64
  lf_launcher_mnt_ns :: "u64 option"
  lf_scope :: scopes
  lf_userns_closed :: bool

datatype assemble_error =
    NoPidNamespace | NamespaceDisagrees | NoMountNamespace | MountNamespaceDisagrees
  | LauncherPathNotUtf8 | NoProjectName | RecordFault record_error

definition record_of_facts :: "launch_facts \<Rightarrow> string \<Rightarrow> string \<Rightarrow> launch_record" where
  "record_of_facts f launcher project =
     \<lparr>lr_schema = (if lf_userns_closed f then LAUNCH_SCHEMA else LAUNCH_SCHEMA_V1),
      lr_instance_id = lf_instance_id f, lr_agent_type = lf_agent_type f,
      lr_launcher = \<lparr>la_path = launcher, la_version = lf_launcher_version f, la_root_owned = lf_launcher_root_owned f\<rparr>,
      lr_uid = lf_uid f, lr_project = project, lr_mode = launch_mode_of (lf_mode f),
      lr_started_at = lf_started_at f,
      lr_jail = \<lparr>jl_backend = Bwrap, jl_pid = if_child_pid (lf_info f), jl_start_ticks = lf_start_ticks f,
        jl_pid_ns = lf_pid_ns f, jl_mnt_ns = lf_mnt_ns f,
        jl_userns_closed = (if lf_userns_closed f then Some True else None)\<rparr>,
      lr_scope = (if scopes_is_empty (lf_scope f) then None else Some (lf_scope f))\<rparr>"

definition assemble_record :: "launch_facts \<Rightarrow> assemble_error + launch_record" where
  "assemble_record f =
     (if lf_pid_ns f = 0 \<or> lf_pid_ns f = INITIAL_PID_NS_INODE then Inl NoPidNamespace
      else if is_some_and (if_pid_namespace (lf_info f)) (\<lambda>ns. ns \<noteq> lf_pid_ns f) then Inl NamespaceDisagrees
      else if lf_mnt_ns f = 0 \<or> is_none_or (lf_launcher_mnt_ns f) (\<lambda>own. own = lf_mnt_ns f) then Inl NoMountNamespace
      else if is_some_and (if_mnt_namespace (lf_info f)) (\<lambda>ns. ns \<noteq> lf_mnt_ns f) then Inl MountNamespaceDisagrees
      else case from_utf8 (lf_launcher_path f) of
        None \<Rightarrow> Inl LauncherPathNotUtf8
      | Some launcher \<Rightarrow>
         (case Option.bind (file_name (lf_project f)) from_utf8 of
            None \<Rightarrow> Inl NoProjectName
          | Some project \<Rightarrow>
             (let r = record_of_facts f launcher project in
              case validate_launch_record r of Some e \<Rightarrow> Inl (RecordFault e) | None \<Rightarrow> Inr r)))"

subsection \<open>What the jail's hook screened\<close>

definition MAX_JAIL_GRAPH_BYTES :: nat where "MAX_JAIL_GRAPH_BYTES = MAX_BYTES"

record graph_entry =
  ge_symlink :: bool
  ge_dir :: bool
  ge_regular :: bool
  ge_uid :: u32
  ge_len :: u64

datatype jail_graph = JgAbsent | JgUnreadable string | JgRead graph

definition vet_jail_graph_dir :: "graph_entry \<Rightarrow> u32 \<Rightarrow> string + unit" where
  "vet_jail_graph_dir e uid =
     (if ge_symlink e then Inl ''graph_dir_is_a_symlink''
      else if \<not> ge_dir e then Inl ''graph_dir_not_a_directory''
      else if ge_uid e \<noteq> uid then Inl ''graph_dir_not_owned'' else Inr ())"

definition vet_jail_graph_file :: "graph_entry \<Rightarrow> u32 \<Rightarrow> string + unit" where
  "vet_jail_graph_file e uid =
     (if ge_symlink e \<or> \<not> ge_regular e then Inl ''graph_not_a_regular_file''
      else if ge_uid e \<noteq> uid then Inl ''graph_not_owned''
      else if MAX_JAIL_GRAPH_BYTES < unat (ge_len e) then Inl ''graph_too_large'' else Inr ())"

definition parse_jail_graph :: "(string \<Rightarrow> string + graph) \<Rightarrow> bytes \<Rightarrow> jail_graph" where
  "parse_jail_graph from_str bs =
     (if MAX_JAIL_GRAPH_BYTES < length bs then JgUnreadable ''graph_too_large''
      else if list_all is_ascii_ws bs then JgRead graph_default
      else case from_utf8 bs of
        None \<Rightarrow> JgUnreadable ''graph_malformed''
      | Some text \<Rightarrow> (case graph_from_json from_str text of
            Inr g \<Rightarrow> JgRead g | Inl e \<Rightarrow> JgUnreadable ''graph_malformed''))"

text \<open>The commands the jail's session ran, and whether a command is this instance's.\<close>

definition ran_in_jail :: "graph \<Rightarrow> string list" where
  "ran_in_jail g = map ed_to (filter (\<lambda>e. ed_kind e = ''ran'' \<and> ed_from e = ''session:'' @ JAIL_SESSION) (gr_edges g))"

definition ours_in :: "graph \<Rightarrow> string \<Rightarrow> node \<Rightarrow> bool" where
  "ours_in g instance_id n \<longleftrightarrow> (case attr n ''instance_id'' of
     Some labelled \<Rightarrow> labelled = instance_id | None \<Rightarrow> nd_id n \<in> set (ran_in_jail g))"

definition in_launch :: "nat \<Rightarrow> nat \<Rightarrow> node \<Rightarrow> bool" where
  "in_launch started ended n \<longleftrightarrow> is_some_and (recorded_at_ms n) (\<lambda>at. started \<le> at \<and> at \<le> ended)"

definition counted_nodes :: "graph \<Rightarrow> string \<Rightarrow> nat \<Rightarrow> nat \<Rightarrow> node list" where
  "counted_nodes g instance_id started ended =
     filter (\<lambda>n. ours_in g instance_id n \<and> in_launch started ended n) (commands_of g)"

definition count_contained_run :: "graph \<Rightarrow> string \<Rightarrow> nat \<Rightarrow> nat \<Rightarrow> u32 \<times> nat option" where
  "count_contained_run g instance_id started ended =
     fold (\<lambda>n (commands, latest). (saturating_add commands 1, opt_max latest (recorded_at_ms n)))
       (counted_nodes g instance_id started ended) (0, None)"

definition host_allowed :: "node \<Rightarrow> bool" where
  "host_allowed n \<longleftrightarrow> is_some_and (attr n ''host_decision'') is_decision_id
     \<and> attr n ''trust_source'' = Some HOST_TRUST_SOURCE
     \<and> attr n ''recommendation'' = Some ''allow''
     \<and> is_some_and (attr n ''deciding_layer'') (\<lambda>l. l = ''agent_type'' \<or> l = ''instance'')"

definition claim_of :: "(bytes \<Rightarrow> u8 list) \<Rightarrow> node \<Rightarrow> string \<times> string" where
  "claim_of sha256 n = (str_or (attr n ''host_decision''), concat (map hex_byte (sha256 (nd_label n))))"

definition host_allowances_in ::
  "(bytes \<Rightarrow> u8 list) \<Rightarrow> graph \<Rightarrow> string \<Rightarrow> nat \<Rightarrow> nat \<Rightarrow> u32 \<times> host_decision_claim list" where
  "host_allowances_in sha256 g instance_id started ended =
     (let allowed = filter host_allowed (counted_nodes g instance_id started ended) in
      (fold (\<lambda>n k. saturating_add k 1) allowed 0,
       take MAX_HOST_DECISIONS (map (\<lambda>(d, h). \<lparr>hdc_decision_id = d, hdc_command_sha256 = h\<rparr>)
         (sort_dedup (map (claim_of sha256) allowed)))))"

definition contained_run_report_for ::
  "(bytes \<Rightarrow> u8 list) \<Rightarrow> contain_args \<Rightarrow> string \<Rightarrow> u64 \<Rightarrow> u64 \<Rightarrow> jail_graph \<Rightarrow> json option" where
  "contained_run_report_for sha256 args instance_id started ended read_graph =
     (if \<not> ca_identity args then None
      else
       (let s = unat started; e = unat ended;
            mk = (\<lambda>graph (commands, latest) (allowances, decisions).
              \<lparr>cr_instance_id = instance_id, cr_started_ms = started, cr_ended_ms = ended, cr_graph = graph,
               cr_commands = commands, cr_last_ms = map_option of_nat latest, cr_host_allowances = allowances,
               cr_host_decisions = decisions\<rparr>)
        in contained_run_report (case read_graph of
             JgAbsent \<Rightarrow> mk GraphAbsent (0, None) (0, [])
           | JgUnreadable why \<Rightarrow> mk GraphUnreadable (0, None) (0, [])
           | JgRead g \<Rightarrow> mk GraphRead (count_contained_run g instance_id s e)
                           (host_allowances_in sha256 g instance_id s e))))"
end
