(* ===== verification/Spec2Isabelle.thy ===== *)
theory Spec2Isabelle
  imports Prelude Profiles Seccomp Breaker Suppress HostDecide Taint PrivTarget Rules Deobf Inspect ProxySafe JailPlan GraphLaws DecisionLaws Launch
begin

text \<open>
  A model of the decision core of Inner Warden, the guard that stands between an AI coding agent
  and the machine it runs on, and what is proved of it. The crates modelled are
  \<^verbatim>\<open>src/crates/agent-guard\<close> (the rules, the MCP proxy, identities and profiles) and
  \<^verbatim>\<open>src/crates/cli\<close> (the hook, the host's second opinion, the user's suppressions).

  \<^bold>\<open>How the program is put together.\<close> An agent acts through two doors. A shell command passes the
  pre-tool hook: the screening engine charges it with signals and gives a verdict, the user's
  suppressions are applied to it, the instance the hook runs in is identified and the profile of
  its type may tighten or, for a confined instance only, relax it, and on a host with Active
  Defence the host is asked about what is left open. An MCP server's tools are reached through
  the proxy: each line of JSON-RPC is read as the server will read it, inspected (tool
  declarations, tool calls, results, with the rule engine behind), compared with the tokens that
  earlier results left in the taint tracker, counted by the loop breaker, judged under the agent's
  profile, and forwarded, answered or dropped under the mode of the session. A contained agent is
  started by a launcher in a jail whose system calls a BPF program filters.

  \<^bold>\<open>Theories, in the order they build on each other.\<close>

  \<^item> \<open>Prelude\<close>, \<open>Json\<close>, \<open>Text\<close>: what the components share. Strings are lists of bytes, characters
    are code points read by a UTF-8 decoder; \<^verbatim>\<open>BTreeSet\<close> and \<^verbatim>\<open>BTreeMap\<close> are sorted lists with the
    lemmas of a store (\<open>sorted_store\<close>); \<^verbatim>\<open>serde_json::Value\<close> is \<open>json\<close>. The locales for a keyed store
    and for a fold that keeps an invariant are stated here and interpreted where the
    components provide them.
  \<^item> \<open>Engine\<close> (\<^verbatim>\<open>mcp.rs\<close>): signals, their vocabulary, the scores and thresholds.
  \<^item> \<open>Suppress\<close> (\<^verbatim>\<open>suppress.rs\<close>): the user's allow patterns and mutes.
  \<^item> \<open>Identity\<close> (\<^verbatim>\<open>identity.rs\<close>): instances, launch records and their validation, how far an in-jail
    reading can be trusted, the layered decision, the requests to the host.
  \<^item> \<open>Profiles\<close> (\<^verbatim>\<open>profiles.rs\<close>): the two profile files, validation, merge, the decision of a command
    and of a tool call, what a change widens.
  \<^item> \<open>Hook\<close> (\<^verbatim>\<open>hook_identity.rs\<close>, \<^verbatim>\<open>agent_profiles.rs\<close>, \<^verbatim>\<open>agent_decisions.rs\<close>): what the hook makes of them.
  \<^item> \<open>HostDecide\<close> (\<^verbatim>\<open>host_decide.rs\<close>): when the host is asked, what it may change, and the decision
    that stands.
  \<^item> \<open>Breaker\<close> (\<^verbatim>\<open>breaker.rs\<close>): the identical-call loop breaker, on 64-bit clocks.
  \<^item> \<open>Seccomp\<close> (\<^verbatim>\<open>seccomp.rs\<close>): the four BPF programs, their assembler and an interpreter.
  \<^item> \<open>TaintIndex\<close>, \<open>TaintSearch\<close>, \<open>Taint\<close> (\<^verbatim>\<open>mcp_proxy/taint.rs\<close>): the token store with its two
    indexes, its search against a plain search, and recording, room and alerts.
  \<^item> \<open>PrivTarget\<close> (\<^verbatim>\<open>threats.rs\<close>): the files whose change hands over privilege and how an argument
    is read as a path.
  \<^item> \<open>Alert\<close>, \<open>Rules\<close>, \<open>Deobf\<close>, \<open>Inspect\<close> (\<^verbatim>\<open>mcp.rs\<close>, \<^verbatim>\<open>rules.rs\<close>, \<^verbatim>\<open>deobfuscate.rs\<close>, \<^verbatim>\<open>threats.rs\<close>):
    the inspection of one MCP message.
  \<^item> \<open>Jsonrpc\<close>, \<open>Router\<close>, \<open>Proxy\<close>, \<open>ProxySafe\<close> (\<^verbatim>\<open>mcp_proxy/jsonrpc.rs\<close>, \<^verbatim>\<open>router.rs\<close>,
    \<^verbatim>\<open>enforce.rs\<close>, \<^verbatim>\<open>transport.rs\<close>): a line, a message, the session as a step relation, and what
    every session keeps.

  \<^bold>\<open>How the code is rendered.\<close> A struct is a \<open>record\<close>, an enum a \<open>datatype\<close>, a method an ordinary
  function that returns the changed state; a \<^verbatim>\<open>Result\<close> is a sum with the error on the left; a \<^verbatim>\<open>u64\<close>
  or \<^verbatim>\<open>u32\<close> is a word where wrapping or saturating is the point and a natural number where the
  code's own bounds keep it small (each theory says which). A hash table whose order is not
  observable is an association list. What other crates do (\<^verbatim>\<open>serde\<close>, \<^verbatim>\<open>regex\<close>, \<^verbatim>\<open>sha2\<close>, base64, the
  Unicode tables, YAML and TOML) is an argument, collected in a record per component
  (\<open>regex_lib\<close>, \<open>text_lib\<close>, \<open>scanners\<close>, \<open>json_lib\<close>, \<open>proxy_lib\<close>); nothing is
  assumed of such an argument except where a theorem states a hypothesis, and then a
  witness shows a concrete function that meets it.

  \<^bold>\<open>What the lemmas show.\<close>

  \<^item> The session: in a blocking mode a refused call with an id never reaches the server whatever the
    order of lines, every one is answered, a verdict is only made stricter by each layer,
    the waiting requests are bounded, and how a line is split over reads does not matter
    (\<open>ProxySafe\<close>). A forwarded line reads to the server as it was inspected (\<open>Jsonrpc\<close>).
  \<^item> Inspection: declared tool calls are inspected as specified, a write to a listed file is
    refused in every spelling that names it, text hidden by the transformations is found, and the
    walk over arguments ends for every value (\<open>Inspect\<close>, \<open>PrivTarget\<close>). The lazily compiled rule
    engine answers as the eager one, and an overlay changes only the ids it names (\<open>Rules\<close>).
  \<^item> Taint: the store's indexes stay consistent, its cost stays within the budget, and the indexed
    search agrees with the plain one unless hashes collide (\<open>TaintSearch\<close>, \<open>Taint\<close>).
  \<^item> Layers: a hard signal is never relaxed, a user's file only tightens, revocation refuses,
    relaxation is possible only for a confined instance under a narrow allow, and the audit
    line is complete (\<open>Identity\<close>, \<open>Profiles\<close>, \<open>Hook\<close>). The host's answer never makes a refused
    command run unless the refusal was the hook's to hand over (\<open>HostDecide\<close>).
  \<^item> Machine level: the assembler is correct for any symbolic program within a jump's reach, and the
    four filters compute the policy they are built for (\<open>Seccomp\<close>); the breaker trips exactly on
    the configured number of identical calls within its window, with no wrap-around (\<open>Breaker\<close>).

  \<^bold>\<open>Bounds and fuel.\<close> There is no fuel. Loops of the code are structural recursion or functions with
  a termination proof; the walk over the arguments of a call, whose work list grows as it goes, is
  \<open>while_option\<close>, and \<open>walk_ends\<close> shows that it always ends. The limits of the code
  (line length, tokens per result, waiting requests, tracked calls, profile entries) are constants of
  the model under their own names.

  \<^bold>\<open>Not modelled.\<close> The pattern heuristics over shell text (most of \<^verbatim>\<open>threats.rs\<close>, \<^verbatim>\<open>shell.rs\<close>,
  \<^verbatim>\<open>analyze_command\<close> of \<^verbatim>\<open>mcp.rs\<close>): they are large tables of regular expressions and
  tree-sitter queries, whose meaning lies in those crates, so a verdict
  of the engine is a value with arbitrary signals here. Reading and writing files,
  sockets, processes, signals and the terminal (the \<^verbatim>\<open>_io.rs\<close> files, \<^verbatim>\<open>main.rs\<close>, \<^verbatim>\<open>safe-io\<close>,
  \<^verbatim>\<open>notify\<close>): their results are arguments. The dashboard, the wiring of agents'
  configuration files, upgrades and setup: presentation and installation, outside the
  decisions proved here. \<^verbatim>\<open>PROJECT.json\<close> lists every part with its status.
\<close>

end
